(* ===== verification/L4_Prelude.thy ===== *)
theory L4_Prelude
  imports Main "HOL-Library.Word" "HOL-Library.Monad_Syntax"
begin

unbundle bit_operations_syntax

text \<open>
  Shared vocabulary of the development: the machine integers of the Rust sources, results with
  errors as values, arithmetic under the two overflow regimes of a Rust build, little-endian
  byte views of register words, and bulk copies into buffers. Nothing here models a line of the
  repository; it is the part of the language, its standard library and the target
  (64-bit little-endian ARM) that the components use.
\<close>

named_theorems buf_simps "rewrite rules for byte buffers, copies and register words"
named_theorems arith_defs "definitions of the overflow-aware operators"

type_synonym u8 = "8 word"
type_synonym u16 = "16 word"
type_synonym u32 = "32 word"
type_synonym u64 = "64 word"

text \<open>Signed machine integers carry their two's complement bits; \<open>sint\<close> reads them.\<close>

type_synonym i32 = "32 word"
type_synonym i64 = "64 word"

text \<open>A fallible Rust function returns \<open>Inl e\<close> for \<open>Err(e)\<close> and \<open>Inr v\<close> for \<open>Ok(v)\<close>.\<close>

type_synonym ('e, 'a) result = "'e + 'a"

section \<open>Arithmetic of the two build profiles\<close>

text \<open>
  The plain operators of Rust panic on overflow when overflow checks are on (the default of the
  dev profile) and wrap when they are off (the default of the release profile). The flag \<open>oc\<close>
  selects the profile; \<open>None\<close> is the panic.
\<close>

definition op_add :: "bool \<Rightarrow> 'a::len word \<Rightarrow> 'a word \<Rightarrow> 'a word option" where
  [arith_defs]: "op_add oc a b =
     (if oc \<and> 2 ^ LENGTH('a) \<le> unat a + unat b then None else Some (a + b))"

definition op_sub :: "bool \<Rightarrow> 'a::len word \<Rightarrow> 'a word \<Rightarrow> 'a word option" where
  [arith_defs]: "op_sub oc a b = (if oc \<and> a < b then None else Some (a - b))"

definition op_mul :: "bool \<Rightarrow> 'a::len word \<Rightarrow> 'a word \<Rightarrow> 'a word option" where
  [arith_defs]: "op_mul oc a b =
     (if oc \<and> 2 ^ LENGTH('a) \<le> unat a * unat b then None else Some (a * b))"

text \<open>Division panics on a zero divisor in every profile.\<close>

definition op_div :: "'a::len word \<Rightarrow> 'a word \<Rightarrow> 'a word option" where
  [arith_defs]: "op_div a b = (if b = 0 then None else Some (a div b))"

text \<open>\<open>checked_add\<close> and \<open>checked_mul\<close> on \<open>usize\<close>, whose values are kept as numbers below
  \<open>2 ^ 64\<close>.\<close>

definition checked_add_usize :: "nat \<Rightarrow> nat \<Rightarrow> nat option" where
  [arith_defs]: "checked_add_usize a b = (if a + b < 2 ^ 64 then Some (a + b) else None)"

definition checked_mul_usize :: "nat \<Rightarrow> nat \<Rightarrow> nat option" where
  [arith_defs]: "checked_mul_usize a b = (if a * b < 2 ^ 64 then Some (a * b) else None)"

lemma op_add_no_overflow:
  "unat a + unat b < 2 ^ LENGTH('a) \<Longrightarrow> op_add oc a b = Some (a + b)" for a b :: "'a::len word"
  by (simp add: op_add_def)

lemma unat_op_add:
  "op_add True a b = Some c \<Longrightarrow> unat c = unat a + unat b" for a b c :: "'a::len word"
  by (auto simp: op_add_def unat_word_ariths split: if_splits)

lemma unat_op_sub:
  "op_sub True a b = Some c \<Longrightarrow> unat c = unat a - unat b \<and> unat b \<le> unat a"
  for a b c :: "'a::len word"
  by (auto simp: op_sub_def unat_sub word_le_nat_alt not_less split: if_splits)

section \<open>Little-endian bytes\<close>

primrec le_bytes :: "nat \<Rightarrow> nat \<Rightarrow> u8 list" where
  "le_bytes 0 n = []"
| "le_bytes (Suc k) n = word_of_nat n # le_bytes k (n div 256)"

primrec le_nat :: "u8 list \<Rightarrow> nat" where
  "le_nat [] = 0"
| "le_nat (b # bs) = unat b + 256 * le_nat bs"

lemma length_le_bytes [simp]: "length (le_bytes k n) = k"
  by (induction k arbitrary: n) simp_all

lemma unat_byte_of_nat: "unat (word_of_nat n :: u8) = n mod 256"
  by (simp add: unat_of_nat)

lemma le_nat_le_bytes [simp]: "le_nat (le_bytes k n) = n mod 256 ^ k"
proof (induction k arbitrary: n)
  case 0
  then show ?case by simp
next
  case (Suc k)
  have "n mod 256 + 256 * (n div 256 mod 256 ^ k) = n mod (256 * 256 ^ k)"
    by (simp add: mod_mult2_eq)
  with Suc show ?case by (simp add: unat_byte_of_nat)
qed

lemma unat_byte_less: "unat (b :: u8) < 256"
  using unsigned_less [of b] by simp

lemma le_nat_zeros: "le_nat (replicate n 0) = 0"
  by (induction n) simp_all

lemma le_nat_less: "le_nat bs < 256 ^ length bs"
proof (induction bs)
  case Nil
  then show ?case by simp
next
  case (Cons b bs)
  have "unat b < 256"
    by (rule unat_byte_less)
  with Cons show ?case by simp
qed

lemma le_bytes_le_nat [simp]: "le_bytes (length bs) (le_nat bs) = bs"
proof (induction bs)
  case Nil
  then show ?case by simp
next
  case (Cons b bs)
  have b: "unat b < 256"
    by (rule unat_byte_less)
  then have "(unat b + 256 * le_nat bs) div 256 = le_nat bs"
    by simp
  moreover have "word_of_nat (unat b + 256 * le_nat bs) = b"
    using b unat_byte_of_nat [of "unat b + 256 * le_nat bs"]
    by (metis mod_less mod_mult_self2 unsigned_word_eqI)
  ultimately show ?case
    using Cons by (simp del: of_nat_add of_nat_mult)
qed

section \<open>Words as bytes\<close>

text \<open>The byte view of an array of 64-bit registers, as a cast of its address to
  \<open>*mut u8\<close> gives it on a little-endian target.\<close>

definition bytes_of_words :: "u64 list \<Rightarrow> u8 list" where
  "bytes_of_words ws = concat (map (\<lambda>w. le_bytes 8 (unat w)) ws)"

primrec words_of_bytes :: "nat \<Rightarrow> u8 list \<Rightarrow> u64 list" where
  "words_of_bytes 0 bs = []"
| "words_of_bytes (Suc n) bs = word_of_nat (le_nat (take 8 bs)) # words_of_bytes n (drop 8 bs)"

lemma bytes_of_words_Nil [simp]: "bytes_of_words [] = []"
  by (simp add: bytes_of_words_def)

lemma bytes_of_words_Cons [simp]:
  "bytes_of_words (w # ws) = le_bytes 8 (unat w) @ bytes_of_words ws"
  by (simp add: bytes_of_words_def)

lemma length_bytes_of_words [simp]: "length (bytes_of_words ws) = 8 * length ws"
  by (induction ws) simp_all

lemma length_words_of_bytes [simp]: "length (words_of_bytes n bs) = n"
  by (induction n arbitrary: bs) simp_all

lemma unat_word_less: "unat (w :: 'a::len word) < 2 ^ LENGTH('a)"
  by (rule unsigned_less)

lemma unat_mod_256_8: "unat (w :: u64) mod 256 ^ 8 = unat w"
  using unat_word_less [of w] by simp

lemma words_of_bytes_of_words [simp]: "words_of_bytes (length ws) (bytes_of_words ws) = ws"
proof (induction ws)
  case Nil
  then show ?case by simp
next
  case (Cons w ws)
  then show ?case
    using unat_mod_256_8 [of w] by simp
qed

lemma bytes_of_words_of_bytes [simp]:
  "length bs = 8 * n \<Longrightarrow> bytes_of_words (words_of_bytes n bs) = bs"
proof (induction n arbitrary: bs)
  case 0
  then show ?case by simp
next
  case (Suc n)
  define hd8 where "hd8 = take 8 bs"
  have len: "length hd8 = 8"
    using Suc.prems by (simp add: hd8_def)
  have "le_nat hd8 < 2 ^ 64"
    using le_nat_less [of hd8] len by simp
  then have "unat (word_of_nat (le_nat hd8) :: u64) = le_nat hd8"
    by (simp add: unat_of_nat)
  then have "le_bytes 8 (unat (word_of_nat (le_nat hd8) :: u64)) = hd8"
    using le_bytes_le_nat [of hd8] len by simp
  then show ?case
    using Suc by (simp add: hd8_def)
qed

section \<open>Bulk copies and slices\<close>

text \<open>\<open>copy_nonoverlapping\<close> of \<open>ys\<close> to position \<open>i\<close> of \<open>xs\<close>, and the slice
  \<open>xs[i..i + n]\<close>.\<close>

definition overwrite :: "'a list \<Rightarrow> nat \<Rightarrow> 'a list \<Rightarrow> 'a list" where
  "overwrite xs i ys = take i xs @ ys @ drop (i + length ys) xs"

definition slice :: "'a list \<Rightarrow> nat \<Rightarrow> nat \<Rightarrow> 'a list" where
  "slice xs i n = take n (drop i xs)"

lemma length_overwrite [simp]:
  "i + length ys \<le> length xs \<Longrightarrow> length (overwrite xs i ys) = length xs"
  by (simp add: overwrite_def)

lemma length_slice [simp]: "length (slice xs i n) = min n (length xs - i)"
  by (simp add: slice_def)

lemma overwrite_Nil [simp]: "overwrite xs i [] = xs"
  by (simp add: overwrite_def)

lemma slice_overwrite [buf_simps]:
  "i + length ys \<le> length xs \<Longrightarrow> n = length ys \<Longrightarrow> slice (overwrite xs i ys) i n = ys"
  by (simp add: slice_def overwrite_def)

lemma slice_overwrite_before [buf_simps]:
  "j + n \<le> i \<Longrightarrow> i + length ys \<le> length xs \<Longrightarrow> slice (overwrite xs i ys) j n = slice xs j n"
  by (simp add: slice_def overwrite_def take_drop min_def)

lemma slice_overwrite_after [buf_simps]:
  "i + length ys \<le> j \<Longrightarrow> i + length ys \<le> length xs \<Longrightarrow>
   slice (overwrite xs i ys) j n = slice xs j n"
  by (simp add: slice_def overwrite_def)

lemma take_overwrite_0 [buf_simps]:
  "n = length ys \<Longrightarrow> take n (overwrite xs 0 ys) = ys"
  by (simp add: overwrite_def)

lemma take_min_length [simp]: "take (min (length xs) n) xs = take n xs"
  by (simp add: min_def)

lemma nth_overwrite:
  assumes "i + length ys \<le> length xs" and "j < length xs"
  shows "overwrite xs i ys ! j = (if i \<le> j \<and> j < i + length ys then ys ! (j - i) else xs ! j)"
proof -
  consider "j < i" | "i \<le> j" "j < i + length ys" | "i + length ys \<le> j"
    by linarith
  then show ?thesis
    using assms by cases (auto simp: overwrite_def nth_append)
qed

section \<open>Negative error codes in registers\<close>

lemma sint_eq_uint:
  fixes w :: "'a::len word"
  assumes "0 \<le> sint w"
  shows "sint w = uint w"
proof -
  have "sint w < 2 ^ (LENGTH('a) - 1)"
    by (rule sint_lt)
  also have "(2 :: int) ^ (LENGTH('a) - 1) \<le> 2 ^ LENGTH('a)"
    by simp
  finally have "take_bit LENGTH('a) (sint w) = sint w"
    using assms by (simp add: take_bit_int_eq_self)
  then show ?thesis
    by (simp add: uint_sint)
qed

lemma int_unat_eq_sint: "0 \<le> sint w \<Longrightarrow> int (unat w) = sint w" for w :: "'a::len word"
  by (simp add: sint_eq_uint)

text \<open>\<open>(-(err as i64)) as u64\<close> for an \<open>i32\<close> error number: sign extension, negation, and the
  same bits read as unsigned.\<close>

definition neg_errno :: "i32 \<Rightarrow> u64" where
  "neg_errno err = - (scast err)"

lemma ucast_scast_32: "ucast (scast (x :: i32) :: u64) = x"
  by (rule bit_word_eqI) (auto simp: bit_simps)

lemma sint_scast_64: "sint (scast (e :: i32) :: u64) = sint e"
  by (rule sint_up_scast) (simp add: is_up)

lemma sint_neg_errno:
  assumes "0 \<le> sint e"
  shows "sint (neg_errno e) = - sint e"
proof -
  have "sint e < 2 ^ 31"
    using sint_lt [of e] by simp
  then show ?thesis
    using assms
    by (simp add: neg_errno_def sint_word_minus sint_scast_64 signed_take_bit_int_eq_self)
qed

section \<open>UTF-8\<close>

text \<open>\<open>str::from_utf8\<close>: the well-formed byte sequences of the Unicode standard.\<close>

fun utf8_tail :: "nat \<Rightarrow> u8 list \<Rightarrow> u8 list option" where
  "utf8_tail 0 bs = Some bs"
| "utf8_tail (Suc n) (b # bs) = (if 0x80 \<le> b \<and> b \<le> 0xBF then utf8_tail n bs else None)"
| "utf8_tail (Suc n) [] = None"

definition utf8_char :: "u8 list \<Rightarrow> u8 list option" where
  "utf8_char bs =
     (case bs of
        [] \<Rightarrow> None
      | b # rest \<Rightarrow>
          if b < 0x80 then Some rest
          else if 0xC2 \<le> b \<and> b \<le> 0xDF then utf8_tail 1 rest
          else if 0xE0 \<le> b \<and> b \<le> 0xF4 then
            (case rest of
               [] \<Rightarrow> None
             | c # _ \<Rightarrow>
                 if b = 0xE0 \<and> c < 0xA0 \<or> b = 0xED \<and> 0x9F < c \<or> b = 0xF0 \<and> c < 0x90 \<or> b = 0xF4 \<and> 0x8F < c
                 then None
                 else if b < 0xF0 then utf8_tail 2 rest else utf8_tail 3 rest)
          else None)"

lemma utf8_tail_length: "utf8_tail n bs = Some cs \<Longrightarrow> length cs \<le> length bs"
  by (induction n bs rule: utf8_tail.induct) (auto split: if_splits)

lemma utf8_char_length: "utf8_char bs = Some cs \<Longrightarrow> length cs < length bs"
  by (auto simp: utf8_char_def split: list.splits if_splits dest!: utf8_tail_length)

function utf8_ok :: "u8 list \<Rightarrow> bool" where
  "utf8_ok bs = (if bs = [] then True
     else case utf8_char bs of None \<Rightarrow> False | Some cs \<Rightarrow> utf8_ok cs)"
  by pat_completeness auto
termination
  by (relation "measure length") (auto dest: utf8_char_length)

declare utf8_ok.simps [simp del]

section \<open>Numbers as text\<close>

fun decimal :: "nat \<Rightarrow> string" where
  "decimal n = (if n < 10 then [char_of (48 + n)] else decimal (n div 10) @ [char_of (48 + n mod 10)])"

declare decimal.simps [simp del]

text \<open>The digits determine the number.\<close>

definition read_decimal :: "string \<Rightarrow> nat" where
  "read_decimal s = foldl (\<lambda>n c. 10 * n + (of_char c - 48)) 0 s"

lemma read_decimal_snoc: "read_decimal (s @ [c]) = 10 * read_decimal s + (of_char c - 48)"
  by (simp add: read_decimal_def)

lemma read_decimal_decimal: "read_decimal (decimal n) = n"
proof (induction n rule: decimal.induct)
  case (1 n)
  have digit: "(of_char (char_of (48 + d) :: char) :: nat) - 48 = d" if "d < 10" for d :: nat
    using that by simp
  show ?case
  proof (cases "n < 10")
    case True
    then show ?thesis
      by (subst decimal.simps) (simp add: read_decimal_def digit)
  next
    case False
    then show ?thesis
      using 1 by (subst decimal.simps) (simp add: read_decimal_snoc digit)
  qed
qed

lemma decimal_inject: "decimal m = decimal n \<longleftrightarrow> m = n"
  using read_decimal_decimal by metis

text \<open>A signed number.\<close>

definition show_int :: "i64 \<Rightarrow> string" where
  "show_int n = (if sint n < 0 then ''-'' @ decimal (nat (- sint n)) else decimal (nat (sint n)))"

lemma decimal_no_minus: "hd (decimal n) \<noteq> CHR ''-''" "decimal n \<noteq> []"
proof -
  have "hd (decimal n) \<noteq> CHR ''-'' \<and> decimal n \<noteq> []"
  proof (induction n rule: decimal.induct)
    case (1 n)
    have "char_of (48 + d) \<noteq> CHR ''-''" if "d < 10" for d :: nat
    proof
      assume "char_of (48 + d) = CHR ''-''"
      then have "(of_char (char_of (48 + d) :: char) :: nat) = of_char (CHR ''-'')"
        by (rule arg_cong)
      with that show False by simp
    qed
    with 1 show ?case
      by (subst (1 2) decimal.simps) auto
  qed
  then show "hd (decimal n) \<noteq> CHR ''-''" "decimal n \<noteq> []" by simp_all
qed

lemma show_int_inject: "show_int m = show_int n \<longleftrightarrow> m = n"
proof
  assume eq: "show_int m = show_int n"
  have hd: "hd (show_int k) = CHR ''-'' \<longleftrightarrow> sint k < 0" for k
    using decimal_no_minus(1) by (simp add: show_int_def)
  then have "sint m < 0 \<longleftrightarrow> sint n < 0"
    using eq by metis
  with eq have "sint m = sint n"
    by (auto simp: show_int_def decimal_inject split: if_splits)
  then show "m = n"
    by (rule signed_word_eqI)
qed simp

end
