(* ===== verification/Ipc_Server.thy ===== *)
theory Ipc_Server
  imports L4_Prelude
begin

text \<open>
  What the IPC servers under \<open>src/src/*_server\<close> share: the user-level thread control block with
  its message and buffer registers, the contract of the slab tables that hold their handles, the
  ledger of operating-system descriptors a server owns, and the receive/dispatch/reply loop.

  The slab crate and the kernel are not part of the repository. The slab is a record of
  operations whose documented laws are the locale \<open>slab\<close>; a first-fit vector instance shows the
  laws can be met. The kernel's side of the loop is the sequence of incoming messages.
\<close>

section \<open>The UTCB\<close>

text \<open>\<open>l4_msg_regs_t.mr\<close>, \<open>l4_buf_regs_t.br\<close> and \<open>l4_buf_regs_t.bdr\<close>.\<close>

record utcb =
  utcb_mr :: "u64 list"
  utcb_br :: "u64 list"
  utcb_bdr :: u64

definition set_mr :: "utcb \<Rightarrow> nat \<Rightarrow> u64 \<Rightarrow> utcb" where
  "set_mr u i v = u\<lparr>utcb_mr := (utcb_mr u)[i := v]\<rparr>"

definition get_mr :: "utcb \<Rightarrow> nat \<Rightarrow> u64" where
  "get_mr u i = utcb_mr u ! i"

definition set_br0 :: "utcb \<Rightarrow> u64 \<Rightarrow> utcb" where
  "set_br0 u v = u\<lparr>utcb_br := (utcb_br u)[0 := v]\<rparr>"

definition br0 :: "utcb \<Rightarrow> u64" where
  "br0 u = utcb_br u ! 0"

text \<open>The bytes behind \<open>br.as_ptr().add(1) as *const u8\<close>, and a copy to that address.\<close>

definition br_payload :: "utcb \<Rightarrow> u8 list" where
  "br_payload u = bytes_of_words (tl (utcb_br u))"

definition br_copy_in :: "utcb \<Rightarrow> u8 list \<Rightarrow> utcb" where
  "br_copy_in u bs = u\<lparr>utcb_br := take 1 (utcb_br u) @
     words_of_bytes (length (utcb_br u) - 1) (overwrite (br_payload u) 0 bs)\<rparr>"

text \<open>The register arrays have the sizes of the C structure; the servers index the first four
  message registers and the first buffer register.\<close>

definition wf_utcb :: "nat \<Rightarrow> utcb \<Rightarrow> bool" where
  "wf_utcb brs u \<longleftrightarrow> 4 \<le> length (utcb_mr u) \<and> length (utcb_br u) = brs \<and> 0 < brs"

lemmas utcb_defs = set_mr_def get_mr_def set_br0_def br0_def br_payload_def br_copy_in_def

lemma utcb_br_set_mr [simp]: "utcb_br (set_mr u i v) = utcb_br u"
  by (simp add: set_mr_def)

lemma utcb_mr_set_br0 [simp]: "utcb_mr (set_br0 u v) = utcb_mr u"
  by (simp add: set_br0_def)

lemma utcb_mr_br_copy_in [simp]: "utcb_mr (br_copy_in u bs) = utcb_mr u"
  by (simp add: br_copy_in_def)

lemma length_mr_set_mr [simp]: "length (utcb_mr (set_mr u i v)) = length (utcb_mr u)"
  by (simp add: set_mr_def)

lemma get_mr_set_mr [simp]:
  "i < length (utcb_mr u) \<Longrightarrow> get_mr (set_mr u i v) j = (if i = j then v else get_mr u j)"
  by (simp add: get_mr_def set_mr_def nth_list_update)

lemma get_mr_set_br0 [simp]: "get_mr (set_br0 u v) j = get_mr u j"
  by (simp add: get_mr_def)

lemma get_mr_br_copy_in [simp]: "get_mr (br_copy_in u bs) j = get_mr u j"
  by (simp add: get_mr_def)

lemma br0_set_mr [simp]: "br0 (set_mr u i v) = br0 u"
  by (simp add: br0_def)

lemma br_payload_set_mr [simp]: "br_payload (set_mr u i v) = br_payload u"
  by (simp add: br_payload_def)

lemma br0_set_br0 [simp]: "utcb_br u \<noteq> [] \<Longrightarrow> br0 (set_br0 u v) = v"
  by (simp add: br0_def set_br0_def)

lemma br_payload_set_br0 [simp]: "br_payload (set_br0 u v) = br_payload u"
  by (cases "utcb_br u") (simp_all add: br_payload_def set_br0_def)

lemma br0_br_copy_in [simp]: "utcb_br u \<noteq> [] \<Longrightarrow> br0 (br_copy_in u bs) = br0 u"
  by (cases "utcb_br u") (simp_all add: br0_def br_copy_in_def)

lemma length_br_payload [simp]: "length (br_payload u) = 8 * (length (utcb_br u) - 1)"
  by (simp add: br_payload_def)

lemma br_payload_br_copy_in [simp]:
  assumes "utcb_br u \<noteq> []" and "length bs \<le> length (br_payload u)"
  shows "br_payload (br_copy_in u bs) = overwrite (br_payload u) 0 bs"
proof -
  have "length (overwrite (br_payload u) 0 bs) = 8 * (length (utcb_br u) - 1)"
    using assms(2) by simp
  then show ?thesis
    using assms(1) by (cases "utcb_br u") (simp_all add: br_payload_def br_copy_in_def)
qed

lemma length_br_set_br0 [simp]: "length (utcb_br (set_br0 u v)) = length (utcb_br u)"
  by (simp add: set_br0_def)

lemma length_br_br_copy_in [simp]: "length (utcb_br (br_copy_in u bs)) = length (utcb_br u)"
  by (cases "utcb_br u") (simp_all add: br_copy_in_def)

lemma wf_utcb_set_mr [simp]: "wf_utcb n (set_mr u i v) = wf_utcb n u"
  by (simp add: wf_utcb_def)

lemma wf_utcb_set_br0 [simp]: "wf_utcb n (set_br0 u v) = wf_utcb n u"
  by (simp add: wf_utcb_def)

lemma wf_utcb_br_copy_in [simp]: "wf_utcb n (br_copy_in u bs) = wf_utcb n u"
  by (simp add: wf_utcb_def)

lemma wf_utcb_mr_length: "wf_utcb n u \<Longrightarrow> i < 4 \<Longrightarrow> i < length (utcb_mr u)"
  by (simp add: wf_utcb_def)

lemma wf_utcb_br_nonempty: "wf_utcb n u \<Longrightarrow> utcb_br u \<noteq> []"
  by (auto simp: wf_utcb_def)

text \<open>A payload with its length in the first buffer register, which is how every server stores the
  bytes of a reply, and what a reader that trusts the length sees.\<close>

definition br_store :: "u8 list \<Rightarrow> utcb \<Rightarrow> utcb" where
  "br_store bs u = (let u = set_br0 u (word_of_nat (length bs))
     in if bs = [] then u else br_copy_in u bs)"

definition br_fetch :: "utcb \<Rightarrow> u8 list" where
  "br_fetch u = take (unat (br0 u)) (br_payload u)"

lemma br_fetch_store:
  assumes "wf_utcb n u" and "length bs \<le> 8 * (n - 1)" and "length bs < 2 ^ 64"
  shows "br_fetch (br_store bs u) = bs"
proof -
  have ne: "utcb_br u \<noteq> []" and len: "length (utcb_br u) = n"
    using assms(1) by (auto simp: wf_utcb_def)
  have ne': "utcb_br (set_br0 u v) \<noteq> []" for v
    using ne by (simp add: set_br0_def)
  have un: "unat (word_of_nat (length bs) :: u64) = length bs"
    using assms(3) by (simp add: unat_of_nat)
  show ?thesis
    using ne ne' len assms(2) un
    by (simp add: br_fetch_def br_store_def Let_def overwrite_def)
qed

lemma br0_br_store [simp]:
  assumes "utcb_br u \<noteq> []"
  shows "br0 (br_store bs u) = word_of_nat (length bs)"
proof -
  have "utcb_br (set_br0 u v) \<noteq> []" for v
    using assms by (simp add: set_br0_def)
  then show ?thesis
    using assms by (simp add: br_store_def Let_def)
qed

lemma wf_utcb_br_store [simp]: "wf_utcb n (br_store bs u) = wf_utcb n u"
  by (simp add: br_store_def Let_def)

lemma get_mr_br_store [simp]: "get_mr (br_store bs u) j = get_mr u j"
  by (simp add: br_store_def Let_def)

lemma utcb_mr_br_store [simp]: "utcb_mr (br_store bs u) = utcb_mr u"
  by (simp add: br_store_def Let_def)

section \<open>Slab tables\<close>

text \<open>
  The operations of the slab crate that the servers use: \<open>Slab::new\<close>, \<open>get\<close>/\<open>contains\<close>,
  \<open>insert\<close>, \<open>remove\<close>, and a write through \<open>get_mut\<close> or an index.
\<close>

record ('s, 'a) slab_ops =
  slab_new :: 's
  slab_get :: "'s \<Rightarrow> nat \<Rightarrow> 'a option"
  slab_insert :: "'s \<Rightarrow> 'a \<Rightarrow> nat \<times> 's"
  slab_remove :: "'s \<Rightarrow> nat \<Rightarrow> 's"
  slab_update :: "'s \<Rightarrow> nat \<Rightarrow> 'a \<Rightarrow> 's"

locale slab =
  fixes ops :: "('s, 'a) slab_ops"
  assumes slab_get_new: "slab_get ops (slab_new ops) = Map.empty"
    and slab_insert_vacant: "slab_insert ops s v = (k, s') \<Longrightarrow> slab_get ops s k = None"
    and slab_get_insert: "slab_insert ops s v = (k, s') \<Longrightarrow>
      slab_get ops s' = (slab_get ops s)(k \<mapsto> v)"
    and slab_get_remove: "slab_get ops s k \<noteq> None \<Longrightarrow>
      slab_get ops (slab_remove ops s k) = (slab_get ops s)(k := None)"
    and slab_get_update: "slab_get ops s k \<noteq> None \<Longrightarrow>
      slab_get ops (slab_update ops s k v) = (slab_get ops s)(k \<mapsto> v)"
begin

lemma insert_then_get: "slab_insert ops s v = (k, s') \<Longrightarrow> slab_get ops s' k = Some v"
  by (simp add: slab_get_insert)

lemma insert_keeps: "slab_insert ops s v = (k, s') \<Longrightarrow> slab_get ops s j = Some w \<Longrightarrow>
    slab_get ops s' j = Some w"
  using slab_insert_vacant by (fastforce simp: slab_get_insert)

lemma remove_then_get: "slab_get ops s k \<noteq> None \<Longrightarrow> slab_get ops (slab_remove ops s k) k = None"
  by (simp add: slab_get_remove)

end

text \<open>A vector of optional entries, filled first-fit, meets the laws.\<close>

fun first_vacant :: "'a option list \<Rightarrow> nat" where
  "first_vacant [] = 0"
| "first_vacant (None # xs) = 0"
| "first_vacant (Some x # xs) = Suc (first_vacant xs)"

definition vec_get :: "'a option list \<Rightarrow> nat \<Rightarrow> 'a option" where
  "vec_get xs k = (if k < length xs then xs ! k else None)"

definition vec_put :: "'a option list \<Rightarrow> nat \<Rightarrow> 'a \<Rightarrow> 'a option list" where
  "vec_put xs k v = (if k < length xs then xs[k := Some v] else xs @ [Some v])"

definition vec_slab :: "('a option list, 'a) slab_ops" where
  "vec_slab = \<lparr>slab_new = [], slab_get = vec_get,
     slab_insert = (\<lambda>xs v. (first_vacant xs, vec_put xs (first_vacant xs) v)),
     slab_remove = (\<lambda>xs k. xs[k := None]),
     slab_update = (\<lambda>xs k v. xs[k := Some v])\<rparr>"

lemma first_vacant_le: "first_vacant xs \<le> length xs"
  by (induction xs rule: first_vacant.induct) simp_all

lemma first_vacant_None: "first_vacant xs < length xs \<Longrightarrow> xs ! first_vacant xs = None"
  by (induction xs rule: first_vacant.induct) simp_all

lemma vec_get_put: "vec_get (vec_put xs (first_vacant xs) v) = (vec_get xs)(first_vacant xs \<mapsto> v)"
  using first_vacant_le [of xs]
  by (auto simp: vec_get_def vec_put_def fun_eq_iff nth_list_update nth_append)

interpretation vs: slab "vec_slab :: ('a option list, 'a) slab_ops"
proof
  fix s s' :: "'a option list" and v k
  show "slab_get vec_slab (slab_new (vec_slab :: ('a option list, 'a) slab_ops)) = Map.empty"
    by (simp add: vec_slab_def vec_get_def fun_eq_iff)
  show "slab_insert vec_slab s v = (k, s') \<Longrightarrow> slab_get vec_slab s k = None"
    by (auto simp: vec_slab_def vec_get_def first_vacant_None)
  show "slab_insert vec_slab s v = (k, s') \<Longrightarrow>
      slab_get vec_slab s' = (slab_get vec_slab s)(k \<mapsto> v)"
    by (auto simp: vec_slab_def vec_get_put)
  show "slab_get vec_slab s k \<noteq> None \<Longrightarrow>
      slab_get vec_slab (slab_remove vec_slab s k) = (slab_get vec_slab s)(k := None)"
    by (auto simp: vec_slab_def vec_get_def fun_eq_iff nth_list_update split: if_splits)
  show "slab_get vec_slab s k \<noteq> None \<Longrightarrow>
      slab_get vec_slab (slab_update vec_slab s k v) = (slab_get vec_slab s)(k \<mapsto> v)"
    by (auto simp: vec_slab_def vec_get_def fun_eq_iff nth_list_update split: if_splits)
qed

section \<open>The ledger of owned descriptors\<close>

text \<open>
  An abstract view of a server's tables: which handle owns which descriptor. It is sound when the
  descriptors open on the server's behalf are exactly the ones in the ledger (nothing leaks,
  nothing dangles) and no two handles share one.
\<close>

definition ledger_ok :: "('k \<rightharpoonup> i32) \<Rightarrow> i32 set \<Rightarrow> bool" where
  "ledger_ok t opens \<longleftrightarrow> opens = ran t \<and> inj_on t (dom t)"

text \<open>The only ways a ledger may change: a fresh descriptor under a vacant handle, or the
  retirement of a handle together with its descriptor.\<close>

inductive ledger_step :: "('k \<rightharpoonup> i32) \<times> i32 set \<Rightarrow> ('k \<rightharpoonup> i32) \<times> i32 set \<Rightarrow> bool" where
  ledger_idle: "ledger_step (t, opens) (t, opens)"
| ledger_acquire: "t k = None \<Longrightarrow> fd \<notin> opens \<Longrightarrow>
     ledger_step (t, opens) (t(k \<mapsto> fd), insert fd opens)"
| ledger_release: "t k = Some fd \<Longrightarrow> ledger_step (t, opens) (t(k := None), opens - {fd})"

inductive_cases ledger_stepE: "ledger_step (t, opens) (t', opens')"

lemma ledger_ok_empty [simp]: "ledger_ok Map.empty {}"
  by (simp add: ledger_ok_def)

lemma ledger_ok_acquire:
  assumes "ledger_ok t opens" "t k = None" "fd \<notin> opens"
  shows "ledger_ok (t(k \<mapsto> fd)) (insert fd opens)"
proof -
  have "opens = ran t" and inj: "inj_on t (dom t)"
    using assms(1) by (auto simp: ledger_ok_def)
  then have notin: "t j \<noteq> Some fd" for j
    using assms(3) by (auto intro: ranI)
  then have "inj_on (t(k \<mapsto> fd)) (insert k (dom t))"
    using inj assms(2) by (auto simp: inj_on_def dom_def)
  then show ?thesis
    using \<open>opens = ran t\<close> assms(2) by (simp add: ledger_ok_def ran_map_upd)
qed

lemma ledger_ok_release:
  assumes "ledger_ok t opens" "t k = Some fd"
  shows "ledger_ok (t(k := None)) (opens - {fd})"
proof -
  have "opens = ran t" and inj: "inj_on t (dom t)"
    using assms(1) by (auto simp: ledger_ok_def)
  have only: "j = k" if "t j = Some fd" for j
    using inj_onD [OF inj, of j k] assms(2) that by (simp add: domI)
  have "ran (t(k := None)) = ran t - {fd}"
  proof (intro set_eqI iffI)
    fix x
    assume "x \<in> ran (t(k := None))"
    then obtain j where j: "j \<noteq> k" "t j = Some x"
      by (auto simp: ran_def split: if_splits)
    then show "x \<in> ran t - {fd}"
      using only by (auto intro: ranI)
  next
    fix x
    assume "x \<in> ran t - {fd}"
    then obtain j where "t j = Some x" "x \<noteq> fd"
      by (auto simp: ran_def)
    with assms(2) show "x \<in> ran (t(k := None))"
      by (intro ranI [where a = j]) auto
  qed
  moreover have "inj_on (t(k := None)) (dom (t(k := None)))"
    using inj by (simp add: inj_on_def)
  ultimately show ?thesis
    using \<open>opens = ran t\<close> by (simp add: ledger_ok_def)
qed

lemma ledger_step_ok:
  "ledger_step (t, opens) (t', opens') \<Longrightarrow> ledger_ok t opens \<Longrightarrow> ledger_ok t' opens'"
  by (auto elim!: ledger_stepE intro: ledger_ok_acquire ledger_ok_release)

text \<open>A step of one table is a step of the ledger that joins several tables under tags.\<close>

lemma ledger_step_lift:
  assumes "ledger_step (t, opens) (t', opens')"
    and old: "\<And>k. T (c, k) = t k" and new: "\<And>k. T' (c, k) = t' k"
    and rest: "\<And>d k. d \<noteq> c \<Longrightarrow> T' (d, k) = T (d, k)"
  shows "ledger_step (T, opens) (T', opens')"
proof -
  have T': "T' = (\<lambda>(d, k). if d = c then t' k else T (d, k))"
    using new rest by (auto simp: fun_eq_iff)
  have upd: "T' = (if k = None then T else T((c, the k) := fd))"
    if "t' = (if k = None then t else t(the k := fd))" for k fd
  proof
    fix p
    show "T' p = (if k = None then T else T((c, the k) := fd)) p"
      using T' old that by (cases p) auto
  qed
  from assms(1) show ?thesis
  proof (rule ledger_stepE)
    assume "t' = t" "opens' = opens"
    then show ?thesis
      using upd [of None] by (simp add: ledger_idle)
  next
    fix k fd
    assume "t k = None" "fd \<notin> opens" "t' = t(k \<mapsto> fd)" "opens' = insert fd opens"
    then show ?thesis
      using upd [of "Some k" "Some fd"] old by (simp add: ledger_acquire)
  next
    fix k fd
    assume "t k = Some fd" "t' = t(k := None)" "opens' = opens - {fd}"
    then show ?thesis
      using upd [of "Some k" None] old by (simp add: ledger_release)
  qed
qed

section \<open>Tables of descriptors\<close>

text \<open>The descriptors the entries of a slab own, and the contract of the calls that open and close
  descriptors: a creating call that succeeds returns a descriptor that was not open and opens it,
  one that fails opens nothing, \<open>close\<close> closes.\<close>

definition tab :: "('a \<Rightarrow> i32) \<Rightarrow> ('s, 'a) slab_ops \<Rightarrow> 's \<Rightarrow> nat \<rightharpoonup> i32" where
  "tab f sl s k = map_option f (slab_get sl s k)"

definition opens_fresh :: "('w \<Rightarrow> i32 set) \<Rightarrow> i32 \<Rightarrow> 'w \<Rightarrow> 'w \<Rightarrow> bool" where
  "opens_fresh open_fds fd w w' \<longleftrightarrow>
     (if sint fd < 0 then open_fds w' = open_fds w
      else fd \<notin> open_fds w \<and> open_fds w' = insert fd (open_fds w))"

locale desc_os =
  fixes close :: "i32 \<Rightarrow> 'w \<Rightarrow> 'w" and open_fds :: "'w \<Rightarrow> i32 set"
  assumes os_close: "open_fds (close fd w) = open_fds w - {fd}"
begin

lemma fresh_fail: "opens_fresh open_fds fd w w' \<Longrightarrow> sint fd < 0 \<Longrightarrow> open_fds w' = open_fds w"
  by (simp add: opens_fresh_def)

lemma step_acquire:
  assumes "slab sl" and ins: "slab_insert sl s v = (k, s')"
    and "opens_fresh open_fds (f v) w w'" and "\<not> sint (f v) < 0"
  shows "ledger_step (tab f sl s, open_fds w) (tab f sl s', open_fds w')"
proof -
  have "tab f sl s k = None" and "tab f sl s' = (tab f sl s)(k \<mapsto> f v)"
    using slab.slab_insert_vacant [OF assms(1) ins] slab.slab_get_insert [OF assms(1) ins]
    by (auto simp: tab_def fun_eq_iff)
  moreover have "f v \<notin> open_fds w" and "open_fds w' = insert (f v) (open_fds w)"
    using assms(3,4) by (simp_all add: opens_fresh_def)
  ultimately show ?thesis
    by (simp add: ledger_acquire)
qed

lemma step_release:
  assumes "slab sl" and "slab_get sl s k = Some v"
  shows "ledger_step (tab f sl s, open_fds w)
    (tab f sl (slab_remove sl s k), open_fds (close (f v) w))"
proof -
  have "tab f sl (slab_remove sl s k) = (tab f sl s)(k := None)" and "tab f sl s k = Some (f v)"
    using slab.slab_get_remove [OF assms(1), of s k] assms(2) by (auto simp: tab_def fun_eq_iff)
  then show ?thesis
    by (simp add: os_close ledger_release)
qed

lemma step_update:
  assumes "slab sl" and "slab_get sl s k = Some v" and "f v' = f v"
  shows "tab f sl (slab_update sl s k v') = tab f sl s"
  using slab.slab_get_update [OF assms(1), of s k] assms(2,3) by (auto simp: tab_def fun_eq_iff)

text \<open>The common shape of the creating handlers.\<close>

lemma step_create:
  assumes "slab sl" and "opens_fresh open_fds (f v) w w'"
    and "if sint (f v) < 0 then s' = s else \<exists>k. slab_insert sl s v = (k, s')"
  shows "ledger_step (tab f sl s, open_fds w) (tab f sl s', open_fds w')"
proof (cases "sint (f v) < 0")
  case True
  then show ?thesis
    using assms(2,3) by (simp add: fresh_fail ledger_idle)
next
  case False
  then show ?thesis
    using assms(3) by (auto intro!: step_acquire [OF assms(1)] assms(2))
qed

end

section \<open>An operating system for the witnesses\<close>

text \<open>A descriptor counter and the list of open descriptors; creating calls fail with \<open>-1\<close>
  when the counter runs out of descriptors.\<close>

definition demo_alloc :: "nat \<times> i32 list \<Rightarrow> i32 \<times> nat \<times> i32 list" where
  "demo_alloc w = (let fd = word_of_nat (fst w) in
     if 0 \<le> sint fd \<and> fd \<notin> set (snd w) then (fd, Suc (fst w), fd # snd w) else (- 1, w))"

definition demo_open :: "nat \<times> i32 list \<Rightarrow> i32 set" where
  "demo_open w = set (snd w) - {- 1}"

lemma demo_alloc_fresh: "demo_alloc w = (fd, w') \<Longrightarrow> opens_fresh demo_open fd w w'"
  by (auto simp: demo_alloc_def Let_def opens_fresh_def demo_open_def split: if_splits)

definition demo_utcb :: "u64 list \<Rightarrow> utcb" where
  "demo_utcb ms = \<lparr>utcb_mr = ms @ replicate 60 0, utcb_br = replicate 58 0, utcb_bdr = 0\<rparr>"

section \<open>The server loop\<close>

text \<open>
  Every server waits for a message, skips it when \<open>l4_ipc_error\<close> is not 0, and otherwise
  dispatches it and answers with \<open>l4_ipc_reply_and_wait\<close>. A received message is the error code of
  its tag and the UTCB contents the kernel leaves; the answers are the UTCBs at the reply calls,
  in order.
\<close>

fun ipc_loop :: "(utcb \<Rightarrow> 's \<Rightarrow> utcb \<times> 's) \<Rightarrow> (u64 \<times> utcb) list \<Rightarrow> 's \<Rightarrow> utcb list \<times> 's" where
  "ipc_loop handle [] s = ([], s)"
| "ipc_loop handle ((err, u) # ms) s =
     (if err \<noteq> 0 then ipc_loop handle ms s
      else case handle u s of (u', s') \<Rightarrow>
        (case ipc_loop handle ms s' of (rs, s'') \<Rightarrow> (u' # rs, s'')))"

text \<open>The contract of a dispatch function: it keeps an invariant of the server's state for every
  well-formed message, and leaves the register file well-formed.\<close>

locale ipc_server =
  fixes handle :: "utcb \<Rightarrow> 's \<Rightarrow> utcb \<times> 's"
    and inv :: "'s \<Rightarrow> bool"
    and brs :: nat
  assumes handle_inv: "inv s \<Longrightarrow> wf_utcb brs u \<Longrightarrow> handle u s = (u', s') \<Longrightarrow> inv s'"
    and handle_wf: "inv s \<Longrightarrow> wf_utcb brs u \<Longrightarrow> handle u s = (u', s') \<Longrightarrow> wf_utcb brs u'"
begin

lemma loop_inv_wf:
  "inv s \<Longrightarrow> list_all (\<lambda>(err, u). wf_utcb brs u) ms \<Longrightarrow>
   inv (snd (ipc_loop handle ms s)) \<and> list_all (wf_utcb brs) (fst (ipc_loop handle ms s))"
proof (induction ms arbitrary: s)
  case Nil
  then show ?case by simp
next
  case (Cons m ms)
  obtain err u where m: "m = (err, u)"
    by (cases m)
  obtain u' s' where h: "handle u s = (u', s')"
    by (cases "handle u s")
  obtain rs s'' where r: "ipc_loop handle ms s' = (rs, s'')"
    by (cases "ipc_loop handle ms s'")
  have wf: "wf_utcb brs u" and rest: "list_all (\<lambda>(err, u). wf_utcb brs u) ms"
    using Cons.prems(2) m by simp_all
  show ?case
  proof (cases "err = 0")
    case True
    have "inv s'"
      using Cons.prems(1) wf h by (rule handle_inv)
    moreover have "wf_utcb brs u'"
      using Cons.prems(1) wf h by (rule handle_wf)
    ultimately show ?thesis
      using Cons.IH [OF \<open>inv s'\<close> rest] m h r True by simp
  next
    case False
    then show ?thesis
      using Cons.IH [OF Cons.prems(1) rest] m by simp
  qed
qed

lemmas loop_inv = loop_inv_wf [THEN conjunct1]
lemmas loop_replies_wf = loop_inv_wf [THEN conjunct2]

end

lemma ipc_loop_answers_length:
  "length (fst (ipc_loop handle ms s)) = length (filter (\<lambda>(err, u). err = 0) ms)"
  by (induction handle ms s rule: ipc_loop.induct) (auto split: prod.splits)

section \<open>Transfer of messages\<close>

text \<open>What an IPC carries: the number of message registers its tag counts, from the first on. The
  other message registers of the receiver and all its buffer registers keep their contents.\<close>

definition deliver :: "nat \<Rightarrow> utcb \<Rightarrow> utcb \<Rightarrow> utcb" where
  "deliver n from to = to\<lparr>utcb_mr := take n (utcb_mr from) @ drop n (utcb_mr to)\<rparr>"

lemma get_mr_deliver:
  "i < n \<Longrightarrow> n \<le> length (utcb_mr from) \<Longrightarrow> get_mr (deliver n from to) i = get_mr from i"
  by (simp add: get_mr_def deliver_def nth_append)

lemma length_deliver [simp]:
  "n \<le> length (utcb_mr from) \<Longrightarrow> n \<le> length (utcb_mr to) \<Longrightarrow>
   length (utcb_mr (deliver n from to)) = length (utcb_mr to)"
  by (simp add: deliver_def)

lemma deliver_br [simp]: "utcb_br (deliver n from to) = utcb_br to" "br0 (deliver n from to) = br0 to"
  by (simp_all add: deliver_def br0_def)

lemma wf_utcb_deliver [simp]:
  "wf_utcb brs to \<Longrightarrow> n \<le> length (utcb_mr from) \<Longrightarrow> n \<le> 4 \<Longrightarrow> wf_utcb brs (deliver n from to)"
  by (auto simp: wf_utcb_def deliver_def)

end
