(* ===== verification/Fd_Server.thy ===== *)
theory Fd_Server
  imports Ipc_Server
begin

text \<open>
  The descriptor helper service, \<open>src/src/fd_server/src/main.rs\<close>: eventfd, timerfd, signalfd and
  inotify objects behind handles, one slab per kind, driven by message register 0. The C library
  and the slab crate are parameters (\<open>fd_env\<close>); a call of the C library takes the state of the
  operating system and returns its result and the new state.
\<close>

section \<open>Parameters\<close>

text \<open>Constants of the generated bindings and of the libc crate, and the C library calls.
  A \<open>read\<close> returns its result and the buffer contents after the call; \<open>timerfd_settime\<close> is
  told whether an old value was asked for and returns the contents of \<open>old_value\<close>.\<close>

record 'w libc_env =
  BR_WORDS :: nat
  EBADF :: i32
  EINVAL :: i32
  ENOSYS :: i32
  EIO :: i32
  sizeof_itimerspec :: nat
  last_os_error :: "'w \<Rightarrow> i32 option"
  libc_close :: "i32 \<Rightarrow> 'w \<Rightarrow> 'w"
  libc_read :: "i32 \<Rightarrow> nat \<Rightarrow> 'w \<Rightarrow> (i64 \<times> u8 list) \<times> 'w"
  libc_write :: "i32 \<Rightarrow> u8 list \<Rightarrow> 'w \<Rightarrow> i64 \<times> 'w"
  libc_eventfd :: "u32 \<Rightarrow> i32 \<Rightarrow> 'w \<Rightarrow> i32 \<times> 'w"
  libc_timerfd_create :: "i32 \<Rightarrow> i32 \<Rightarrow> 'w \<Rightarrow> i32 \<times> 'w"
  libc_timerfd_settime :: "i32 \<Rightarrow> i32 \<Rightarrow> u8 list \<Rightarrow> bool \<Rightarrow> 'w \<Rightarrow> (i32 \<times> u8 list) \<times> 'w"
  libc_timerfd_gettime :: "i32 \<Rightarrow> 'w \<Rightarrow> (i32 \<times> u8 list) \<times> 'w"
  libc_signalfd4 :: "i32 \<Rightarrow> u8 list \<Rightarrow> nat \<Rightarrow> i32 \<Rightarrow> 'w \<Rightarrow> i64 \<times> 'w"
  libc_inotify_init1 :: "i32 \<Rightarrow> 'w \<Rightarrow> i32 \<times> 'w"
  libc_inotify_add_watch :: "i32 \<Rightarrow> u8 list \<Rightarrow> u32 \<Rightarrow> 'w \<Rightarrow> i32 \<times> 'w"
  libc_inotify_rm_watch :: "i32 \<Rightarrow> i32 \<Rightarrow> 'w \<Rightarrow> i32 \<times> 'w"

section \<open>Server data\<close>

record eventfd =
  eventfd_fd :: i32

record timerfd =
  timerfd_fd :: i32

record signalfd =
  signalfd_fd :: i32

record inotify =
  inotify_fd :: i32
  watches :: "i32 \<rightharpoonup> i32"

text \<open>\<open>Drop\<close> of each object closes its descriptor; the watch map is cleared as the value goes.\<close>

definition drop_eventfd :: "'w libc_env \<Rightarrow> eventfd \<Rightarrow> 'w \<Rightarrow> 'w" where
  "drop_eventfd E x w = libc_close E (eventfd_fd x) w"

definition drop_timerfd :: "'w libc_env \<Rightarrow> timerfd \<Rightarrow> 'w \<Rightarrow> 'w" where
  "drop_timerfd E x w = libc_close E (timerfd_fd x) w"

definition drop_signalfd :: "'w libc_env \<Rightarrow> signalfd \<Rightarrow> 'w \<Rightarrow> 'w" where
  "drop_signalfd E x w = libc_close E (signalfd_fd x) w"

definition drop_inotify :: "'w libc_env \<Rightarrow> inotify \<Rightarrow> 'w \<Rightarrow> 'w" where
  "drop_inotify E x w = libc_close E (inotify_fd x) w"

section \<open>Buffer registers\<close>

definition BR_DATA_BYTES :: "'w libc_env \<Rightarrow> nat" where
  "BR_DATA_BYTES E = (BR_WORDS E - 1) * 8"

definition encode_errno :: "'w libc_env \<Rightarrow> 'w \<Rightarrow> u64" where
  "encode_errno E w =
     neg_errno (case last_os_error E w of Some e \<Rightarrow> e | None \<Rightarrow> EIO E)"

definition br_clear :: "utcb \<Rightarrow> utcb" where
  "br_clear u = set_br0 u 0"

definition br_write_bytes :: "'w libc_env \<Rightarrow> u8 list \<Rightarrow> utcb \<Rightarrow> utcb" where
  "br_write_bytes E data u =
     (let len = min (length data) (BR_DATA_BYTES E);
          u = set_br0 u (word_of_nat len)
      in if len = 0 then u else br_copy_in u (take len data))"

definition br_read_bytes :: "'w libc_env \<Rightarrow> utcb \<Rightarrow> u8 list" where
  "br_read_bytes E u =
     (let len = min (unat (br0 u)) (BR_DATA_BYTES E) in take len (br_payload u))"

definition br_read_exact :: "nat \<Rightarrow> utcb \<Rightarrow> u8 list option" where
  "br_read_exact N u =
     (if N = 0 then Some []
      else if unat (br0 u) < N then None
      else Some (take N (br_payload u)))"

text \<open>An \<open>itimerspec\<close> is the bytes of its representation, which is what is copied.\<close>

definition read_itimerspec :: "'w libc_env \<Rightarrow> utcb \<Rightarrow> u8 list option" where
  "read_itimerspec E u = br_read_exact (sizeof_itimerspec E) u"

definition write_itimerspec :: "'w libc_env \<Rightarrow> u8 list \<Rightarrow> utcb \<Rightarrow> utcb" where
  "write_itimerspec E spec u = br_write_bytes E spec u"

definition read_sigset :: "'w libc_env \<Rightarrow> nat \<Rightarrow> utcb \<Rightarrow> u8 list option" where
  "read_sigset E expected u =
     (let buf = br_read_bytes E u in if length buf \<noteq> expected then None else Some buf)"

text \<open>\<open>CString::new\<close> refuses a vector that contains a zero byte anywhere and otherwise appends
  the terminator itself.\<close>

definition cstring_new :: "u8 list \<Rightarrow> u8 list option" where
  "cstring_new buf = (if 0 \<in> set buf then None else Some (buf @ [0]))"

definition read_string :: "'w libc_env \<Rightarrow> utcb \<Rightarrow> u8 list option" where
  "read_string E u =
     (let buf = br_read_bytes E u;
          buf = (if buf = [] \<or> last buf \<noteq> 0 then buf @ [0] else buf)
      in cstring_new buf)"

text \<open>The reply \<open>mr[0] = (-(errno as i64)) as u64; br_clear();\<close>\<close>

definition reply_errno :: "i32 \<Rightarrow> utcb \<Rightarrow> utcb" where
  "reply_errno e u = br_clear (set_mr u 0 (neg_errno e))"

section \<open>eventfd\<close>

definition handle_eventfd_create ::
  "'w libc_env \<Rightarrow> ('s, eventfd) slab_ops \<Rightarrow> utcb \<Rightarrow> 's \<Rightarrow> 'w \<Rightarrow> utcb \<times> 's \<times> 'w" where
  "handle_eventfd_create E sl u s w =
     (let initval = ucast (get_mr u 1); flags = ucast (get_mr u 2);
          (fd, w) = libc_eventfd E initval flags w
      in if sint fd < 0 then (set_mr u 0 (encode_errno E w), s, w)
         else let (slot, s) = slab_insert sl s \<lparr>eventfd_fd = fd\<rparr>
              in (br_clear (set_mr u 0 (word_of_nat slot)), s, w))"

definition handle_eventfd_read ::
  "'w libc_env \<Rightarrow> ('s, eventfd) slab_ops \<Rightarrow> utcb \<Rightarrow> 's \<Rightarrow> 'w \<Rightarrow> utcb \<times> 's \<times> 'w" where
  "handle_eventfd_read E sl u s w =
     (case slab_get sl s (unat (get_mr u 1)) of
        None \<Rightarrow> (reply_errno (EBADF E) u, s, w)
      | Some entry \<Rightarrow>
          let ((res, value), w) = libc_read E (eventfd_fd entry) 8 w
          in if sint res \<noteq> 8 then (br_clear (set_mr u 0 (encode_errno E w)), s, w)
             else (br_clear (set_mr (set_mr u 0 0) 1 (word_of_nat (le_nat value))), s, w))"

definition handle_eventfd_write ::
  "'w libc_env \<Rightarrow> ('s, eventfd) slab_ops \<Rightarrow> utcb \<Rightarrow> 's \<Rightarrow> 'w \<Rightarrow> utcb \<times> 's \<times> 'w" where
  "handle_eventfd_write E sl u s w =
     (let value = get_mr u 2 in
      case slab_get sl s (unat (get_mr u 1)) of
        None \<Rightarrow> (reply_errno (EBADF E) u, s, w)
      | Some entry \<Rightarrow>
          let (res, w) = libc_write E (eventfd_fd entry) (le_bytes 8 (unat value)) w
          in (br_clear (set_mr u 0 (if sint res \<noteq> 8 then encode_errno E w else 0)), s, w))"

definition handle_eventfd_close ::
  "'w libc_env \<Rightarrow> ('s, eventfd) slab_ops \<Rightarrow> utcb \<Rightarrow> 's \<Rightarrow> 'w \<Rightarrow> utcb \<times> 's \<times> 'w" where
  "handle_eventfd_close E sl u s w =
     (let handle = unat (get_mr u 1) in
      case slab_get sl s handle of
        Some entry \<Rightarrow>
          (br_clear (set_mr u 0 0), slab_remove sl s handle, drop_eventfd E entry w)
      | None \<Rightarrow> (br_clear (set_mr u 0 (neg_errno (EBADF E))), s, w))"

section \<open>timerfd\<close>

definition handle_timerfd_create ::
  "'w libc_env \<Rightarrow> ('s, timerfd) slab_ops \<Rightarrow> utcb \<Rightarrow> 's \<Rightarrow> 'w \<Rightarrow> utcb \<times> 's \<times> 'w" where
  "handle_timerfd_create E sl u s w =
     (let clockid = ucast (get_mr u 1); flags = ucast (get_mr u 2);
          (fd, w) = libc_timerfd_create E clockid flags w
      in if sint fd < 0 then (br_clear (set_mr u 0 (encode_errno E w)), s, w)
         else let (slot, s) = slab_insert sl s \<lparr>timerfd_fd = fd\<rparr>
              in (br_clear (set_mr u 0 (word_of_nat slot)), s, w))"

definition handle_timerfd_settime ::
  "'w libc_env \<Rightarrow> ('s, timerfd) slab_ops \<Rightarrow> utcb \<Rightarrow> 's \<Rightarrow> 'w \<Rightarrow> utcb \<times> 's \<times> 'w" where
  "handle_timerfd_settime E sl u s w =
     (let flags = ucast (get_mr u 2); want_old = (get_mr u 3 \<noteq> 0) in
      case slab_get sl s (unat (get_mr u 1)) of
        None \<Rightarrow> (reply_errno (EBADF E) u, s, w)
      | Some entry \<Rightarrow>
          (case read_itimerspec E u of
             None \<Rightarrow> (reply_errno (EINVAL E) u, s, w)
           | Some new_value \<Rightarrow>
               let ((res, old_value), w) =
                     libc_timerfd_settime E (timerfd_fd entry) flags new_value want_old w
               in if sint res < 0 then (br_clear (set_mr u 0 (encode_errno E w)), s, w)
                  else let u = set_mr u 0 0
                       in (if want_old then write_itimerspec E old_value u else br_clear u, s, w)))"

definition handle_timerfd_gettime ::
  "'w libc_env \<Rightarrow> ('s, timerfd) slab_ops \<Rightarrow> utcb \<Rightarrow> 's \<Rightarrow> 'w \<Rightarrow> utcb \<times> 's \<times> 'w" where
  "handle_timerfd_gettime E sl u s w =
     (case slab_get sl s (unat (get_mr u 1)) of
        None \<Rightarrow> (reply_errno (EBADF E) u, s, w)
      | Some entry \<Rightarrow>
          let ((res, cur), w) = libc_timerfd_gettime E (timerfd_fd entry) w
          in if sint res < 0 then (br_clear (set_mr u 0 (encode_errno E w)), s, w)
             else (write_itimerspec E cur (set_mr u 0 0), s, w))"

definition handle_timerfd_read ::
  "'w libc_env \<Rightarrow> ('s, timerfd) slab_ops \<Rightarrow> utcb \<Rightarrow> 's \<Rightarrow> 'w \<Rightarrow> utcb \<times> 's \<times> 'w" where
  "handle_timerfd_read E sl u s w =
     (case slab_get sl s (unat (get_mr u 1)) of
        None \<Rightarrow> (reply_errno (EBADF E) u, s, w)
      | Some entry \<Rightarrow>
          let ((res, expirations), w) = libc_read E (timerfd_fd entry) 8 w
          in if sint res \<noteq> 8 then (br_clear (set_mr u 0 (encode_errno E w)), s, w)
             else (br_clear (set_mr (set_mr u 0 0) 1 (word_of_nat (le_nat expirations))), s, w))"

definition handle_timerfd_close ::
  "'w libc_env \<Rightarrow> ('s, timerfd) slab_ops \<Rightarrow> utcb \<Rightarrow> 's \<Rightarrow> 'w \<Rightarrow> utcb \<times> 's \<times> 'w" where
  "handle_timerfd_close E sl u s w =
     (let handle = unat (get_mr u 1) in
      case slab_get sl s handle of
        Some entry \<Rightarrow>
          (br_clear (set_mr u 0 0), slab_remove sl s handle, drop_timerfd E entry w)
      | None \<Rightarrow> (br_clear (set_mr u 0 (neg_errno (EBADF E))), s, w))"

section \<open>signalfd\<close>

definition handle_signalfd_create ::
  "'w libc_env \<Rightarrow> ('s, signalfd) slab_ops \<Rightarrow> utcb \<Rightarrow> 's \<Rightarrow> 'w \<Rightarrow> utcb \<times> 's \<times> 'w" where
  "handle_signalfd_create E sl u s w =
     (let target = get_mr u 1; flags = ucast (get_mr u 2); size = unat (get_mr u 3) in
      case read_sigset E size u of
        None \<Rightarrow> (reply_errno (EINVAL E) u, s, w)
      | Some mask_bytes \<Rightarrow>
          (if 0 \<le> sint target then
             (case slab_get sl s (unat target) of
                None \<Rightarrow> (reply_errno (EBADF E) u, s, w)
              | Some existing \<Rightarrow>
                  let (res, w) = libc_signalfd4 E (signalfd_fd existing) mask_bytes size flags w;
                      res_fd = ucast res :: i32
                  in if sint res_fd < 0 then (br_clear (set_mr u 0 (encode_errno E w)), s, w)
                     else (br_clear (set_mr u 0 0), s, w))
           else
             let (res, w) = libc_signalfd4 E (- 1) mask_bytes size flags w;
                 res_fd = ucast res :: i32
             in if sint res_fd < 0 then (br_clear (set_mr u 0 (encode_errno E w)), s, w)
                else let (slot, s) = slab_insert sl s \<lparr>signalfd_fd = res_fd\<rparr>
                     in (br_clear (set_mr u 0 (word_of_nat slot)), s, w)))"

definition handle_signalfd_read ::
  "'w libc_env \<Rightarrow> ('s, signalfd) slab_ops \<Rightarrow> utcb \<Rightarrow> 's \<Rightarrow> 'w \<Rightarrow> utcb \<times> 's \<times> 'w" where
  "handle_signalfd_read E sl u s w =
     (let max_bytes = min (unat (get_mr u 2)) (BR_DATA_BYTES E) in
      case slab_get sl s (unat (get_mr u 1)) of
        None \<Rightarrow> (reply_errno (EBADF E) u, s, w)
      | Some entry \<Rightarrow>
          (if max_bytes = 0 then (reply_errno (EINVAL E) u, s, w)
           else let ((res, buf), w) = libc_read E (signalfd_fd entry) max_bytes w
                in if sint res < 0 then (br_clear (set_mr u 0 (encode_errno E w)), s, w)
                   else (set_mr (br_write_bytes E (take (unat res) buf) u) 0 res, s, w)))"

definition handle_signalfd_close ::
  "'w libc_env \<Rightarrow> ('s, signalfd) slab_ops \<Rightarrow> utcb \<Rightarrow> 's \<Rightarrow> 'w \<Rightarrow> utcb \<times> 's \<times> 'w" where
  "handle_signalfd_close E sl u s w =
     (let handle = unat (get_mr u 1) in
      case slab_get sl s handle of
        Some entry \<Rightarrow>
          (br_clear (set_mr u 0 0), slab_remove sl s handle, drop_signalfd E entry w)
      | None \<Rightarrow> (br_clear (set_mr u 0 (neg_errno (EBADF E))), s, w))"

section \<open>inotify\<close>

definition handle_inotify_init ::
  "'w libc_env \<Rightarrow> ('s, inotify) slab_ops \<Rightarrow> utcb \<Rightarrow> 's \<Rightarrow> 'w \<Rightarrow> utcb \<times> 's \<times> 'w" where
  "handle_inotify_init E sl u s w =
     (let flags = ucast (get_mr u 1); (fd, w) = libc_inotify_init1 E flags w
      in if sint fd < 0 then (br_clear (set_mr u 0 (encode_errno E w)), s, w)
         else let (slot, s) = slab_insert sl s \<lparr>inotify_fd = fd, watches = Map.empty\<rparr>
              in (br_clear (set_mr u 0 (word_of_nat slot)), s, w))"

definition handle_inotify_add_watch ::
  "'w libc_env \<Rightarrow> ('s, inotify) slab_ops \<Rightarrow> utcb \<Rightarrow> 's \<Rightarrow> 'w \<Rightarrow> utcb \<times> 's \<times> 'w" where
  "handle_inotify_add_watch E sl u s w =
     (let handle = unat (get_mr u 1); mask = ucast (get_mr u 2) in
      case slab_get sl s handle of
        None \<Rightarrow> (reply_errno (EBADF E) u, s, w)
      | Some entry \<Rightarrow>
          (case read_string E u of
             None \<Rightarrow> (reply_errno (EINVAL E) u, s, w)
           | Some path \<Rightarrow>
               let (wd, w) = libc_inotify_add_watch E (inotify_fd entry) path mask w
               in if sint wd < 0 then (br_clear (set_mr u 0 (encode_errno E w)), s, w)
                  else (br_clear (set_mr u 0 (scast wd)),
                        slab_update sl s handle (entry\<lparr>watches := (watches entry)(wd \<mapsto> wd)\<rparr>), w)))"

definition handle_inotify_rm_watch ::
  "'w libc_env \<Rightarrow> ('s, inotify) slab_ops \<Rightarrow> utcb \<Rightarrow> 's \<Rightarrow> 'w \<Rightarrow> utcb \<times> 's \<times> 'w" where
  "handle_inotify_rm_watch E sl u s w =
     (let handle = unat (get_mr u 1); wd = ucast (get_mr u 2) in
      case slab_get sl s handle of
        None \<Rightarrow> (reply_errno (EBADF E) u, s, w)
      | Some entry \<Rightarrow>
          let (res, w) = libc_inotify_rm_watch E (inotify_fd entry) wd w
          in if sint res < 0 then (br_clear (set_mr u 0 (encode_errno E w)), s, w)
             else (br_clear (set_mr u 0 0),
                   slab_update sl s handle (entry\<lparr>watches := (watches entry)(wd := None)\<rparr>), w))"

definition handle_inotify_read ::
  "'w libc_env \<Rightarrow> ('s, inotify) slab_ops \<Rightarrow> utcb \<Rightarrow> 's \<Rightarrow> 'w \<Rightarrow> utcb \<times> 's \<times> 'w" where
  "handle_inotify_read E sl u s w =
     (let max_bytes = min (unat (get_mr u 2)) (BR_DATA_BYTES E) in
      case slab_get sl s (unat (get_mr u 1)) of
        None \<Rightarrow> (reply_errno (EBADF E) u, s, w)
      | Some entry \<Rightarrow>
          (if max_bytes = 0 then (reply_errno (EINVAL E) u, s, w)
           else let ((res, buf), w) = libc_read E (inotify_fd entry) max_bytes w
                in if sint res < 0 then (br_clear (set_mr u 0 (encode_errno E w)), s, w)
                   else (set_mr (br_write_bytes E (take (unat res) buf) u) 0 res, s, w)))"

definition handle_inotify_close ::
  "'w libc_env \<Rightarrow> ('s, inotify) slab_ops \<Rightarrow> utcb \<Rightarrow> 's \<Rightarrow> 'w \<Rightarrow> utcb \<times> 's \<times> 'w" where
  "handle_inotify_close E sl u s w =
     (let handle = unat (get_mr u 1) in
      case slab_get sl s handle of
        Some entry \<Rightarrow>
          (br_clear (set_mr u 0 0), slab_remove sl s handle, drop_inotify E entry w)
      | None \<Rightarrow> (br_clear (set_mr u 0 (neg_errno (EBADF E))), s, w))"

section \<open>Dispatch\<close>

text \<open>The locals of \<open>run\<close> that live across messages: the four slabs; and the operating system.\<close>

record ('w, 'e, 't, 'g, 'i) fd_state =
  eventfds :: 'e
  timerfds :: 't
  signalfds :: 'g
  inotifies :: 'i
  fd_world :: 'w

record ('w, 'e, 't, 'g, 'i) fd_env =
  fd_libc :: "'w libc_env"
  ev_slab :: "('e, eventfd) slab_ops"
  tm_slab :: "('t, timerfd) slab_ops"
  sg_slab :: "('g, signalfd) slab_ops"
  in_slab :: "('i, inotify) slab_ops"

definition on_eventfds where
  "on_eventfds h F u st =
     (case h (fd_libc F) (ev_slab F) u (eventfds st) (fd_world st) of
        (u', s', w') \<Rightarrow> (u', st\<lparr>eventfds := s', fd_world := w'\<rparr>))"

definition on_timerfds where
  "on_timerfds h F u st =
     (case h (fd_libc F) (tm_slab F) u (timerfds st) (fd_world st) of
        (u', s', w') \<Rightarrow> (u', st\<lparr>timerfds := s', fd_world := w'\<rparr>))"

definition on_signalfds where
  "on_signalfds h F u st =
     (case h (fd_libc F) (sg_slab F) u (signalfds st) (fd_world st) of
        (u', s', w') \<Rightarrow> (u', st\<lparr>signalfds := s', fd_world := w'\<rparr>))"

definition on_inotifies where
  "on_inotifies h F u st =
     (case h (fd_libc F) (in_slab F) u (inotifies st) (fd_world st) of
        (u', s', w') \<Rightarrow> (u', st\<lparr>inotifies := s', fd_world := w'\<rparr>))"

definition fd_dispatch :: "('w, 'e, 't, 'g, 'i) fd_env \<Rightarrow> utcb \<Rightarrow> ('w, 'e, 't, 'g, 'i) fd_state
    \<Rightarrow> utcb \<times> ('w, 'e, 't, 'g, 'i) fd_state" where
  "fd_dispatch F u st =
     (let opc = get_mr u 0 in
      if opc = 0 then on_eventfds handle_eventfd_create F u st
      else if opc = 1 then on_eventfds handle_eventfd_read F u st
      else if opc = 2 then on_eventfds handle_eventfd_write F u st
      else if opc = 3 then on_eventfds handle_eventfd_close F u st
      else if opc = 16 then on_timerfds handle_timerfd_create F u st
      else if opc = 17 then on_timerfds handle_timerfd_settime F u st
      else if opc = 18 then on_timerfds handle_timerfd_gettime F u st
      else if opc = 19 then on_timerfds handle_timerfd_read F u st
      else if opc = 20 then on_timerfds handle_timerfd_close F u st
      else if opc = 32 then on_signalfds handle_signalfd_create F u st
      else if opc = 33 then on_signalfds handle_signalfd_read F u st
      else if opc = 34 then on_signalfds handle_signalfd_close F u st
      else if opc = 48 then on_inotifies handle_inotify_init F u st
      else if opc = 49 then on_inotifies handle_inotify_add_watch F u st
      else if opc = 50 then on_inotifies handle_inotify_rm_watch F u st
      else if opc = 51 then on_inotifies handle_inotify_read F u st
      else if opc = 52 then on_inotifies handle_inotify_close F u st
      else (reply_errno (ENOSYS (fd_libc F)) u, st))"

definition fd_init :: "('w, 'e, 't, 'g, 'i) fd_env \<Rightarrow> 'w \<Rightarrow> ('w, 'e, 't, 'g, 'i) fd_state" where
  "fd_init F w = \<lparr>eventfds = slab_new (ev_slab F), timerfds = slab_new (tm_slab F),
     signalfds = slab_new (sg_slab F), inotifies = slab_new (in_slab F), fd_world = w\<rparr>"

text \<open>\<open>run\<close>: it panics (\<open>None\<close>) without the gate capability or when binding the gate fails; then
  it serves the messages. The reply tag \<open>l4_msgtag(0, 1, 0, 0)\<close> carries one word.\<close>

definition fd_reply_words :: nat where
  "fd_reply_words = 1"

definition fd_run :: "('w, 'e, 't, 'g, 'i) fd_env \<Rightarrow> u64 option \<Rightarrow> u64 \<Rightarrow> (u64 \<times> utcb) list \<Rightarrow> 'w
    \<Rightarrow> (utcb list \<times> ('w, 'e, 't, 'g, 'i) fd_state) option" where
  "fd_run F gate bind_error msgs w =
     (case gate of
        None \<Rightarrow> None
      | Some g \<Rightarrow> if bind_error \<noteq> 0 then None
                  else Some (ipc_loop (fd_dispatch F) msgs (fd_init F w)))"


section \<open>Register discipline of the buffer helpers\<close>

lemma wf_utcb_br_clear [simp]: "wf_utcb n (br_clear u) = wf_utcb n u"
  by (simp add: br_clear_def)

lemma wf_utcb_reply_errno [simp]: "wf_utcb n (reply_errno e u) = wf_utcb n u"
  by (simp add: reply_errno_def)

lemma wf_utcb_br_write_bytes [simp]: "wf_utcb n (br_write_bytes E data u) = wf_utcb n u"
  by (simp add: br_write_bytes_def Let_def)

lemma wf_utcb_write_itimerspec [simp]: "wf_utcb n (write_itimerspec E data u) = wf_utcb n u"
  by (simp add: write_itimerspec_def)

lemma BR_DATA_BYTES_payload: "wf_utcb (BR_WORDS E) u \<Longrightarrow> BR_DATA_BYTES E = length (br_payload u)"
  by (simp add: wf_utcb_def BR_DATA_BYTES_def)

lemma br_payload_write:
  assumes "wf_utcb (BR_WORDS E) u"
  shows "br_payload (br_write_bytes E data u) =
    overwrite (br_payload u) 0 (take (BR_DATA_BYTES E) data)"
proof -
  have ne: "utcb_br u \<noteq> []"
    using assms by (rule wf_utcb_br_nonempty)
  have ne': "utcb_br (set_br0 u v) \<noteq> []" for v
    using ne by (simp add: set_br0_def)
  have len: "BR_DATA_BYTES E = length (br_payload u)"
    using assms by (rule BR_DATA_BYTES_payload)
  show ?thesis
  proof (cases "take (BR_DATA_BYTES E) data = []")
    case True
    then have "min (length data) (BR_DATA_BYTES E) = 0"
      by (auto simp: take_eq_Nil)
    with True show ?thesis
      by (auto simp: br_write_bytes_def)
  next
    case False
    then have "min (length data) (BR_DATA_BYTES E) \<noteq> 0"
      by (auto simp: take_eq_Nil min_def)
    then have "br_write_bytes E data u = br_copy_in
        (set_br0 u (word_of_nat (min (length data) (BR_DATA_BYTES E)))) (take (BR_DATA_BYTES E) data)"
      unfolding br_write_bytes_def Let_def by (simp only: if_False take_min_length)
    with ne' len show ?thesis
      by (simp del: length_br_payload)
  qed
qed

lemma br0_write:
  assumes "wf_utcb (BR_WORDS E) u"
  shows "br0 (br_write_bytes E data u) = word_of_nat (min (length data) (BR_DATA_BYTES E))"
proof -
  have "utcb_br u \<noteq> []"
    using assms by (rule wf_utcb_br_nonempty)
  moreover have "utcb_br (set_br0 u v) \<noteq> []" for v
    using \<open>utcb_br u \<noteq> []\<close> by (simp add: set_br0_def)
  ultimately show ?thesis
    by (simp add: br_write_bytes_def Let_def)
qed

text \<open>What is written into the buffer registers is read back, up to their capacity.\<close>

lemma br_read_write:
  assumes "wf_utcb (BR_WORDS E) u" and "BR_DATA_BYTES E < 2 ^ 64"
  shows "br_read_bytes E (br_write_bytes E data u) = take (BR_DATA_BYTES E) data"
proof -
  let ?len = "min (length data) (BR_DATA_BYTES E)"
  have "unat (word_of_nat ?len :: u64) = ?len"
    using assms(2) by (simp add: unat_of_nat)
  then show ?thesis
    using br0_write [OF assms(1)] br_payload_write [OF assms(1)]
    by (simp add: br_read_bytes_def Let_def overwrite_def)
qed

lemma br_read_exact_write:
  assumes "wf_utcb (BR_WORDS E) u" and "BR_DATA_BYTES E < 2 ^ 64"
    and "length data \<le> BR_DATA_BYTES E"
  shows "br_read_exact (length data) (br_write_bytes E data u) = Some data"
proof -
  have "unat (br0 (br_write_bytes E data u)) = length data"
    using assms by (simp add: br0_write unat_of_nat)
  then show ?thesis
    using br_payload_write [OF assms(1)] assms(3)
    by (simp add: br_read_exact_def overwrite_def)
qed

section \<open>The descriptor ledger of the four tables\<close>

datatype fd_kind = KEvent | KTimer | KSignal | KInotify

fun fd_table :: "('w, 'e, 't, 'g, 'i) fd_env \<Rightarrow> ('w, 'e, 't, 'g, 'i) fd_state
    \<Rightarrow> (fd_kind \<times> nat) \<rightharpoonup> i32" where
  "fd_table F st (KEvent, k) = tab eventfd_fd (ev_slab F) (eventfds st) k"
| "fd_table F st (KTimer, k) = tab timerfd_fd (tm_slab F) (timerfds st) k"
| "fd_table F st (KSignal, k) = tab signalfd_fd (sg_slab F) (signalfds st) k"
| "fd_table F st (KInotify, k) = tab inotify_fd (in_slab F) (inotifies st) k"

text \<open>
  What the descriptor service relies on of the C library: a creating call that succeeds returns a
  descriptor that was not open and opens it, one that fails opens nothing, \<open>close\<close> closes, and
  the other calls open and close nothing.
\<close>

locale fd_os = desc_os "libc_close E" open_fds
  for E :: "'w libc_env" and open_fds :: "'w \<Rightarrow> i32 set" +
  assumes os_read: "libc_read E fd n w = (r, w') \<Longrightarrow> open_fds w' = open_fds w"
    and os_write: "libc_write E fd bs w = (n', w') \<Longrightarrow> open_fds w' = open_fds w"
    and os_eventfd: "libc_eventfd E i fl w = (fd, w') \<Longrightarrow> opens_fresh open_fds fd w w'"
    and os_timerfd_create: "libc_timerfd_create E c fl w = (fd, w') \<Longrightarrow> opens_fresh open_fds fd w w'"
    and os_settime: "libc_timerfd_settime E fd fl bs old w = (r', w') \<Longrightarrow> open_fds w' = open_fds w"
    and os_gettime: "libc_timerfd_gettime E fd w = (r', w') \<Longrightarrow> open_fds w' = open_fds w"
    and os_signalfd_new: "libc_signalfd4 E (- 1) m n fl w = (n', w') \<Longrightarrow>
      opens_fresh open_fds (ucast n') w w'"
    and os_signalfd_old: "fd \<in> open_fds w \<Longrightarrow> libc_signalfd4 E fd m n fl w = (n', w') \<Longrightarrow>
      open_fds w' = open_fds w"
    and os_inotify_init: "libc_inotify_init1 E fl w = (fd, w') \<Longrightarrow> opens_fresh open_fds fd w w'"
    and os_add_watch: "libc_inotify_add_watch E fd p msk w = (wd, w') \<Longrightarrow> open_fds w' = open_fds w"
    and os_rm_watch: "libc_inotify_rm_watch E fd wd w = (wd', w') \<Longrightarrow> open_fds w' = open_fds w"
begin

lemmas os_keeps = os_read os_write os_settime os_gettime os_signalfd_old os_add_watch os_rm_watch

end


context fd_os
begin

lemmas handler_splits = option.splits prod.splits if_splits

lemma eventfd_create_step:
  assumes "slab sl" and "handle_eventfd_create E sl u s w = (u', s', w')"
  shows "ledger_step (tab eventfd_fd sl s, open_fds w) (tab eventfd_fd sl s', open_fds w')"
proof -
  obtain fd w1 where c: "libc_eventfd E (ucast (get_mr u 1)) (ucast (get_mr u 2)) w = (fd, w1)"
    by fastforce
  have "w' = w1" and "if sint fd < 0 then s' = s else \<exists>k. slab_insert sl s \<lparr>eventfd_fd = fd\<rparr> = (k, s')"
    using assms(2) c by (auto simp: handle_eventfd_create_def split: prod.splits if_splits)
  then show ?thesis
    using step_create [OF assms(1), of eventfd_fd "\<lparr>eventfd_fd = fd\<rparr>"] os_eventfd [OF c] by simp
qed

lemma timerfd_create_step:
  assumes "slab sl" and "handle_timerfd_create E sl u s w = (u', s', w')"
  shows "ledger_step (tab timerfd_fd sl s, open_fds w) (tab timerfd_fd sl s', open_fds w')"
proof -
  obtain fd w1 where
    c: "libc_timerfd_create E (ucast (get_mr u 1)) (ucast (get_mr u 2)) w = (fd, w1)"
    by fastforce
  have "w' = w1" and "if sint fd < 0 then s' = s else \<exists>k. slab_insert sl s \<lparr>timerfd_fd = fd\<rparr> = (k, s')"
    using assms(2) c by (auto simp: handle_timerfd_create_def split: prod.splits if_splits)
  then show ?thesis
    using step_create [OF assms(1), of timerfd_fd "\<lparr>timerfd_fd = fd\<rparr>"] os_timerfd_create [OF c]
    by simp
qed

lemma inotify_init_step:
  assumes "slab sl" and "handle_inotify_init E sl u s w = (u', s', w')"
  shows "ledger_step (tab inotify_fd sl s, open_fds w) (tab inotify_fd sl s', open_fds w')"
proof -
  let ?v = "\<lambda>fd. \<lparr>inotify_fd = fd, watches = Map.empty\<rparr>"
  obtain fd w1 where c: "libc_inotify_init1 E (ucast (get_mr u 1)) w = (fd, w1)"
    by fastforce
  have "w' = w1" and "if sint fd < 0 then s' = s else \<exists>k. slab_insert sl s (?v fd) = (k, s')"
    using assms(2) c by (auto simp: handle_inotify_init_def split: prod.splits if_splits)
  then show ?thesis
    using step_create [OF assms(1), of inotify_fd "?v fd"] os_inotify_init [OF c] by simp
qed

lemma signalfd_create_step:
  assumes "slab sl" and "handle_signalfd_create E sl u s w = (u', s', w')"
    and owned: "ran (tab signalfd_fd sl s) \<subseteq> open_fds w"
  shows "ledger_step (tab signalfd_fd sl s, open_fds w) (tab signalfd_fd sl s', open_fds w')"
proof (cases "read_sigset E (unat (get_mr u 3)) u")
  case None
  then show ?thesis
    using assms(2) by (simp add: handle_signalfd_create_def Let_def ledger_idle)
next
  case (Some mask)
  let ?call = "\<lambda>fd. libc_signalfd4 E fd mask (unat (get_mr u 3)) (ucast (get_mr u 2)) w"
  show ?thesis
  proof (cases "0 \<le> sint (get_mr u 1)")
    case True
    show ?thesis
    proof (cases "slab_get sl s (unat (get_mr u 1))")
      case None
      then show ?thesis
        using assms(2) Some True by (simp add: handle_signalfd_create_def Let_def ledger_idle)
    next
      case (Some entry)
      obtain n w1 where c: "?call (signalfd_fd entry) = (n, w1)"
        by fastforce
      have "signalfd_fd entry \<in> open_fds w"
        using owned Some by (auto simp: tab_def ran_def)
      then have "open_fds w1 = open_fds w"
        using c by (rule os_signalfd_old)
      moreover have "w' = w1" and "s' = s"
        using assms(2) Some \<open>read_sigset _ _ _ = _\<close> True c
        by (auto simp: handle_signalfd_create_def Let_def split: if_splits)
      ultimately show ?thesis
        by (simp add: ledger_idle)
    qed
  next
    case False
    obtain n w1 where c: "?call (- 1) = (n, w1)"
      by fastforce
    let ?v = "\<lparr>signalfd_fd = ucast n :: i32\<rparr>"
    have "w' = w1"
      and "if sint (ucast n :: i32) < 0 then s' = s else \<exists>k. slab_insert sl s ?v = (k, s')"
      using assms(2) Some False c
      by (auto simp: handle_signalfd_create_def Let_def split: prod.splits if_splits)
    then show ?thesis
      using step_create [OF assms(1), of signalfd_fd ?v] os_signalfd_new [OF c] by simp
  qed
qed

text \<open>Handlers that only use an open object leave the ledger as it is.\<close>

lemma using_steps:
  "handle_eventfd_read E sl u s w = (u', s', w') \<Longrightarrow> s' = s \<and> open_fds w' = open_fds w"
  "handle_eventfd_write E sl u s w = (u', s', w') \<Longrightarrow> s' = s \<and> open_fds w' = open_fds w"
  "handle_timerfd_settime E ts u t w = (u', t', w') \<Longrightarrow> t' = t \<and> open_fds w' = open_fds w"
  "handle_timerfd_gettime E ts u t w = (u', t', w') \<Longrightarrow> t' = t \<and> open_fds w' = open_fds w"
  "handle_timerfd_read E ts u t w = (u', t', w') \<Longrightarrow> t' = t \<and> open_fds w' = open_fds w"
  "handle_signalfd_read E gs u g w = (u', g', w') \<Longrightarrow> g' = g \<and> open_fds w' = open_fds w"
  "handle_inotify_read E ns u i w = (u', i', w') \<Longrightarrow> i' = i \<and> open_fds w' = open_fds w"
  subgoal by (auto simp: handle_eventfd_read_def Let_def dest!: os_keeps split: handler_splits)
  subgoal by (auto simp: handle_eventfd_write_def Let_def dest!: os_keeps split: handler_splits)
  subgoal by (auto simp: handle_timerfd_settime_def Let_def dest!: os_keeps split: handler_splits)
  subgoal by (auto simp: handle_timerfd_gettime_def Let_def dest!: os_keeps split: handler_splits)
  subgoal by (auto simp: handle_timerfd_read_def Let_def dest!: os_keeps split: handler_splits)
  subgoal by (auto simp: handle_signalfd_read_def Let_def dest!: os_keeps split: handler_splits)
  subgoal by (auto simp: handle_inotify_read_def Let_def dest!: os_keeps split: handler_splits)
  done

lemma watch_steps:
  assumes "slab sl"
  shows "handle_inotify_add_watch E sl u s w = (u', s', w') \<Longrightarrow>
      tab inotify_fd sl s' = tab inotify_fd sl s \<and> open_fds w' = open_fds w"
    and "handle_inotify_rm_watch E sl u s w = (u', s', w') \<Longrightarrow>
      tab inotify_fd sl s' = tab inotify_fd sl s \<and> open_fds w' = open_fds w"
  subgoal
    by (auto simp: handle_inotify_add_watch_def Let_def dest!: os_add_watch
        intro!: step_update [OF assms] split: handler_splits)
  subgoal
    by (auto simp: handle_inotify_rm_watch_def Let_def dest!: os_rm_watch
        intro!: step_update [OF assms] split: handler_splits)
  done

lemma close_steps:
  "slab sl \<Longrightarrow> handle_eventfd_close E sl u s w = (u', s', w') \<Longrightarrow>
   ledger_step (tab eventfd_fd sl s, open_fds w) (tab eventfd_fd sl s', open_fds w')"
  "slab ts \<Longrightarrow> handle_timerfd_close E ts u t w = (u', t', w') \<Longrightarrow>
   ledger_step (tab timerfd_fd ts t, open_fds w) (tab timerfd_fd ts t', open_fds w')"
  "slab gs \<Longrightarrow> handle_signalfd_close E gs u g w = (u', g', w') \<Longrightarrow>
   ledger_step (tab signalfd_fd gs g, open_fds w) (tab signalfd_fd gs g', open_fds w')"
  "slab ns \<Longrightarrow> handle_inotify_close E ns u i w = (u', i', w') \<Longrightarrow>
   ledger_step (tab inotify_fd ns i, open_fds w) (tab inotify_fd ns i', open_fds w')"
  subgoal
    by (auto simp: handle_eventfd_close_def Let_def drop_eventfd_def
        intro: ledger_idle step_release split: option.splits)
  subgoal
    by (auto simp: handle_timerfd_close_def Let_def drop_timerfd_def
        intro: ledger_idle step_release split: option.splits)
  subgoal
    by (auto simp: handle_signalfd_close_def Let_def drop_signalfd_def
        intro: ledger_idle step_release split: option.splits)
  subgoal
    by (auto simp: handle_inotify_close_def Let_def drop_inotify_def
        intro: ledger_idle step_release split: option.splits)
  done

end

section \<open>The service as a whole\<close>

text \<open>The assumptions on the world around the server, together: the C library contract and the
  slab laws of its four tables.\<close>

locale fd_service =
  os: fd_os "fd_libc F" open_fds +
  ev: slab "ev_slab F" + tm: slab "tm_slab F" + sg: slab "sg_slab F" + ny: slab "in_slab F"
  for F :: "('w, 'e, 't, 'g, 'i) fd_env" and open_fds :: "'w \<Rightarrow> i32 set"
begin

definition steps where
  "steps st r \<longleftrightarrow> ledger_step (fd_table F st, open_fds (fd_world st))
     (fd_table F (snd r), open_fds (fd_world (snd r)))"

lemma steps_eventfds:
  assumes "h (fd_libc F) (ev_slab F) u (eventfds st) (fd_world st) = (u', s', w')"
    and "ledger_step (tab eventfd_fd (ev_slab F) (eventfds st), open_fds (fd_world st))
      (tab eventfd_fd (ev_slab F) s', open_fds w')"
  shows "steps st (on_eventfds h F u st)"
proof -
  have "fd_table F (st\<lparr>eventfds := s', fd_world := w'\<rparr>) (d, k) = fd_table F st (d, k)"
    if "d \<noteq> KEvent" for d k
    using that by (cases d) simp_all
  then show ?thesis
    using ledger_step_lift [OF assms(2), of "fd_table F st" KEvent
        "fd_table F (st\<lparr>eventfds := s', fd_world := w'\<rparr>)"] assms(1)
    by (simp add: steps_def on_eventfds_def)
qed

lemma steps_timerfds:
  assumes "h (fd_libc F) (tm_slab F) u (timerfds st) (fd_world st) = (u', s', w')"
    and "ledger_step (tab timerfd_fd (tm_slab F) (timerfds st), open_fds (fd_world st))
      (tab timerfd_fd (tm_slab F) s', open_fds w')"
  shows "steps st (on_timerfds h F u st)"
proof -
  have "fd_table F (st\<lparr>timerfds := s', fd_world := w'\<rparr>) (d, k) = fd_table F st (d, k)"
    if "d \<noteq> KTimer" for d k
    using that by (cases d) simp_all
  then show ?thesis
    using ledger_step_lift [OF assms(2), of "fd_table F st" KTimer
        "fd_table F (st\<lparr>timerfds := s', fd_world := w'\<rparr>)"] assms(1)
    by (simp add: steps_def on_timerfds_def)
qed

lemma steps_signalfds:
  assumes "h (fd_libc F) (sg_slab F) u (signalfds st) (fd_world st) = (u', s', w')"
    and "ledger_step (tab signalfd_fd (sg_slab F) (signalfds st), open_fds (fd_world st))
      (tab signalfd_fd (sg_slab F) s', open_fds w')"
  shows "steps st (on_signalfds h F u st)"
proof -
  have "fd_table F (st\<lparr>signalfds := s', fd_world := w'\<rparr>) (d, k) = fd_table F st (d, k)"
    if "d \<noteq> KSignal" for d k
    using that by (cases d) simp_all
  then show ?thesis
    using ledger_step_lift [OF assms(2), of "fd_table F st" KSignal
        "fd_table F (st\<lparr>signalfds := s', fd_world := w'\<rparr>)"] assms(1)
    by (simp add: steps_def on_signalfds_def)
qed

lemma steps_inotifies:
  assumes "h (fd_libc F) (in_slab F) u (inotifies st) (fd_world st) = (u', s', w')"
    and "ledger_step (tab inotify_fd (in_slab F) (inotifies st), open_fds (fd_world st))
      (tab inotify_fd (in_slab F) s', open_fds w')"
  shows "steps st (on_inotifies h F u st)"
proof -
  have "fd_table F (st\<lparr>inotifies := s', fd_world := w'\<rparr>) (d, k) = fd_table F st (d, k)"
    if "d \<noteq> KInotify" for d k
    using that by (cases d) simp_all
  then show ?thesis
    using ledger_step_lift [OF assms(2), of "fd_table F st" KInotify
        "fd_table F (st\<lparr>inotifies := s', fd_world := w'\<rparr>)"] assms(1)
    by (simp add: steps_def on_inotifies_def)
qed

lemma steps_idle:
  "tab eventfd_fd sl s' = tab eventfd_fd sl s \<and> open_fds w' = open_fds w \<Longrightarrow>
   ledger_step (tab eventfd_fd sl s, open_fds w) (tab eventfd_fd sl s', open_fds w')"
  "tab timerfd_fd ts t' = tab timerfd_fd ts t \<and> open_fds w' = open_fds w \<Longrightarrow>
   ledger_step (tab timerfd_fd ts t, open_fds w) (tab timerfd_fd ts t', open_fds w')"
  "tab signalfd_fd gs g' = tab signalfd_fd gs g \<and> open_fds w' = open_fds w \<Longrightarrow>
   ledger_step (tab signalfd_fd gs g, open_fds w) (tab signalfd_fd gs g', open_fds w')"
  "tab inotify_fd ns i' = tab inotify_fd ns i \<and> open_fds w' = open_fds w \<Longrightarrow>
   ledger_step (tab inotify_fd ns i, open_fds w) (tab inotify_fd ns i', open_fds w')"
  by (auto intro: ledger_idle)

lemma eventfd_arms:
  "steps st (on_eventfds handle_eventfd_create F u st)"
  "steps st (on_eventfds handle_eventfd_read F u st)"
  "steps st (on_eventfds handle_eventfd_write F u st)"
  "steps st (on_eventfds handle_eventfd_close F u st)"
  subgoal
    by (cases "handle_eventfd_create (fd_libc F) (ev_slab F) u (eventfds st) (fd_world st)")
      (rule steps_eventfds, assumption, erule os.eventfd_create_step [OF ev.slab_axioms])
  subgoal
    by (cases "handle_eventfd_read (fd_libc F) (ev_slab F) u (eventfds st) (fd_world st)")
      (rule steps_eventfds, assumption, auto intro!: steps_idle dest: os.using_steps)
  subgoal
    by (cases "handle_eventfd_write (fd_libc F) (ev_slab F) u (eventfds st) (fd_world st)")
      (rule steps_eventfds, assumption, auto intro!: steps_idle dest: os.using_steps)
  subgoal
    by (cases "handle_eventfd_close (fd_libc F) (ev_slab F) u (eventfds st) (fd_world st)")
      (rule steps_eventfds, assumption, erule os.close_steps(1) [OF ev.slab_axioms])
  done

lemma timerfd_arms:
  "steps st (on_timerfds handle_timerfd_create F u st)"
  "steps st (on_timerfds handle_timerfd_settime F u st)"
  "steps st (on_timerfds handle_timerfd_gettime F u st)"
  "steps st (on_timerfds handle_timerfd_read F u st)"
  "steps st (on_timerfds handle_timerfd_close F u st)"
  subgoal
    by (cases "handle_timerfd_create (fd_libc F) (tm_slab F) u (timerfds st) (fd_world st)")
      (rule steps_timerfds, assumption, erule os.timerfd_create_step [OF tm.slab_axioms])
  subgoal
    by (cases "handle_timerfd_settime (fd_libc F) (tm_slab F) u (timerfds st) (fd_world st)")
      (rule steps_timerfds, assumption, auto intro!: steps_idle dest: os.using_steps)
  subgoal
    by (cases "handle_timerfd_gettime (fd_libc F) (tm_slab F) u (timerfds st) (fd_world st)")
      (rule steps_timerfds, assumption, auto intro!: steps_idle dest: os.using_steps)
  subgoal
    by (cases "handle_timerfd_read (fd_libc F) (tm_slab F) u (timerfds st) (fd_world st)")
      (rule steps_timerfds, assumption, auto intro!: steps_idle dest: os.using_steps)
  subgoal
    by (cases "handle_timerfd_close (fd_libc F) (tm_slab F) u (timerfds st) (fd_world st)")
      (rule steps_timerfds, assumption, erule os.close_steps(2) [OF tm.slab_axioms])
  done

lemma signalfd_arms:
  "ran (fd_table F st) \<subseteq> open_fds (fd_world st) \<Longrightarrow>
   steps st (on_signalfds handle_signalfd_create F u st)"
  "steps st (on_signalfds handle_signalfd_read F u st)"
  "steps st (on_signalfds handle_signalfd_close F u st)"
  subgoal
  proof -
    assume "ran (fd_table F st) \<subseteq> open_fds (fd_world st)"
    moreover have "ran (tab signalfd_fd (sg_slab F) (signalfds st)) \<subseteq> ran (fd_table F st)"
      by (auto simp: ran_def) (metis fd_table.simps(3))
    ultimately have owned:
      "ran (tab signalfd_fd (sg_slab F) (signalfds st)) \<subseteq> open_fds (fd_world st)"
      by blast
    show ?thesis
      by (cases "handle_signalfd_create (fd_libc F) (sg_slab F) u (signalfds st) (fd_world st)")
        (rule steps_signalfds, assumption,
          erule os.signalfd_create_step [OF sg.slab_axioms _ owned])
  qed
  subgoal
    by (cases "handle_signalfd_read (fd_libc F) (sg_slab F) u (signalfds st) (fd_world st)")
      (rule steps_signalfds, assumption, auto intro!: steps_idle dest: os.using_steps)
  subgoal
    by (cases "handle_signalfd_close (fd_libc F) (sg_slab F) u (signalfds st) (fd_world st)")
      (rule steps_signalfds, assumption, erule os.close_steps(3) [OF sg.slab_axioms])
  done

lemma inotify_arms:
  "steps st (on_inotifies handle_inotify_init F u st)"
  "steps st (on_inotifies handle_inotify_add_watch F u st)"
  "steps st (on_inotifies handle_inotify_rm_watch F u st)"
  "steps st (on_inotifies handle_inotify_read F u st)"
  "steps st (on_inotifies handle_inotify_close F u st)"
  subgoal
    by (cases "handle_inotify_init (fd_libc F) (in_slab F) u (inotifies st) (fd_world st)")
      (rule steps_inotifies, assumption, erule os.inotify_init_step [OF ny.slab_axioms])
  subgoal
    by (cases "handle_inotify_add_watch (fd_libc F) (in_slab F) u (inotifies st) (fd_world st)")
      (rule steps_inotifies, assumption, rule steps_idle, erule os.watch_steps [OF ny.slab_axioms])
  subgoal
    by (cases "handle_inotify_rm_watch (fd_libc F) (in_slab F) u (inotifies st) (fd_world st)")
      (rule steps_inotifies, assumption, rule steps_idle, erule os.watch_steps [OF ny.slab_axioms])
  subgoal
    by (cases "handle_inotify_read (fd_libc F) (in_slab F) u (inotifies st) (fd_world st)")
      (rule steps_inotifies, assumption, auto intro!: steps_idle dest: os.using_steps)
  subgoal
    by (cases "handle_inotify_close (fd_libc F) (in_slab F) u (inotifies st) (fd_world st)")
      (rule steps_inotifies, assumption, erule os.close_steps(4) [OF ny.slab_axioms])
  done

lemma steps_refl: "steps st (u, st)"
  by (simp add: steps_def ledger_idle)

lemmas dispatch_arms = eventfd_arms timerfd_arms signalfd_arms(2,3) inotify_arms steps_refl

lemma dispatch_steps:
  assumes "ran (fd_table F st) \<subseteq> open_fds (fd_world st)"
  shows "steps st (fd_dispatch F u st)"
  using signalfd_arms(1) [OF assms] by (simp add: fd_dispatch_def Let_def dispatch_arms)

definition fd_inv where
  "fd_inv st \<longleftrightarrow> ledger_ok (fd_table F st) (open_fds (fd_world st))"

lemma fd_inv_dispatch: "fd_inv st \<Longrightarrow> fd_inv (snd (fd_dispatch F u st))"
  using dispatch_steps [of st u]
  by (auto simp: fd_inv_def steps_def ledger_ok_def [of "fd_table F st"] dest!: ledger_step_ok)

lemma fd_table_init: "fd_table F (fd_init F w) = Map.empty"
proof
  fix p :: "fd_kind \<times> nat"
  obtain d k where "p = (d, k)"
    by (cases p)
  then show "fd_table F (fd_init F w) p = None"
    by (cases d) (simp_all add: fd_init_def tab_def ev.slab_get_new tm.slab_get_new
        sg.slab_get_new ny.slab_get_new)
qed

end

text \<open>Replies keep the register file in shape.\<close>

lemma handlers_wf:
  "wf_utcb n u \<Longrightarrow> wf_utcb n (fst (handle_eventfd_create E es u e w))"
  "wf_utcb n u \<Longrightarrow> wf_utcb n (fst (handle_eventfd_read E es u e w))"
  "wf_utcb n u \<Longrightarrow> wf_utcb n (fst (handle_eventfd_write E es u e w))"
  "wf_utcb n u \<Longrightarrow> wf_utcb n (fst (handle_eventfd_close E es u e w))"
  "wf_utcb n u \<Longrightarrow> wf_utcb n (fst (handle_timerfd_create E ts u t w))"
  "wf_utcb n u \<Longrightarrow> wf_utcb n (fst (handle_timerfd_settime E ts u t w))"
  "wf_utcb n u \<Longrightarrow> wf_utcb n (fst (handle_timerfd_gettime E ts u t w))"
  "wf_utcb n u \<Longrightarrow> wf_utcb n (fst (handle_timerfd_read E ts u t w))"
  "wf_utcb n u \<Longrightarrow> wf_utcb n (fst (handle_timerfd_close E ts u t w))"
  "wf_utcb n u \<Longrightarrow> wf_utcb n (fst (handle_signalfd_create E gs u g w))"
  "wf_utcb n u \<Longrightarrow> wf_utcb n (fst (handle_signalfd_read E gs u g w))"
  "wf_utcb n u \<Longrightarrow> wf_utcb n (fst (handle_signalfd_close E gs u g w))"
  "wf_utcb n u \<Longrightarrow> wf_utcb n (fst (handle_inotify_init E ns u i w))"
  "wf_utcb n u \<Longrightarrow> wf_utcb n (fst (handle_inotify_add_watch E ns u i w))"
  "wf_utcb n u \<Longrightarrow> wf_utcb n (fst (handle_inotify_rm_watch E ns u i w))"
  "wf_utcb n u \<Longrightarrow> wf_utcb n (fst (handle_inotify_read E ns u i w))"
  "wf_utcb n u \<Longrightarrow> wf_utcb n (fst (handle_inotify_close E ns u i w))"
  subgoal by (simp add: handle_eventfd_create_def split: prod.splits)
  subgoal by (simp add: handle_eventfd_read_def split: prod.splits option.splits)
  subgoal by (simp add: handle_eventfd_write_def Let_def split: prod.splits option.splits)
  subgoal by (simp add: handle_eventfd_close_def Let_def split: option.splits)
  subgoal by (simp add: handle_timerfd_create_def split: prod.splits)
  subgoal by (simp add: handle_timerfd_settime_def Let_def split: prod.splits option.splits)
  subgoal by (simp add: handle_timerfd_gettime_def Let_def split: prod.splits option.splits)
  subgoal by (simp add: handle_timerfd_read_def Let_def split: prod.splits option.splits)
  subgoal by (simp add: handle_timerfd_close_def Let_def split: option.splits)
  subgoal by (simp add: handle_signalfd_create_def Let_def split: prod.splits option.splits)
  subgoal by (simp add: handle_signalfd_read_def Let_def split: prod.splits option.splits)
  subgoal by (simp add: handle_signalfd_close_def Let_def split: option.splits)
  subgoal by (simp add: handle_inotify_init_def split: prod.splits)
  subgoal by (simp add: handle_inotify_add_watch_def Let_def split: prod.splits option.splits)
  subgoal by (simp add: handle_inotify_rm_watch_def Let_def split: prod.splits option.splits)
  subgoal by (simp add: handle_inotify_read_def Let_def split: prod.splits option.splits)
  subgoal by (simp add: handle_inotify_close_def Let_def split: option.splits)
  done

lemma fst_on_slabs [simp]:
  "fst (on_eventfds he F u st) = fst (he (fd_libc F) (ev_slab F) u (eventfds st) (fd_world st))"
  "fst (on_timerfds ht F u st) = fst (ht (fd_libc F) (tm_slab F) u (timerfds st) (fd_world st))"
  "fst (on_signalfds hg F u st) = fst (hg (fd_libc F) (sg_slab F) u (signalfds st) (fd_world st))"
  "fst (on_inotifies hn F u st) = fst (hn (fd_libc F) (in_slab F) u (inotifies st) (fd_world st))"
  by (simp_all add: on_eventfds_def on_timerfds_def on_signalfds_def on_inotifies_def
      split: prod.splits)

lemma fd_dispatch_wf: "wf_utcb n u \<Longrightarrow> wf_utcb n (fst (fd_dispatch F u st))"
  by (simp add: fd_dispatch_def Let_def handlers_wf)

sublocale fd_service \<subseteq> loop: ipc_server "fd_dispatch F" fd_inv n for n
proof
  show "fd_inv s \<Longrightarrow> wf_utcb n u \<Longrightarrow> fd_dispatch F u s = (u', s') \<Longrightarrow> fd_inv s'" for s u u' s'
    using fd_inv_dispatch [of s u] by simp
  show "fd_inv s \<Longrightarrow> wf_utcb n u \<Longrightarrow> fd_dispatch F u s = (u', s') \<Longrightarrow> wf_utcb n u'" for s u u' s'
    using fd_dispatch_wf [of n u F s] by simp
qed

context fd_service
begin

lemma run_inv:
  assumes "open_fds w = {}" and "list_all (\<lambda>(err, u). wf_utcb n u) msgs"
  shows "fd_inv (snd (ipc_loop (fd_dispatch F) msgs (fd_init F w))) \<and>
    list_all (wf_utcb n) (fst (ipc_loop (fd_dispatch F) msgs (fd_init F w)))"
proof -
  have "fd_inv (fd_init F w)"
    using assms(1) fd_table_init [of w] by (simp add: fd_inv_def fd_init_def)
  then show ?thesis
    using loop.loop_inv_wf assms(2) by blast
qed

end

section \<open>An operating system that meets the contract\<close>


definition demo_libc :: "(nat \<times> i32 list) libc_env" where
  "demo_libc = \<lparr>BR_WORDS = 58, EBADF = 9, EINVAL = 22, ENOSYS = 38, EIO = 5,
     sizeof_itimerspec = 32, last_os_error = (\<lambda>_. Some 11),
     libc_close = (\<lambda>fd w. (fst w, removeAll fd (snd w))),
     libc_read = (\<lambda>fd n w. ((word_of_nat n, replicate n 1), w)),
     libc_write = (\<lambda>fd bs w. (word_of_nat (length bs), w)),
     libc_eventfd = (\<lambda>_ _. demo_alloc), libc_timerfd_create = (\<lambda>_ _. demo_alloc),
     libc_timerfd_settime = (\<lambda>fd fl new old w. ((0, replicate 32 0), w)),
     libc_timerfd_gettime = (\<lambda>fd w. ((0, replicate 32 7), w)),
     libc_signalfd4 = (\<lambda>fd m n fl w. if fd = - 1 then (case demo_alloc w of (r, w') \<Rightarrow> (scast r, w'))
                                  else (scast fd, w)),
     libc_inotify_init1 = (\<lambda>_. demo_alloc),
     libc_inotify_add_watch = (\<lambda>_ _ _ w. (1, w)), libc_inotify_rm_watch = (\<lambda>_ _ w. (0, w))\<rparr>"

definition demo_env :: "(nat \<times> i32 list, eventfd option list, timerfd option list,
    signalfd option list, inotify option list) fd_env" where
  "demo_env = \<lparr>fd_libc = demo_libc, ev_slab = vec_slab, tm_slab = vec_slab, sg_slab = vec_slab,
     in_slab = vec_slab\<rparr>"

interpretation demo_libc: fd_os demo_libc demo_open
proof
  fix fd w w' n r bs n' fl r' m p msk wd wd' i c old
  show "demo_open (libc_close demo_libc fd w) = demo_open w - {fd}"
    by (auto simp: demo_libc_def demo_open_def)
  show "libc_eventfd demo_libc i fl w = (fd, w') \<Longrightarrow> opens_fresh demo_open fd w w'"
    and "libc_timerfd_create demo_libc c fl w = (fd, w') \<Longrightarrow> opens_fresh demo_open fd w w'"
    and "libc_inotify_init1 demo_libc fl w = (fd, w') \<Longrightarrow> opens_fresh demo_open fd w w'"
    by (simp_all add: demo_libc_def demo_alloc_fresh)
  show "libc_signalfd4 demo_libc (- 1) m n fl w = (n', w') \<Longrightarrow>
      opens_fresh demo_open (ucast n') w w'"
    by (auto simp: demo_libc_def ucast_scast_32 demo_alloc_fresh split: prod.splits)
  show "fd \<in> demo_open w \<Longrightarrow> libc_signalfd4 demo_libc fd m n fl w = (n', w') \<Longrightarrow>
      demo_open w' = demo_open w"
    by (auto simp: demo_libc_def demo_open_def split: if_splits)
qed (auto simp: demo_libc_def)

lemma demo_service: "fd_service demo_env demo_open"
  by (simp add: fd_service_def demo_env_def demo_libc.fd_os_axioms vs.slab_axioms)

interpretation demo: fd_service demo_env demo_open
  by (rule demo_service)

section \<open>Properties\<close>

lemma read_string_None: "read_string E u = None"
proof -
  have "0 \<in> set (if buf = [] \<or> last buf \<noteq> 0 then buf @ [0] else buf)" for buf :: "u8 list"
  proof (cases "buf = [] \<or> last buf \<noteq> 0")
    case True
    then show ?thesis by simp
  next
    case False
    then have "0 \<in> set buf"
      using last_in_set [of buf] by metis
    with False show ?thesis by simp
  qed
  then show ?thesis
    by (simp add: read_string_def Let_def cstring_new_def)
qed

text \<open>The kind of object an operation code with a handle argument addresses.\<close>

definition handle_kind :: "u64 \<Rightarrow> fd_kind option" where
  "handle_kind opc =
     (if opc \<in> {1, 2, 3} then Some KEvent else if opc \<in> {17, 18, 19, 20} then Some KTimer
      else if opc \<in> {33, 34} then Some KSignal else if opc \<in> {49, 50, 51, 52} then Some KInotify
      else None)"

text \<open>
  C4. The server neither leaks nor reuses descriptors: whatever well-formed messages arrive, the
  descriptors open on its behalf afterwards are exactly those its handles own, each owned by one
  handle; it answers every message that arrived without an IPC error, with a well-formed UTCB.
\<close>

theorem fd_run_ledger:
  assumes "fd_service F open_fds" and "open_fds w = {}"
    and "list_all (\<lambda>(err, u). wf_utcb n u) msgs"
    and "fd_run F (Some gate) 0 msgs w = Some (replies, st)"
  shows "ledger_ok (fd_table F st) (open_fds (fd_world st)) \<and> list_all (wf_utcb n) replies \<and>
    length replies = length (filter (\<lambda>(err, u). err = 0) msgs)"
proof -
  have run: "ipc_loop (fd_dispatch F) msgs (fd_init F w) = (replies, st)"
    using assms(4) by (simp add: fd_run_def)
  show ?thesis
    using fd_service.run_inv [OF assms(1,2,3)] run
      ipc_loop_answers_length [of "fd_dispatch F" msgs "fd_init F w"]
    by (simp add: fd_service.fd_inv_def [OF assms(1)])
qed


theorem fd_run_ledger_witness:
  "\<exists>replies st.
     fd_run demo_env (Some 7) 0 [(0, demo_utcb [0, 5, 0, 0]), (1, demo_utcb [3, 0, 0, 0])] (3, [])
       = Some (replies, st) \<and>
     ledger_ok (fd_table demo_env st) (demo_open (fd_world st)) \<and> length replies = 1"
proof -
  let ?msgs = "[(0, demo_utcb [0, 5, 0, 0]), (1, demo_utcb [3, 0, 0, 0])] :: (u64 \<times> utcb) list"
  obtain replies st where run: "fd_run demo_env (Some 7) 0 ?msgs (3, []) = Some (replies, st)"
    by (simp add: fd_run_def) (metis prod.collapse)
  have "list_all (\<lambda>(err, u). wf_utcb 58 u) ?msgs"
    by (simp add: wf_utcb_def demo_utcb_def)
  moreover have "demo_open (3, []) = {}"
    by (simp add: demo_open_def)
  ultimately show ?thesis
    using fd_run_ledger [OF demo_service _ _ run] run by auto
qed

text \<open>
  A handle that names no object of the addressed kind is answered with \<open>-EBADF\<close> and changes
  nothing: no table, no descriptor, and no register but the result and the emptied payload.
\<close>

theorem fd_dispatch_dead_handle:
  assumes "handle_kind (get_mr u 0) = Some k"
    and "fd_table F st (k, unat (get_mr u 1)) = None"
  shows "fd_dispatch F u st = (reply_errno (EBADF (fd_libc F)) u, st)"
proof -
  have opc: "get_mr u 0 \<in> {1, 2, 3, 17, 18, 19, 20, 33, 34, 49, 50, 51, 52}"
    using assms(1) by (auto simp: handle_kind_def split: if_splits)
  note defs = fd_dispatch_def handle_kind_def tab_def reply_errno_def
    on_eventfds_def on_timerfds_def on_signalfds_def on_inotifies_def
    handle_eventfd_read_def handle_eventfd_write_def handle_eventfd_close_def
    handle_timerfd_settime_def handle_timerfd_gettime_def handle_timerfd_read_def
    handle_timerfd_close_def handle_signalfd_read_def handle_signalfd_close_def
    handle_inotify_add_watch_def handle_inotify_rm_watch_def handle_inotify_read_def
    handle_inotify_close_def
  show ?thesis
    using opc assms by (elim insertE) (simp_all add: defs)
qed

theorem fd_dispatch_dead_handle_witness:
  "get_mr (fst (fd_dispatch demo_env (demo_utcb [17, 4, 0, 1]) (fd_init demo_env (3, [])))) 0 = - 9"
proof -
  have "fd_table demo_env (fd_init demo_env (3, [])) (KTimer, 4) = None"
    by (simp add: demo.fd_table_init)
  then show ?thesis
    using fd_dispatch_dead_handle [of "demo_utcb [17, 4, 0, 1]" KTimer demo_env
        "fd_init demo_env (3, [])"]
    by (simp add: handle_kind_def demo_utcb_def get_mr_def reply_errno_def br_clear_def set_mr_def
        set_br0_def neg_errno_def demo_env_def demo_libc_def)
qed

text \<open>
  A successful eventfd creation answers with the handle under which the new descriptor is
  filed: that handle was vacant, it now owns the descriptor the C library returned, and every
  other handle of every kind owns what it did before.
\<close>

theorem eventfd_create_handle:
  assumes "fd_service F open_fds" and "wf_utcb n u" and "get_mr u 0 = 0"
    and call: "libc_eventfd (fd_libc F) (ucast (get_mr u 1)) (ucast (get_mr u 2)) (fd_world st)
      = (fd, w')" and "0 \<le> sint fd"
    and slot: "slab_insert (ev_slab F) (eventfds st) \<lparr>eventfd_fd = fd\<rparr> = (k, s')" "k < 2 ^ 64"
    and "fd_dispatch F u st = (u', st')"
  shows "fd_table F st (KEvent, unat (get_mr u' 0)) = None \<and>
    fd_table F st' = (fd_table F st)((KEvent, unat (get_mr u' 0)) \<mapsto> fd) \<and> br0 u' = 0"
proof -
  have sl: "slab (ev_slab F)"
    using assms(1) by (simp add: fd_service_def)
  have u': "u' = br_clear (set_mr u 0 (word_of_nat k))"
    and st': "st' = st\<lparr>eventfds := s', fd_world := w'\<rparr>"
    using assms(3,5,8) call slot(1)
    by (auto simp: fd_dispatch_def on_eventfds_def handle_eventfd_create_def)
  have "unat (get_mr u' 0) = k"
    using wf_utcb_mr_length [OF assms(2), of 0] slot(2) u' by (simp add: br_clear_def unat_of_nat)
  moreover have "fd_table F st' (d, j) = ((fd_table F st)((KEvent, k) \<mapsto> fd)) (d, j)" for d j
    using slab.slab_get_insert [OF sl slot(1)] st' by (cases d) (simp_all add: tab_def)
  moreover have "br0 u' = 0"
    using wf_utcb_br_nonempty [OF assms(2)] u' by (simp add: br_clear_def)
  ultimately show ?thesis
    using slab.slab_insert_vacant [OF sl slot(1)] by (auto simp: tab_def fun_eq_iff)
qed

theorem eventfd_create_handle_witness:
  "\<exists>u' st'. fd_dispatch demo_env (demo_utcb [0, 5, 0, 0]) (fd_init demo_env (3, [])) = (u', st') \<and>
     fd_table demo_env st' = [(KEvent, unat (get_mr u' 0)) \<mapsto> 3]"
proof -
  let ?u = "demo_utcb [0, 5, 0, 0]" and ?st = "fd_init demo_env (3, [])"
  obtain u' st' where run: "fd_dispatch demo_env ?u ?st = (u', st')"
    by fastforce
  have "fd_table demo_env st' = (fd_table demo_env ?st)((KEvent, unat (get_mr u' 0)) \<mapsto> 3)"
    using eventfd_create_handle [OF demo_service, of 58 ?u ?st 3 "(4, [3])" 0
        "[Some \<lparr>eventfd_fd = 3\<rparr>]", OF _ _ _ _ _ _ run]
    by (simp add: demo_utcb_def get_mr_def wf_utcb_def demo_env_def demo_libc_def demo_alloc_def
        fd_init_def vec_slab_def vec_put_def)
  then show ?thesis
    using run by (simp add: demo.fd_table_init)
qed

text \<open>
  Round trip of a timer query: after a \<open>timerfd_gettime\<close> that the C library answers, the
  payload of the reply decodes to exactly the \<open>itimerspec\<close> the library filled in, the result
  register is 0 and the tables are as before.
\<close>

theorem timerfd_gettime_roundtrip:
  assumes "wf_utcb (BR_WORDS (fd_libc F)) u" and "BR_DATA_BYTES (fd_libc F) < 2 ^ 64"
    and "get_mr u 0 = 18"
    and entry: "slab_get (tm_slab F) (timerfds st) (unat (get_mr u 1)) = Some entry"
    and call: "libc_timerfd_gettime (fd_libc F) (timerfd_fd entry) (fd_world st) = ((res, cur), w')"
    and "0 \<le> sint res" and len: "length cur = sizeof_itimerspec (fd_libc F)"
    and fits: "sizeof_itimerspec (fd_libc F) \<le> BR_DATA_BYTES (fd_libc F)"
    and "fd_dispatch F u st = (u', st')"
  shows "read_itimerspec (fd_libc F) u' = Some cur \<and> get_mr u' 0 = 0 \<and>
    fd_table F st' = fd_table F st"
proof -
  have u': "u' = write_itimerspec (fd_libc F) cur (set_mr u 0 0)"
    and st': "st' = st\<lparr>fd_world := w'\<rparr>"
    using assms(3,6,9) entry call
    by (auto simp: fd_dispatch_def on_timerfds_def handle_timerfd_gettime_def)
  have "get_mr u' 0 = 0"
    using wf_utcb_mr_length [OF assms(1), of 0] u'
    by (simp add: write_itimerspec_def br_write_bytes_def Let_def)
  moreover have "read_itimerspec (fd_libc F) u' = Some cur"
    using br_read_exact_write [of "fd_libc F" "set_mr u 0 0" cur] assms(1,2) len fits u'
    by (simp add: read_itimerspec_def write_itimerspec_def)
  moreover have "fd_table F st' p = fd_table F st p" for p
    using st' by (cases "(F, st, p)" rule: fd_table.cases) simp_all
  ultimately show ?thesis
    by auto
qed

theorem timerfd_gettime_roundtrip_witness:
  "let st = \<lparr>eventfds = [], timerfds = [Some \<lparr>timerfd_fd = 3\<rparr>], signalfds = [], inotifies = [],
       fd_world = (4, [3])\<rparr>
   in read_itimerspec demo_libc (fst (fd_dispatch demo_env (demo_utcb [18, 0, 0, 0]) st))
      = Some (replicate 32 7)"
proof -
  let ?st = "\<lparr>eventfds = [], timerfds = [Some \<lparr>timerfd_fd = 3\<rparr>], signalfds = [], inotifies = [],
       fd_world = (4, [3])\<rparr> :: (nat \<times> i32 list, eventfd option list, timerfd option list,
         signalfd option list, inotify option list) fd_state"
  obtain u' st' where run: "fd_dispatch demo_env (demo_utcb [18, 0, 0, 0]) ?st = (u', st')"
    by fastforce
  have "read_itimerspec (fd_libc demo_env) u' = Some (replicate 32 7)"
    using timerfd_gettime_roundtrip [of demo_env "demo_utcb [18, 0, 0, 0]" ?st
        "\<lparr>timerfd_fd = 3\<rparr>" 0 "replicate 32 7" "(4, [3])", OF _ _ _ _ _ _ _ _ run]
    by (simp add: demo_utcb_def get_mr_def wf_utcb_def demo_env_def demo_libc_def vec_slab_def
        vec_get_def BR_DATA_BYTES_def)
  then show ?thesis
    using run by (simp add: demo_env_def)
qed

text \<open>
  No watch can be added: \<open>read_string\<close> always ends its buffer with a zero byte and then hands
  it to \<open>CString::new\<close>, which refuses any zero byte, so a request to add a watch is answered with
  \<open>-EBADF\<close> or \<open>-EINVAL\<close> whatever path it carries, and the C library is never called.
\<close>

theorem inotify_add_watch_refused:
  "handle_inotify_add_watch E sl u s w =
     (reply_errno (if slab_get sl s (unat (get_mr u 1)) = None then EBADF E else EINVAL E) u, s, w)"
  by (simp add: handle_inotify_add_watch_def read_string_None Let_def split: option.splits)

text \<open>
  The value of an eventfd or timerfd read never leaves the server: it is put into message
  register 1 (C library value \<open>v\<close>), and the reply carries one message register, which holds 0.
\<close>

theorem counter_read_not_sent:
  assumes "wf_utcb n u" and "get_mr u 0 = 1"
    and entry: "slab_get (ev_slab F) (eventfds st) (unat (get_mr u 1)) = Some entry"
    and call: "libc_read (fd_libc F) (eventfd_fd entry) 8 (fd_world st) = ((8, value), w')"
    and "fd_dispatch F u st = (u', st')"
  shows "get_mr u' 1 = word_of_nat (le_nat value) \<and> take fd_reply_words (utcb_mr u') = [0]"
proof -
  have u': "u' = br_clear (set_mr (set_mr u 0 0) 1 (word_of_nat (le_nat value)))"
    using assms(2,5) entry call
    by (auto simp: fd_dispatch_def on_eventfds_def handle_eventfd_read_def)
  have "1 < length (utcb_mr u)"
    using wf_utcb_mr_length [OF assms(1), of 1] by simp
  then obtain a b ms where "utcb_mr u = a # b # ms"
    by (cases "utcb_mr u" rule: remdups_adj.cases) auto
  then show ?thesis
    using u' by (simp add: br_clear_def get_mr_def set_mr_def set_br0_def fd_reply_words_def)
qed

theorem counter_read_not_sent_witness:
  "let st = \<lparr>eventfds = [Some \<lparr>eventfd_fd = 3\<rparr>], timerfds = [], signalfds = [], inotifies = [],
       fd_world = (4, [3])\<rparr>;
       u' = fst (fd_dispatch demo_env (demo_utcb [1, 0, 0, 0]) st)
   in get_mr u' 1 = 72340172838076673 \<and> take fd_reply_words (utcb_mr u') = [0]"
proof -
  let ?st = "\<lparr>eventfds = [Some \<lparr>eventfd_fd = 3\<rparr>], timerfds = [], signalfds = [], inotifies = [],
       fd_world = (4, [3])\<rparr> :: (nat \<times> i32 list, eventfd option list, timerfd option list,
         signalfd option list, inotify option list) fd_state"
  obtain u' st' where run: "fd_dispatch demo_env (demo_utcb [1, 0, 0, 0]) ?st = (u', st')"
    by fastforce
  have "get_mr u' 1 = word_of_nat (le_nat (replicate 8 1)) \<and> take fd_reply_words (utcb_mr u') = [0]"
    using counter_read_not_sent [of 58 "demo_utcb [1, 0, 0, 0]" demo_env ?st
        "\<lparr>eventfd_fd = 3\<rparr>" "replicate 8 1" "(4, [3])", OF _ _ _ _ run]
    by (simp add: demo_utcb_def get_mr_def wf_utcb_def demo_env_def demo_libc_def vec_slab_def
        vec_get_def)
  moreover have "replicate 8 (1 :: u8) = [1, 1, 1, 1, 1, 1, 1, 1]"
    by (simp add: eval_nat_numeral)
  ultimately show ?thesis
    using run by simp
qed

end
