(* ===== verification/Sched_Queue.thy ===== *)
theory Sched_Queue
  imports L4_Prelude "HOL-Library.Multiset"
begin

text \<open>
  What the two scheduler policies of \<open>src/crates/l4/scheduler\<close> share: the slice and vector
  operations of the standard library they call, with an indexing closure that may panic, and the
  contract of a sorted insertion. A ready queue is a vector of task identifiers kept in the order
  of a 64-bit key that a task table gives; the contract says what a search of such a vector
  returns, and the locale proves once that inserting at that position keeps the queue.
\<close>

section \<open>Library operations\<close>

datatype ordering = Less | Equal | Greater

definition cmp_u64 :: "u64 \<Rightarrow> u64 \<Rightarrow> ordering" where
  "cmp_u64 a b = (if a < b then Less else if a = b then Equal else Greater)"

text \<open>\<open>slice::binary_search_by\<close> halves the range without an early exit and compares once more at
  the end; \<open>None\<close> is a panic of the closure.\<close>

function bs_loop :: "('a \<Rightarrow> ordering option) \<Rightarrow> 'a list \<Rightarrow> nat \<Rightarrow> nat \<Rightarrow> nat option" where
  "bs_loop f xs base sz =
     (if sz \<le> 1 then Some base
      else let half = sz div 2; mid = base + half in do {
        c \<leftarrow> f (xs ! mid);
        bs_loop f xs (if c = Greater then base else mid) (sz - half)
      })"
  by pat_completeness auto
termination
  by (relation "measure (\<lambda>(f, xs, base, sz). sz)") auto

declare bs_loop.simps [simp del]

definition binary_search_by :: "('a \<Rightarrow> ordering option) \<Rightarrow> 'a list \<Rightarrow> (nat, nat) result option" where
  "binary_search_by f xs =
     (if xs = [] then Some (Inl 0)
      else do {
        base \<leftarrow> bs_loop f xs 0 (length xs);
        c \<leftarrow> f (xs ! base);
        Some (if c = Equal then Inr base else Inl (base + (if c = Less then 1 else 0)))
      })"

definition binary_search_by_key :: "('a \<Rightarrow> u64 option) \<Rightarrow> u64 \<Rightarrow> 'a list \<Rightarrow> (nat, nat) result option" where
  "binary_search_by_key key b xs = binary_search_by (\<lambda>x. map_option (\<lambda>k. cmp_u64 k b) (key x)) xs"

text \<open>\<open>unwrap_or_else(|e| e)\<close> on the result, and \<open>Vec::insert\<close>, which panics past the end.\<close>

definition either_pos :: "(nat, nat) result \<Rightarrow> nat" where
  "either_pos r = (case r of Inl e \<Rightarrow> e | Inr i \<Rightarrow> i)"

definition vec_insert :: "'a list \<Rightarrow> nat \<Rightarrow> 'a \<Rightarrow> 'a list option" where
  "vec_insert xs i v = (if i \<le> length xs then Some (take i xs @ v # drop i xs) else None)"

section \<open>The contract of a search\<close>

text \<open>The position splits a sorted vector: everything before it is at most the key, everything
  from it on at least the key.\<close>

definition splits_at :: "('a \<Rightarrow> u64) \<Rightarrow> u64 \<Rightarrow> 'a list \<Rightarrow> nat \<Rightarrow> bool" where
  "splits_at key k xs i \<longleftrightarrow> i \<le> length xs \<and>
     (\<forall>x \<in> set (take i xs). key x \<le> k) \<and> (\<forall>x \<in> set (drop i xs). k \<le> key x)"

locale key_search =
  fixes search :: "('a \<Rightarrow> u64 option) \<Rightarrow> u64 \<Rightarrow> 'a list \<Rightarrow> (nat, nat) result option"
  assumes search_splits:
    "\<forall>x \<in> set xs. key x \<noteq> None \<Longrightarrow> sorted (map (\<lambda>x. the (key x)) xs) \<Longrightarrow>
     \<exists>r. search key k xs = Some r \<and> splits_at (\<lambda>x. the (key x)) k xs (either_pos r)"
    and search_total: "\<forall>x \<in> set xs. key x \<noteq> None \<Longrightarrow>
     \<exists>r. search key k xs = Some r \<and> either_pos r \<le> length xs"
begin

definition queue_insert :: "('a \<Rightarrow> u64 option) \<Rightarrow> 'a \<Rightarrow> 'a list \<Rightarrow> 'a list option" where
  "queue_insert key x xs = do {
     k \<leftarrow> key x;
     r \<leftarrow> search key k xs;
     vec_insert xs (either_pos r) x
   }"

lemma queue_insert_sorted:
  assumes "\<forall>y \<in> set (x # xs). key y \<noteq> None" and "sorted (map (\<lambda>y. the (key y)) xs)"
  shows "\<exists>i. i \<le> length xs \<and> queue_insert key x xs = Some (take i xs @ x # drop i xs) \<and>
    sorted (map (\<lambda>y. the (key y)) (take i xs @ x # drop i xs))"
proof -
  let ?key = "\<lambda>y. the (key y)"
  obtain k where k: "key x = Some k"
    using assms(1) by auto
  obtain r where r: "search key k xs = Some r" and sp: "splits_at ?key k xs (either_pos r)"
    using search_splits [of xs key k] assms by auto
  let ?i = "either_pos r"
  have le: "?i \<le> length xs" and lo: "\<forall>y \<in> set (take ?i xs). ?key y \<le> k"
    and hi: "\<forall>y \<in> set (drop ?i xs). k \<le> ?key y"
    using sp by (simp_all add: splits_at_def)
  have "sorted (map ?key (take ?i xs @ drop ?i xs))"
    using assms(2) by simp
  then have "sorted (map ?key (take ?i xs @ x # drop ?i xs))"
    using lo hi k unfolding map_append sorted_append by (fastforce simp: sorted_append)
  moreover have "queue_insert key x xs = Some (take ?i xs @ x # drop ?i xs)"
    using k r le by (simp add: queue_insert_def vec_insert_def)
  ultimately show ?thesis
    using le by blast
qed

text \<open>On a vector that is not sorted the position is still one of the vector.\<close>

lemma queue_insert_total:
  assumes "\<forall>y \<in> set (x # xs). key y \<noteq> None"
  shows "\<exists>ys. queue_insert key x xs = Some ys"
proof -
  obtain k where k: "key x = Some k"
    using assms by auto
  obtain r where "search key k xs = Some r" "either_pos r \<le> length xs"
    using search_total [of xs key k] assms by auto
  then show ?thesis
    using k by (simp add: queue_insert_def vec_insert_def)
qed

lemma queue_insert_elems:
  assumes "queue_insert key x xs = Some ys"
  shows "set ys = insert x (set xs) \<and> (distinct ys \<longleftrightarrow> distinct xs \<and> x \<notin> set xs) \<and>
    mset ys = add_mset x (mset xs)"
proof -
  obtain i where ys: "ys = take i xs @ x # drop i xs"
    using assms by (auto simp: queue_insert_def vec_insert_def split: bind_splits if_splits)
  have "mset (take i xs) + mset (drop i xs) = mset xs"
    by (metis append_take_drop_id mset_append)
  then have m: "mset ys = add_mset x (mset xs)"
    using ys by simp
  then have "mset ys = mset (x # xs)"
    by simp
  then show ?thesis
    using m mset_eq_setD [of ys "x # xs"] mset_eq_imp_distinct_iff [of ys "x # xs"] by auto
qed

end

section \<open>The library search meets the contract\<close>

lemma cmp_u64_simps [simp]:
  "cmp_u64 a b = Less \<longleftrightarrow> a < b" "cmp_u64 a b = Equal \<longleftrightarrow> a = b"
  "cmp_u64 a b = Greater \<longleftrightarrow> b < a"
  by (auto simp: cmp_u64_def)

text \<open>The loop invariant: what lies before \<open>base\<close> is at most the key, what lies from
  \<open>base + sz\<close> on is above it.\<close>

lemma bs_loop_splits:
  assumes f: "\<forall>x \<in> set xs. f x = Some (cmp_u64 (g x) k)" and srt: "sorted (map g xs)"
    and "0 < sz" and "base + sz \<le> length xs"
    and "\<forall>i < base. g (xs ! i) \<le> k" and "\<forall>i < length xs. base + sz \<le> i \<longrightarrow> k \<le> g (xs ! i)"
  shows "\<exists>b. bs_loop f xs base sz = Some b \<and> b < length xs \<and>
    (\<forall>i < b. g (xs ! i) \<le> k) \<and> (\<forall>i < length xs. b < i \<longrightarrow> k \<le> g (xs ! i))"
  using assms(3-6)
proof (induction sz arbitrary: base rule: less_induct)
  case (less sz)
  have mono: "g (xs ! i) \<le> g (xs ! j)" if "i \<le> j" "j < length xs" for i j
    using sorted_nth_mono [OF srt, of i j] that by simp
  show ?case
  proof (cases "sz \<le> 1")
    case True
    then show ?thesis
      using less.prems by (auto simp: bs_loop.simps)
  next
    case False
    define mid where "mid = base + sz div 2"
    have mid: "mid < length xs"
      using less.prems False by (simp add: mid_def)
    then have cmp: "f (xs ! mid) = Some (cmp_u64 (g (xs ! mid)) k)"
      using f nth_mem by blast
    define base' where "base' = (if k < g (xs ! mid) then base else mid)"
    have step: "bs_loop f xs base sz = bs_loop f xs base' (sz - sz div 2)"
      using False cmp by (subst bs_loop.simps) (simp add: mid_def base'_def Let_def)
    have "\<forall>i < base'. g (xs ! i) \<le> k"
      using less.prems(3) mono [OF _ mid] order_trans [of "g (xs ! _)" "g (xs ! mid)" k]
      by (simp add: base'_def not_less less_imp_le)
    moreover have "\<forall>i < length xs. base' + (sz - sz div 2) \<le> i \<longrightarrow> k \<le> g (xs ! i)"
    proof (cases "k < g (xs ! mid)")
      case True
      have "mid \<le> base + (sz - sz div 2)"
        by (simp add: mid_def)
      then show ?thesis
        using mono True by (auto simp: base'_def) (meson order_less_imp_le order_trans)
    next
      case False
      then show ?thesis
        using less.prems(4) by (auto simp: base'_def mid_def)
    qed
    moreover have "base' + (sz - sz div 2) \<le> length xs"
      using less.prems by (auto simp: base'_def mid_def)
    ultimately show ?thesis
      using less.IH [of "sz - sz div 2" base'] False step by auto
  qed
qed

lemma splits_at_nth:
  assumes "i \<le> length xs" and "\<forall>j < i. g (xs ! j) \<le> k"
    and "\<forall>j < length xs. i \<le> j \<longrightarrow> k \<le> g (xs ! j)"
  shows "splits_at g k xs i"
proof -
  have "k \<le> g x" if x: "x \<in> set (drop i xs)" for x
  proof -
    obtain j where "j < length (drop i xs)" "drop i xs ! j = x"
      using x unfolding in_set_conv_nth by blast
    then show ?thesis
      using assms(1,3) by auto
  qed
  moreover have "g x \<le> k" if "x \<in> set (take i xs)" for x
    using that assms(1,2) by (auto simp: in_set_conv_nth)
  ultimately show ?thesis
    using assms(1) by (simp add: splits_at_def)
qed

lemma binary_search_splits:
  assumes tot: "\<forall>x \<in> set xs. key x \<noteq> None" and srt: "sorted (map (\<lambda>x. the (key x)) xs)"
  shows "\<exists>r. binary_search_by_key key k xs = Some r \<and>
    splits_at (\<lambda>x. the (key x)) k xs (either_pos r)"
proof (cases "xs = []")
  case True
  then show ?thesis
    by (simp add: binary_search_by_key_def binary_search_by_def either_pos_def splits_at_def)
next
  case False
  let ?g = "\<lambda>x. the (key x)" and ?f = "\<lambda>x. map_option (\<lambda>v. cmp_u64 v k) (key x)"
  have f: "\<forall>x \<in> set xs. ?f x = Some (cmp_u64 (?g x) k)"
    using tot by auto
  obtain b where b: "bs_loop ?f xs 0 (length xs) = Some b" "b < length xs"
    and lo: "\<forall>i < b. ?g (xs ! i) \<le> k" and hi: "\<forall>i < length xs. b < i \<longrightarrow> k \<le> ?g (xs ! i)"
    using bs_loop_splits [OF f srt, of "length xs" 0] False by auto
  define c where "c = cmp_u64 (?g (xs ! b)) k"
  have c: "?f (xs ! b) = Some c"
    using f nth_mem [OF b(2)] by (simp add: c_def)
  define i where "i = b + (if c = Less then 1 else 0)"
  have "\<exists>r. binary_search_by ?f xs = Some r \<and> either_pos r = i"
    using False b(1) c by (auto simp: binary_search_by_def either_pos_def i_def)
  moreover have "splits_at ?g k xs i"
    using b(2) lo hi
    by (intro splits_at_nth) (auto simp: i_def c_def less_Suc_eq not_less Suc_le_eq le_less)
  ultimately show ?thesis
    by (auto simp: binary_search_by_key_def)
qed

lemma bs_loop_total:
  "\<forall>x \<in> set xs. f x \<noteq> None \<Longrightarrow> 0 < sz \<Longrightarrow> base + sz \<le> length xs \<Longrightarrow>
   \<exists>b. bs_loop f xs base sz = Some b \<and> b < length xs"
proof (induction f xs base sz rule: bs_loop.induct)
  case (1 f xs base sz)
  show ?case
  proof (cases "sz \<le> 1")
    case True
    then show ?thesis
      using "1.prems" by (simp add: bs_loop.simps)
  next
    case False
    then have "base + sz div 2 < length xs"
      using "1.prems" by simp
    then obtain c where "f (xs ! (base + sz div 2)) = Some c"
      using "1.prems"(1) nth_mem by blast
    then show ?thesis
      using False "1.IH" [OF False refl refl, of c] "1.prems"
      by (subst bs_loop.simps) (auto simp: Let_def)
  qed
qed

lemma binary_search_total:
  assumes "\<forall>x \<in> set xs. key x \<noteq> None"
  shows "\<exists>r. binary_search_by_key key k xs = Some r \<and> either_pos r \<le> length xs"
proof (cases "xs = []")
  case True
  then show ?thesis
    by (simp add: binary_search_by_key_def binary_search_by_def either_pos_def)
next
  case False
  let ?f = "\<lambda>x. map_option (\<lambda>v. cmp_u64 v k) (key x)"
  have f: "\<forall>x \<in> set xs. ?f x \<noteq> None"
    using assms by auto
  obtain b where b: "bs_loop ?f xs 0 (length xs) = Some b" "b < length xs"
    using bs_loop_total [OF f, of "length xs" 0] False by auto
  then obtain c where "?f (xs ! b) = Some c"
    using f nth_mem by blast
  then show ?thesis
    using False b by (auto simp: binary_search_by_key_def binary_search_by_def either_pos_def)
qed

interpretation std_search: key_search binary_search_by_key
  by unfold_locales (rule binary_search_splits binary_search_total; assumption)+

text \<open>The insertion both policies perform, \<open>insert_ready_sorted\<close> without the task table around
  it.\<close>

lemmas std_insert = std_search.queue_insert_sorted std_search.queue_insert_elems

end
