(* ===== verification/Linux_Like.thy ===== *)
theory Linux_Like
  imports Sched_Queue
begin

text \<open>
  The weighted fair scheduler, \<open>src/crates/l4/scheduler/linux_like.rs\<close>. Every operation returns
  \<open>None\<close> where the source panics (an unknown task, a zero weight, an arithmetic overflow when the
  build checks for it). The calls of the kernel's \<open>run_thread\<close> are recorded in order.
\<close>

definition BASE_SLICE :: u64 where
  "BASE_SLICE = 5"

record ll_task =
  weight :: u64
  vruntime :: u64
  runtime :: u64
  lt_thread_cap :: u64
  time_slice :: u64
  remaining :: u64

record linux_like =
  ll_scheduler_cap :: u64
  ll_tasks :: "nat \<rightharpoonup> ll_task"
  ll_ready :: "nat list"
  ll_current :: "nat option"
  ll_runs :: "(u64 \<times> u64) list"

definition ll_new :: "u64 \<Rightarrow> linux_like" where
  "ll_new scheduler_cap = \<lparr>ll_scheduler_cap = scheduler_cap, ll_tasks = Map.empty, ll_ready = [],
     ll_current = None, ll_runs = []\<rparr>"

definition ll_add_task :: "bool \<Rightarrow> nat \<Rightarrow> u64 \<Rightarrow> u64 \<Rightarrow> linux_like \<Rightarrow> linux_like option" where
  "ll_add_task oc tid w thread_cap s = do {
     p \<leftarrow> op_mul oc BASE_SLICE w;
     let slice = p div 1024;
     let task = \<lparr>weight = w, vruntime = 0, runtime = 0, lt_thread_cap = thread_cap,
                 time_slice = slice, remaining = slice\<rparr>;
     Some (s\<lparr>ll_tasks := (ll_tasks s)(tid \<mapsto> task)\<rparr>)
   }"

definition ll_key :: "linux_like \<Rightarrow> nat \<Rightarrow> u64 option" where
  "ll_key s tid = map_option vruntime (ll_tasks s tid)"

definition ll_insert_ready_sorted :: "nat \<Rightarrow> linux_like \<Rightarrow> linux_like option" where
  "ll_insert_ready_sorted tid s = do {
     vr \<leftarrow> ll_key s tid;
     r \<leftarrow> binary_search_by (\<lambda>x. map_option (\<lambda>v. cmp_u64 v vr) (ll_key s x)) (ll_ready s);
     ready \<leftarrow> vec_insert (ll_ready s) (either_pos r) tid;
     Some (s\<lparr>ll_ready := ready\<rparr>)
   }"

definition ll_run_next :: "linux_like \<Rightarrow> linux_like option" where
  "ll_run_next s =
     (case ll_ready s of
        [] \<Rightarrow> Some s
      | next # rest \<Rightarrow> do {
          task \<leftarrow> ll_tasks s next;
          Some (s\<lparr>ll_ready := rest,
                  ll_tasks := (ll_tasks s)(next \<mapsto> task\<lparr>remaining := time_slice task\<rparr>),
                  ll_current := Some next,
                  ll_runs := ll_runs s @ [(ll_scheduler_cap s, lt_thread_cap task)]\<rparr>)
        })"

definition ll_preempt :: "linux_like \<Rightarrow> linux_like option" where
  "ll_preempt s = do {
     s \<leftarrow> (case ll_current s of
            Some cur \<Rightarrow> ll_insert_ready_sorted cur (s\<lparr>ll_current := None\<rparr>)
          | None \<Rightarrow> Some s);
     ll_run_next s
   }"

definition ll_make_ready :: "nat \<Rightarrow> linux_like \<Rightarrow> linux_like option" where
  "ll_make_ready tid s =
     (if ll_current s = Some tid \<or> tid \<in> set (ll_ready s) then Some s
      else do {
        s \<leftarrow> ll_insert_ready_sorted tid s;
        (case ll_current s of
           Some cur \<Rightarrow> do {
             vid \<leftarrow> ll_key s tid;
             vcur \<leftarrow> ll_key s cur;
             if vid < vcur then ll_preempt s else Some s
           }
         | None \<Rightarrow> ll_run_next s)
      })"

definition ll_tick :: "bool \<Rightarrow> linux_like \<Rightarrow> linux_like option" where
  "ll_tick oc s =
     (case ll_current s of
        Some cur \<Rightarrow> do {
          t \<leftarrow> ll_tasks s cur;
          run \<leftarrow> op_add oc (runtime t) 1;
          q \<leftarrow> op_div 1024 (weight t);
          let inc = max 1 q;
          vr \<leftarrow> op_add oc (vruntime t) inc;
          rem \<leftarrow> op_sub oc (remaining t) 1;
          let t' = t\<lparr>runtime := run, vruntime := vr, remaining := rem\<rparr>;
          let s' = s\<lparr>ll_tasks := (ll_tasks s)(cur \<mapsto> t')\<rparr>;
          (if rem = 0 then ll_preempt s' else Some s')
        }
      | None \<Rightarrow> ll_run_next s)"

definition ll_task_runtime :: "nat \<Rightarrow> linux_like \<Rightarrow> u64 option" where
  "ll_task_runtime tid s = map_option runtime (ll_tasks s tid)"

fun ll_ticks :: "bool \<Rightarrow> nat \<Rightarrow> linux_like \<Rightarrow> linux_like option" where
  "ll_ticks oc 0 s = Some s"
| "ll_ticks oc (Suc n) s = do { s \<leftarrow> ll_tick oc s; ll_ticks oc n s }"

section \<open>The scheduler's invariant\<close>

text \<open>The ready queue holds known tasks, each once, in the order of their virtual run time; the
  running task is known and not queued; nothing waits while nothing runs; every task has a
  weight whose slice is not 0, and the running task has some of its slice left.\<close>

definition ll_queue_ok :: "linux_like \<Rightarrow> bool" where
  "ll_queue_ok s \<longleftrightarrow>
     (\<forall>x \<in> set (ll_ready s). ll_key s x \<noteq> None) \<and> distinct (ll_ready s) \<and>
     sorted (map (\<lambda>x. the (ll_key s x)) (ll_ready s))"

definition ll_tasks_ok :: "linux_like \<Rightarrow> bool" where
  "ll_tasks_ok s \<longleftrightarrow> (\<forall>tid t. ll_tasks s tid = Some t \<longrightarrow> weight t \<noteq> 0 \<and> time_slice t \<noteq> 0)"

definition ll_inv :: "linux_like \<Rightarrow> bool" where
  "ll_inv s \<longleftrightarrow> ll_queue_ok s \<and> ll_tasks_ok s \<and>
     (case ll_current s of
        None \<Rightarrow> ll_ready s = []
      | Some cur \<Rightarrow> cur \<notin> set (ll_ready s) \<and>
          (\<exists>t. ll_tasks s cur = Some t \<and> remaining t \<noteq> 0))"

lemma ll_queue_cong:
  assumes "ll_queue_ok s" and "ll_ready s' = ll_ready s"
    and key: "\<And>x. x \<in> set (ll_ready s) \<Longrightarrow> ll_key s' x = ll_key s x"
  shows "ll_queue_ok s'"
proof -
  have "map (\<lambda>x. the (ll_key s' x)) (ll_ready s) = map (\<lambda>x. the (ll_key s x)) (ll_ready s)"
    by (simp add: key)
  then show ?thesis
    using assms unfolding ll_queue_ok_def by (simp only: simp_thms) (metis key)
qed

text \<open>Sorted insertion, through the search contract.\<close>

lemma ll_insert_ok:
  assumes "ll_queue_ok s" and "ll_key s tid \<noteq> None" and "tid \<notin> set (ll_ready s)"
  shows "\<exists>ready. ll_insert_ready_sorted tid s = Some (s\<lparr>ll_ready := ready\<rparr>) \<and>
    ll_queue_ok (s\<lparr>ll_ready := ready\<rparr>) \<and> mset ready = add_mset tid (mset (ll_ready s))"
proof -
  have pre: "\<forall>y \<in> set (tid # ll_ready s). ll_key s y \<noteq> None"
    and srt: "sorted (map (\<lambda>y. the (ll_key s y)) (ll_ready s))"
    using assms by (auto simp: ll_queue_ok_def)
  obtain i where i: "i \<le> length (ll_ready s)"
    and q: "std_search.queue_insert (ll_key s) tid (ll_ready s) =
      Some (take i (ll_ready s) @ tid # drop i (ll_ready s))"
    and srt': "sorted (map (\<lambda>y. the (ll_key s y)) (take i (ll_ready s) @ tid # drop i (ll_ready s)))"
    using std_search.queue_insert_sorted [OF pre srt] by blast
  let ?ready = "take i (ll_ready s) @ tid # drop i (ll_ready s)"
  have keys: "ll_key (s\<lparr>ll_ready := ?ready\<rparr>) = ll_key s"
    by (simp add: ll_key_def fun_eq_iff)
  have "ll_insert_ready_sorted tid s = Some (s\<lparr>ll_ready := ?ready\<rparr>)"
    using q
    by (auto simp: ll_insert_ready_sorted_def std_search.queue_insert_def binary_search_by_key_def
        bind_eq_Some_conv)
  moreover have "ll_queue_ok (s\<lparr>ll_ready := ?ready\<rparr>)"
    using std_search.queue_insert_elems [OF q] keys srt' pre assms
    unfolding ll_queue_ok_def by auto
  ultimately show ?thesis
    using std_search.queue_insert_elems [OF q] by blast
qed

text \<open>Dispatching rewrites nothing of a task but the rest of its slice.\<close>

definition ll_frame :: "linux_like \<Rightarrow> linux_like \<Rightarrow> bool" where
  "ll_frame s s' \<longleftrightarrow> (\<forall>x. map_option (remaining_update (\<lambda>_. 0)) (ll_tasks s' x) =
     map_option (remaining_update (\<lambda>_. 0)) (ll_tasks s x))"

lemma ll_frame_refl [simp]: "ll_frame s s"
  by (simp add: ll_frame_def)

lemma ll_frame_trans: "ll_frame s s' \<Longrightarrow> ll_frame s' s'' \<Longrightarrow> ll_frame s s''"
  by (simp add: ll_frame_def)

lemma ll_frame_task:
  assumes "ll_frame s s'" and "ll_tasks s x = Some t"
  obtains t' where "ll_tasks s' x = Some t'" "weight t' = weight t" "vruntime t' = vruntime t"
    "runtime t' = runtime t" "time_slice t' = time_slice t"
proof -
  have eq: "map_option (remaining_update (\<lambda>_. 0)) (ll_tasks s' x) = Some (t\<lparr>remaining := 0\<rparr>)"
    using assms by (simp add: ll_frame_def)
  then obtain t' where t': "ll_tasks s' x = Some t'" "t'\<lparr>remaining := 0\<rparr> = t\<lparr>remaining := 0\<rparr>"
    by auto
  from t'(2) have "weight t' = weight t" "vruntime t' = vruntime t" "runtime t' = runtime t"
    "time_slice t' = time_slice t"
    by (cases t; cases t'; simp)+
  then show thesis
    using t'(1) that by blast
qed

lemma ll_frame_None: "ll_frame s s' \<Longrightarrow> ll_tasks s x = None \<Longrightarrow> ll_tasks s' x = None"
  by (metis ll_frame_def map_option_is_None)

lemma ll_frame_dom:
  assumes "ll_frame s s'"
  shows "dom (ll_tasks s') = dom (ll_tasks s)"
proof (intro set_eqI)
  fix x
  show "x \<in> dom (ll_tasks s') \<longleftrightarrow> x \<in> dom (ll_tasks s)"
    using ll_frame_None [OF assms, of x] ll_frame_task [OF assms, of x]
    by (cases "ll_tasks s x") auto
qed

lemma ll_frame_key:
  assumes "ll_frame s s'"
  shows "ll_key s' = ll_key s"
proof
  fix x
  show "ll_key s' x = ll_key s x"
    using ll_frame_None [OF assms, of x] ll_frame_task [OF assms, of x]
    by (cases "ll_tasks s x") (auto simp: ll_key_def)
qed

text \<open>\<open>run_next\<close> dispatches the head of the queue, the task with the least virtual run time, and
  gives it a whole slice.\<close>

lemma ll_run_next_ok:
  assumes "ll_queue_ok s" and "ll_tasks_ok s" and "ll_ready s = x # xs"
  obtains s' t where "ll_run_next s = Some s'" "ll_inv s'" "ll_current s' = Some x"
    "ll_ready s' = xs" "ll_frame s s'" "ll_tasks s' x = Some t" "remaining t = time_slice t"
    "\<forall>y \<in> set xs. the (ll_key s' x) \<le> the (ll_key s' y)"
proof -
  obtain t where t: "ll_tasks s x = Some t"
    using assms(1,3) by (auto simp: ll_queue_ok_def ll_key_def)
  let ?t = "t\<lparr>remaining := time_slice t\<rparr>"
  let ?s = "s\<lparr>ll_ready := xs, ll_tasks := (ll_tasks s)(x \<mapsto> ?t),
      ll_current := Some x, ll_runs := ll_runs s @ [(ll_scheduler_cap s, lt_thread_cap t)]\<rparr>"
  have run: "ll_run_next s = Some ?s"
    using assms(3) t by (simp add: ll_run_next_def)
  have fr: "ll_frame s ?s"
    using t by (simp add: ll_frame_def)
  have keys: "ll_key ?s = ll_key s"
    using fr by (rule ll_frame_key)
  have inv: "ll_inv ?s"
    using assms t keys unfolding ll_inv_def ll_queue_ok_def ll_tasks_ok_def by auto
  have least: "\<forall>y \<in> set xs. the (ll_key ?s x) \<le> the (ll_key ?s y)"
    using assms(1,3) keys unfolding ll_queue_ok_def by simp
  show thesis
    by (rule that [OF run inv _ _ fr _ _ least, of ?t]) simp_all
qed

lemma ll_run_next_call:
  assumes "ll_run_next s = Some s'" and "ll_current s = None" and "ll_current s' = Some x"
    and "ll_tasks s' x = Some t"
  shows "ll_runs s' = ll_runs s @ [(ll_scheduler_cap s, lt_thread_cap t)]"
  using assms by (auto simp: ll_run_next_def bind_eq_Some_conv split: list.splits)

lemma ll_preempt_ok:
  assumes "ll_queue_ok s" and "ll_tasks_ok s" and "ll_current s = Some cur"
    and "cur \<notin> set (ll_ready s)" and "ll_tasks s cur \<noteq> None"
  obtains s' x t where "ll_preempt s = Some s'" "ll_inv s'" "ll_current s' = Some x"
    "add_mset x (mset (ll_ready s')) = add_mset cur (mset (ll_ready s))" "ll_frame s s'"
    "ll_tasks s' x = Some t" "remaining t = time_slice t"
    "\<forall>y \<in> set (ll_ready s'). the (ll_key s' x) \<le> the (ll_key s' y)"
proof -
  let ?s = "s\<lparr>ll_current := None\<rparr>"
  have keys: "ll_key ?s = ll_key s"
    by (simp add: ll_key_def fun_eq_iff)
  have q: "ll_queue_ok ?s"
    using assms(1) keys unfolding ll_queue_ok_def by simp
  have "ll_key ?s cur \<noteq> None"
    using assms(5) by (simp add: ll_key_def)
  then obtain ready where ins: "ll_insert_ready_sorted cur ?s = Some (?s\<lparr>ll_ready := ready\<rparr>)"
    and q': "ll_queue_ok (?s\<lparr>ll_ready := ready\<rparr>)" and m: "mset ready = add_mset cur (mset (ll_ready s))"
    using ll_insert_ok [OF q, of cur] assms(4) by auto
  obtain x xs where ready: "ready = x # xs"
    using m by (cases ready) auto
  have "ll_tasks_ok (?s\<lparr>ll_ready := ready\<rparr>)"
    using assms(2) by (simp add: ll_tasks_ok_def)
  then obtain s' t where s': "ll_run_next (?s\<lparr>ll_ready := ready\<rparr>) = Some s'" "ll_inv s'"
    "ll_current s' = Some x" "ll_ready s' = xs" "ll_frame (?s\<lparr>ll_ready := ready\<rparr>) s'"
    "ll_tasks s' x = Some t" "remaining t = time_slice t"
    "\<forall>y \<in> set xs. the (ll_key s' x) \<le> the (ll_key s' y)"
    using ll_run_next_ok [OF q'] ready by auto
  have "ll_preempt s = Some s'"
    using assms(3) ins s'(1) by (simp add: ll_preempt_def)
  moreover have "ll_frame s s'"
    using s'(5) by (simp add: ll_frame_def)
  moreover have "add_mset x (mset (ll_ready s')) = add_mset cur (mset (ll_ready s))"
    using m ready s'(4) by simp
  ultimately show thesis
    using that s' by auto
qed


lemma ll_make_ready_ok:
  assumes "ll_inv s" and "ll_tasks s tid \<noteq> None"
  shows "\<exists>s'. ll_make_ready tid s = Some s' \<and> ll_inv s' \<and> ll_frame s s' \<and>
    set (ll_ready s') \<union> set_option (ll_current s') = insert tid (set (ll_ready s) \<union> set_option (ll_current s))"
proof (cases "ll_current s = Some tid \<or> tid \<in> set (ll_ready s)")
  case True
  then show ?thesis
    using assms(1) by (auto simp: ll_make_ready_def)
next
  case False
  have q: "ll_queue_ok s" and tk: "ll_tasks_ok s"
    using assms(1) by (simp_all add: ll_inv_def)
  have key: "ll_key s tid \<noteq> None"
    using assms(2) by (simp add: ll_key_def)
  obtain ready where ins: "ll_insert_ready_sorted tid s = Some (s\<lparr>ll_ready := ready\<rparr>)"
    and q': "ll_queue_ok (s\<lparr>ll_ready := ready\<rparr>)" and m: "mset ready = add_mset tid (mset (ll_ready s))"
    using ll_insert_ok [OF q key] False by auto
  let ?s = "s\<lparr>ll_ready := ready\<rparr>"
  have tk': "ll_tasks_ok ?s" and fr: "ll_frame s ?s"
    using tk by (simp_all add: ll_tasks_ok_def ll_frame_def)
  have set_ready: "set ready = insert tid (set (ll_ready s))"
    using m by (metis set_mset_add_mset_insert set_mset_mset)
  show ?thesis
  proof (cases "ll_current s")
    case None
    obtain x xs where ready: "ready = x # xs"
      using m by (cases ready) auto
    obtain s' t where s': "ll_run_next ?s = Some s'" "ll_inv s'" "ll_current s' = Some x"
      "ll_ready s' = xs" "ll_frame ?s s'"
      using ll_run_next_ok [OF q' tk', of x xs] ready by auto
    then show ?thesis
      using False None ins ready set_ready ll_frame_trans [OF fr s'(5)]
      by (auto simp: ll_make_ready_def)
  next
    case (Some cur)
    then obtain tc where cur: "ll_tasks s cur = Some tc" "cur \<notin> set (ll_ready s)" "remaining tc \<noteq> 0"
      using assms(1) by (auto simp: ll_inv_def)
    have notin: "cur \<notin> set ready"
      using set_ready cur(2) False Some by auto
    obtain vid where vid: "ll_key s tid = Some vid"
      using key by auto
    have mk: "ll_make_ready tid s = (if vid < vruntime tc then ll_preempt ?s else Some ?s)"
      using False ins Some cur(1) vid by (auto simp: ll_make_ready_def ll_key_def)
    show ?thesis
    proof (cases "vid < vruntime tc")
      case True
      have pre: "ll_current ?s = Some cur" "cur \<notin> set (ll_ready ?s)" "ll_tasks ?s cur \<noteq> None"
        using Some notin cur(1) by simp_all
      obtain s' x where s': "ll_preempt ?s = Some s'" "ll_inv s'" "ll_current s' = Some x"
        "add_mset x (mset (ll_ready s')) = add_mset cur (mset ready)" "ll_frame ?s s'"
        by (rule ll_preempt_ok [OF q' tk' pre]) simp
      have "insert x (set (ll_ready s')) = insert cur (set ready)"
        using arg_cong [OF s'(4), of set_mset] by simp
      then show ?thesis
        using mk True s' set_ready False Some ll_frame_trans [OF fr s'(5)] by auto
    next
      case False
      then show ?thesis
        using mk q' tk' Some notin cur(1,3) set_ready fr by (auto simp: ll_inv_def)
    qed
  qed
qed

text \<open>One tick of the running task, before the end of its slice is looked at.\<close>

definition ll_inc :: "ll_task \<Rightarrow> u64" where
  "ll_inc t = max 1 (1024 div weight t)"

definition ll_charge :: "nat \<Rightarrow> ll_task \<Rightarrow> linux_like \<Rightarrow> linux_like" where
  "ll_charge cur t s = s\<lparr>ll_tasks := (ll_tasks s)(cur \<mapsto> t\<lparr>runtime := runtime t + 1,
     vruntime := vruntime t + ll_inc t, remaining := remaining t - 1\<rparr>)\<rparr>"

lemma ll_tick_charge:
  assumes "ll_inv s" and "ll_current s = Some cur" and "ll_tasks s cur = Some t"
    and "oc \<Longrightarrow> unat (runtime t) + 1 < 2 ^ 64 \<and> unat (vruntime t) + unat (ll_inc t) < 2 ^ 64"
  shows "ll_tick oc s =
    (if remaining t = 1 then ll_preempt (ll_charge cur t s) else Some (ll_charge cur t s))"
proof -
  have "weight t \<noteq> 0" and "remaining t \<noteq> 0"
    using assms(1-3) by (auto simp: ll_inv_def ll_tasks_ok_def)
  moreover have "\<not> remaining t < 1"
    using \<open>remaining t \<noteq> 0\<close> by (simp add: word_less_1)
  moreover have "remaining t - 1 = 0 \<longleftrightarrow> remaining t = 1"
    by simp
  moreover have "op_add oc (runtime t) 1 = Some (runtime t + 1)"
    and "op_add oc (vruntime t) (ll_inc t) = Some (vruntime t + ll_inc t)"
    using assms(4) by (auto simp: op_add_def)
  ultimately show ?thesis
    using assms(2,3)
    by (auto simp: ll_tick_def op_div_def op_sub_def ll_charge_def ll_inc_def Let_def)
qed

lemma ll_charge_ok:
  assumes "ll_inv s" and "ll_current s = Some cur" and "ll_tasks s cur = Some t"
  shows "ll_queue_ok (ll_charge cur t s) \<and> ll_tasks_ok (ll_charge cur t s) \<and>
    (remaining t \<noteq> 1 \<longrightarrow> ll_inv (ll_charge cur t s))"
proof -
  let ?s = "ll_charge cur t s"
  have notin: "cur \<notin> set (ll_ready s)" and q: "ll_queue_ok s" and tk: "ll_tasks_ok s"
    using assms by (auto simp: ll_inv_def)
  have key: "ll_key ?s x = ll_key s x" if "x \<in> set (ll_ready s)" for x
    using that notin by (auto simp: ll_key_def ll_charge_def)
  have "ll_ready ?s = ll_ready s" and "ll_current ?s = ll_current s"
    by (simp_all add: ll_charge_def)
  then have "ll_queue_ok ?s"
    using ll_queue_cong [OF q] key by simp
  moreover have "ll_tasks_ok ?s"
    using tk assms(3) by (auto simp: ll_tasks_ok_def ll_charge_def)
  moreover have "\<exists>t'. ll_tasks ?s cur = Some t' \<and> remaining t' = remaining t - 1"
    by (simp add: ll_charge_def)
  ultimately show ?thesis
    using notin assms(2) \<open>ll_ready ?s = _\<close> \<open>ll_current ?s = _\<close> by (auto simp: ll_inv_def)
qed

lemma ll_tick_ok:
  assumes "ll_inv s" and "oc \<Longrightarrow> \<forall>x t. ll_tasks s x = Some t \<longrightarrow>
    unat (runtime t) + 1 < 2 ^ 64 \<and> unat (vruntime t) + unat (ll_inc t) < 2 ^ 64"
  shows "\<exists>s'. ll_tick oc s = Some s' \<and> ll_inv s' \<and> dom (ll_tasks s') = dom (ll_tasks s)"
proof (cases "ll_current s")
  case None
  then have "ll_tick oc s = Some s"
    using assms(1) by (simp add: ll_tick_def ll_inv_def ll_run_next_def)
  then show ?thesis
    using assms(1) by simp
next
  case (Some cur)
  then obtain t where t: "ll_tasks s cur = Some t" "cur \<notin> set (ll_ready s)"
    using assms(1) by (auto simp: ll_inv_def)
  note ch = ll_charge_ok [OF assms(1) Some t(1)]
  have d: "dom (ll_tasks (ll_charge cur t s)) = dom (ll_tasks s)"
    using t(1) by (auto simp: ll_charge_def)
  have tick: "ll_tick oc s =
      (if remaining t = 1 then ll_preempt (ll_charge cur t s) else Some (ll_charge cur t s))"
    using ll_tick_charge [OF assms(1) Some t(1)] assms(2) t(1) by blast
  show ?thesis
  proof (cases "remaining t = 1")
    case True
    obtain s' where "ll_preempt (ll_charge cur t s) = Some s'" "ll_inv s'"
      "ll_frame (ll_charge cur t s) s'"
      using ll_preempt_ok [of "ll_charge cur t s" cur] ch Some t by (auto simp: ll_charge_def)
    then show ?thesis
      using tick True d ll_frame_dom by auto
  next
    case False
    then show ?thesis
      using tick ch d by auto
  qed
qed

lemma ll_add_task_ok:
  assumes "ll_inv s" and "ll_tasks s tid = None" and "205 \<le> w" and "5 * unat w < 2 ^ 64"
  shows "\<exists>s'. ll_add_task oc tid w cap s = Some s' \<and> ll_inv s' \<and>
    dom (ll_tasks s') = insert tid (dom (ll_tasks s))"
proof -
  let ?task = "\<lparr>weight = w, vruntime = 0, runtime = 0, lt_thread_cap = cap,
     time_slice = 5 * w div 1024, remaining = 5 * w div 1024\<rparr>"
  have "unat (5 * w) = 5 * unat w"
    using assms(4) by (simp add: unat_word_ariths)
  moreover have "205 \<le> unat w"
    using assms(3) by (simp add: word_le_nat_alt)
  ultimately have "unat (5 * w div 1024) \<noteq> 0"
    by (simp add: unat_div)
  then have sl: "5 * w div 1024 \<noteq> 0" and "w \<noteq> 0"
    using \<open>205 \<le> unat w\<close> by auto
  let ?s = "s\<lparr>ll_tasks := (ll_tasks s)(tid \<mapsto> ?task)\<rparr>"
  have add: "ll_add_task oc tid w cap s = Some ?s"
    using assms(4) by (simp add: ll_add_task_def op_mul_def BASE_SLICE_def Let_def)
  have q: "ll_queue_ok s"
    using assms(1) by (simp add: ll_inv_def)
  have "ll_key ?s x = ll_key s x" if "x \<in> set (ll_ready s)" for x
  proof -
    have "ll_key s x \<noteq> None"
      using q that by (simp add: ll_queue_ok_def)
    then show ?thesis
      using assms(2) by (auto simp: ll_key_def)
  qed
  then have "ll_queue_ok ?s"
    by (intro ll_queue_cong [OF q]) simp_all
  moreover have "ll_tasks_ok ?s"
    using assms(1) sl \<open>w \<noteq> 0\<close> by (auto simp: ll_inv_def ll_tasks_ok_def)
  moreover have "cur \<noteq> tid" if "ll_current s = Some cur" for cur
    using that assms(1,2) by (auto simp: ll_inv_def)
  ultimately have "ll_inv ?s"
    using assms(1) by (cases "ll_current s") (auto simp: ll_inv_def)
  then show ?thesis
    using add by auto
qed


section \<open>Fairness\<close>

definition ll_runnable :: "linux_like \<Rightarrow> nat set" where
  "ll_runnable s = set (ll_ready s) \<union> set_option (ll_current s)"

definition ll_vr :: "linux_like \<Rightarrow> nat \<Rightarrow> nat" where
  "ll_vr s x = unat (the (ll_key s x))"

text \<open>The virtual time a whole slice of a task costs.\<close>

definition ll_lead :: "linux_like \<Rightarrow> nat \<Rightarrow> nat" where
  "ll_lead s x = (case ll_tasks s x of None \<Rightarrow> 0
     | Some t \<Rightarrow> unat (time_slice t) * unat (ll_inc t))"

text \<open>No runnable task is ahead of another by more than one of its own slices.\<close>

definition ll_fair :: "linux_like \<Rightarrow> bool" where
  "ll_fair s \<longleftrightarrow> (\<forall>a \<in> ll_runnable s. \<forall>b \<in> ll_runnable s. ll_vr s a \<le> ll_vr s b + ll_lead s a)"

text \<open>The running task is ahead of the queue by what it has used of its slice at most.\<close>

definition ll_cur_fair :: "linux_like \<Rightarrow> bool" where
  "ll_cur_fair s \<longleftrightarrow> (\<forall>c t. ll_current s = Some c \<longrightarrow> ll_tasks s c = Some t \<longrightarrow>
     remaining t \<le> time_slice t \<and>
     (\<forall>b \<in> set (ll_ready s). ll_vr s c \<le>
        ll_vr s b + (unat (time_slice t) - unat (remaining t)) * unat (ll_inc t)))"

text \<open>No counter overflows within \<open>n\<close> ticks.\<close>

definition ll_room :: "nat \<Rightarrow> linux_like \<Rightarrow> bool" where
  "ll_room n s \<longleftrightarrow> (\<forall>x t. ll_tasks s x = Some t \<longrightarrow>
     unat (runtime t) + n < 2 ^ 64 \<and> unat (vruntime t) + 1024 * n < 2 ^ 64)"

lemma ll_inc_le: "unat (ll_inc t) \<le> 1024"
proof -
  have "unat (1024 div weight t) \<le> 1024"
    by (simp add: unat_div)
  then show ?thesis
    by (simp add: ll_inc_def max_def)
qed

lemma ll_frame_lead:
  assumes "ll_frame s s'"
  shows "ll_lead s' x = ll_lead s x"
proof (cases "ll_tasks s x")
  case None
  then show ?thesis
    using ll_frame_None [OF assms] by (simp add: ll_lead_def)
next
  case (Some t)
  obtain t' where "ll_tasks s' x = Some t'" "weight t' = weight t" "time_slice t' = time_slice t"
    by (rule ll_frame_task [OF assms Some])
  then show ?thesis
    using Some by (simp add: ll_lead_def ll_inc_def)
qed

lemma ll_frame_vr: "ll_frame s s' \<Longrightarrow> ll_vr s' = ll_vr s"
  by (simp add: ll_vr_def ll_frame_key fun_eq_iff)

lemma ll_frame_room:
  assumes "ll_frame s s'" and "ll_room n s"
  shows "ll_room n s'"
proof (unfold ll_room_def, intro allI impI)
  fix x t'
  assume t': "ll_tasks s' x = Some t'"
  then obtain t where t: "ll_tasks s x = Some t"
    using ll_frame_None [OF assms(1), of x] by (cases "ll_tasks s x") auto
  obtain t'' where "ll_tasks s' x = Some t''" "vruntime t'' = vruntime t" "runtime t'' = runtime t"
    by (rule ll_frame_task [OF assms(1) t])
  then have "runtime t' = runtime t \<and> vruntime t' = vruntime t"
    using t' by simp
  then show "unat (runtime t') + n < 2 ^ 64 \<and> unat (vruntime t') + 1024 * n < 2 ^ 64"
    using assms(2) t by (auto simp: ll_room_def)
qed

text \<open>After a preemption the least task runs with a fresh slice, so fairness is re-established.\<close>

lemma ll_preempt_fair:
  assumes "ll_queue_ok s" and "ll_tasks_ok s" and "ll_current s = Some cur"
    and "cur \<notin> set (ll_ready s)" and "ll_tasks s cur \<noteq> None" and "ll_fair s" and "ll_room n s"
  shows "\<exists>s'. ll_preempt s = Some s' \<and> ll_inv s' \<and> ll_fair s' \<and> ll_cur_fair s' \<and> ll_room n s' \<and>
    ll_runnable s' = ll_runnable s"
proof -
  obtain s' x t where s': "ll_preempt s = Some s'" "ll_inv s'" "ll_current s' = Some x"
    "add_mset x (mset (ll_ready s')) = add_mset cur (mset (ll_ready s))" and fr: "ll_frame s s'"
    and t: "ll_tasks s' x = Some t" "remaining t = time_slice t"
    and least: "\<forall>y \<in> set (ll_ready s'). the (ll_key s' x) \<le> the (ll_key s' y)"
    using ll_preempt_ok [OF assms(1-5)] by blast
  have run: "ll_runnable s' = ll_runnable s"
    using arg_cong [OF s'(4), of set_mset] s'(3) assms(3) by (simp add: ll_runnable_def)
  then have "ll_fair s'"
    using assms(6) by (simp add: ll_fair_def ll_frame_vr [OF fr] ll_frame_lead [OF fr])
  moreover have "ll_cur_fair s'"
    using s'(3) t least by (simp add: ll_cur_fair_def ll_vr_def word_le_nat_alt)
  ultimately show ?thesis
    using s'(1,2) run ll_frame_room [OF fr assms(7)] by blast
qed

lemma ll_charge_vr:
  assumes "ll_tasks s cur = Some t" and "unat (vruntime t) + unat (ll_inc t) < 2 ^ 64"
  shows "ll_vr (ll_charge cur t s) x = ll_vr s x + (if x = cur then unat (ll_inc t) else 0)"
  using assms by (simp add: ll_vr_def ll_key_def ll_charge_def unat_word_ariths)

lemma ll_charge_fair:
  assumes inv: "ll_inv s" and cur: "ll_current s = Some cur" "ll_tasks s cur = Some t"
    and room: "unat (vruntime t) + unat (ll_inc t) < 2 ^ 64"
    and fair: "ll_fair s" "ll_cur_fair s"
  shows "ll_fair (ll_charge cur t s) \<and> ll_cur_fair (ll_charge cur t s)"
proof -
  let ?s = "ll_charge cur t s"
  let ?inc = "unat (ll_inc t)" and ?sl = "unat (time_slice t)" and ?rm = "unat (remaining t)"
  have cu: "remaining t \<le> time_slice t"
    "\<forall>b \<in> set (ll_ready s). ll_vr s cur \<le> ll_vr s b + (?sl - ?rm) * ?inc"
    using fair(2) cur by (auto simp: ll_cur_fair_def)
  have "remaining t \<noteq> 0" and notin: "cur \<notin> set (ll_ready s)"
    using inv cur by (auto simp: ll_inv_def)
  then have rm: "0 < ?rm" "?rm \<le> ?sl"
    using cu(1) by (simp_all add: word_le_nat_alt unat_gt_0)
  have rm': "unat (remaining t - 1) = ?rm - 1"
    using rm(1) by (simp add: unat_minus_one \<open>remaining t \<noteq> 0\<close>)
  have used: "(?sl - (?rm - 1)) * ?inc = (?sl - ?rm) * ?inc + ?inc"
    using rm by (simp add: Suc_diff_le flip: add_mult_distrib)
  have le: "(?sl - (?rm - 1)) * ?inc \<le> ?sl * ?inc"
    by simp
  note vr = ll_charge_vr [OF cur(2) room]
  have lead: "ll_lead ?s x = ll_lead s x" for x
    using cur(2) by (simp add: ll_lead_def ll_charge_def ll_inc_def)
  have lead_cur: "ll_lead s cur = ?sl * ?inc"
    using cur(2) by (simp add: ll_lead_def)
  have ready: "ll_ready ?s = ll_ready s" "ll_current ?s = ll_current s"
    by (simp_all add: ll_charge_def)
  have ahead: "ll_vr ?s cur \<le> ll_vr ?s b + (?sl - (?rm - 1)) * ?inc" if "b \<in> set (ll_ready s)" for b
    using cu(2) that vr notin used by fastforce
  have "ll_fair ?s"
    unfolding ll_fair_def
  proof (intro ballI)
    fix a b
    assume ab: "a \<in> ll_runnable ?s" "b \<in> ll_runnable ?s"
    show "ll_vr ?s a \<le> ll_vr ?s b + ll_lead ?s a"
    proof (cases "a = cur \<and> b \<noteq> cur")
      case True
      then have "b \<in> set (ll_ready s)"
        using ab(2) ready cur(1) by (auto simp: ll_runnable_def)
      then have "ll_vr ?s cur \<le> ll_vr ?s b + (?sl - (?rm - 1)) * ?inc"
        by (rule ahead)
      also have "\<dots> \<le> ll_vr ?s b + ?sl * ?inc"
        using le by (rule add_left_mono)
      finally show ?thesis
        using True lead [of cur] lead_cur by simp
    next
      case False
      have "ll_vr s a \<le> ll_vr s b + ll_lead s a"
        using fair(1) ab ready by (auto simp: ll_fair_def ll_runnable_def)
      then show ?thesis
        using False vr [of a] vr [of b] lead [of a] by (auto split: if_splits)
    qed
  qed
  moreover have "ll_cur_fair ?s"
  proof -
    have "ll_tasks ?s cur = Some (t\<lparr>runtime := runtime t + 1, vruntime := vruntime t + ll_inc t,
        remaining := remaining t - 1\<rparr>)"
      by (simp add: ll_charge_def)
    moreover have "remaining t - 1 \<le> time_slice t"
      using rm rm' by (simp add: word_le_nat_alt)
    ultimately show ?thesis
      using ahead cur(1) ready rm' by (auto simp: ll_cur_fair_def ll_inc_def)
  qed
  ultimately show ?thesis by blast
qed


lemma ll_tick_fair:
  assumes inv: "ll_inv s" and fair: "ll_fair s" "ll_cur_fair s" and room: "ll_room (Suc n) s"
  shows "\<exists>s'. ll_tick oc s = Some s' \<and> ll_inv s' \<and> ll_fair s' \<and> ll_cur_fair s' \<and> ll_room n s' \<and>
    ll_runnable s' = ll_runnable s"
proof (cases "ll_current s")
  case None
  then have "ll_tick oc s = Some s"
    using inv by (simp add: ll_tick_def ll_inv_def ll_run_next_def)
  moreover have "ll_room n s"
    using room by (fastforce simp: ll_room_def)
  ultimately show ?thesis
    using assms by simp
next
  case (Some cur)
  then obtain t where t: "ll_tasks s cur = Some t" "cur \<notin> set (ll_ready s)"
    using inv by (auto simp: ll_inv_def)
  let ?s = "ll_charge cur t s"
  have r: "unat (runtime t) + 1 < 2 ^ 64" "unat (vruntime t) + unat (ll_inc t) < 2 ^ 64"
    using room t(1) ll_inc_le [of t] by (fastforce simp: ll_room_def)+
  have tick: "ll_tick oc s = (if remaining t = 1 then ll_preempt ?s else Some ?s)"
    using ll_tick_charge [OF inv Some t(1)] r by blast
  have ok: "ll_queue_ok ?s" "ll_tasks_ok ?s" "remaining t \<noteq> 1 \<Longrightarrow> ll_inv ?s"
    using ll_charge_ok [OF inv Some t(1)] by blast+
  have fair': "ll_fair ?s" "ll_cur_fair ?s"
    using ll_charge_fair [OF inv Some t(1) r(2) fair] by blast+
  have run: "ll_runnable ?s = ll_runnable s"
    by (simp add: ll_runnable_def ll_charge_def)
  have "unat (runtime t + 1) = unat (runtime t) + 1"
    "unat (vruntime t + ll_inc t) = unat (vruntime t) + unat (ll_inc t)"
    using r by (simp_all add: unat_word_ariths)
  then have room': "ll_room n ?s"
    using room t(1) ll_inc_le [of t] by (fastforce simp: ll_room_def ll_charge_def)
  show ?thesis
  proof (cases "remaining t = 1")
    case True
    then show ?thesis
      using ll_preempt_fair [OF ok(1,2) _ _ _ fair'(1) room', of cur] tick run Some t
      by (auto simp: ll_charge_def)
  next
    case False
    then show ?thesis
      using tick ok(3) fair' room' run by simp
  qed
qed

section \<open>Properties\<close>

text \<open>The calls a client makes, and the sequences of calls that respect the interface: tasks are
  added once, with a weight whose slice is positive and does not overflow, before they are made
  ready.\<close>

datatype ll_call = AddTask nat u64 u64 | MakeReady nat | Tick

fun ll_exec :: "bool \<Rightarrow> ll_call \<Rightarrow> linux_like \<Rightarrow> linux_like option" where
  "ll_exec oc (AddTask tid w cap) s = ll_add_task oc tid w cap s"
| "ll_exec oc (MakeReady tid) s = ll_make_ready tid s"
| "ll_exec oc Tick s = ll_tick oc s"

fun ll_exec_all :: "bool \<Rightarrow> ll_call list \<Rightarrow> linux_like \<Rightarrow> linux_like option" where
  "ll_exec_all oc [] s = Some s"
| "ll_exec_all oc (c # cs) s = do { s \<leftarrow> ll_exec oc c s; ll_exec_all oc cs s }"

fun ll_calls_ok :: "nat set \<Rightarrow> ll_call list \<Rightarrow> bool" where
  "ll_calls_ok known [] = True"
| "ll_calls_ok known (AddTask tid w cap # cs) =
     (tid \<notin> known \<and> 205 \<le> w \<and> 5 * unat w < 2 ^ 64 \<and> ll_calls_ok (insert tid known) cs)"
| "ll_calls_ok known (MakeReady tid # cs) = (tid \<in> known \<and> ll_calls_ok known cs)"
| "ll_calls_ok known (Tick # cs) = ll_calls_ok known cs"

lemma ll_exec_all_inv:
  "ll_inv s \<Longrightarrow> ll_calls_ok (dom (ll_tasks s)) cs \<Longrightarrow>
   \<exists>s'. ll_exec_all False cs s = Some s' \<and> ll_inv s'"
proof (induction cs arbitrary: s)
  case Nil
  then show ?case by simp
next
  case (Cons c cs)
  have "\<exists>s1. ll_exec False c s = Some s1 \<and> ll_inv s1 \<and> ll_calls_ok (dom (ll_tasks s1)) cs"
  proof (cases c)
    case (AddTask tid w cap)
    then show ?thesis
      using Cons.prems ll_add_task_ok [OF Cons.prems(1), of tid w False cap] by (auto simp: domIff)
  next
    case (MakeReady tid)
    then show ?thesis
      using Cons.prems ll_make_ready_ok [OF Cons.prems(1), of tid] ll_frame_dom by fastforce
  next
    case Tick
    then show ?thesis
      using Cons.prems ll_tick_ok [OF Cons.prems(1), of False] by auto
  qed
  then show ?case
    using Cons.IH by (metis bind.bind_lunit ll_exec_all.simps(2))
qed

text \<open>
  C17. A client that respects the interface never makes the scheduler panic (release profile), and
  after every sequence of its calls the ready queue is sorted by virtual run time without
  duplicates, the running task is not queued, and nothing waits while nothing runs.
\<close>

theorem ll_calls_keep_queue:
  assumes "ll_calls_ok {} cs"
  shows "\<exists>s. ll_exec_all False cs (ll_new cap) = Some s \<and> distinct (ll_ready s) \<and>
    sorted (map (ll_vr s) (ll_ready s)) \<and> set (ll_ready s) \<subseteq> dom (ll_tasks s) \<and>
    (case ll_current s of None \<Rightarrow> ll_ready s = []
     | Some cur \<Rightarrow> cur \<in> dom (ll_tasks s) \<and> cur \<notin> set (ll_ready s))"
proof -
  have "ll_inv (ll_new cap)"
    by (simp add: ll_new_def ll_inv_def ll_queue_ok_def ll_tasks_ok_def)
  then obtain s where s: "ll_exec_all False cs (ll_new cap) = Some s" "ll_inv s"
    using ll_exec_all_inv [of "ll_new cap" cs] assms by (auto simp: ll_new_def)
  have q: "ll_queue_ok s"
    using s(2) by (simp add: ll_inv_def)
  then have "sorted (map unat (map (\<lambda>x. the (ll_key s x)) (ll_ready s)))"
    by (auto simp: ll_queue_ok_def sorted_map word_le_nat_alt elim!: sorted_wrt_mono_rel [rotated])
  then have "sorted (map (ll_vr s) (ll_ready s))"
    by (simp add: comp_def ll_vr_def [abs_def])
  moreover have "set (ll_ready s) \<subseteq> dom (ll_tasks s)" "distinct (ll_ready s)"
    using q by (auto simp: ll_queue_ok_def ll_key_def)
  ultimately show ?thesis
    using s by (auto simp: ll_inv_def split: option.splits)
qed

theorem ll_calls_keep_queue_witness:
  "\<exists>s. ll_exec_all False [AddTask 1 2048 0, AddTask 2 1024 0, MakeReady 1, MakeReady 2, Tick]
      (ll_new 9) = Some s \<and> sorted (map (ll_vr s) (ll_ready s))"
  using ll_calls_keep_queue
    [of "[AddTask 1 2048 0, AddTask 2 1024 0, MakeReady 1, MakeReady 2, Tick]" 9]
  by auto

text \<open>Until the first tick every task has used no time and has its whole slice.\<close>

definition ll_unused :: "linux_like \<Rightarrow> bool" where
  "ll_unused s \<longleftrightarrow> (\<forall>x t. ll_tasks s x = Some t \<longrightarrow> vruntime t = 0 \<and> runtime t = 0 \<and> remaining t = time_slice t)"

lemma ll_run_next_unused: "ll_run_next s = Some s' \<Longrightarrow> ll_unused s \<Longrightarrow> ll_unused s'"
  by (auto simp: ll_run_next_def ll_unused_def bind_eq_Some_conv split: list.splits if_splits)

lemma ll_insert_unused: "ll_insert_ready_sorted tid s = Some s' \<Longrightarrow> ll_unused s \<Longrightarrow> ll_unused s'"
  by (auto simp: ll_insert_ready_sorted_def ll_unused_def bind_eq_Some_conv)

lemma ll_preempt_unused: "ll_preempt s = Some s' \<Longrightarrow> ll_unused s \<Longrightarrow> ll_unused s'"
  by (auto simp: ll_preempt_def bind_eq_Some_conv ll_unused_def [of "s\<lparr>ll_current := None\<rparr>"] ll_unused_def [of s]
      split: option.splits elim!: ll_run_next_unused dest: ll_insert_unused)

lemma ll_make_ready_unused: "ll_make_ready tid s = Some s' \<Longrightarrow> ll_unused s \<Longrightarrow> ll_unused s'"
  by (auto simp: ll_make_ready_def bind_eq_Some_conv split: if_splits option.splits
      dest: ll_insert_unused ll_run_next_unused ll_preempt_unused)

lemma ll_unused_fair:
  assumes "ll_inv s" and "ll_unused s"
  shows "ll_fair s" and "ll_cur_fair s"
proof -
  have "ll_vr s x = 0" if "x \<in> ll_runnable s" for x
    using that assms
    by (fastforce simp: ll_vr_def ll_key_def ll_unused_def ll_runnable_def ll_inv_def ll_queue_ok_def split: option.splits)
  then show "ll_fair s" and "ll_cur_fair s"
    using assms(2) by (auto simp: ll_fair_def ll_cur_fair_def ll_runnable_def ll_unused_def)
qed

lemma ll_exec_all_unused:
  assumes "ll_inv s" and "ll_unused s" and "ll_calls_ok (dom (ll_tasks s)) cs" and "Tick \<notin> set cs"
  shows "\<exists>s'. ll_exec_all oc cs s = Some s' \<and> ll_inv s' \<and> ll_unused s' \<and>
    ll_runnable s' = ll_runnable s \<union> {tid. MakeReady tid \<in> set cs}"
  using assms
proof (induction cs arbitrary: s)
  case (Cons c cs)
  have "\<exists>s1. ll_exec oc c s = Some s1 \<and> ll_inv s1 \<and> ll_unused s1 \<and> ll_calls_ok (dom (ll_tasks s1)) cs \<and>
      ll_runnable s1 = ll_runnable s \<union> {tid. MakeReady tid = c}"
  proof (cases c)
    case (AddTask tid w cap)
    then obtain s1 where s1: "ll_add_task oc tid w cap s = Some s1" "ll_inv s1"
      "dom (ll_tasks s1) = insert tid (dom (ll_tasks s))"
      using Cons.prems ll_add_task_ok [OF Cons.prems(1), of tid w oc cap] by (auto simp: domIff)
    moreover have "ll_unused s1" "ll_runnable s1 = ll_runnable s"
      using s1(1) Cons.prems(2) by (auto simp: ll_add_task_def ll_unused_def ll_runnable_def bind_eq_Some_conv Let_def
          split: if_splits)
    ultimately show ?thesis
      using AddTask Cons.prems(3) by auto
  next
    case (MakeReady tid)
    then obtain s1 where s1: "ll_make_ready tid s = Some s1" "ll_inv s1" "ll_frame s s1"
      "ll_runnable s1 = insert tid (ll_runnable s)"
      using Cons.prems ll_make_ready_ok [OF Cons.prems(1), of tid] by (auto simp: ll_runnable_def)
    then show ?thesis
      using MakeReady Cons.prems(2,3) ll_make_ready_unused ll_frame_dom [OF s1(3)] by auto
  next
    case Tick
    then show ?thesis
      using Cons.prems(4) by simp
  qed
  then obtain s1 where s1: "ll_exec oc c s = Some s1" "ll_inv s1" "ll_unused s1" "ll_calls_ok (dom (ll_tasks s1)) cs"
      "ll_runnable s1 = ll_runnable s \<union> {tid. MakeReady tid = c}"
    by blast
  have "Tick \<notin> set cs"
    using Cons.prems(4) by simp
  from Cons.IH [OF s1(2-4) this] obtain s' where "ll_exec_all oc cs s1 = Some s'" "ll_inv s'" "ll_unused s'"
      "ll_runnable s' = ll_runnable s1 \<union> {tid. MakeReady tid \<in> set cs}"
    by blast
  with s1(1,5) show ?case
    by (intro exI [of _ s']) auto
qed simp

lemma ll_ticks_keep_fair:
  assumes "ll_inv s" and "ll_fair s" and "ll_cur_fair s" and "ll_room n s"
  shows "\<exists>s'. ll_ticks oc n s = Some s' \<and> ll_fair s' \<and> ll_runnable s' = ll_runnable s"
  using assms
proof (induction n arbitrary: s)
  case (Suc n)
  obtain s1 where s1: "ll_tick oc s = Some s1" "ll_inv s1" "ll_fair s1" "ll_cur_fair s1"
    "ll_room n s1" "ll_runnable s1 = ll_runnable s"
    using ll_tick_fair [OF Suc.prems] by blast
  then show ?case
    using Suc.IH [OF s1(2-5)] by simp
qed simp

text \<open>
  C8. Fairness among tasks that start together. Take a new scheduler, add any tasks (each once, with
  a weight of at least 205 whose slice does not overflow) and make any of them ready, all before the
  first tick. Then for any number of ticks below \<open>2 ^ 54\<close>, in both build profiles, nothing panics,
  exactly the tasks made ready stay runnable, and none is ahead of another in virtual run time by more than
  one of its own slices. Nothing is said of tasks added or made ready after the first tick: they start with a
  virtual run time of 0, far behind the others.
\<close>

theorem ll_ticks_fair:
  assumes "ll_calls_ok {} cs" and "Tick \<notin> set cs" and "n < 2 ^ 54"
  shows "\<exists>s s'. ll_exec_all oc cs (ll_new cap) = Some s \<and> ll_ticks oc n s = Some s' \<and>
    ll_runnable s' = {tid. MakeReady tid \<in> set cs} \<and>
    (\<forall>a \<in> ll_runnable s'. \<forall>b \<in> ll_runnable s'. ll_vr s' a \<le> ll_vr s' b + ll_lead s' a)"
proof -
  have "ll_inv (ll_new cap)" "ll_unused (ll_new cap)" "ll_runnable (ll_new cap) = {}"
    by (simp_all add: ll_new_def ll_inv_def ll_queue_ok_def ll_tasks_ok_def ll_unused_def ll_runnable_def)
  moreover have "ll_calls_ok (dom (ll_tasks (ll_new cap))) cs"
    using assms(1) by (simp add: ll_new_def)
  ultimately obtain s where s: "ll_exec_all oc cs (ll_new cap) = Some s" "ll_inv s" "ll_unused s"
      "ll_runnable s = {tid. MakeReady tid \<in> set cs}"
    using ll_exec_all_unused [OF _ _ _ assms(2)] by fastforce
  have "ll_room n s"
    using s(3) assms(3) by (auto simp: ll_room_def ll_unused_def)
  then obtain s' where "ll_ticks oc n s = Some s'" "ll_fair s'" "ll_runnable s' = ll_runnable s"
    using ll_ticks_keep_fair [OF s(2) ll_unused_fair [OF s(2,3)]] by blast
  with s(1,4) show ?thesis
    by (auto simp: ll_fair_def)
qed

theorem ll_ticks_fair_witness:
  "\<exists>s s'. ll_exec_all True [AddTask 1 2048 7, AddTask 2 1024 8, MakeReady 1, MakeReady 2] (ll_new 0) = Some s \<and>
     ll_ticks True 100 s = Some s' \<and> ll_vr s' 1 \<le> ll_vr s' 2 + ll_lead s' 1 \<and> ll_vr s' 2 \<le> ll_vr s' 1 + ll_lead s' 2"
proof -
  let ?cs = "[AddTask 1 2048 7, AddTask 2 1024 8, MakeReady 1, MakeReady 2]"
  have "ll_calls_ok {} ?cs" "Tick \<notin> set ?cs" "(100 :: nat) < 2 ^ 54"
    by simp_all
  from ll_ticks_fair [OF this, of True 0] obtain s s' where r: "ll_exec_all True ?cs (ll_new 0) = Some s"
      "ll_ticks True 100 s = Some s'" "ll_runnable s' = {tid. MakeReady tid \<in> set ?cs}"
      "\<forall>a \<in> ll_runnable s'. \<forall>b \<in> ll_runnable s'. ll_vr s' a \<le> ll_vr s' b + ll_lead s' a"
    by blast
  have "1 \<in> ll_runnable s'" "2 \<in> ll_runnable s'"
    using r(3) by simp_all
  with r(1,2,4) show ?thesis
    by blast
qed

text \<open>Why the tasks have to start together: a task added after 100 ticks of another is behind it by
  more than a slice at once.\<close>

lemma ll_late_task_behind:
  assumes "ll_inv s" and "ll_tasks s tid = None" and "205 \<le> w" and "5 * unat w < 2 ^ 64"
    and "a \<in> ll_runnable s" and "ll_lead s a < ll_vr s a"
  shows "\<exists>s1 s2. ll_add_task oc tid w cap s = Some s1 \<and> ll_make_ready tid s1 = Some s2 \<and> ll_inv s2 \<and> \<not> ll_fair s2"
proof -
  obtain s1 where s1: "ll_add_task oc tid w cap s = Some s1" "ll_inv s1"
      "dom (ll_tasks s1) = insert tid (dom (ll_tasks s))"
    using ll_add_task_ok [OF assms(1-4)] by blast
  have kept: "ll_runnable s1 = ll_runnable s" "ll_vr s1 tid = 0"
    "\<And>x. x \<noteq> tid \<Longrightarrow> ll_vr s1 x = ll_vr s x \<and> ll_lead s1 x = ll_lead s x"
    using s1(1) by (auto simp: ll_add_task_def bind_eq_Some_conv Let_def ll_runnable_def ll_vr_def ll_key_def ll_lead_def)
  have "ll_tasks s1 tid \<noteq> None"
    using s1(3) by auto
  then obtain s2 where s2: "ll_make_ready tid s1 = Some s2" "ll_inv s2" "ll_frame s1 s2"
      "ll_runnable s2 = insert tid (ll_runnable s1)"
    using ll_make_ready_ok [OF s1(2), of tid] by (auto simp: ll_runnable_def)
  have "ll_lead s2 a < ll_vr s2 a" "ll_vr s2 tid = 0" if "a \<noteq> tid"
    using assms(6) kept(2) kept(3) [of a] that by (simp_all add: ll_frame_vr [OF s2(3)] ll_frame_lead [OF s2(3)])
  moreover have "a \<noteq> tid"
    using assms(1,2,5) by (auto simp: ll_runnable_def ll_inv_def ll_queue_ok_def ll_key_def split: option.splits)
  ultimately have "\<not> ll_fair s2"
    using s2(4) kept(1) assms(5) unfolding ll_fair_def by force
  with s1(1) s2(1,2) show ?thesis
    by blast
qed

text \<open>
  C31. When the running task uses up its slice, the scheduler runs the runnable task with the
  least virtual run time, gives it a whole slice, keeps every runnable task runnable, and calls
  the kernel exactly once, for that task.
\<close>

theorem ll_slice_end_runs_least:
  assumes "ll_inv s" and "ll_current s = Some cur" and "ll_tasks s cur = Some t"
    and "remaining t = 1"
  shows "\<exists>s' x t'. ll_tick False s = Some s' \<and> ll_current s' = Some x \<and>
    ll_runnable s' = ll_runnable s \<and> (\<forall>y \<in> ll_runnable s'. ll_vr s' x \<le> ll_vr s' y) \<and>
    ll_tasks s' x = Some t' \<and> remaining t' = time_slice t' \<and>
    ll_runs s' = ll_runs s @ [(ll_scheduler_cap s, lt_thread_cap t')]"
proof -
  let ?s = "ll_charge cur t s"
  have tick: "ll_tick False s = ll_preempt ?s"
    using ll_tick_charge [OF assms(1-3), of False] assms(4) by simp
  have "cur \<notin> set (ll_ready s)"
    using assms(1,2) by (simp add: ll_inv_def)
  then have pre: "ll_queue_ok ?s" "ll_tasks_ok ?s" "ll_current ?s = Some cur"
    "cur \<notin> set (ll_ready ?s)" "ll_tasks ?s cur \<noteq> None"
    using ll_charge_ok [OF assms(1-3)] assms(2) by (simp_all add: ll_charge_def)
  obtain s' x t' where s': "ll_preempt ?s = Some s'" "ll_current s' = Some x"
    "add_mset x (mset (ll_ready s')) = add_mset cur (mset (ll_ready ?s))"
    "ll_tasks s' x = Some t'" "remaining t' = time_slice t'"
    "\<forall>y \<in> set (ll_ready s'). the (ll_key s' x) \<le> the (ll_key s' y)"
    by (rule ll_preempt_ok [OF pre])
  have "ll_runnable s' = ll_runnable s"
    using arg_cong [OF s'(3), of set_mset] s'(2) pre(3) assms(2)
    by (simp add: ll_runnable_def) (simp add: ll_charge_def)
  moreover have "\<forall>y \<in> ll_runnable s'. ll_vr s' x \<le> ll_vr s' y"
    using s'(2,6) by (auto simp: ll_runnable_def ll_vr_def word_le_nat_alt)
  moreover have "ll_runs s' = ll_runs s @ [(ll_scheduler_cap s, lt_thread_cap t')]"
  proof -
    obtain ready where ins: "ll_run_next (?s\<lparr>ll_current := None, ll_ready := ready\<rparr>) = Some s'"
      using s'(1) pre(3) by (auto simp: ll_preempt_def ll_insert_ready_sorted_def bind_eq_Some_conv)
    then have "ll_runs s' = ll_runs ?s @ [(ll_scheduler_cap ?s, lt_thread_cap t')]"
      using ll_run_next_call [OF ins] s'(2,4) by simp
    then show ?thesis
      by (simp add: ll_charge_def)
  qed
  ultimately show ?thesis
    using tick s' by auto
qed

definition demo_task :: ll_task where
  "demo_task = \<lparr>weight = 1024, vruntime = 0, runtime = 0, lt_thread_cap = 0, time_slice = 5,
     remaining = 5\<rparr>"

definition demo_sched :: linux_like where
  "demo_sched = \<lparr>ll_scheduler_cap = 0, ll_tasks = [2 \<mapsto> demo_task, 1 \<mapsto> demo_task], ll_ready = [2],
     ll_current = Some 1, ll_runs = [(0, 0)]\<rparr>"

theorem ll_slice_end_runs_least_witness:
  "let s = demo_sched\<lparr>ll_tasks := [1 \<mapsto> demo_task\<lparr>vruntime := 4, remaining := 1\<rparr>, 2 \<mapsto> demo_task]\<rparr>
   in \<exists>s' x. ll_tick False s = Some s' \<and> ll_current s' = Some x \<and>
      (\<forall>y \<in> ll_runnable s'. ll_vr s' x \<le> ll_vr s' y)"
proof -
  let ?s = "demo_sched\<lparr>ll_tasks := [1 \<mapsto> demo_task\<lparr>vruntime := 4, remaining := 1\<rparr>, 2 \<mapsto> demo_task]\<rparr>"
  have "ll_inv ?s"
    by (simp add: ll_inv_def ll_queue_ok_def ll_tasks_ok_def ll_key_def demo_sched_def demo_task_def)
  then show ?thesis
    using ll_slice_end_runs_least [of ?s 1 "demo_task\<lparr>vruntime := 4, remaining := 1\<rparr>"]
    by (auto simp: demo_sched_def)
qed

text \<open>
  A weight below 205 gives a slice of 0. The first tick of such a task underflows its
  remaining slice: with overflow checks it panics, and without them the task gets a slice of
  \<open>2 ^ 64 - 1\<close> ticks instead of the shortest one.
\<close>

theorem ll_small_weight_underflow:
  assumes "w < 205" and "w \<noteq> 0"
    and "ll_exec_all oc [AddTask tid w cap, MakeReady tid] (ll_new scap) = Some s"
  shows "ll_tick True s = None \<and>
    (\<exists>s'. ll_tick False s = Some s' \<and> map_option remaining (ll_tasks s' tid) = Some (- 1))"
proof -
  have "unat w < 205"
    using assms(1) by (simp add: word_less_nat_alt)
  then have "unat (5 * w) div 1024 = 0"
    by (simp add: unat_word_ariths)
  then have sl: "5 * w div 1024 = 0"
    by (simp add: unat_div flip: unat_eq_zero)
  let ?t = "\<lparr>weight = w, vruntime = 0, runtime = 0, lt_thread_cap = cap, time_slice = 0, remaining = 0\<rparr>"
  have "s = \<lparr>ll_scheduler_cap = scap, ll_tasks = [tid \<mapsto> ?t], ll_ready = [], ll_current = Some tid,
      ll_runs = [(scap, cap)]\<rparr>"
    using assms(3) sl
    by (auto simp: ll_new_def ll_add_task_def op_mul_def BASE_SLICE_def ll_make_ready_def
        ll_insert_ready_sorted_def binary_search_by_def ll_key_def vec_insert_def
        either_pos_def ll_run_next_def Let_def split: if_splits)
  then show ?thesis
    using assms(2) by (simp add: ll_tick_def op_add_def op_div_def op_sub_def Let_def)
qed

theorem ll_small_weight_underflow_witness:
  "\<exists>s. ll_exec_all True [AddTask 1 200 0, MakeReady 1] (ll_new 0) = Some s \<and> ll_tick True s = None"
proof -
  have "\<exists>s. ll_exec_all True [AddTask 1 200 0, MakeReady 1] (ll_new 0) = Some s"
    by (simp add: ll_new_def ll_add_task_def op_mul_def BASE_SLICE_def ll_make_ready_def
        ll_insert_ready_sorted_def binary_search_by_def ll_key_def vec_insert_def
        either_pos_def ll_run_next_def Let_def)
  then show ?thesis
    using ll_small_weight_underflow [of 200 True 1 0 0] by auto
qed

end
