(* ===== verification/Autosar.thy ===== *)
theory Autosar
  imports Sched_Queue
begin

text \<open>
  The fixed-priority scheduler with priority inheritance, \<open>src/crates/l4/scheduler/autosar.rs\<close>.
  A smaller number is a more urgent priority. Every operation returns \<open>None\<close> where the source
  panics (an unknown task). The calls of the kernel's \<open>run_thread\<close> are recorded in order.
\<close>

record as_task =
  period :: u64
  base_priority :: u64
  current_priority :: u64
  at_thread_cap :: u64
  owned_mutexes :: "nat set"

record mutex_state =
  owner :: "nat option"
  waiters :: "nat list"

record autosar =
  as_scheduler_cap :: u64
  as_tasks :: "nat \<rightharpoonup> as_task"
  as_ready :: "nat list"
  as_current :: "nat option"
  mutexes :: "nat \<rightharpoonup> mutex_state"
  as_runs :: "(u64 \<times> u64) list"

definition as_new :: "u64 \<Rightarrow> autosar" where
  "as_new scheduler_cap = \<lparr>as_scheduler_cap = scheduler_cap, as_tasks = Map.empty, as_ready = [],
     as_current = None, mutexes = Map.empty, as_runs = []\<rparr>"

definition as_add_task :: "nat \<Rightarrow> u64 \<Rightarrow> u64 \<Rightarrow> autosar \<Rightarrow> autosar" where
  "as_add_task tid per thread_cap s =
     s\<lparr>as_tasks := (as_tasks s)(tid \<mapsto> \<lparr>period = per, base_priority = per, current_priority = per,
        at_thread_cap = thread_cap, owned_mutexes = {}\<rparr>)\<rparr>"

definition as_key :: "autosar \<Rightarrow> nat \<Rightarrow> u64 option" where
  "as_key s tid = map_option current_priority (as_tasks s tid)"

definition as_insert_ready_sorted :: "nat \<Rightarrow> autosar \<Rightarrow> autosar option" where
  "as_insert_ready_sorted tid s = do {
     prio \<leftarrow> as_key s tid;
     r \<leftarrow> binary_search_by_key (as_key s) prio (as_ready s);
     ready \<leftarrow> vec_insert (as_ready s) (either_pos r) tid;
     Some (s\<lparr>as_ready := ready\<rparr>)
   }"

definition as_run_next :: "autosar \<Rightarrow> autosar option" where
  "as_run_next s =
     (case as_ready s of
        [] \<Rightarrow> Some s
      | next_id # rest \<Rightarrow> do {
          t \<leftarrow> as_tasks s next_id;
          Some (s\<lparr>as_ready := rest, as_current := Some next_id,
                  as_runs := as_runs s @ [(as_scheduler_cap s, at_thread_cap t)]\<rparr>)
        })"

definition as_preempt :: "autosar \<Rightarrow> autosar option" where
  "as_preempt s = do {
     s \<leftarrow> (case as_current s of
            Some cur \<Rightarrow> as_insert_ready_sorted cur (s\<lparr>as_current := None\<rparr>)
          | None \<Rightarrow> Some s);
     as_run_next s
   }"

definition as_make_ready :: "nat \<Rightarrow> autosar \<Rightarrow> autosar option" where
  "as_make_ready tid s =
     (if as_current s = Some tid \<or> tid \<in> set (as_ready s) then Some s
      else do {
        s \<leftarrow> as_insert_ready_sorted tid s;
        (case as_current s of
           Some cur \<Rightarrow> do {
             cur_prio \<leftarrow> as_key s cur;
             new_prio \<leftarrow> as_key s tid;
             if new_prio < cur_prio then as_preempt s else Some s
           }
         | None \<Rightarrow> as_run_next s)
      })"

text \<open>An update of one task through \<open>get_mut(..).unwrap()\<close>.\<close>

definition as_modify :: "nat \<Rightarrow> (as_task \<Rightarrow> as_task) \<Rightarrow> autosar \<Rightarrow> autosar option" where
  "as_modify tid f s = do {
     t \<leftarrow> as_tasks s tid;
     Some (s\<lparr>as_tasks := (as_tasks s)(tid \<mapsto> f t)\<rparr>)
   }"

definition as_put_mutex :: "nat \<Rightarrow> mutex_state \<Rightarrow> autosar \<Rightarrow> autosar" where
  "as_put_mutex mid m s = s\<lparr>mutexes := (mutexes s)(mid \<mapsto> m)\<rparr>"

definition as_requeue :: "nat \<Rightarrow> autosar \<Rightarrow> autosar option" where
  "as_requeue tid s = as_insert_ready_sorted tid (s\<lparr>as_ready := filter (\<lambda>x. x \<noteq> tid) (as_ready s)\<rparr>)"

definition lock_mutex :: "nat \<Rightarrow> nat \<Rightarrow> autosar \<Rightarrow> autosar option" where
  "lock_mutex task mid s =
     (let m = (case mutexes s mid of Some m \<Rightarrow> m | None \<Rightarrow> \<lparr>owner = None, waiters = []\<rparr>);
          s = as_put_mutex mid m s
      in case owner m of
           None \<Rightarrow> as_modify task (\<lambda>t. t\<lparr>owned_mutexes := insert mid (owned_mutexes t)\<rparr>)
             (as_put_mutex mid (m\<lparr>owner := Some task\<rparr>) s)
         | Some own \<Rightarrow> do {
             let s = s\<lparr>as_ready := filter (\<lambda>x. x \<noteq> task) (as_ready s)\<rparr>;
             prio \<leftarrow> as_key s task;
             r \<leftarrow> binary_search_by_key (as_key s) prio (waiters m);
             ws \<leftarrow> vec_insert (waiters m) (either_pos r) task;
             let s = as_put_mutex mid (m\<lparr>waiters := ws\<rparr>) s;
             s \<leftarrow> as_modify own (\<lambda>t. t\<lparr>current_priority := min (current_priority t) prio\<rparr>) s;
             s \<leftarrow> (if own \<in> set (as_ready s) then as_requeue own s else Some s);
             (if as_current s = Some task then as_run_next (s\<lparr>as_current := None\<rparr>) else Some s)
           })"

text \<open>The priority a task falls back to: its base priority, raised to the first waiter of every
  mutex it still owns, in the order of the owned set.\<close>

definition inherit_from :: "autosar \<Rightarrow> nat \<Rightarrow> u64 option \<Rightarrow> u64 option" where
  "inherit_from s mid acc = do {
     p \<leftarrow> acc;
     (case mutexes s mid of
        None \<Rightarrow> Some p
      | Some ms \<Rightarrow> (case waiters ms of
            [] \<Rightarrow> Some p
          | w # _ \<Rightarrow> do { k \<leftarrow> as_key s w; Some (min p k) }))
   }"

definition restored_priority :: "nat \<Rightarrow> autosar \<Rightarrow> u64 option" where
  "restored_priority task s = do {
     t \<leftarrow> as_tasks s task;
     fold (inherit_from s) (sorted_list_of_set (owned_mutexes t)) (Some (base_priority t))
   }"

text \<open>Once the priority of a task has been set anew, the queue is repaired and the running task
  is looked at again.\<close>

definition as_settle :: "nat \<Rightarrow> autosar \<Rightarrow> autosar option" where
  "as_settle task s =
     (if task \<in> set (as_ready s) then as_requeue task s
      else if as_current s = Some task then
        (case as_ready s of
           [] \<Rightarrow> Some s
         | next_id # _ \<Rightarrow> do {
             next_prio \<leftarrow> as_key s next_id;
             cur_prio \<leftarrow> as_key s task;
             if next_prio < cur_prio then as_preempt s else Some s
           })
      else Some s)"

text \<open>The mutex goes to the first waiter, which becomes ready, or becomes free.\<close>

definition as_pass_on :: "nat \<Rightarrow> mutex_state \<Rightarrow> autosar \<Rightarrow> autosar option" where
  "as_pass_on mid m s =
     (case waiters m of
        next # rest \<Rightarrow> do {
          s \<leftarrow> as_modify next (\<lambda>t. t\<lparr>owned_mutexes := insert mid (owned_mutexes t)\<rparr>)
                 (as_put_mutex mid \<lparr>owner = Some next, waiters = rest\<rparr> s);
          as_make_ready next s
        }
      | [] \<Rightarrow> Some (as_put_mutex mid (m\<lparr>owner := None\<rparr>) s))"

definition unlock_mutex :: "nat \<Rightarrow> nat \<Rightarrow> autosar \<Rightarrow> autosar option" where
  "unlock_mutex task mid s =
     (case mutexes s mid of
        None \<Rightarrow> Some s
      | Some m \<Rightarrow>
          if owner m \<noteq> Some task then Some s
          else do {
            s \<leftarrow> as_pass_on mid m s;
            s \<leftarrow> as_modify task (\<lambda>t. t\<lparr>owned_mutexes := owned_mutexes t - {mid}\<rparr>) s;
            new_prio \<leftarrow> restored_priority task s;
            s \<leftarrow> as_modify task (\<lambda>t. t\<lparr>current_priority := new_prio\<rparr>) s;
            as_settle task s
          })"

definition current_task :: "autosar \<Rightarrow> nat option" where
  "current_task s = as_current s"

definition task_priority :: "nat \<Rightarrow> autosar \<Rightarrow> u64 option" where
  "task_priority tid s = as_key s tid"

section \<open>The policies by name\<close>

text \<open>\<open>SchedulerKind\<close> of \<open>scheduler/mod.rs\<close>, with the build's features as arguments.\<close>

datatype scheduler_kind = KindAutosar | KindLinuxLike

definition kind_from_str :: "bool \<Rightarrow> bool \<Rightarrow> string \<Rightarrow> scheduler_kind option" where
  "kind_from_str feat_autosar feat_linux s =
     (if feat_autosar \<and> s = ''autosar'' then Some KindAutosar
      else if feat_linux \<and> s = ''linux_like'' then Some KindLinuxLike
      else None)"

text \<open>\<open>SchedulerKind::from_env\<close>; the environment gives no value for a variable that is not set or not
  valid Unicode.\<close>

definition kind_from_env :: "bool \<Rightarrow> bool \<Rightarrow> (string \<Rightarrow> string option) \<Rightarrow> scheduler_kind option" where
  "kind_from_env feat_autosar feat_linux env =
     Option.bind (env ''L4_SCHEDULER'') (kind_from_str feat_autosar feat_linux)"

fun policy_name :: "scheduler_kind \<Rightarrow> string" where
  "policy_name KindAutosar = ''autosar''"
| "policy_name KindLinuxLike = ''linux_like''"


section \<open>The ready queue\<close>

definition as_queue_ok :: "autosar \<Rightarrow> bool" where
  "as_queue_ok s \<longleftrightarrow>
     (\<forall>x \<in> set (as_ready s). as_key s x \<noteq> None) \<and> distinct (as_ready s) \<and>
     sorted (map (\<lambda>x. the (as_key s x)) (as_ready s))"

definition as_runnable :: "autosar \<Rightarrow> nat set" where
  "as_runnable s = set (as_ready s) \<union> set_option (as_current s)"

definition as_inv :: "autosar \<Rightarrow> bool" where
  "as_inv s \<longleftrightarrow> as_queue_ok s \<and>
     (case as_current s of
        None \<Rightarrow> as_ready s = []
      | Some cur \<Rightarrow> cur \<notin> set (as_ready s) \<and> as_key s cur \<noteq> None)"

text \<open>The running task is at least as urgent as every task that waits for the processor.\<close>

definition as_top :: "autosar \<Rightarrow> bool" where
  "as_top s \<longleftrightarrow> (\<forall>cur y. as_current s = Some cur \<longrightarrow> y \<in> set (as_ready s) \<longrightarrow>
     the (as_key s cur) \<le> the (as_key s y))"

text \<open>What the queue operations leave alone.\<close>

definition as_same :: "autosar \<Rightarrow> autosar \<Rightarrow> bool" where
  "as_same s s' \<longleftrightarrow> as_tasks s' = as_tasks s \<and> mutexes s' = mutexes s"

lemma as_key_cong: "as_tasks s' = as_tasks s \<Longrightarrow> as_key s' = as_key s"
  by (simp add: as_key_def fun_eq_iff)

lemma as_queue_cong:
  assumes "as_queue_ok s" and "as_ready s' = as_ready s"
    and key: "\<And>x. x \<in> set (as_ready s) \<Longrightarrow> as_key s' x = as_key s x"
  shows "as_queue_ok s'"
proof -
  have "map (\<lambda>x. the (as_key s' x)) (as_ready s) = map (\<lambda>x. the (as_key s x)) (as_ready s)"
    by (simp add: key)
  then show ?thesis
    using assms unfolding as_queue_ok_def by (simp only: simp_thms) (metis key)
qed

lemma as_insert_ok:
  assumes "as_queue_ok s" and "as_key s tid \<noteq> None" and "tid \<notin> set (as_ready s)"
  shows "\<exists>ready. as_insert_ready_sorted tid s = Some (s\<lparr>as_ready := ready\<rparr>) \<and>
    as_queue_ok (s\<lparr>as_ready := ready\<rparr>) \<and> set ready = insert tid (set (as_ready s))"
proof -
  have pre: "\<forall>y \<in> set (tid # as_ready s). as_key s y \<noteq> None"
    and srt: "sorted (map (\<lambda>y. the (as_key s y)) (as_ready s))"
    using assms by (auto simp: as_queue_ok_def)
  obtain i where q: "std_search.queue_insert (as_key s) tid (as_ready s) =
      Some (take i (as_ready s) @ tid # drop i (as_ready s))"
    and srt': "sorted (map (\<lambda>y. the (as_key s y)) (take i (as_ready s) @ tid # drop i (as_ready s)))"
    using std_search.queue_insert_sorted [OF pre srt] by blast
  let ?ready = "take i (as_ready s) @ tid # drop i (as_ready s)"
  have keys: "as_key (s\<lparr>as_ready := ?ready\<rparr>) = as_key s"
    by (rule as_key_cong) simp
  have "as_insert_ready_sorted tid s = Some (s\<lparr>as_ready := ?ready\<rparr>)"
    using q by (auto simp: as_insert_ready_sorted_def std_search.queue_insert_def bind_eq_Some_conv)
  moreover have "as_queue_ok (s\<lparr>as_ready := ?ready\<rparr>)"
    using std_search.queue_insert_elems [OF q] keys srt' pre assms
    unfolding as_queue_ok_def by auto
  ultimately show ?thesis
    using std_search.queue_insert_elems [OF q] by blast
qed

lemma as_run_next_ok:
  assumes "as_queue_ok s" and "as_current s = None"
  shows "\<exists>s'. as_run_next s = Some s' \<and> as_inv s' \<and> as_top s' \<and> as_same s s' \<and>
    as_runnable s' = as_runnable s"
proof (cases "as_ready s")
  case Nil
  then show ?thesis
    using assms by (simp add: as_run_next_def as_inv_def as_top_def as_same_def)
next
  case (Cons x xs)
  obtain t where t: "as_tasks s x = Some t"
    using assms(1) Cons by (auto simp: as_queue_ok_def as_key_def)
  let ?s = "s\<lparr>as_ready := xs, as_current := Some x,
      as_runs := as_runs s @ [(as_scheduler_cap s, at_thread_cap t)]\<rparr>"
  have keys: "as_key ?s = as_key s"
    by (rule as_key_cong) simp
  have "as_run_next s = Some ?s"
    using Cons t by (simp add: as_run_next_def)
  moreover have "as_inv ?s" and "as_top ?s"
    using assms(1) Cons keys t
    by (simp_all add: as_inv_def as_top_def as_queue_ok_def)
  moreover have "as_runnable ?s = as_runnable s"
    using Cons assms(2) by (simp add: as_runnable_def)
  ultimately show ?thesis
    by (auto simp: as_same_def)
qed

text \<open>The processor is given to one of the ready tasks, which leaves the queue, with one call of the kernel;
  with an empty queue nothing happens.\<close>

definition as_dispatched :: "autosar \<Rightarrow> autosar \<Rightarrow> bool" where
  "as_dispatched s s' \<longleftrightarrow>
     (if set (as_ready s) = {} then as_current s' = None \<and> as_ready s' = [] \<and> as_runs s' = as_runs s
      else \<exists>c t. as_current s' = Some c \<and> c \<in> set (as_ready s) \<and> set (as_ready s') = set (as_ready s) - {c} \<and>
        as_tasks s' c = Some t \<and> as_runs s' = as_runs s @ [(as_scheduler_cap s, at_thread_cap t)])"

lemma as_dispatched_cong:
  assumes "set (as_ready a) = set (as_ready b)" and "as_runs a = as_runs b" and "as_scheduler_cap a = as_scheduler_cap b"
  shows "as_dispatched a s' = as_dispatched b s'"
  unfolding as_dispatched_def assms ..

lemma as_run_next_dispatched:
  assumes "as_run_next s = Some s'" and "as_queue_ok s" and "as_current s = None"
  shows "as_dispatched s s'"
  using assms
  by (cases "as_ready s") (auto simp: as_run_next_def as_dispatched_def as_queue_ok_def bind_eq_Some_conv)

lemma as_preempt_ok:
  assumes "as_queue_ok s" and "as_current s = Some cur" and "cur \<notin> set (as_ready s)"
    and "as_key s cur \<noteq> None"
  shows "\<exists>s'. as_preempt s = Some s' \<and> as_inv s' \<and> as_top s' \<and> as_same s s' \<and>
    as_runnable s' = as_runnable s"
proof -
  let ?s = "s\<lparr>as_current := None\<rparr>"
  have keys: "as_key ?s = as_key s"
    by (rule as_key_cong) simp
  have q: "as_queue_ok ?s"
    using keys by (intro as_queue_cong [OF assms(1)]) simp_all
  obtain ready where ins: "as_insert_ready_sorted cur ?s = Some (?s\<lparr>as_ready := ready\<rparr>)"
    and q': "as_queue_ok (?s\<lparr>as_ready := ready\<rparr>)" and "set ready = insert cur (set (as_ready s))"
    using as_insert_ok [OF q, of cur] assms(3,4) keys by auto
  moreover obtain s' where s': "as_run_next (?s\<lparr>as_ready := ready\<rparr>) = Some s'" "as_inv s'" "as_top s'"
    "as_same (?s\<lparr>as_ready := ready\<rparr>) s'" "as_runnable s' = as_runnable (?s\<lparr>as_ready := ready\<rparr>)"
    using as_run_next_ok [OF q'] by auto
  ultimately show ?thesis
    using assms(2) by (auto simp: as_preempt_def as_same_def as_runnable_def)
qed

lemma as_make_ready_ok:
  assumes "as_inv s" and "as_key s tid \<noteq> None"
  shows "\<exists>s'. as_make_ready tid s = Some s' \<and> as_inv s' \<and> (as_top s \<longrightarrow> as_top s') \<and> as_same s s' \<and>
    as_runnable s' = insert tid (as_runnable s)"
proof (cases "as_current s = Some tid \<or> tid \<in> set (as_ready s)")
  case True
  then show ?thesis
    using assms(1) by (auto simp: as_make_ready_def as_same_def as_runnable_def)
next
  case False
  have q: "as_queue_ok s"
    using assms(1) by (simp add: as_inv_def)
  obtain ready where ins: "as_insert_ready_sorted tid s = Some (s\<lparr>as_ready := ready\<rparr>)"
    and q': "as_queue_ok (s\<lparr>as_ready := ready\<rparr>)" and rd: "set ready = insert tid (set (as_ready s))"
    using as_insert_ok [OF q assms(2)] False by auto
  let ?s = "s\<lparr>as_ready := ready\<rparr>"
  have keys: "as_key ?s = as_key s"
    by (rule as_key_cong) simp
  have run: "as_runnable ?s = insert tid (as_runnable s)"
    using rd by (simp add: as_runnable_def)
  show ?thesis
  proof (cases "as_current s")
    case None
    obtain s' where s': "as_run_next ?s = Some s'" "as_inv s'" "as_top s'" "as_same ?s s'"
      "as_runnable s' = as_runnable ?s"
      using as_run_next_ok [OF q'] None by auto
    then show ?thesis
      using False None ins run by (simp add: as_make_ready_def as_same_def)
  next
    case (Some cur)
    then have cur: "as_key s cur \<noteq> None" "cur \<notin> set ready"
      using assms(1) rd False by (auto simp: as_inv_def)
    obtain kc kt where k: "as_key s cur = Some kc" "as_key s tid = Some kt"
      using cur(1) assms(2) by auto
    have mk: "as_make_ready tid s = (if kt < kc then as_preempt ?s else Some ?s)"
      using False ins Some k keys by (auto simp: as_make_ready_def)
    show ?thesis
    proof (cases "kt < kc")
      case True
      obtain s' where "as_preempt ?s = Some s'" "as_inv s'" "as_top s'" "as_same ?s s'"
        "as_runnable s' = as_runnable ?s"
        using as_preempt_ok [OF q', of cur] Some cur keys by auto
      then show ?thesis
        using mk True run by (simp add: as_same_def)
    next
      case False
      have "as_inv ?s"
        using q' Some cur keys by (simp add: as_inv_def)
      moreover have "as_top s \<Longrightarrow> as_top ?s"
        using Some False k keys rd by (auto simp: as_top_def)
      ultimately show ?thesis
        using mk False run by (simp add: as_same_def)
    qed
  qed
qed

text \<open>Taking a task out of the queue and putting it back repairs the order after a change of its
  priority.\<close>

lemma as_requeue_ok:
  assumes "as_queue_ok s" and "as_ready s' = as_ready s" and "as_key s' tid \<noteq> None"
    and "tid \<in> set (as_ready s)" and "\<And>x. x \<noteq> tid \<Longrightarrow> as_key s' x = as_key s x"
  shows "\<exists>ready. as_requeue tid s' = Some (s'\<lparr>as_ready := ready\<rparr>) \<and>
    as_queue_ok (s'\<lparr>as_ready := ready\<rparr>) \<and> set ready = set (as_ready s)"
proof -
  let ?rest = "filter (\<lambda>x. x \<noteq> tid) (as_ready s)"
  let ?old = "s\<lparr>as_ready := ?rest\<rparr>" and ?s = "s'\<lparr>as_ready := ?rest\<rparr>"
  have k0: "as_key ?old = as_key s"
    by (rule as_key_cong) simp
  have k: "as_key ?s = as_key s'"
    by (rule as_key_cong) simp
  have "as_queue_ok ?old"
    using assms(1) k0 by (auto simp: as_queue_ok_def intro: sorted_filter)
  then have q: "as_queue_ok ?s"
    by (rule as_queue_cong) (use assms(5) k0 k in auto)
  show ?thesis
    using as_insert_ok [OF q, of tid] assms(2,3,4) k by (auto simp: as_requeue_def)
qed


section \<open>The mutex protocol\<close>

text \<open>
  An abstract view: which mutexes each known task owns, the state of each mutex, and the set of
  tasks that may run. It is sound when ownership is recorded on both sides, a waiting task waits
  for one mutex only, that somebody else owns, and may not run, and waiters have an owner to
  wait for.
\<close>

type_synonym mutex_view = "(nat \<rightharpoonup> nat set) \<times> (nat \<rightharpoonup> mutex_state) \<times> nat set"

definition waits :: "(nat \<rightharpoonup> mutex_state) \<Rightarrow> nat \<Rightarrow> nat \<Rightarrow> bool" where
  "waits M w mid \<longleftrightarrow> (\<exists>m. M mid = Some m \<and> w \<in> set (waiters m))"

definition owns :: "(nat \<rightharpoonup> mutex_state) \<Rightarrow> nat \<Rightarrow> nat \<Rightarrow> bool" where
  "owns M t mid \<longleftrightarrow> (\<exists>m. M mid = Some m \<and> owner m = Some t)"

fun mutex_ok :: "mutex_view \<Rightarrow> bool" where
  "mutex_ok (ow, M, R) \<longleftrightarrow>
     (\<forall>w mid. waits M w mid \<longrightarrow> w \<in> dom ow \<and> w \<notin> R \<and> \<not> owns M w mid \<and> (\<exists>t. owns M t mid)) \<and>
     (\<forall>w a b. waits M w a \<longrightarrow> waits M w b \<longrightarrow> a = b) \<and>
     (\<forall>mid m. M mid = Some m \<longrightarrow> distinct (waiters m)) \<and>
     (\<forall>t mid. owns M t mid \<longrightarrow> t \<in> dom ow) \<and>
     (\<forall>t S. ow t = Some S \<longrightarrow> finite S \<and> S = {mid. owns M t mid})"

inductive mutex_step :: "mutex_view \<Rightarrow> mutex_view \<Rightarrow> bool" where
  mx_idle: "mutex_step v v"
| mx_add: "ow t = None \<Longrightarrow> mutex_step (ow, M, R) (ow(t \<mapsto> {}), M, R)"
| mx_wake: "t \<in> dom ow \<Longrightarrow> \<forall>mid. \<not> waits M t mid \<Longrightarrow> mutex_step (ow, M, R) (ow, M, insert t R)"
| mx_acquire: "ow t = Some S \<Longrightarrow> \<forall>t. \<not> owns M t mid \<Longrightarrow>
     mutex_step (ow, M, R) (ow(t \<mapsto> insert mid S), M(mid \<mapsto> \<lparr>owner = Some t, waiters = []\<rparr>), R)"
| mx_block: "t \<in> R \<Longrightarrow> t \<in> dom ow \<Longrightarrow> M mid = Some m \<Longrightarrow> owner m = Some p \<Longrightarrow> p \<noteq> t \<Longrightarrow>
     distinct ws \<Longrightarrow> set ws = insert t (set (waiters m)) \<Longrightarrow>
     mutex_step (ow, M, R) (ow, M(mid \<mapsto> m\<lparr>waiters := ws\<rparr>), R - {t})"
| mx_release: "ow t = Some S \<Longrightarrow> M mid = Some m \<Longrightarrow> owner m = Some t \<Longrightarrow> waiters m = [] \<Longrightarrow>
     mutex_step (ow, M, R) (ow(t \<mapsto> S - {mid}), M(mid \<mapsto> m\<lparr>owner := None\<rparr>), R)"
| mx_handover: "ow t = Some S \<Longrightarrow> ow n = Some S' \<Longrightarrow> M mid = Some m \<Longrightarrow> owner m = Some t \<Longrightarrow>
     waiters m = n # rest \<Longrightarrow>
     mutex_step (ow, M, R) (ow(n \<mapsto> insert mid S', t \<mapsto> S - {mid}),
       M(mid \<mapsto> \<lparr>owner = Some n, waiters = rest\<rparr>), insert n R)"

lemma waits_upd [simp]:
  "waits (M(mid \<mapsto> m)) w a \<longleftrightarrow> (if a = mid then w \<in> set (waiters m) else waits M w a)"
  by (simp add: waits_def)

lemma owns_upd [simp]:
  "owns (M(mid \<mapsto> m)) t a \<longleftrightarrow> (if a = mid then owner m = Some t else owns M t a)"
  by (simp add: owns_def)

lemma owns_fun: "owns M t a \<Longrightarrow> owns M t' a \<Longrightarrow> t = t'"
  by (auto simp: owns_def)

lemma mutex_okD:
  assumes "mutex_ok (ow, M, R)"
  shows "\<And>w mid. waits M w mid \<Longrightarrow> w \<in> dom ow" "\<And>w mid. waits M w mid \<Longrightarrow> w \<notin> R"
    "\<And>w mid. waits M w mid \<Longrightarrow> \<not> owns M w mid" "\<And>w mid. waits M w mid \<Longrightarrow> \<exists>t. owns M t mid"
    "\<And>w a b. waits M w a \<Longrightarrow> waits M w b \<Longrightarrow> a = b"
    "\<And>mid m. M mid = Some m \<Longrightarrow> distinct (waiters m)" "\<And>t mid. owns M t mid \<Longrightarrow> t \<in> dom ow"
    "\<And>t S. ow t = Some S \<Longrightarrow> finite S" "\<And>t S. ow t = Some S \<Longrightarrow> S = {mid. owns M t mid}"
  using assms by auto

lemma mutex_ok_acquire:
  assumes "mutex_ok (ow, M, R)" and "ow t = Some S" and "\<forall>t. \<not> owns M t mid"
  shows "mutex_ok (ow(t \<mapsto> insert mid S), M(mid \<mapsto> \<lparr>owner = Some t, waiters = []\<rparr>), R)"
proof -
  note ok = mutex_okD [OF assms(1)]
  have nw: "\<not> waits M w mid" for w
    using ok(4) assms(3) by blast
  have S: "S = {a. owns M t a}" "finite S"
    using ok(8,9) assms(2) by blast+
  show ?thesis
    unfolding mutex_ok.simps
  proof (intro conjI allI impI)
    fix t' S'
    assume "(ow(t \<mapsto> insert mid S)) t' = Some S'"
    then show "finite S'" "S' = {a. owns (M(mid \<mapsto> \<lparr>owner = Some t, waiters = []\<rparr>)) t' a}"
      using S ok(8,9) [of t' S'] assms(3) by (auto split: if_splits)
  qed (use ok(1-7) assms(2,3) nw in \<open>auto split: if_splits\<close>)
qed

lemma mutex_ok_block:
  assumes "mutex_ok (ow, M, R)" and "t \<in> R" and "t \<in> dom ow" and "M mid = Some m"
    and "owner m = Some p" and "p \<noteq> t" and "distinct ws" and "set ws = insert t (set (waiters m))"
  shows "mutex_ok (ow, M(mid \<mapsto> m\<lparr>waiters := ws\<rparr>), R - {t})"
proof -
  note ok = mutex_okD [OF assms(1)]
  let ?M = "M(mid \<mapsto> m\<lparr>waiters := ws\<rparr>)"
  have own: "owns ?M t' a = owns M t' a" for t' a
    using assms(4) by (auto simp: owns_def)
  have w: "waits ?M w a \<longleftrightarrow> waits M w a \<or> (w = t \<and> a = mid)" for w a
    using assms(4,8) by (auto simp: waits_def)
  have nt: "\<not> waits M t a" for a
    using ok(2) assms(2) by blast
  have p: "owns M p mid"
    using assms(4,5) by (simp add: owns_def)
  show ?thesis
    unfolding mutex_ok.simps own
  proof (intro conjI allI impI)
    fix w' a
    assume "waits ?M w' a"
    then have "waits M w' a \<or> (w' = t \<and> a = mid)"
      by (simp only: w)
    then show "w' \<in> dom ow" "w' \<notin> R - {t}" "\<not> owns M w' a" "\<exists>t. owns M t a"
      using ok(1-4) [of w' a] assms(3,6) p owns_fun [OF p, of t] by auto
  next
    fix w' a b
    assume "waits ?M w' a" "waits ?M w' b"
    then show "a = b"
      unfolding w using ok(5) nt by blast
  next
    fix a m'
    assume "?M a = Some m'"
    then show "distinct (waiters m')"
      using ok(6) assms(7) by (auto split: if_splits)
  qed (use ok(7-9) in auto)
qed

lemma mutex_ok_release:
  assumes "mutex_ok (ow, M, R)" and "ow t = Some S" and "M mid = Some m" and "owner m = Some t"
    and "waiters m = []"
  shows "mutex_ok (ow(t \<mapsto> S - {mid}), M(mid \<mapsto> m\<lparr>owner := None\<rparr>), R)"
proof -
  note ok = mutex_okD [OF assms(1)]
  have nw: "\<not> waits M w mid" for w
    using assms(3,5) by (simp add: waits_def)
  have own: "owns M t mid"
    using assms(3,4) by (simp add: owns_def)
  show ?thesis
    unfolding mutex_ok.simps
  proof (intro conjI allI impI)
    fix t' S'
    assume "(ow(t \<mapsto> S - {mid})) t' = Some S'"
    then show "finite S'" "S' = {a. owns (M(mid \<mapsto> m\<lparr>owner := None\<rparr>)) t' a}"
      using ok(8,9) [of t' S'] ok(8,9) [OF assms(2)] owns_fun [OF own, of t']
      by (auto split: if_splits)
  qed (use ok(1-7) assms(2,5) nw in \<open>auto split: if_splits\<close>)
qed

lemma mutex_ok_handover:
  assumes "mutex_ok (ow, M, R)" and "ow t = Some S" and "ow n = Some S'" and "M mid = Some m"
    and "owner m = Some t" and "waiters m = n # rest"
  shows "mutex_ok (ow(n \<mapsto> insert mid S', t \<mapsto> S - {mid}),
    M(mid \<mapsto> \<lparr>owner = Some n, waiters = rest\<rparr>), insert n R)"
proof -
  note ok = mutex_okD [OF assms(1)]
  let ?M = "M(mid \<mapsto> \<lparr>owner = Some n, waiters = rest\<rparr>)"
  have wn: "waits M n mid" and own: "owns M t mid"
    using assms(4-6) by (simp_all add: waits_def owns_def)
  have nt: "n \<noteq> t"
    using ok(3) [OF wn] own by blast
  have nr: "n \<notin> set rest" "distinct rest"
    using ok(6) [OF assms(4)] assms(6) by simp_all
  have w: "waits ?M w a \<Longrightarrow> waits M w a \<and> w \<noteq> n" for w a
    using ok(5) [OF wn] nr assms(4,6) by (auto simp: waits_def split: if_splits)
  show ?thesis
    unfolding mutex_ok.simps
  proof (intro conjI allI impI)
    fix w' a
    assume as: "waits ?M w' a"
    note w' = w [OF as]
    show "w' \<in> dom (ow(n \<mapsto> insert mid S', t \<mapsto> S - {mid}))" "w' \<notin> insert n R"
      "\<not> owns ?M w' a" "\<exists>t. owns ?M t a"
      using ok(1-4) [of w' a] w' by (auto split: if_splits)
  next
    fix w' a b
    assume "waits ?M w' a" "waits ?M w' b"
    then show "a = b"
      using w ok(5) by blast
  next
    fix t' S''
    assume as: "(ow(n \<mapsto> insert mid S', t \<mapsto> S - {mid})) t' = Some S''"
    show "finite S''" "S'' = {a. owns ?M t' a}"
      using as nt ok(8,9) [OF assms(2)] ok(8,9) [OF assms(3)] ok(8,9) [of t' S'']
        owns_fun [OF own, of t'] by (auto split: if_splits)
  qed (use ok(6,7) assms(2,3) nr in \<open>auto split: if_splits\<close>)
qed

lemma mutex_step_ok:
  assumes "mutex_step v v'" and "mutex_ok v"
  shows "mutex_ok v'"
  using assms
proof (induction rule: mutex_step.induct)
  case (mx_add ow t M R)
  note ok = mutex_okD [OF mx_add(2)]
  have "\<not> owns M t a" "\<not> waits M t a" for a
    using ok(1,7) mx_add(1) by auto
  then show ?case
    using mx_add by auto
next
  case (mx_wake t ow M R)
  then show ?case by auto
qed (assumption | (rule mutex_ok_acquire mutex_ok_block mutex_ok_release mutex_ok_handover; assumption))+


section \<open>The scheduler implements the protocol\<close>

definition as_view :: "autosar \<Rightarrow> mutex_view" where
  "as_view s = (\<lambda>x. map_option owned_mutexes (as_tasks s x), mutexes s, as_runnable s)"

definition as_ok :: "autosar \<Rightarrow> bool" where
  "as_ok s \<longleftrightarrow> as_inv s \<and> mutex_ok (as_view s)"

lemma dom_owned [simp]: "dom (\<lambda>x. map_option owned_mutexes (as_tasks s x)) = dom (as_tasks s)"
  by (auto simp: dom_def)

lemma as_known: "x \<in> dom (as_tasks s) \<longleftrightarrow> as_key s x \<noteq> None"
  by (auto simp: as_key_def)

lemma as_current_known: "as_inv s \<Longrightarrow> as_current s = Some c \<Longrightarrow> c \<in> dom (as_tasks s) \<and> c \<notin> set (as_ready s)"
  by (simp add: as_inv_def as_known)

lemma as_waiters_known:
  "as_ok s \<Longrightarrow> mutexes s mid = Some m \<Longrightarrow> w \<in> set (waiters m) \<Longrightarrow> w \<in> dom (as_tasks s)"
  using mutex_okD(1) [of "\<lambda>x. map_option owned_mutexes (as_tasks s x)" "mutexes s" "as_runnable s" w mid]
  by (simp add: as_ok_def as_view_def waits_def)

lemma as_owner_known:
  "as_ok s \<Longrightarrow> mutexes s mid = Some m \<Longrightarrow> owner m = Some t \<Longrightarrow> t \<in> dom (as_tasks s)"
  using mutex_okD(7) [of "\<lambda>x. map_option owned_mutexes (as_tasks s x)" "mutexes s" "as_runnable s" t mid]
  by (simp add: as_ok_def as_view_def owns_def)

text \<open>A state that differs in mutexes and in owned sets only has the same queue.\<close>

lemma as_queue_same:
  assumes "as_inv s" and "as_ready s' = as_ready s" and "as_current s' = as_current s"
    and "as_key s' = as_key s"
  shows "as_inv s' \<and> (as_top s \<longrightarrow> as_top s') \<and> as_runnable s' = as_runnable s"
proof -
  have "as_queue_ok s'"
    using as_queue_cong [of s s'] assms(1) by (simp add: as_inv_def assms(2,4))
  then have "as_inv s'"
    using assms by (cases "as_current s") (simp_all add: as_inv_def)
  moreover have "as_top s \<Longrightarrow> as_top s'"
    using assms by (simp add: as_top_def)
  ultimately show ?thesis
    using assms(2,3) by (simp add: as_runnable_def)
qed

lemma lock_free:
  assumes ok: "as_ok s" and known: "task \<in> dom (as_tasks s)" and free: "\<forall>t. \<not> owns (mutexes s) t mid"
  shows "\<exists>s'. lock_mutex task mid s = Some s' \<and> as_inv s' \<and> (as_top s \<longrightarrow> as_top s') \<and>
    mutex_step (as_view s) (as_view s')"
proof -
  obtain t where t: "as_tasks s task = Some t"
    using known by auto
  let ?m = "\<lparr>owner = Some task, waiters = []\<rparr>" and ?t = "t\<lparr>owned_mutexes := insert mid (owned_mutexes t)\<rparr>"
  let ?s = "s\<lparr>mutexes := (mutexes s)(mid \<mapsto> ?m), as_tasks := (as_tasks s)(task \<mapsto> ?t)\<rparr>"
  have idle: "m = \<lparr>owner = None, waiters = []\<rparr>" if "mutexes s mid = Some m" for m
  proof -
    have "owner m = None"
      using free that by (auto simp: owns_def)
    moreover have "\<not> waits (mutexes s) w mid" for w
      using ok free mutex_okD(4) [of "\<lambda>x. map_option owned_mutexes (as_tasks s x)" "mutexes s"]
      unfolding as_ok_def as_view_def by blast
    then have "waiters m = []"
      using that by (cases "waiters m") (auto simp: waits_def)
    ultimately show ?thesis by simp
  qed
  have lock: "lock_mutex task mid s = Some ?s"
    using t idle
    by (cases "mutexes s mid") (auto simp: lock_mutex_def as_put_mutex_def as_modify_def Let_def)
  have "as_key ?s = as_key s"
    using t by (auto simp: as_key_def fun_eq_iff)
  then have q: "as_inv ?s \<and> (as_top s \<longrightarrow> as_top ?s) \<and> as_runnable ?s = as_runnable s"
    using ok by (intro as_queue_same) (simp_all add: as_ok_def)
  have "(\<lambda>x. map_option owned_mutexes (as_tasks ?s x)) =
      (\<lambda>x. map_option owned_mutexes (as_tasks s x))(task \<mapsto> insert mid (owned_mutexes t))"
    by auto
  then have "mutex_step (as_view s) (as_view ?s)"
    using q t free by (simp add: as_view_def mx_acquire)
  then show ?thesis
    using lock q by blast
qed

lemma lock_contended:
  assumes ok: "as_ok s" and cur: "as_current s = Some task" and m: "mutexes s mid = Some m"
    and own: "owner m = Some own" "own \<noteq> task" and t: "as_tasks s own = Some t"
    and prio: "as_key s task = Some prio"
  shows "\<exists>s' ws. lock_mutex task mid s = Some s' \<and> as_inv s' \<and> as_top s' \<and>
    as_tasks s' = (as_tasks s)(own \<mapsto> t\<lparr>current_priority := min (current_priority t) prio\<rparr>) \<and>
    mutexes s' = (mutexes s)(mid \<mapsto> m\<lparr>waiters := ws\<rparr>) \<and>
    as_runnable s' = as_runnable s - {task} \<and> as_dispatched s s' \<and> set ws = insert task (set (waiters m)) \<and>
    (distinct ws \<longleftrightarrow> distinct (waiters m) \<and> task \<notin> set (waiters m))"
proof -
  have inv: "as_inv s" and q: "as_queue_ok s"
    using ok by (simp_all add: as_ok_def as_inv_def)
  have notin: "task \<notin> set (as_ready s)"
    using as_current_known [OF inv cur] by blast
  then have flt: "filter (\<lambda>x. x \<noteq> task) (as_ready s) = as_ready s"
    by (auto simp: filter_id_conv)
  have "\<forall>y \<in> set (task # waiters m). as_key s y \<noteq> None"
    using as_waiters_known [OF ok m] prio by (simp add: as_known)
  from std_search.queue_insert_total [OF this]
  obtain ws where ws: "std_search.queue_insert (as_key s) task (waiters m) = Some ws"
    by blast
  then obtain r where r: "binary_search_by_key (as_key s) prio (waiters m) = Some r"
    "vec_insert (waiters m) (either_pos r) task = Some ws"
    using prio by (auto simp: std_search.queue_insert_def bind_eq_Some_conv)
  let ?t = "t\<lparr>current_priority := min (current_priority t) prio\<rparr>"
  define s1 where "s1 = s\<lparr>mutexes := (mutexes s)(mid \<mapsto> m\<lparr>waiters := ws\<rparr>),
    as_tasks := (as_tasks s)(own \<mapsto> ?t)\<rparr>"
  have s1: "as_ready s1 = as_ready s" "as_current s1 = Some task"
    "as_tasks s1 = (as_tasks s)(own \<mapsto> ?t)" "mutexes s1 = (mutexes s)(mid \<mapsto> m\<lparr>waiters := ws\<rparr>)"
    using cur by (simp_all add: s1_def)
  have keys: "as_key s1 x = as_key s x" if "x \<noteq> own" for x
    using that by (simp add: as_key_def s1_def)
  obtain ready where req: "(if own \<in> set (as_ready s1) then as_requeue own s1 else Some s1) =
      Some (s1\<lparr>as_ready := ready\<rparr>)" and q1: "as_queue_ok (s1\<lparr>as_ready := ready\<rparr>)"
    and rd: "set ready = set (as_ready s)"
  proof (cases "own \<in> set (as_ready s)")
    case True
    then obtain ready where "as_requeue own s1 = Some (s1\<lparr>as_ready := ready\<rparr>)"
      "as_queue_ok (s1\<lparr>as_ready := ready\<rparr>)" "set ready = set (as_ready s)"
      using as_requeue_ok [OF q, of s1 own] keys s1 by (auto simp: as_key_def)
    then show thesis
      using that True s1(1) by simp
  next
    case False
    have "as_queue_ok s1"
      by (rule as_queue_cong [OF q s1(1)]) (metis False keys)
    have eq: "s1\<lparr>as_ready := as_ready s\<rparr> = s1"
      by (simp flip: s1(1))
    show thesis
      by (rule that [of "as_ready s", unfolded eq]) (use \<open>as_queue_ok s1\<close> False s1(1) in simp_all)
  qed
  let ?s2 = "s1\<lparr>as_ready := ready, as_current := None\<rparr>"
  have "as_key ?s2 = as_key (s1\<lparr>as_ready := ready\<rparr>)"
    by (rule as_key_cong) simp
  then have q2: "as_queue_ok ?s2"
    by (intro as_queue_cong [OF q1]) simp_all
  then obtain s' where s': "as_run_next ?s2 = Some s'" "as_inv s'" "as_top s'" "as_same ?s2 s'"
    "as_runnable s' = as_runnable ?s2"
    using as_run_next_ok [of ?s2] by auto
  have "as_dispatched ?s2 s'"
    using as_run_next_dispatched [OF s'(1) q2] by simp
  then have disp: "as_dispatched s s'"
    using as_dispatched_cong [of ?s2 s s'] rd by (simp add: s1_def)
  have "as_modify own (\<lambda>t. t\<lparr>current_priority := min (current_priority t) prio\<rparr>)
      (as_put_mutex mid (m\<lparr>waiters := ws\<rparr>) (s\<lparr>mutexes := (mutexes s)(mid \<mapsto> m), as_ready := as_ready s\<rparr>)) = Some s1"
    using t by (simp add: as_modify_def as_put_mutex_def s1_def)
  moreover have "as_key (s\<lparr>mutexes := (mutexes s)(mid \<mapsto> m), as_ready := as_ready s\<rparr>) = as_key s"
    by (rule as_key_cong) simp
  ultimately have "lock_mutex task mid s = Some s'"
    using m own flt prio r req s1(2) s'(1)
    by (simp add: lock_mutex_def as_put_mutex_def Let_def)
  moreover have "as_runnable ?s2 = as_runnable s - {task}"
    using rd cur notin by (simp add: as_runnable_def)
  moreover have "as_tasks s' = as_tasks s1" "mutexes s' = mutexes s1"
    using s'(4) by (simp_all add: as_same_def)
  ultimately show ?thesis
    using s'(2,3,5) s1(3,4) disp std_search.queue_insert_elems [OF ws] by metis
qed


text \<open>The fallback priority is the most urgent of the base priority and the first waiters.\<close>

lemma fold_inherit:
  assumes "\<And>mid m w ws. mid \<in> set xs \<Longrightarrow> mutexes s mid = Some m \<Longrightarrow> waiters m = w # ws \<Longrightarrow>
    as_key s w \<noteq> None"
  shows "\<exists>r. fold (inherit_from s) xs (Some p) = Some r \<and> r \<le> p \<and>
    (\<forall>mid \<in> set xs. \<forall>m w ws. mutexes s mid = Some m \<longrightarrow> waiters m = w # ws \<longrightarrow> r \<le> the (as_key s w))"
  using assms
proof (induction xs arbitrary: p)
  case Nil
  then show ?case by simp
next
  case (Cons a xs)
  obtain q where q: "inherit_from s a (Some p) = Some q" "q \<le> p"
    "\<forall>m w ws. mutexes s a = Some m \<longrightarrow> waiters m = w # ws \<longrightarrow> q \<le> the (as_key s w)"
  proof (cases "\<exists>m w ws. mutexes s a = Some m \<and> waiters m = w # ws")
    case True
    then obtain m w ws where m: "mutexes s a = Some m" "waiters m = w # ws"
      by blast
    then obtain k where "as_key s w = Some k"
      using Cons.prems [of a m w ws] by auto
    then show thesis
      using m that [of "min p k"] by (simp add: inherit_from_def)
  next
    case False
    then have "inherit_from s a (Some p) = Some p"
      by (auto simp: inherit_from_def split: option.splits list.splits)
    then show thesis
      using False that [of p] by auto
  qed
  obtain r where r: "fold (inherit_from s) xs (Some q) = Some r" "r \<le> q"
    "\<forall>mid \<in> set xs. \<forall>m w ws. mutexes s mid = Some m \<longrightarrow> waiters m = w # ws \<longrightarrow> r \<le> the (as_key s w)"
    using Cons.IH [of q] Cons.prems by (metis list.set_intros(2))
  then show ?case
    using q by (metis (no_types, lifting) fold_simps(2) order_trans set_ConsD)
qed

lemma as_settle_ok:
  assumes inv: "as_inv s" and "as_ready s' = as_ready s" "as_current s' = as_current s"
    and known: "as_key s' task \<noteq> None" and keys: "\<And>x. x \<noteq> task \<Longrightarrow> as_key s' x = as_key s x"
  shows "\<exists>s''. as_settle task s' = Some s'' \<and> as_inv s'' \<and> as_same s' s'' \<and>
    as_runnable s'' = as_runnable s \<and> (task \<notin> set (as_ready s) \<longrightarrow> as_top s \<longrightarrow> as_top s'')"
proof (cases "task \<in> set (as_ready s)")
  case True
  have q: "as_queue_ok s"
    using inv by (simp add: as_inv_def)
  obtain ready where rq: "as_requeue task s' = Some (s'\<lparr>as_ready := ready\<rparr>)"
    "as_queue_ok (s'\<lparr>as_ready := ready\<rparr>)" "set ready = set (as_ready s)"
    using as_requeue_ok [OF q assms(2) known True keys] by blast
  have k: "as_key (s'\<lparr>as_ready := ready\<rparr>) = as_key s'"
    by (rule as_key_cong) simp
  obtain cur where cur: "as_current s = Some cur"
    using inv True by (cases "as_current s") (auto simp: as_inv_def)
  have "cur \<notin> set (as_ready s)" "as_key s cur \<noteq> None"
    using inv cur by (simp_all add: as_inv_def)
  then have "as_key s' cur \<noteq> None"
    using keys [of cur] True \<open>cur \<notin> _\<close> by (cases "cur = task") auto
  then have "as_inv (s'\<lparr>as_ready := ready\<rparr>)"
    using rq \<open>cur \<notin> _\<close> cur k assms(3) by (simp add: as_inv_def)
  then show ?thesis
    using True rq assms(2,3) by (simp add: as_settle_def as_same_def as_runnable_def)
next
  case False
  have rkeys: "as_key s' x = as_key s x" if "x \<in> set (as_ready s)" for x
    using that False keys by metis
  have "as_queue_ok s"
    using inv by (simp add: as_inv_def)
  then have q: "as_queue_ok s'"
    by (rule as_queue_cong [OF _ assms(2) rkeys])
  have run: "as_runnable s' = as_runnable s"
    using assms(2,3) by (simp add: as_runnable_def)
  show ?thesis
  proof (cases "as_current s = Some task \<and> as_ready s \<noteq> []")
    case True
    then obtain x xs where x: "as_ready s = x # xs" and cur: "as_current s = Some task"
      by (cases "as_ready s") auto
    obtain kx kt where k: "as_key s' x = Some kx" "as_key s' task = Some kt"
      using q x assms(2) known by (auto simp: as_queue_ok_def)
    have st: "as_settle task s' = (if kx < kt then as_preempt s' else Some s')"
      using False x cur k assms(2,3) by (simp add: as_settle_def)
    show ?thesis
    proof (cases "kx < kt")
      case True
      then show ?thesis
        using as_preempt_ok [OF q, of task] False cur assms(2,3) known st run by auto
    next
      case ge: False
      have "as_inv s'"
        using q False cur assms(2,3) known by (simp add: as_inv_def)
      moreover have "as_top s'"
        using q ge k x cur assms(2,3) by (auto simp: as_top_def as_queue_ok_def)
      ultimately show ?thesis
        using st ge run by (simp add: as_same_def)
    qed
  next
    case idle: False
    then have "as_settle task s' = Some s'"
      using False assms(2,3) by (auto simp: as_settle_def split: list.splits)
    moreover have "as_key s' c \<noteq> None" if "as_current s = Some c" for c
      using that inv known keys [of c] by (cases "c = task") (auto simp: as_inv_def)
    then have "as_inv s'"
      using inv q assms(2,3) by (cases "as_current s") (simp_all add: as_inv_def)
    moreover have "as_top s \<Longrightarrow> as_top s'"
      using idle False keys rkeys assms(2,3) by (auto simp: as_top_def)
    ultimately show ?thesis
      using run by (simp add: as_same_def)
  qed
qed


abbreviation as_owned :: "autosar \<Rightarrow> nat \<rightharpoonup> nat set" where
  "as_owned s \<equiv> \<lambda>x. map_option owned_mutexes (as_tasks s x)"

lemma as_pass_on_ok:
  assumes ok: "as_ok s" and m: "mutexes s mid = Some m" "owner m = Some task"
    and t: "as_tasks s task = Some t"
  shows "\<exists>s'. as_pass_on mid m s = Some s' \<and> as_inv s' \<and> (as_top s \<longrightarrow> as_top s') \<and>
    as_key s' = as_key s \<and> as_tasks s' task = Some t \<and>
    mutex_step (as_view s)
      ((as_owned s')(task \<mapsto> owned_mutexes t - {mid}), mutexes s', as_runnable s')"
proof (cases "waiters m")
  case Nil
  let ?s = "as_put_mutex mid (m\<lparr>owner := None\<rparr>) s"
  have k: "as_key ?s = as_key s"
    by (rule as_key_cong) (simp add: as_put_mutex_def)
  have q: "as_inv ?s \<and> (as_top s \<longrightarrow> as_top ?s) \<and> as_runnable ?s = as_runnable s"
    using ok k by (intro as_queue_same) (simp_all add: as_ok_def as_put_mutex_def)
  have "mutex_step (as_view s) ((as_owned s)(task \<mapsto> owned_mutexes t - {mid}),
      (mutexes s)(mid \<mapsto> m\<lparr>owner := None\<rparr>), as_runnable s)"
    unfolding as_view_def using m Nil t by (intro mx_release) simp_all
  then show ?thesis
    using Nil q k t by (simp add: as_pass_on_def as_put_mutex_def)
next
  case (Cons n rest)
  have "n \<in> dom (as_tasks s)"
    using as_waiters_known [OF ok m(1)] Cons by simp
  then obtain tn where tn: "as_tasks s n = Some tn"
    by auto
  have "waits (mutexes s) n mid" "owns (mutexes s) task mid"
    using m Cons by (simp_all add: waits_def owns_def)
  then have nt: "n \<noteq> task"
    using ok mutex_okD(3) unfolding as_ok_def as_view_def by blast
  let ?m = "\<lparr>owner = Some n, waiters = rest\<rparr>" and ?tn = "tn\<lparr>owned_mutexes := insert mid (owned_mutexes tn)\<rparr>"
  define s1 where "s1 = s\<lparr>mutexes := (mutexes s)(mid \<mapsto> ?m), as_tasks := (as_tasks s)(n \<mapsto> ?tn)\<rparr>"
  have s1: "as_tasks s1 = (as_tasks s)(n \<mapsto> ?tn)" "mutexes s1 = (mutexes s)(mid \<mapsto> ?m)"
    "as_ready s1 = as_ready s" "as_current s1 = as_current s"
    by (simp_all add: s1_def)
  have k: "as_key s1 = as_key s"
    using tn by (simp add: as_key_def s1_def fun_eq_iff)
  have q: "as_inv s1 \<and> (as_top s \<longrightarrow> as_top s1) \<and> as_runnable s1 = as_runnable s"
    using ok k s1 by (intro as_queue_same) (simp_all add: as_ok_def)
  obtain s' where s': "as_make_ready n s1 = Some s'" "as_inv s'" "as_top s1 \<longrightarrow> as_top s'"
    "as_same s1 s'" "as_runnable s' = insert n (as_runnable s1)"
    using as_make_ready_ok [of s1 n] q k tn by (auto simp: as_key_def)
  have tasks: "as_tasks s' = (as_tasks s)(n \<mapsto> ?tn)" "mutexes s' = (mutexes s)(mid \<mapsto> ?m)"
    using s'(4) s1 by (simp_all add: as_same_def)
  then have ow: "as_owned s' = (as_owned s)(n \<mapsto> insert mid (owned_mutexes tn))"
    by auto
  have "as_pass_on mid m s = Some s'"
    using Cons tn s'(1) by (simp add: as_pass_on_def as_modify_def as_put_mutex_def s1_def)
  moreover have "as_key s' = as_key s"
    using tasks(1) tn by (simp add: as_key_def fun_eq_iff)
  moreover have "mutex_step (as_view s)
      ((as_owned s')(task \<mapsto> owned_mutexes t - {mid}), mutexes s', as_runnable s')"
  proof -
    have "mutex_step (as_view s) ((as_owned s)(n \<mapsto> insert mid (owned_mutexes tn),
        task \<mapsto> owned_mutexes t - {mid}), (mutexes s)(mid \<mapsto> ?m), insert n (as_runnable s))"
      unfolding as_view_def using m Cons t tn by (intro mx_handover) simp_all
    then show ?thesis
      unfolding ow tasks(2) s'(5) using q by simp
  qed
  ultimately show ?thesis
    using s'(2,3) q tasks(1) nt t by auto
qed

lemma unlock_ok:
  assumes ok: "as_ok s" and m: "mutexes s mid = Some m" "owner m = Some task"
    and t: "as_tasks s task = Some t"
  shows "\<exists>s' p. unlock_mutex task mid s = Some s' \<and> as_inv s' \<and>
    mutex_step (as_view s) (as_view s') \<and> as_key s' task = Some p \<and> p \<le> base_priority t \<and>
    map_option owned_mutexes (as_tasks s' task) = Some (owned_mutexes t - {mid}) \<and>
    (\<forall>x. x \<noteq> task \<longrightarrow> as_key s' x = as_key s x) \<and>
    (\<forall>a \<in> owned_mutexes t - {mid}. \<forall>m' w ws. mutexes s' a = Some m' \<longrightarrow> waiters m' = w # ws \<longrightarrow>
       p \<le> the (as_key s w)) \<and>
    (owned_mutexes t = {mid} \<longrightarrow> p = base_priority t)"
proof -
  obtain s1 where s1: "as_pass_on mid m s = Some s1" "as_inv s1" "as_key s1 = as_key s"
    "as_tasks s1 task = Some t"
    and step: "mutex_step (as_view s)
      ((as_owned s1)(task \<mapsto> owned_mutexes t - {mid}), mutexes s1, as_runnable s1)"
    using as_pass_on_ok [OF ok m t] by blast
  have ok1: "mutex_ok ((as_owned s1)(task \<mapsto> owned_mutexes t - {mid}), mutexes s1, as_runnable s1)"
    using mutex_step_ok [OF step] ok by (simp only: as_ok_def)
  define t2 where "t2 = t\<lparr>owned_mutexes := owned_mutexes t - {mid}\<rparr>"
  define s2 where "s2 = s1\<lparr>as_tasks := (as_tasks s1)(task \<mapsto> t2)\<rparr>"
  have k2: "as_key s2 = as_key s"
    using s1(3) t by (auto simp: as_key_def s2_def t2_def fun_eq_iff)
  have inv2: "as_inv s2"
    using as_queue_same [OF s1(2), of s2] k2 s1(3) by (simp add: s2_def)
  have ow2: "as_owned s2 = (as_owned s1)(task \<mapsto> owned_mutexes t - {mid})"
    by (auto simp: s2_def t2_def)
  have fin: "finite (owned_mutexes t - {mid})"
    using mutex_okD(8) [OF ok1, of task] by simp
  have heads: "as_key s2 w \<noteq> None" if "mutexes s2 a = Some m'" "waiters m' = w # ws" for a m' w ws
  proof -
    have "waits (mutexes s1) w a"
      using that by (simp add: waits_def s2_def)
    then have "w \<in> dom (as_owned s2)"
      unfolding ow2 by (rule mutex_okD(1) [OF ok1])
    then show ?thesis
      by (simp add: as_known)
  qed
  have "\<exists>r. fold (inherit_from s2) (sorted_list_of_set (owned_mutexes t2)) (Some (base_priority t)) =
      Some r \<and> r \<le> base_priority t \<and> (\<forall>a \<in> set (sorted_list_of_set (owned_mutexes t2)). \<forall>m w ws.
        mutexes s2 a = Some m \<longrightarrow> waiters m = w # ws \<longrightarrow> r \<le> the (as_key s2 w))"
    by (rule fold_inherit) (rule heads)
  then obtain p where "fold (inherit_from s2) (sorted_list_of_set (owned_mutexes t2))
      (Some (base_priority t)) = Some p" and p: "p \<le> base_priority t"
    "\<forall>a \<in> owned_mutexes t - {mid}. \<forall>m' w ws. mutexes s2 a = Some m' \<longrightarrow> waiters m' = w # ws \<longrightarrow>
       p \<le> the (as_key s w)"
    using fin k2 by (auto simp: t2_def)
  then have rp: "restored_priority task s2 = Some p"
    by (simp add: restored_priority_def s2_def t2_def)
  have base: "p = base_priority t" if "owned_mutexes t = {mid}"
    using rp that by (simp add: restored_priority_def s2_def t2_def)
  define s3 where "s3 = s2\<lparr>as_tasks := (as_tasks s2)(task \<mapsto> t2\<lparr>current_priority := p\<rparr>)\<rparr>"
  have k3: "as_key s3 task = Some p" "\<And>x. x \<noteq> task \<Longrightarrow> as_key s3 x = as_key s2 x"
    by (simp_all add: as_key_def s3_def)
  have ow3: "as_owned s3 = as_owned s2"
    by (auto simp: s3_def s2_def)
  obtain s' where s': "as_settle task s3 = Some s'" "as_inv s'" "as_same s3 s'"
    "as_runnable s' = as_runnable s2"
    using as_settle_ok [OF inv2, of s3 task] k3 by (auto simp: s3_def)
  have same: "as_tasks s' = as_tasks s3" "mutexes s' = mutexes s1"
    using s'(3) by (simp_all add: as_same_def s3_def s2_def)
  have "unlock_mutex task mid s = Some s'"
    using m s1(1,4) rp s'(1)
    by (simp add: unlock_mutex_def as_modify_def s2_def t2_def s3_def)
  moreover have "mutex_step (as_view s) (as_view s')"
    using step s'(4) same ow2 ow3 by (simp add: as_view_def as_runnable_def s2_def)
  moreover have "as_key s' = as_key s3"
    using same(1) by (rule as_key_cong)
  moreover have "map_option owned_mutexes (as_tasks s' task) = Some (owned_mutexes t - {mid})"
    using same(1) by (simp add: s3_def t2_def)
  ultimately show ?thesis
    using s'(2) k3 k2 p base same(2) by (auto simp: s2_def)
qed


section \<open>Properties\<close>

text \<open>The calls of a client that respects the interface: a task is added once; a task made ready
  is known and does not wait for a mutex; a mutex is locked by the running task, and not twice;
  any known task may unlock.\<close>

inductive as_step :: "autosar \<Rightarrow> autosar \<Rightarrow> bool" where
  as_step_add: "tid \<notin> dom (as_tasks s) \<Longrightarrow> as_step s (as_add_task tid per cap s)"
| as_step_ready: "tid \<in> dom (as_tasks s) \<Longrightarrow> \<forall>mid. \<not> waits (mutexes s) tid mid \<Longrightarrow>
     as_make_ready tid s = Some s' \<Longrightarrow> as_step s s'"
| as_step_lock: "as_current s = Some task \<Longrightarrow> \<not> owns (mutexes s) task mid \<Longrightarrow>
     lock_mutex task mid s = Some s' \<Longrightarrow> as_step s s'"
| as_step_unlock: "task \<in> dom (as_tasks s) \<Longrightarrow> unlock_mutex task mid s = Some s' \<Longrightarrow> as_step s s'"

inductive as_reach :: "u64 \<Rightarrow> autosar \<Rightarrow> bool" for cap where
  as_reach_new: "as_reach cap (as_new cap)"
| as_reach_step: "as_reach cap s \<Longrightarrow> as_step s s' \<Longrightarrow> as_reach cap s'"

lemma lock_ok:
  assumes ok: "as_ok s" and cur: "as_current s = Some task" and "\<not> owns (mutexes s) task mid"
  shows "\<exists>s'. lock_mutex task mid s = Some s' \<and> as_inv s' \<and> (as_top s \<longrightarrow> as_top s') \<and>
    mutex_step (as_view s) (as_view s')"
proof (cases "\<forall>t. \<not> owns (mutexes s) t mid")
  case True
  have "task \<in> dom (as_tasks s)"
    using as_current_known [of s task] ok cur by (simp add: as_ok_def)
  then show ?thesis
    using lock_free [OF ok _ True] by blast
next
  case False
  then obtain m own where m: "mutexes s mid = Some m" "owner m = Some own"
    by (auto simp: owns_def)
  have nt: "own \<noteq> task"
    using m assms(3) by (auto simp: owns_def)
  obtain t prio where t: "as_tasks s own = Some t" and prio: "as_key s task = Some prio"
    using as_owner_known [OF ok m] as_current_known [of s task] ok cur
    by (auto simp: as_ok_def as_key_def)
  obtain s' ws where s': "lock_mutex task mid s = Some s'" "as_inv s'" "as_top s'"
    and tasks: "as_tasks s' = (as_tasks s)(own \<mapsto> t\<lparr>current_priority := min (current_priority t) prio\<rparr>)"
    "mutexes s' = (mutexes s)(mid \<mapsto> m\<lparr>waiters := ws\<rparr>)"
    "as_runnable s' = as_runnable s - {task}" "set ws = insert task (set (waiters m))"
    "distinct ws \<longleftrightarrow> distinct (waiters m) \<and> task \<notin> set (waiters m)"
    using lock_contended [OF ok cur m nt t prio] by blast
  have run: "task \<in> as_runnable s"
    using cur by (simp add: as_runnable_def)
  have vok: "mutex_ok (as_owned s, mutexes s, as_runnable s)"
    using ok by (simp only: as_ok_def as_view_def)
  have "task \<notin> set (waiters m)"
    using mutex_okD(2) [OF vok, of task mid] m(1) run by (auto simp: waits_def)
  then have "distinct ws"
    using tasks(5) mutex_okD(6) [OF vok m(1)] by blast
  moreover have "as_owned s' = as_owned s"
    using tasks(1) t by auto
  moreover have "task \<in> dom (as_owned s)"
    using as_current_known [of s task] ok cur by (simp add: as_ok_def)
  ultimately have "mutex_step (as_view s) (as_view s')"
    unfolding as_view_def tasks(2,3) using run m nt tasks(4)
    by (simp only: mx_block [of task "as_runnable s" "as_owned s" "mutexes s" mid m own ws] simp_thms)
  then show ?thesis
    using s' by blast
qed

lemma as_add_ok:
  assumes "as_ok s" and "tid \<notin> dom (as_tasks s)"
  shows "as_inv (as_add_task tid per cap s) \<and> mutex_step (as_view s) (as_view (as_add_task tid per cap s))"
proof -
  let ?s = "as_add_task tid per cap s"
  have inv: "as_inv s"
    using assms(1) by (simp add: as_ok_def)
  have keys: "as_key ?s x = as_key s x" if "as_key s x \<noteq> None" for x
    using that assms(2) by (auto simp: as_key_def as_add_task_def)
  have same: "as_ready ?s = as_ready s" "as_current ?s = as_current s"
    by (simp_all add: as_add_task_def)
  have q: "as_queue_ok s"
    using inv by (simp add: as_inv_def)
  have "as_queue_ok ?s"
    by (rule as_queue_cong [OF q same(1)]) (use q keys in \<open>simp add: as_queue_ok_def\<close>)
  then have "as_inv ?s"
    using inv same keys by (cases "as_current s") (simp_all add: as_inv_def)
  moreover have "as_owned ?s = (as_owned s)(tid \<mapsto> {})"
    by (auto simp: as_add_task_def)
  moreover have "as_runnable ?s = as_runnable s" "mutexes ?s = mutexes s"
    using same by (simp_all add: as_runnable_def as_add_task_def)
  moreover have "as_tasks s tid = None"
    using assms(2) by auto
  ultimately show ?thesis
    by (simp add: as_view_def mx_add)
qed

lemma as_step_ok:
  assumes "as_step s s'" and "as_ok s"
  shows "as_inv s' \<and> mutex_step (as_view s) (as_view s')"
  using assms
proof (induction rule: as_step.induct)
  case (as_step_add tid s per cap)
  then show ?case by (simp add: as_add_ok)
next
  case (as_step_ready tid s s')
  have "as_key s tid \<noteq> None"
    using as_step_ready(1) by (simp add: as_known)
  then have r: "as_inv s'" "as_same s s'" "as_runnable s' = insert tid (as_runnable s)"
    using as_make_ready_ok [of s tid] as_step_ready(3,4) by (auto simp: as_ok_def)
  have "mutex_step (as_view s) (as_owned s, mutexes s, insert tid (as_runnable s))"
    unfolding as_view_def using as_step_ready(1,2) by (intro mx_wake) simp_all
  then show ?case
    using r by (simp add: as_view_def as_same_def)
next
  case (as_step_lock s task mid s')
  then show ?case
    using lock_ok [of s task mid] by auto
next
  case (as_step_unlock task s mid s')
  show ?case
  proof (cases "owns (mutexes s) task mid")
    case True
    then obtain m t where m: "mutexes s mid = Some m" "owner m = Some task"
      and t: "as_tasks s task = Some t"
      using as_step_unlock(1) by (auto simp: owns_def)
    from unlock_ok [OF as_step_unlock(3) m t] show ?thesis
      using as_step_unlock(2) by auto
  next
    case False
    then have "s' = s"
      using as_step_unlock(2) by (auto simp: unlock_mutex_def owns_def split: option.splits if_splits)
    then show ?thesis
      using as_step_unlock(3) mx_idle by (simp add: as_ok_def)
  qed
qed

lemma as_reach_ok: "as_reach cap s \<Longrightarrow> as_ok s"
proof (induction rule: as_reach.induct)
  case as_reach_new
  then show ?case
    by (simp add: as_ok_def as_inv_def as_queue_ok_def as_new_def as_view_def waits_def owns_def)
next
  case (as_reach_step s s')
  then have "as_inv s'" and "mutex_step (as_view s) (as_view s')"
    using as_step_ok by blast+
  then show ?case
    using as_reach_step(3) mutex_step_ok [of "as_view s" "as_view s'"] by (simp only: as_ok_def simp_thms)
qed


datatype as_call = AsAdd nat u64 u64 | AsReady nat | AsLock nat nat | AsUnlock nat nat

fun as_exec :: "as_call \<Rightarrow> autosar \<Rightarrow> autosar option" where
  "as_exec (AsAdd tid per cap) s = Some (as_add_task tid per cap s)"
| "as_exec (AsReady tid) s = as_make_ready tid s"
| "as_exec (AsLock task mid) s = lock_mutex task mid s"
| "as_exec (AsUnlock task mid) s = unlock_mutex task mid s"

fun as_exec_all :: "as_call list \<Rightarrow> autosar \<Rightarrow> autosar option" where
  "as_exec_all [] s = Some s"
| "as_exec_all (c # cs) s = do { s \<leftarrow> as_exec c s; as_exec_all cs s }"

text \<open>The calls that are permitted in a state, and the sequences of permitted calls.\<close>

fun as_permitted :: "as_call \<Rightarrow> autosar \<Rightarrow> bool" where
  "as_permitted (AsAdd tid per cap) s = (as_tasks s tid = None)"
| "as_permitted (AsReady tid) s =
     (as_tasks s tid \<noteq> None \<and> (\<forall>mid. \<not> waits (mutexes s) tid mid))"
| "as_permitted (AsLock task mid) s =
     (as_current s = Some task \<and> \<not> owns (mutexes s) task mid)"
| "as_permitted (AsUnlock task mid) s = (as_tasks s task \<noteq> None)"

lemma as_exec_step: "as_permitted c s \<Longrightarrow> as_exec c s = Some s' \<Longrightarrow> as_step s s'"
  by (cases c) (auto intro: as_step.intros)

text \<open>The test scenario of the source: a low-priority owner is boosted by a high-priority waiter.\<close>

definition inheritance_calls :: "as_call list" where
  "inheritance_calls = [AsAdd 1 200 0, AsAdd 2 100 0, AsReady 1, AsLock 1 1, AsReady 2, AsLock 2 1]"

lemmas as_eval = as_add_task_def as_make_ready_def as_insert_ready_sorted_def as_run_next_def
  as_preempt_def as_key_def lock_mutex_def as_put_mutex_def as_modify_def as_requeue_def
  binary_search_by_key_def binary_search_by_def bs_loop.simps cmp_u64_def vec_insert_def
  either_pos_def Let_def

fun as_permitted_all :: "as_call list \<Rightarrow> autosar \<Rightarrow> bool" where
  "as_permitted_all [] s = True"
| "as_permitted_all (c # cs) s = (as_permitted c s \<and>
     (case as_exec c s of None \<Rightarrow> False | Some s' \<Rightarrow> as_permitted_all cs s'))"

lemma as_reach_calls:
  "as_reach cap s \<Longrightarrow> as_permitted_all cs s \<Longrightarrow> \<exists>s'. as_exec_all cs s = Some s' \<and> as_reach cap s'"
proof (induction cs arbitrary: s)
  case Nil
  then show ?case by simp
next
  case (Cons c cs)
  then obtain s1 where "as_exec c s = Some s1" "as_permitted_all cs s1" "as_permitted c s"
    by (auto split: option.splits)
  then show ?case
    using Cons.IH [of s1] as_exec_step as_reach_step [OF Cons.prems(1)] by auto
qed

lemma inheritance_permitted: "as_permitted_all inheritance_calls (as_new 0)"
  by (simp add: inheritance_calls_def as_new_def as_eval waits_def owns_def)

text \<open>
  C7. In every state a client that respects the interface can bring about, the ready queue is
  sorted by urgency without duplicates, the running task is not queued, a task that waits for a
  mutex neither runs nor is ready, and it waits for one mutex only, which another task owns.
\<close>

theorem autosar_reachable:
  assumes "as_reach cap s"
  shows "sorted (map (\<lambda>x. the (task_priority x s)) (as_ready s)) \<and> distinct (as_ready s) \<and>
    (\<forall>c. current_task s = Some c \<longrightarrow> c \<notin> set (as_ready s)) \<and>
    (current_task s = None \<longrightarrow> as_ready s = []) \<and>
    (\<forall>w mid. waits (mutexes s) w mid \<longrightarrow> current_task s \<noteq> Some w \<and> w \<notin> set (as_ready s) \<and>
       (\<exists>t. t \<noteq> w \<and> owns (mutexes s) t mid) \<and> (\<forall>b. waits (mutexes s) w b \<longrightarrow> b = mid))"
proof -
  have ok: "as_inv s" "mutex_ok (as_owned s, mutexes s, as_runnable s)"
    using as_reach_ok [OF assms] by (simp_all only: as_ok_def as_view_def)
  note mx = mutex_okD(2-5) [OF ok(2)]
  have "current_task s \<noteq> Some w \<and> w \<notin> set (as_ready s) \<and>
      (\<exists>t. t \<noteq> w \<and> owns (mutexes s) t mid) \<and> (\<forall>b. waits (mutexes s) w b \<longrightarrow> b = mid)"
    if "waits (mutexes s) w mid" for w mid
  proof -
    have "\<exists>t. t \<noteq> w \<and> owns (mutexes s) t mid"
      using mx(2,3) [OF that] by metis
    then show ?thesis
      using mx(1) [OF that] mx(4) [OF _ that] by (auto simp: as_runnable_def current_task_def)
  qed
  moreover have "sorted (map (\<lambda>x. the (task_priority x s)) (as_ready s))" "distinct (as_ready s)"
    using ok(1) by (simp_all add: as_inv_def as_queue_ok_def task_priority_def)
  moreover have "\<forall>c. current_task s = Some c \<longrightarrow> c \<notin> set (as_ready s)"
    "current_task s = None \<longrightarrow> as_ready s = []"
    using ok(1) by (auto simp: as_inv_def current_task_def)
  ultimately show ?thesis by blast
qed

theorem autosar_reachable_witness:
  "\<exists>s. as_exec_all inheritance_calls (as_new 0) = Some s \<and> distinct (as_ready s) \<and>
     (\<forall>w mid. waits (mutexes s) w mid \<longrightarrow> current_task s \<noteq> Some w)"
proof -
  obtain s where s: "as_exec_all inheritance_calls (as_new 0) = Some s" "as_reach 0 s"
    using as_reach_calls [OF as_reach_new inheritance_permitted] by blast
  show ?thesis
    using autosar_reachable [OF s(2)] s(1) by blast
qed

text \<open>
  C18. No permitted call makes the scheduler panic, in any reachable state.
\<close>

theorem autosar_no_panic:
  assumes "as_reach cap s" and "as_permitted c s"
  shows "\<exists>s'. as_exec c s = Some s' \<and> as_reach cap s'"
proof -
  have ok: "as_ok s"
    using assms(1) by (rule as_reach_ok)
  have "\<exists>s'. as_exec c s = Some s'"
  proof (cases c)
    case (AsReady tid)
    then have "as_key s tid \<noteq> None"
      using assms(2) by (simp add: as_key_def)
    then show ?thesis
      using AsReady as_make_ready_ok [of s tid] ok by (auto simp: as_ok_def)
  next
    case (AsLock task mid)
    then show ?thesis
      using assms(2) lock_ok [OF ok, of task mid] by auto
  next
    case (AsUnlock task mid)
    show ?thesis
    proof (cases "owns (mutexes s) task mid")
      case True
      then obtain m where m: "mutexes s mid = Some m" "owner m = Some task"
        by (auto simp: owns_def)
      moreover obtain t where "as_tasks s task = Some t"
        using assms(2) AsUnlock by auto
      ultimately show ?thesis
        using unlock_ok [OF ok m] AsUnlock by fastforce
    next
      case False
      then have "unlock_mutex task mid s = Some s"
        by (auto simp: unlock_mutex_def owns_def split: option.splits)
      then show ?thesis
        using AsUnlock by simp
    qed
  qed simp
  then show ?thesis
    using as_exec_step [OF assms(2)] as_reach_step [OF assms(1)] by blast
qed



theorem autosar_no_panic_witness:
  "\<exists>s'. as_exec (AsAdd 1 200 0) (as_new 0) = Some s' \<and> as_reach 0 s'"
  using autosar_no_panic [OF as_reach_new, of "AsAdd 1 200 0" 0] by (simp add: as_new_def)

text \<open>
  C32. Priority inheritance: when the running task locks a mutex that another task owns, it becomes
  a waiter of it and no longer runs or is ready, the owner becomes at least as urgent as the
  waiter, and nobody else's priority changes. If tasks are ready, one of them that is at least as urgent as every
  other gets the processor: it leaves the queue, the rest of the queue stays, and the kernel is
  called once, with its thread. With an empty queue no task runs and the kernel is not called.
\<close>

theorem lock_inherits_priority:
  assumes "as_reach cap s" and "current_task s = Some task"
    and "mutexes s mid = Some m" and "owner m = Some own" and "own \<noteq> task"
  shows "\<exists>s'. lock_mutex task mid s = Some s' \<and> waits (mutexes s') task mid \<and>
    current_task s' \<noteq> Some task \<and> task \<notin> set (as_ready s') \<and>
    the (task_priority own s') \<le> the (task_priority task s') \<and>
    (\<forall>x. x \<noteq> own \<longrightarrow> task_priority x s' = task_priority x s) \<and>
    (if as_ready s = [] then current_task s' = None \<and> as_ready s' = [] \<and> as_runs s' = as_runs s
     else \<exists>c t. current_task s' = Some c \<and> c \<in> set (as_ready s) \<and> set (as_ready s') = set (as_ready s) - {c} \<and>
       as_tasks s' c = Some t \<and> as_runs s' = as_runs s @ [(as_scheduler_cap s, at_thread_cap t)] \<and>
       (\<forall>y \<in> set (as_ready s'). the (task_priority c s') \<le> the (task_priority y s')))"
proof -
  have ok: "as_ok s" and cur: "as_current s = Some task"
    using as_reach_ok [OF assms(1)] assms(2) by (simp_all add: current_task_def)
  obtain t prio where t: "as_tasks s own = Some t" and prio: "as_key s task = Some prio"
    using as_owner_known [OF ok assms(3,4)] as_current_known [of s task] ok cur
    by (auto simp: as_ok_def as_key_def)
  obtain s' ws where s': "lock_mutex task mid s = Some s'" "as_top s'"
    "as_tasks s' = (as_tasks s)(own \<mapsto> t\<lparr>current_priority := min (current_priority t) prio\<rparr>)"
    "mutexes s' = (mutexes s)(mid \<mapsto> m\<lparr>waiters := ws\<rparr>)" "as_runnable s' = as_runnable s - {task}"
    "set ws = insert task (set (waiters m))" and disp: "as_dispatched s s'"
    using lock_contended [OF ok cur assms(3-5) t prio] by blast
  have own: "as_key s' own = Some (min (current_priority t) prio)"
    and rest: "as_key s' x = as_key s x" if "x \<noteq> own" for x
    using that s'(3) by (simp_all add: as_key_def)
  have "task \<notin> as_runnable s'"
    using s'(5) by blast
  then have "current_task s' \<noteq> Some task" "task \<notin> set (as_ready s')"
    by (auto simp: as_runnable_def current_task_def)
  moreover have "waits (mutexes s') task mid"
    using s'(4,6) by simp
  moreover have "the (task_priority own s') \<le> the (task_priority task s')"
    using s'(3) prio rest [of task] assms(5) by (auto simp: task_priority_def as_key_def)
  moreover have "if as_ready s = [] then current_task s' = None \<and> as_ready s' = [] \<and> as_runs s' = as_runs s
     else \<exists>c t. current_task s' = Some c \<and> c \<in> set (as_ready s) \<and> set (as_ready s') = set (as_ready s) - {c} \<and>
       as_tasks s' c = Some t \<and> as_runs s' = as_runs s @ [(as_scheduler_cap s, at_thread_cap t)] \<and>
       (\<forall>y \<in> set (as_ready s'). the (task_priority c s') \<le> the (task_priority y s'))"
    using disp s'(2) by (auto simp: as_dispatched_def as_top_def task_priority_def current_task_def)
  ultimately show ?thesis
    using s'(1) rest by (auto simp: task_priority_def)
qed

theorem lock_inherits_priority_witness:
  "\<exists>s s'. as_exec_all (butlast inheritance_calls) (as_new 0) = Some s \<and>
     lock_mutex 2 1 s = Some s' \<and> waits (mutexes s') 2 1 \<and>
     the (task_priority 1 s') \<le> the (task_priority 2 s')"
proof -
  have "as_permitted_all (butlast inheritance_calls) (as_new 0)"
    by (simp add: inheritance_calls_def as_new_def as_eval waits_def owns_def)
  then obtain s where s: "as_exec_all (butlast inheritance_calls) (as_new 0) = Some s" "as_reach 0 s"
    using as_reach_calls [OF as_reach_new] by blast
  then have "current_task s = Some 2" "mutexes s 1 = Some \<lparr>owner = Some 1, waiters = []\<rparr>"
    by (auto simp: inheritance_calls_def as_new_def as_eval current_task_def)
  then show ?thesis
    using lock_inherits_priority [OF s(2), of 2 1 "\<lparr>owner = Some 1, waiters = []\<rparr>" 1] s(1) by auto
qed

text \<open>
  C33. A task that gives back the only mutex it owns falls back to its base priority, no other
  task's priority changes, and the first waiter, if any, becomes the owner and may run.
\<close>

theorem unlock_restores_priority:
  assumes "as_reach cap s" and "mutexes s mid = Some m" and "owner m = Some task"
    and "as_tasks s task = Some t" and "owned_mutexes t = {mid}"
  shows "\<exists>s'. unlock_mutex task mid s = Some s' \<and> task_priority task s' = Some (base_priority t) \<and>
    (\<forall>x. x \<noteq> task \<longrightarrow> task_priority x s' = task_priority x s) \<and>
    \<not> owns (mutexes s') task mid \<and> map_option owned_mutexes (as_tasks s' task) = Some {}"
proof -
  have ok: "as_ok s"
    using assms(1) by (rule as_reach_ok)
  obtain s' p where s': "unlock_mutex task mid s = Some s'" "as_inv s'"
    "mutex_step (as_view s) (as_view s')" "as_key s' task = Some p"
    "\<forall>x. x \<noteq> task \<longrightarrow> as_key s' x = as_key s x" "p = base_priority t"
    "map_option owned_mutexes (as_tasks s' task) = Some {}"
    using unlock_ok [OF ok assms(2-4)] assms(5) by auto
  have "mutex_ok (as_owned s', mutexes s', as_runnable s')"
    using mutex_step_ok [OF s'(3)] ok by (simp only: as_ok_def as_view_def)
  then have "{} = {a. owns (mutexes s') task a}"
    by (rule mutex_okD(9)) (rule s'(7))
  then have "\<not> owns (mutexes s') task mid"
    by auto
  then show ?thesis
    using s' by (simp add: task_priority_def)
qed


theorem unlock_restores_priority_witness:
  "\<exists>s s'. as_exec_all inheritance_calls (as_new 0) = Some s \<and> task_priority 1 s = Some 100 \<and>
     unlock_mutex 1 1 s = Some s' \<and> task_priority 1 s' = Some 200"
proof -
  let ?t = "\<lparr>period = 200, base_priority = 200, current_priority = 100, at_thread_cap = 0,
     owned_mutexes = {1}\<rparr>"
  obtain s where s: "as_exec_all inheritance_calls (as_new 0) = Some s" "as_reach 0 s"
    using as_reach_calls [OF as_reach_new inheritance_permitted] by blast
  then have "mutexes s 1 = Some \<lparr>owner = Some 1, waiters = [2]\<rparr>" and t: "as_tasks s 1 = Some ?t"
    by (auto simp: inheritance_calls_def as_new_def as_eval)
  then show ?thesis
    using unlock_restores_priority [OF s(2), of 1 "\<lparr>owner = Some 1, waiters = [2]\<rparr>" 1 ?t] s(1)
    by (auto simp: task_priority_def as_key_def)
qed

text \<open>Task 1 owns the mutexes 1 and 2; task 2 owns 3 and waits for 2; task 3 owns 4 and waits for 1;
  task 4 waits for 4 and task 5 for 3. Then task 1 gives mutex 1 back.\<close>

definition nested_calls :: "as_call list" where
  "nested_calls = [AsAdd 1 50 0, AsAdd 2 40 0, AsAdd 3 30 0, AsAdd 4 20 0, AsAdd 5 10 0,
     AsReady 1, AsLock 1 1, AsLock 1 2, AsReady 2, AsLock 2 3, AsLock 2 2,
     AsReady 3, AsLock 3 4, AsLock 3 1, AsReady 4, AsLock 4 4, AsReady 5, AsLock 5 3,
     AsUnlock 1 1]"

text \<open>
  Inheritance does not follow chains of owners, and after an unlock the running task is not
  compared with the re-queued one: after this sequence of permitted calls, task 3 runs with
  priority 20 while task 1 is ready with the more urgent priority 10.
\<close>

theorem unlock_leaves_urgent_task_ready:
  "\<exists>s. as_permitted_all nested_calls (as_new 0) \<and> as_exec_all nested_calls (as_new 0) = Some s \<and>
     current_task s = Some 3 \<and> as_ready s = [1] \<and>
     task_priority 3 s = Some 20 \<and> task_priority 1 s = Some 10"
  by (simp add: nested_calls_def as_new_def as_eval waits_def owns_def unlock_mutex_def
      as_pass_on_def as_settle_def restored_priority_def inherit_from_def current_task_def
      task_priority_def insert_Diff_if)

end
