(* ===== verification/Epoll_Server.thy ===== *)
theory Epoll_Server
  imports Ipc_Server
begin

text \<open>
  The epoll service, \<open>src/src/epoll_server/src/main.rs\<close>: epoll instances behind handles in one
  slab. An \<open>epoll_event\<close> is the bytes of its representation. The C library, the slab crate and
  the kernel IPC are parameters.
\<close>

section \<open>Parameters\<close>

text \<open>\<open>epoll_ctl\<close> takes the event or a null pointer; \<open>epoll_wait\<close> returns its result and the
  events it stored.\<close>

record 'w epoll_env =
  ep_BR_WORDS :: nat
  EPOLL_EVENT_SIZE :: nat
  EPOLL_CTL_DEL :: i32
  ep_EBADF :: i32
  ep_EINVAL :: i32
  ep_EOVERFLOW :: i32
  ep_ENOSYS :: i32
  ep_EIO :: i32
  ep_last_os_error :: "'w \<Rightarrow> i32 option"
  ep_close :: "i32 \<Rightarrow> 'w \<Rightarrow> 'w"
  epoll_create1 :: "i32 \<Rightarrow> 'w \<Rightarrow> i32 \<times> 'w"
  epoll_ctl :: "i32 \<Rightarrow> i32 \<Rightarrow> i32 \<Rightarrow> u8 list option \<Rightarrow> 'w \<Rightarrow> i32 \<times> 'w"
  epoll_wait :: "i32 \<Rightarrow> i32 \<Rightarrow> i32 \<Rightarrow> 'w \<Rightarrow> (i32 \<times> u8 list list) \<times> 'w"

section \<open>The server\<close>

definition ep_BR_DATA_BYTES :: "'w epoll_env \<Rightarrow> nat" where
  "ep_BR_DATA_BYTES E = (ep_BR_WORDS E - 1) * 8"

definition MAX_SERIALISED_EVENTS :: "'w epoll_env \<Rightarrow> nat" where
  "MAX_SERIALISED_EVENTS E =
     (if EPOLL_EVENT_SIZE E = 0 then 0 else ep_BR_DATA_BYTES E div EPOLL_EVENT_SIZE E)"

record epoll_instance =
  epoll_fd :: i32

definition drop_epoll :: "'w epoll_env \<Rightarrow> epoll_instance \<Rightarrow> 'w \<Rightarrow> 'w" where
  "drop_epoll E x w = ep_close E (epoll_fd x) w"

definition ep_encode_errno :: "'w epoll_env \<Rightarrow> 'w \<Rightarrow> u64" where
  "ep_encode_errno E w =
     neg_errno (case ep_last_os_error E w of Some e \<Rightarrow> e | None \<Rightarrow> ep_EIO E)"

definition ep_br_clear :: "utcb \<Rightarrow> utcb" where
  "ep_br_clear u = set_br0 u 0"

definition br_read_event :: "'w epoll_env \<Rightarrow> utcb \<Rightarrow> u8 list option" where
  "br_read_event E u =
     (if EPOLL_EVENT_SIZE E = 0 then None
      else if unat (br0 u) < EPOLL_EVENT_SIZE E then None
      else Some (take (EPOLL_EVENT_SIZE E) (br_payload u)))"

definition br_write_events :: "'w epoll_env \<Rightarrow> u8 list list \<Rightarrow> utcb \<Rightarrow> utcb" where
  "br_write_events E events u =
     (let count = min (length events) (MAX_SERIALISED_EVENTS E);
          bytes = count * EPOLL_EVENT_SIZE E;
          u = set_br0 u (word_of_nat bytes)
      in if bytes = 0 then u else br_copy_in u (take bytes (concat events)))"

definition handle_ctl ::
  "'w epoll_env \<Rightarrow> ('s, epoll_instance) slab_ops \<Rightarrow> utcb \<Rightarrow> 's \<Rightarrow> 'w \<Rightarrow> utcb \<times> 's \<times> 'w" where
  "handle_ctl E sl u s w =
     (let op = ucast (get_mr u 2); target_fd = ucast (get_mr u 3) in
      case slab_get sl s (unat (get_mr u 1)) of
        None \<Rightarrow> (ep_br_clear (set_mr u 0 (neg_errno (ep_EBADF E))), s, w)
      | Some instance \<Rightarrow>
          if op = EPOLL_CTL_DEL E then
            let (res, w) = epoll_ctl E (epoll_fd instance) op target_fd None w
            in (ep_br_clear (set_mr u 0 (if sint res < 0 then ep_encode_errno E w else 0)), s, w)
          else
            (case br_read_event E u of
               None \<Rightarrow> (set_mr u 0 (neg_errno (ep_EINVAL E)), s, w)
             | Some event \<Rightarrow>
                 let (res, w) = epoll_ctl E (epoll_fd instance) op target_fd (Some event) w
                 in (ep_br_clear (set_mr u 0 (if sint res < 0 then ep_encode_errno E w else 0)), s, w)))"

text \<open>\<open>maxevents.min(MAX_SERIALISED_EVENTS as c_int)\<close>\<close>

definition wait_limit :: "'w epoll_env \<Rightarrow> i32 \<Rightarrow> i32" where
  "wait_limit E maxevents =
     (if sint maxevents \<le> sint (word_of_nat (MAX_SERIALISED_EVENTS E) :: i32)
      then maxevents else word_of_nat (MAX_SERIALISED_EVENTS E))"

definition handle_wait ::
  "'w epoll_env \<Rightarrow> ('s, epoll_instance) slab_ops \<Rightarrow> utcb \<Rightarrow> 's \<Rightarrow> 'w \<Rightarrow> utcb \<times> 's \<times> 'w" where
  "handle_wait E sl u s w =
     (let maxevents = ucast (get_mr u 2) :: i32; timeout = ucast (get_mr u 3) in
      case slab_get sl s (unat (get_mr u 1)) of
        None \<Rightarrow> (ep_br_clear (set_mr u 0 (neg_errno (ep_EBADF E))), s, w)
      | Some instance \<Rightarrow>
          if sint maxevents \<le> 0 then (ep_br_clear (set_mr u 0 (neg_errno (ep_EINVAL E))), s, w)
          else if MAX_SERIALISED_EVENTS E = 0 then
            (ep_br_clear (set_mr u 0 (neg_errno (ep_EOVERFLOW E))), s, w)
          else
            let limit = wait_limit E maxevents;
                ((res, events), w) = epoll_wait E (epoll_fd instance) limit timeout w
            in if sint res < 0 then (ep_br_clear (set_mr u 0 (ep_encode_errno E w)), s, w)
               else (set_mr (br_write_events E (take (unat res) events) u) 0 (scast res), s, w))"

definition handle_close ::
  "'w epoll_env \<Rightarrow> ('s, epoll_instance) slab_ops \<Rightarrow> utcb \<Rightarrow> 's \<Rightarrow> 'w \<Rightarrow> utcb \<times> 's \<times> 'w" where
  "handle_close E sl u s w =
     (let handle = unat (get_mr u 1) in
      case slab_get sl s handle of
        Some x \<Rightarrow> (ep_br_clear (set_mr u 0 0), slab_remove sl s handle, drop_epoll E x w)
      | None \<Rightarrow> (ep_br_clear (set_mr u 0 (neg_errno (ep_EBADF E))), s, w))"

definition handle_create1 ::
  "'w epoll_env \<Rightarrow> ('s, epoll_instance) slab_ops \<Rightarrow> utcb \<Rightarrow> 's \<Rightarrow> 'w \<Rightarrow> utcb \<times> 's \<times> 'w" where
  "handle_create1 E sl u s w =
     (let flags = ucast (get_mr u 1); (fd, w) = epoll_create1 E flags w
      in if sint fd < 0 then (ep_br_clear (set_mr u 0 (ep_encode_errno E w)), s, w)
         else let (slot, s) = slab_insert sl s \<lparr>epoll_fd = fd\<rparr>
              in (ep_br_clear (set_mr u 0 (word_of_nat slot)), s, w))"

definition epoll_dispatch ::
  "'w epoll_env \<Rightarrow> ('s, epoll_instance) slab_ops \<Rightarrow> utcb \<Rightarrow> 's \<times> 'w \<Rightarrow> utcb \<times> 's \<times> 'w" where
  "epoll_dispatch E sl u st =
     (let opc = get_mr u 0; s = fst st; w = snd st in
      if opc = 0 then handle_create1 E sl u s w
      else if opc = 1 then handle_ctl E sl u s w
      else if opc = 2 then handle_wait E sl u s w
      else if opc = 3 then handle_close E sl u s w
      else (ep_br_clear (set_mr u 0 (neg_errno (ep_ENOSYS E))), s, w))"

definition epoll_run :: "'w epoll_env \<Rightarrow> ('s, epoll_instance) slab_ops \<Rightarrow> u64 option \<Rightarrow> u64
    \<Rightarrow> (u64 \<times> utcb) list \<Rightarrow> 'w \<Rightarrow> (utcb list \<times> 's \<times> 'w) option" where
  "epoll_run E sl gate bind_error msgs w =
     (case gate of
        None \<Rightarrow> None
      | Some g \<Rightarrow> if bind_error \<noteq> 0 then None
                  else Some (ipc_loop (epoll_dispatch E sl) msgs (slab_new sl, w)))"

lemmas epoll_handler_defs = handle_create1_def handle_ctl_def handle_wait_def handle_close_def

section \<open>Descriptors\<close>

locale epoll_os = desc_os "ep_close E" open_fds
  for E :: "'w epoll_env" and open_fds :: "'w \<Rightarrow> i32 set" +
  assumes os_create1: "epoll_create1 E fl w = (fd, w') \<Longrightarrow> opens_fresh open_fds fd w w'"
    and os_ctl: "epoll_ctl E fd op tfd ev w = (r, w') \<Longrightarrow> open_fds w' = open_fds w"
    and os_wait: "epoll_wait E fd n tmo w = (rs, w') \<Longrightarrow> open_fds w' = open_fds w"

locale epoll_service = os: epoll_os E open_fds + sl: slab sl
  for E :: "'w epoll_env" and sl :: "('s, epoll_instance) slab_ops" and open_fds :: "'w \<Rightarrow> i32 set"
begin

definition ep_inv :: "'s \<times> 'w \<Rightarrow> bool" where
  "ep_inv st \<longleftrightarrow> ledger_ok (tab epoll_fd sl (fst st)) (open_fds (snd st))"

lemma dispatch_step:
  assumes "epoll_dispatch E sl u (s, w) = (u', s', w')"
  shows "ledger_step (tab epoll_fd sl s, open_fds w) (tab epoll_fd sl s', open_fds w')"
proof -
  have "ledger_step (tab epoll_fd sl s, open_fds w) (tab epoll_fd sl s', open_fds w')"
    if h: "handle_create1 E sl u s w = (u', s', w')"
  proof -
    obtain fd w1 where c: "epoll_create1 E (ucast (get_mr u 1)) w = (fd, w1)"
      by fastforce
    have "w' = w1" and "if sint fd < 0 then s' = s else \<exists>k. slab_insert sl s \<lparr>epoll_fd = fd\<rparr> = (k, s')"
      using h c by (auto simp: handle_create1_def split: prod.splits if_splits)
    then show ?thesis
      using os.step_create [OF sl.slab_axioms, of epoll_fd "\<lparr>epoll_fd = fd\<rparr>"] os.os_create1 [OF c]
      by simp
  qed
  moreover have "s' = s \<and> open_fds w' = open_fds w" if "handle_ctl E sl u s w = (u', s', w')"
    using that by (auto simp: handle_ctl_def Let_def dest!: os.os_ctl
        split: option.splits prod.splits if_splits)
  moreover have "s' = s \<and> open_fds w' = open_fds w" if "handle_wait E sl u s w = (u', s', w')"
    using that by (auto simp: handle_wait_def Let_def dest!: os.os_wait
        split: option.splits prod.splits if_splits)
  moreover have "ledger_step (tab epoll_fd sl s, open_fds w) (tab epoll_fd sl s', open_fds w')"
    if "handle_close E sl u s w = (u', s', w')"
    using that by (auto simp: handle_close_def Let_def drop_epoll_def
        intro: ledger_idle os.step_release [OF sl.slab_axioms] split: option.splits)
  ultimately show ?thesis
    using assms by (auto simp: epoll_dispatch_def Let_def ledger_idle split: if_splits)
qed

end

lemma epoll_wf: "wf_utcb n u \<Longrightarrow> wf_utcb n (fst (epoll_dispatch E sl u st))"
  by (auto simp: epoll_dispatch_def epoll_handler_defs Let_def ep_br_clear_def br_write_events_def
      split: option.splits prod.splits)

sublocale epoll_service \<subseteq> loop: ipc_server "epoll_dispatch E sl" ep_inv n for n
proof
  show "ep_inv s \<Longrightarrow> wf_utcb n u \<Longrightarrow> epoll_dispatch E sl u s = (u', s') \<Longrightarrow> ep_inv s'" for s u u' s'
    using dispatch_step [of u "fst s" "snd s" u' "fst s'" "snd s'"] ledger_step_ok
    by (auto simp: ep_inv_def)
  show "ep_inv s \<Longrightarrow> wf_utcb n u \<Longrightarrow> epoll_dispatch E sl u s = (u', s') \<Longrightarrow> wf_utcb n u'" for s u u' s'
    using epoll_wf [of n u E sl s] by simp
qed

context epoll_service
begin

lemma run_inv:
  assumes "open_fds w = {}" and "list_all (\<lambda>(err, u). wf_utcb n u) msgs"
  shows "ep_inv (snd (ipc_loop (epoll_dispatch E sl) msgs (slab_new sl, w)))"
proof -
  have "tab epoll_fd sl (slab_new sl) = Map.empty"
    by (simp add: tab_def sl.slab_get_new fun_eq_iff)
  then have "ep_inv (slab_new sl, w)"
    using assms(1) by (simp add: ep_inv_def)
  then show ?thesis
    using loop.loop_inv assms(2) by blast
qed

end

section \<open>Serialised events\<close>

lemma length_concat_uniform: "\<forall>x \<in> set xs. length x = n \<Longrightarrow> length (concat xs) = length xs * n"
  by (induction xs) simp_all

lemma take_concat_uniform:
  "\<forall>x \<in> set xs. length x = n \<Longrightarrow> take (k * n) (concat xs) = concat (take k xs)"
proof (induction xs arbitrary: k)
  case Nil
  then show ?case by simp
next
  case (Cons x xs)
  then show ?case by (cases k) simp_all
qed

lemma br_write_events_store:
  assumes "\<forall>x \<in> set events. length x = EPOLL_EVENT_SIZE E" and "EPOLL_EVENT_SIZE E \<noteq> 0"
  shows "br_write_events E events u = br_store (concat (take (MAX_SERIALISED_EVENTS E) events)) u"
proof -
  let ?n = "min (length events) (MAX_SERIALISED_EVENTS E)"
  have tk: "take ?n events = take (MAX_SERIALISED_EVENTS E) events"
    by simp
  have c: "take (?n * EPOLL_EVENT_SIZE E) (concat events) = concat (take ?n events)"
    by (rule take_concat_uniform [OF assms(1)])
  have "\<forall>x \<in> set (take ?n events). length x = EPOLL_EVENT_SIZE E"
    using assms(1) by (meson in_set_takeD)
  then have l: "length (concat (take ?n events)) = ?n * EPOLL_EVENT_SIZE E"
    using length_concat_uniform [of "take ?n events" "EPOLL_EVENT_SIZE E"] by simp
  then have "concat (take ?n events) = [] \<longleftrightarrow> ?n * EPOLL_EVENT_SIZE E = 0"
    by (metis length_0_conv)
  then show ?thesis
    unfolding br_write_events_def br_store_def Let_def c tk [symmetric] l by simp
qed

section \<open>A C library that meets the contract\<close>

definition demo_epoll :: "(nat \<times> i32 list) epoll_env" where
  "demo_epoll = \<lparr>ep_BR_WORDS = 58, EPOLL_EVENT_SIZE = 16, EPOLL_CTL_DEL = 2, ep_EBADF = 9,
     ep_EINVAL = 22, ep_EOVERFLOW = 75, ep_ENOSYS = 38, ep_EIO = 5, ep_last_os_error = (\<lambda>_. Some 2),
     ep_close = (\<lambda>fd w. (fst w, removeAll fd (snd w))), epoll_create1 = (\<lambda>_. demo_alloc),
     epoll_ctl = (\<lambda>_ _ _ _ w. (0, w)),
     epoll_wait = (\<lambda>_ n _ w. ((n, replicate (unat n) (replicate 16 7)), w))\<rparr>"

interpretation demo_epoll: epoll_service demo_epoll vec_slab demo_open
proof
  fix fd w fl w' op tfd ev r tmo n and rs :: "i32 \<times> u8 list list"
  show "demo_open (ep_close demo_epoll fd w) = demo_open w - {fd}"
    by (auto simp: demo_epoll_def demo_open_def)
  show "epoll_create1 demo_epoll fl w = (fd, w') \<Longrightarrow> opens_fresh demo_open fd w w'"
    by (simp add: demo_epoll_def demo_alloc_fresh)
  show "epoll_ctl demo_epoll fd op tfd ev w = (r, w') \<Longrightarrow> demo_open w' = demo_open w"
    by (simp add: demo_epoll_def)
  show "epoll_wait demo_epoll fd n tmo w = (rs, w') \<Longrightarrow> demo_open w' = demo_open w"
    by (auto simp: demo_epoll_def)
qed

section \<open>Properties\<close>

text \<open>
  C12. Whatever well-formed messages arrive, the epoll descriptors open on the server's behalf are
  exactly those of its instances, one instance each; every message that arrived without an IPC
  error is answered.
\<close>

theorem epoll_run_ledger:
  assumes "epoll_service E sl open_fds" and "open_fds w = {}"
    and "list_all (\<lambda>(err, u). wf_utcb n u) msgs"
    and "epoll_run E sl (Some gate) 0 msgs w = Some (replies, s', w')"
  shows "ledger_ok (tab epoll_fd sl s') (open_fds w') \<and>
    length replies = length (filter (\<lambda>(err, u). err = 0) msgs)"
proof -
  have run: "ipc_loop (epoll_dispatch E sl) msgs (slab_new sl, w) = (replies, s', w')"
    using assms(4) by (simp add: epoll_run_def)
  show ?thesis
    using epoll_service.run_inv [OF assms(1,2,3)] run
      ipc_loop_answers_length [of "epoll_dispatch E sl" msgs "(slab_new sl, w)"]
    by (simp add: epoll_service.ep_inv_def [OF assms(1)])
qed

theorem epoll_run_ledger_witness:
  "\<exists>replies s' w'.
     epoll_run demo_epoll vec_slab (Some 7) 0 [(0, demo_utcb [0, 0, 0, 0]), (0, demo_utcb [3, 5, 0, 0])]
       (3, []) = Some (replies, s', w') \<and>
     ledger_ok (tab epoll_fd vec_slab s') (demo_open w') \<and> length replies = 2"
proof -
  let ?msgs = "[(0, demo_utcb [0, 0, 0, 0]), (0, demo_utcb [3, 5, 0, 0])] :: (u64 \<times> utcb) list"
  obtain replies s' w' where
    run: "epoll_run demo_epoll vec_slab (Some 7) 0 ?msgs (3, []) = Some (replies, s', w')"
    by (simp add: epoll_run_def) (metis prod.collapse)
  have "list_all (\<lambda>(err, u). wf_utcb 58 u) ?msgs"
    by (simp add: wf_utcb_def demo_utcb_def)
  moreover have "demo_open (3, []) = {}"
    by (simp add: demo_open_def)
  ultimately show ?thesis
    using epoll_run_ledger [OF demo_epoll.epoll_service_axioms _ _ run] run by auto
qed

text \<open>
  A successful wait reports every event: the result register holds the number of events the
  C library stored, and the payload of the reply is exactly these events, in order; the server
  never asks for more events than the buffer registers can carry.
\<close>

theorem epoll_wait_reply:
  assumes "wf_utcb (ep_BR_WORDS E) u" and "ep_BR_DATA_BYTES E < 2 ^ 31"
    and "get_mr u 0 = 2" and entry: "slab_get sl s (unat (get_mr u 1)) = Some x"
    and "0 < sint (ucast (get_mr u 2) :: i32)" and "MAX_SERIALISED_EVENTS E \<noteq> 0"
    and call: "epoll_wait E (epoll_fd x) (wait_limit E (ucast (get_mr u 2))) (ucast (get_mr u 3)) w
      = ((res, events), w')"
    and res: "0 \<le> sint res" "sint res \<le> sint (wait_limit E (ucast (get_mr u 2)))"
    and ev: "length events = unat res" "\<forall>e \<in> set events. length e = EPOLL_EVENT_SIZE E"
    and "epoll_dispatch E sl u (s, w) = (u', st')"
  shows "get_mr u' 0 = scast res \<and> br_fetch u' = concat events \<and>
    length events \<le> MAX_SERIALISED_EVENTS E \<and> st' = (s, w')"
proof -
  have u': "u' = set_mr (br_write_events E (take (unat res) events) u) 0 (scast res)"
    and st': "st' = (s, w')"
    using assms(3,5,6,12) entry call res(1)
    by (auto simp: epoll_dispatch_def handle_wait_def Let_def)
  have sz: "EPOLL_EVENT_SIZE E \<noteq> 0"
    using assms(6) by (simp add: MAX_SERIALISED_EVENTS_def split: if_splits)
  have max: "MAX_SERIALISED_EVENTS E * EPOLL_EVENT_SIZE E \<le> ep_BR_DATA_BYTES E"
    using sz by (simp add: MAX_SERIALISED_EVENTS_def)
  have "MAX_SERIALISED_EVENTS E \<le> ep_BR_DATA_BYTES E"
    using sz by (simp add: MAX_SERIALISED_EVENTS_def)
  then have m31: "MAX_SERIALISED_EVENTS E < 2 ^ 31"
    using assms(2) by simp
  then have "sint (word_of_nat (MAX_SERIALISED_EVENTS E) :: i32) = int (MAX_SERIALISED_EVENTS E)"
    by (simp add: signed_of_nat signed_take_bit_int_eq_self)
  then have "sint res \<le> int (MAX_SERIALISED_EVENTS E)"
    using res(2) by (auto simp: wait_limit_def split: if_splits)
  then have le: "length events \<le> MAX_SERIALISED_EVENTS E"
    using ev(1) int_unat_eq_sint [OF res(1)] by linarith
  then have store: "br_write_events E (take (unat res) events) u = br_store (concat events) u"
    using br_write_events_store [of events E u] ev sz by simp
  have "length (concat events) \<le> MAX_SERIALISED_EVENTS E * EPOLL_EVENT_SIZE E"
    using length_concat_uniform [OF ev(2)] le by simp
  then have "length (concat events) \<le> 8 * (ep_BR_WORDS E - 1)"
    using max by (simp add: ep_BR_DATA_BYTES_def)
  then have "br_fetch (br_store (concat events) u) = concat events"
    using br_fetch_store [OF assms(1)] assms(2) by (simp add: ep_BR_DATA_BYTES_def)
  moreover have "br_fetch u' = br_fetch (br_store (concat events) u)"
    by (simp add: u' store br_fetch_def)
  moreover have "get_mr u' 0 = scast res"
    using wf_utcb_mr_length [OF assms(1), of 0] by (simp add: u' store)
  ultimately show ?thesis
    using le st' by simp
qed


theorem epoll_wait_reply_witness:
  "let u' = fst (epoll_dispatch demo_epoll vec_slab (demo_utcb [2, 0, 2, 0])
         ([Some \<lparr>epoll_fd = 3\<rparr>], (4, [3])))
   in get_mr u' 0 = 2 \<and> br_fetch u' = replicate 32 7"
proof -
  let ?u = "demo_utcb [2, 0, 2, 0]" and ?st = "([Some \<lparr>epoll_fd = 3\<rparr>], (4, [3]))"
  obtain u' st' where run: "epoll_dispatch demo_epoll vec_slab ?u ?st = (u', st')"
    by (metis surj_pair)
  have lim: "wait_limit demo_epoll 2 = 2"
    by (simp add: wait_limit_def MAX_SERIALISED_EVENTS_def ep_BR_DATA_BYTES_def demo_epoll_def)
  have "get_mr u' 0 = scast (2 :: i32) \<and> br_fetch u' = concat (replicate 2 (replicate 16 7))"
    using epoll_wait_reply [of demo_epoll ?u vec_slab "[Some \<lparr>epoll_fd = 3\<rparr>]" "\<lparr>epoll_fd = 3\<rparr>"
        "(4, [3])" 2 "replicate 2 (replicate 16 7)" "(4, [3])", OF _ _ _ _ _ _ _ _ _ _ _ run] lim
    by (simp add: demo_utcb_def get_mr_def wf_utcb_def demo_epoll_def vec_slab_def
        vec_get_def ep_BR_DATA_BYTES_def MAX_SERIALISED_EVENTS_def)
  moreover have "concat (replicate 2 (replicate 16 (7 :: u8))) = replicate 32 7"
    by (simp add: numeral_eq_Suc)
  ultimately show ?thesis
    using run by simp
qed

text \<open>
  A control request whose payload is too short for an event is refused with \<open>-EINVAL\<close>
  without a system call, and, unlike every other refusal, leaves the length register of the
  payload as the client sent it.
\<close>

theorem epoll_ctl_short_event:
  assumes "wf_utcb n u" and "get_mr u 0 = 1"
    and "slab_get sl s (unat (get_mr u 1)) = Some x"
    and "ucast (get_mr u 2) \<noteq> EPOLL_CTL_DEL E" and "unat (br0 u) < EPOLL_EVENT_SIZE E"
    and "epoll_dispatch E sl u (s, w) = (u', st')"
  shows "get_mr u' 0 = neg_errno (ep_EINVAL E) \<and> br0 u' = br0 u \<and> st' = (s, w)"
proof -
  have "u' = set_mr u 0 (neg_errno (ep_EINVAL E))" and "st' = (s, w)"
    using assms(2-6) by (auto simp: epoll_dispatch_def handle_ctl_def br_read_event_def Let_def)
  then show ?thesis
    using wf_utcb_mr_length [OF assms(1), of 0] by simp
qed

theorem epoll_ctl_short_event_witness:
  "let u = set_br0 (demo_utcb [1, 0, 1, 5]) 3;
       u' = fst (epoll_dispatch demo_epoll vec_slab u ([Some \<lparr>epoll_fd = 3\<rparr>], (4, [3])))
   in get_mr u' 0 = - 22 \<and> br0 u' = 3"
proof -
  let ?u = "set_br0 (demo_utcb [1, 0, 1, 5]) 3" and ?st = "([Some \<lparr>epoll_fd = 3\<rparr>], (4, [3]))"
  obtain u' st' where run: "epoll_dispatch demo_epoll vec_slab ?u ?st = (u', st')"
    by (metis surj_pair)
  have "br0 ?u = 3"
    by (simp add: demo_utcb_def)
  then have "get_mr u' 0 = neg_errno (ep_EINVAL demo_epoll) \<and> br0 u' = 3"
    using epoll_ctl_short_event [of 58 ?u vec_slab "[Some \<lparr>epoll_fd = 3\<rparr>]" "\<lparr>epoll_fd = 3\<rparr>"
        demo_epoll, OF _ _ _ _ _ run]
    by (simp add: demo_utcb_def get_mr_def wf_utcb_def demo_epoll_def vec_slab_def vec_get_def)
  then show ?thesis
    using run by (simp add: demo_epoll_def neg_errno_def)
qed

end
