(* ===== verification/Aio_Server.thy ===== *)
theory Aio_Server
  imports Ipc_Server
begin

text \<open>
  The asynchronous I/O service, \<open>src/src/aio_server/src/main.rs\<close>: operations are carried out at
  once and kept in a slab until their result is collected. A control block is the bytes of its
  representation; the C library, the layout of its structures, the slab crate and the kernel IPC
  are parameters.
\<close>

section \<open>Parameters\<close>

record 'w aio_env =
  aio_BR_WORDS :: nat
  sizeof_aiocb :: nat
  aio_fildes :: "u8 list \<Rightarrow> i32"
  aio_nbytes :: "u8 list \<Rightarrow> u64"
  aio_offset :: "u8 list \<Rightarrow> i64"
  aio_EINVAL :: i32
  aio_EOVERFLOW :: i32
  aio_ENOSYS :: i32
  AIO_ALLDONE :: i32
  O_DSYNC :: i32
  aio_errno :: "'w \<Rightarrow> i32"
  libc_pread :: "i32 \<Rightarrow> nat \<Rightarrow> i64 \<Rightarrow> 'w \<Rightarrow> (i64 \<times> u8 list) \<times> 'w"
  libc_pwrite :: "i32 \<Rightarrow> u8 list \<Rightarrow> i64 \<Rightarrow> 'w \<Rightarrow> i64 \<times> 'w"
  libc_fdatasync :: "i32 \<Rightarrow> 'w \<Rightarrow> i32 \<times> 'w"
  libc_fsync :: "i32 \<Rightarrow> 'w \<Rightarrow> i32 \<times> 'w"

section \<open>The server\<close>

definition aio_BR_DATA_BYTES :: "'w aio_env \<Rightarrow> nat" where
  "aio_BR_DATA_BYTES E = (aio_BR_WORDS E - 1) * 8"

datatype operation_kind = OpRead | OpWrite | OpFsync

record operation =
  op_kind :: operation_kind
  op_fd :: i32
  op_result :: i64
  op_error :: i32
  op_buffer :: "u8 list"

definition encode_errno_raw :: "i32 \<Rightarrow> u64" where
  "encode_errno_raw err = neg_errno err"

definition aio_br_clear :: "utcb \<Rightarrow> utcb" where
  "aio_br_clear u = set_br0 u 0"

text \<open>The pointer of \<open>br_bytes\<close> is the payload; the length is clamped to the registers.\<close>

definition br_bytes :: "'w aio_env \<Rightarrow> utcb \<Rightarrow> u8 list \<times> nat" where
  "br_bytes E u = (br_payload u, min (unat (br0 u)) (aio_BR_DATA_BYTES E))"

text \<open>A zeroed control block, overwritten with the first bytes of the payload.\<close>

definition copy_aiocb :: "'w aio_env \<Rightarrow> nat \<Rightarrow> u8 list \<Rightarrow> u8 list" where
  "copy_aiocb E len ptr =
     overwrite (replicate (sizeof_aiocb E) 0) 0 (take (min len (sizeof_aiocb E)) ptr)"

definition read_aiocb :: "'w aio_env \<Rightarrow> nat \<Rightarrow> utcb \<Rightarrow> (unit, u8 list) result" where
  "read_aiocb E expected u =
     (if expected = 0 \<or> aio_BR_DATA_BYTES E < expected then Inl ()
      else let (ptr, len) = br_bytes E u
           in if len < expected then Inl () else Inr (copy_aiocb E expected ptr))"

definition read_buffer_from_aiocb :: "'w aio_env \<Rightarrow> u8 list \<Rightarrow> nat \<times> i64" where
  "read_buffer_from_aiocb E cb = (unat (aio_nbytes E cb), aio_offset E cb)"

definition perform_read ::
  "'w aio_env \<Rightarrow> i32 \<Rightarrow> nat \<Rightarrow> i64 \<Rightarrow> 'w \<Rightarrow> (i32, u8 list \<times> i64) result \<times> 'w" where
  "perform_read E fd len offset w =
     (if aio_BR_DATA_BYTES E < len then (Inl (aio_EOVERFLOW E), w)
      else let ((res, buf), w) = libc_pread E fd len offset w
           in if sint res < 0 then (Inl (aio_errno E w), w)
              else (Inr (take (unat res) buf, res), w))"

definition perform_write ::
  "'w aio_env \<Rightarrow> i32 \<Rightarrow> u8 list \<Rightarrow> i64 \<Rightarrow> 'w \<Rightarrow> (i32, i64) result \<times> 'w" where
  "perform_write E fd payload offset w =
     (let (res, w) = libc_pwrite E fd payload offset w
      in if sint res < 0 then (Inl (aio_errno E w), w) else (Inr res, w))"

definition perform_fsync :: "'w aio_env \<Rightarrow> i32 \<Rightarrow> i32 \<Rightarrow> 'w \<Rightarrow> (i32, i64) result \<times> 'w" where
  "perform_fsync E fd op w =
     (let (res, w) = (if op = O_DSYNC E then libc_fdatasync E fd w else libc_fsync E fd w)
      in if sint res < 0 then (Inl (aio_errno E w), w) else (Inr 0, w))"

definition handle_aio_read ::
  "'w aio_env \<Rightarrow> ('s, operation) slab_ops \<Rightarrow> utcb \<Rightarrow> 's \<Rightarrow> 'w \<Rightarrow> utcb \<times> 's \<times> 'w" where
  "handle_aio_read E sl u s w =
     (case read_aiocb E (unat (get_mr u 1)) u of
        Inl _ \<Rightarrow> (aio_br_clear (set_mr u 0 (encode_errno_raw (aio_EINVAL E))), s, w)
      | Inr cb \<Rightarrow>
          let (len, offset) = read_buffer_from_aiocb E cb in
          (case perform_read E (aio_fildes E cb) len offset w of
             (Inr (buffer, res), w) \<Rightarrow>
               let (slot, s) = slab_insert sl s \<lparr>op_kind = OpRead, op_fd = aio_fildes E cb,
                     op_result = res, op_error = 0, op_buffer = buffer\<rparr>
               in (aio_br_clear (set_mr u 0 (word_of_nat slot)), s, w)
           | (Inl err, w) \<Rightarrow> (aio_br_clear (set_mr u 0 (encode_errno_raw err)), s, w)))"

text \<open>\<open>usize::saturating_add\<close>\<close>

definition saturating_add_usize :: "nat \<Rightarrow> nat \<Rightarrow> nat" where
  "saturating_add_usize a b = min (a + b) (2 ^ 64 - 1)"

definition handle_aio_write ::
  "'w aio_env \<Rightarrow> ('s, operation) slab_ops \<Rightarrow> utcb \<Rightarrow> 's \<Rightarrow> 'w \<Rightarrow> utcb \<times> 's \<times> 'w" where
  "handle_aio_write E sl u s w =
     (let struct_len = unat (get_mr u 1); payload_len = unat (get_mr u 2);
          (ptr, total) = br_bytes E u
      in if total < saturating_add_usize struct_len payload_len
         then (aio_br_clear (set_mr u 0 (encode_errno_raw (aio_EINVAL E))), s, w)
         else let cb = copy_aiocb E struct_len ptr;
                  payload = slice ptr struct_len payload_len
              in (case perform_write E (aio_fildes E cb) payload (aio_offset E cb) w of
                    (Inr res, w) \<Rightarrow>
                      let (slot, s) = slab_insert sl s \<lparr>op_kind = OpWrite, op_fd = aio_fildes E cb,
                            op_result = res, op_error = 0, op_buffer = []\<rparr>
                      in (aio_br_clear (set_mr u 0 (word_of_nat slot)), s, w)
                  | (Inl err, w) \<Rightarrow> (aio_br_clear (set_mr u 0 (encode_errno_raw err)), s, w)))"

definition handle_aio_fsync ::
  "'w aio_env \<Rightarrow> ('s, operation) slab_ops \<Rightarrow> utcb \<Rightarrow> 's \<Rightarrow> 'w \<Rightarrow> utcb \<times> 's \<times> 'w" where
  "handle_aio_fsync E sl u s w =
     (let kind = ucast (get_mr u 3) in
      case read_aiocb E (unat (get_mr u 1)) u of
        Inl _ \<Rightarrow> (aio_br_clear (set_mr u 0 (encode_errno_raw (aio_EINVAL E))), s, w)
      | Inr cb \<Rightarrow>
          (case perform_fsync E (aio_fildes E cb) kind w of
             (Inr res, w) \<Rightarrow>
               let (slot, s) = slab_insert sl s \<lparr>op_kind = OpFsync, op_fd = aio_fildes E cb,
                     op_result = res, op_error = 0, op_buffer = []\<rparr>
               in (aio_br_clear (set_mr u 0 (word_of_nat slot)), s, w)
           | (Inl err, w) \<Rightarrow> (aio_br_clear (set_mr u 0 (encode_errno_raw err)), s, w)))"

definition handle_aio_error :: "'w aio_env \<Rightarrow> ('s, operation) slab_ops \<Rightarrow> utcb \<Rightarrow> 's \<Rightarrow> utcb" where
  "handle_aio_error E sl u s =
     (case slab_get sl s (unat (get_mr u 1)) of
        Some op \<Rightarrow> aio_br_clear (set_mr u 0 (scast (op_error op)))
      | None \<Rightarrow> aio_br_clear (set_mr u 0 (encode_errno_raw (aio_EINVAL E))))"

definition handle_aio_return ::
  "'w aio_env \<Rightarrow> ('s, operation) slab_ops \<Rightarrow> utcb \<Rightarrow> 's \<Rightarrow> utcb \<times> 's" where
  "handle_aio_return E sl u s =
     (let handle = unat (get_mr u 1) in
      case slab_get sl s handle of
        Some op \<Rightarrow>
          let s = slab_remove sl s handle in
          if op_error op \<noteq> 0
          then (aio_br_clear (set_mr u 0 (encode_errno_raw (op_error op))), s)
          else let u = set_mr u 0 (op_result op) in
            (case op_kind op of
               OpRead \<Rightarrow>
                 let u = set_mr u 1 (word_of_nat (length (op_buffer op)));
                     len = min (length (op_buffer op)) (aio_BR_DATA_BYTES E);
                     u = set_br0 u (word_of_nat len)
                 in (if 0 < len then br_copy_in u (take len (op_buffer op)) else u, s)
             | _ \<Rightarrow> (aio_br_clear (set_mr u 1 0), s))
      | None \<Rightarrow> (aio_br_clear (set_mr u 0 (encode_errno_raw (aio_EINVAL E))), s))"

definition handle_aio_cancel ::
  "'w aio_env \<Rightarrow> ('s, operation) slab_ops \<Rightarrow> utcb \<Rightarrow> 's \<Rightarrow> utcb \<times> 's" where
  "handle_aio_cancel E sl u s =
     (let handle = unat (get_mr u 1);
          s = (if slab_get sl s handle \<noteq> None then slab_remove sl s handle else s)
      in (aio_br_clear (set_mr u 0 (scast (AIO_ALLDONE E))), s))"

definition handle_aio_suspend :: "utcb \<Rightarrow> utcb" where
  "handle_aio_suspend u = aio_br_clear (set_mr u 0 0)"

definition handle_lio_listio :: "'w aio_env \<Rightarrow> utcb \<Rightarrow> utcb" where
  "handle_lio_listio E u = aio_br_clear (set_mr u 0 (encode_errno_raw (aio_ENOSYS E)))"

definition aio_dispatch ::
  "'w aio_env \<Rightarrow> ('s, operation) slab_ops \<Rightarrow> utcb \<Rightarrow> 's \<times> 'w \<Rightarrow> utcb \<times> 's \<times> 'w" where
  "aio_dispatch E sl u st =
     (let opc = get_mr u 0; s = fst st; w = snd st in
      if opc = 0 then handle_aio_read E sl u s w
      else if opc = 1 then handle_aio_write E sl u s w
      else if opc = 2 then (handle_aio_error E sl u s, s, w)
      else if opc = 3 then (case handle_aio_return E sl u s of (u, s) \<Rightarrow> (u, s, w))
      else if opc = 4 then (case handle_aio_cancel E sl u s of (u, s) \<Rightarrow> (u, s, w))
      else if opc = 5 then (handle_aio_suspend u, s, w)
      else if opc = 6 then handle_aio_fsync E sl u s w
      else if opc = 7 then (handle_lio_listio E u, s, w)
      else (aio_br_clear (set_mr u 0 (encode_errno_raw (aio_ENOSYS E))), s, w))"

text \<open>The reply tag \<open>l4_msgtag(0, 2, 0, 0)\<close> carries two words.\<close>

definition aio_reply_words :: nat where
  "aio_reply_words = 2"

definition aio_run :: "'w aio_env \<Rightarrow> ('s, operation) slab_ops \<Rightarrow> u64 option \<Rightarrow> u64
    \<Rightarrow> (u64 \<times> utcb) list \<Rightarrow> 'w \<Rightarrow> (utcb list \<times> 's \<times> 'w) option" where
  "aio_run E sl gate bind_error msgs w =
     (case gate of
        None \<Rightarrow> None
      | Some g \<Rightarrow> if bind_error \<noteq> 0 then None
                  else Some (ipc_loop (aio_dispatch E sl) msgs (slab_new sl, w)))"


section \<open>The table of operations\<close>

text \<open>Every stored operation succeeded, and only reads hold bytes, at most what a reply can
  carry.\<close>

definition aio_op_ok :: "'w aio_env \<Rightarrow> operation \<Rightarrow> bool" where
  "aio_op_ok E op \<longleftrightarrow> op_error op = 0 \<and> 0 \<le> sint (op_result op) \<and>
     length (op_buffer op) \<le> aio_BR_DATA_BYTES E \<and>
     (if op_kind op = OpRead then length (op_buffer op) = unat (op_result op) else op_buffer op = [])"

definition aio_table_ok :: "'w aio_env \<Rightarrow> ('s, operation) slab_ops \<Rightarrow> 's \<Rightarrow> bool" where
  "aio_table_ok E sl s \<longleftrightarrow> (\<forall>k op. slab_get sl s k = Some op \<longrightarrow> aio_op_ok E op)"

text \<open>What the server relies on of the C library: \<open>pread\<close> fills at most the buffer it is given and
  reports how much.\<close>

locale aio_service = sl: slab sl
  for E :: "'w aio_env" and sl :: "('s, operation) slab_ops" +
  assumes pread_bound: "libc_pread E fd n off w = ((res, buf), w') \<Longrightarrow> 0 \<le> sint res \<Longrightarrow>
    length buf = n \<and> unat res \<le> n"
begin

lemma table_insert:
  "aio_table_ok E sl s \<Longrightarrow> aio_op_ok E op \<Longrightarrow> slab_insert sl s op = (k, s') \<Longrightarrow> aio_table_ok E sl s'"
  by (auto simp: aio_table_ok_def sl.slab_get_insert)

lemma table_remove:
  "aio_table_ok E sl s \<Longrightarrow> slab_get sl s k \<noteq> None \<Longrightarrow> aio_table_ok E sl (slab_remove sl s k)"
  by (auto simp: aio_table_ok_def sl.slab_get_remove)

lemma read_ok:
  assumes "perform_read E fd len off w = (Inr (buffer, res), w')"
  shows "aio_op_ok E \<lparr>op_kind = OpRead, op_fd = fd', op_result = res, op_error = 0, op_buffer = buffer\<rparr>"
proof -
  obtain buf where "libc_pread E fd len off w = ((res, buf), w')" "buffer = take (unat res) buf"
    "0 \<le> sint res" "len \<le> aio_BR_DATA_BYTES E"
    using assms by (auto simp: perform_read_def split: if_splits prod.splits)
  then show ?thesis
    using pread_bound [of fd len off w res buf w'] by (simp add: aio_op_ok_def)
qed

lemma write_ok:
  "perform_write E fd payload off w = (Inr res, w') \<Longrightarrow>
   aio_op_ok E \<lparr>op_kind = OpWrite, op_fd = fd', op_result = res, op_error = 0, op_buffer = []\<rparr>"
  by (auto simp: perform_write_def aio_op_ok_def split: if_splits prod.splits)

lemma fsync_ok:
  "perform_fsync E fd kind w = (Inr res, w') \<Longrightarrow>
   aio_op_ok E \<lparr>op_kind = OpFsync, op_fd = fd', op_result = res, op_error = 0, op_buffer = []\<rparr>"
  by (auto simp: perform_fsync_def aio_op_ok_def split: if_splits prod.splits)

lemma dispatch_ok:
  assumes "aio_table_ok E sl s" and "aio_dispatch E sl u (s, w) = (u', s', w')"
  shows "aio_table_ok E sl s'"
proof -
  have "aio_table_ok E sl s'" if "handle_aio_read E sl u s w = (u', s', w')"
    using that assms(1)
    by (auto simp: handle_aio_read_def Let_def split: sum.splits prod.splits
        dest!: table_insert [OF assms(1) read_ok])
  moreover have "aio_table_ok E sl s'" if "handle_aio_write E sl u s w = (u', s', w')"
    using that assms(1)
    by (auto simp: handle_aio_write_def Let_def split: sum.splits prod.splits if_splits
        dest!: table_insert [OF assms(1) write_ok])
  moreover have "aio_table_ok E sl s'" if "handle_aio_fsync E sl u s w = (u', s', w')"
    using that assms(1)
    by (auto simp: handle_aio_fsync_def Let_def split: sum.splits prod.splits
        dest!: table_insert [OF assms(1) fsync_ok])
  moreover have "aio_table_ok E sl s'" if "handle_aio_return E sl u s = (u', s')"
    using that assms(1)
    by (auto simp: handle_aio_return_def Let_def intro: table_remove
        split: option.splits operation_kind.splits if_splits)
  moreover have "aio_table_ok E sl s'" if "handle_aio_cancel E sl u s = (u', s')"
    using that assms(1) table_remove by (auto simp: handle_aio_cancel_def Let_def split: if_splits)
  ultimately show ?thesis
    using assms by (auto simp: aio_dispatch_def Let_def split: if_splits prod.splits)
qed

end

lemma aio_wf: "wf_utcb n u \<Longrightarrow> wf_utcb n (fst (aio_dispatch E sl u st))"
  by (auto simp: aio_dispatch_def handle_aio_read_def handle_aio_write_def handle_aio_fsync_def
      handle_aio_error_def handle_aio_return_def handle_aio_cancel_def handle_aio_suspend_def
      handle_lio_listio_def aio_br_clear_def Let_def
      split: option.splits sum.splits prod.splits operation_kind.splits)

sublocale aio_service \<subseteq> loop: ipc_server "aio_dispatch E sl" "\<lambda>st. aio_table_ok E sl (fst st)" n for n
proof
  show "aio_table_ok E sl (fst s) \<Longrightarrow> wf_utcb n u \<Longrightarrow> aio_dispatch E sl u s = (u', s') \<Longrightarrow>
      aio_table_ok E sl (fst s')" for s u u' s'
    using dispatch_ok [of "fst s" u "snd s" u' "fst s'" "snd s'"] by simp
  show "aio_table_ok E sl (fst s) \<Longrightarrow> wf_utcb n u \<Longrightarrow> aio_dispatch E sl u s = (u', s') \<Longrightarrow>
      wf_utcb n u'" for s u u' s'
    using aio_wf [of n u E sl s] by simp
qed

context aio_service
begin

lemma run_table_ok:
  assumes "list_all (\<lambda>(err, u). wf_utcb n u) msgs"
  shows "aio_table_ok E sl (fst (snd (ipc_loop (aio_dispatch E sl) msgs (slab_new sl, w))))"
proof -
  have "aio_table_ok E sl (fst (slab_new sl, w))"
    by (simp add: aio_table_ok_def sl.slab_get_new)
  then show ?thesis
    using loop.loop_inv assms by blast
qed

end

text \<open>A read that stored its buffer is collected completely.\<close>

lemma aio_return_read:
  assumes "wf_utcb (aio_BR_WORDS E) u" and "aio_BR_DATA_BYTES E < 2 ^ 64"
    and "slab_get sl s (unat (get_mr u 1)) = Some op" and "aio_op_ok E op" and "op_kind op = OpRead"
  shows "\<exists>u'. handle_aio_return E sl u s = (u', slab_remove sl s (unat (get_mr u 1))) \<and>
    get_mr u' 0 = op_result op \<and> get_mr u' 1 = op_result op \<and> br_fetch u' = op_buffer op"
proof -
  let ?len = "length (op_buffer op)"
  have ok: "op_error op = 0" "?len \<le> aio_BR_DATA_BYTES E" "?len = unat (op_result op)"
    using assms(4,5) by (simp_all add: aio_op_ok_def)
  define v where "v = set_mr (set_mr u 0 (op_result op)) 1 (word_of_nat ?len)"
  have wf: "wf_utcb (aio_BR_WORDS E) v"
    using assms(1) by (simp add: v_def)
  have ret: "handle_aio_return E sl u s =
      (br_store (op_buffer op) v, slab_remove sl s (unat (get_mr u 1)))"
    using assms(3,5) ok(1,2)
    by (simp add: handle_aio_return_def Let_def br_store_def v_def min_absorb1)
  have "br_fetch (br_store (op_buffer op) v) = op_buffer op"
    using br_fetch_store [OF wf] ok(2) assms(2) by (simp add: aio_BR_DATA_BYTES_def)
  moreover have "get_mr v 0 = op_result op" "get_mr v 1 = op_result op"
    using wf_utcb_mr_length [OF assms(1), of 0] wf_utcb_mr_length [OF assms(1), of 1] ok(3)
    by (simp_all add: v_def)
  ultimately show ?thesis
    using ret by simp
qed

section \<open>A C library that meets the contract\<close>

definition demo_aio :: "nat aio_env" where
  "demo_aio = \<lparr>aio_BR_WORDS = 58, sizeof_aiocb = 24, aio_fildes = (\<lambda>cb. word_of_nat (le_nat (take 4 cb))),
     aio_nbytes = (\<lambda>cb. word_of_nat (le_nat (slice cb 8 8))),
     aio_offset = (\<lambda>cb. word_of_nat (le_nat (slice cb 16 8))),
     aio_EINVAL = 22, aio_EOVERFLOW = 75, aio_ENOSYS = 38, AIO_ALLDONE = 2, O_DSYNC = 4096,
     aio_errno = (\<lambda>_. 9),
     libc_pread = (\<lambda>fd n off w. if n < 2 ^ 63 then ((word_of_nat n, replicate n 7), w)
                     else ((- 1, replicate n 0), w)),
     libc_pwrite = (\<lambda>fd bs off w. (word_of_nat (length bs), w + 1)),
     libc_fdatasync = (\<lambda>fd w. (0, w)), libc_fsync = (\<lambda>fd w. (0, w))\<rparr>"

interpretation demo_aio: aio_service demo_aio vec_slab
proof
  fix fd n off w w' and res :: i64 and buf :: "u8 list"
  assume "libc_pread demo_aio fd n off w = ((res, buf), w')" "0 \<le> sint res"
  then show "length buf = n \<and> unat res \<le> n"
    by (auto simp: demo_aio_def unat_of_nat split: if_splits)
qed

section \<open>Properties\<close>

text \<open>
  Round trip of an asynchronous read: the handle a successful read request answers with
  collects, in a later return request, the number of bytes read in both result registers and
  exactly the bytes the C library read as payload, and the table of operations is then what it
  was before the read.
\<close>

theorem aio_read_return_roundtrip:
  assumes "aio_service E sl" and "aio_BR_DATA_BYTES E < 2 ^ 64"
    and u1: "wf_utcb (aio_BR_WORDS E) u1" "get_mr u1 0 = 0"
    and cb: "read_aiocb E (unat (get_mr u1 1)) u1 = Inr cb"
    and rd: "perform_read E (aio_fildes E cb) (unat (aio_nbytes E cb)) (aio_offset E cb) w
      = (Inr (buffer, res), w1)"
    and ins: "slab_insert sl s \<lparr>op_kind = OpRead, op_fd = aio_fildes E cb, op_result = res,
      op_error = 0, op_buffer = buffer\<rparr> = (k, s1)" "k < 2 ^ 64"
    and u2: "wf_utcb (aio_BR_WORDS E) u2" "get_mr u2 0 = 3" "get_mr u2 1 = word_of_nat k"
    and run1: "aio_dispatch E sl u1 (s, w) = (r1, st1)"
    and run2: "aio_dispatch E sl u2 st1 = (r2, st2)"
  shows "get_mr r1 0 = word_of_nat k \<and> get_mr r2 0 = res \<and> get_mr r2 1 = res \<and>
    br_fetch r2 = buffer \<and> slab_get sl (fst st2) = slab_get sl s \<and> snd st2 = w1"
proof -
  let ?op = "\<lparr>op_kind = OpRead, op_fd = aio_fildes E cb, op_result = res, op_error = 0,
    op_buffer = buffer\<rparr>"
  have sl: "slab sl"
    using assms(1) by (simp add: aio_service_def)
  have r1: "r1 = aio_br_clear (set_mr u1 0 (word_of_nat k))" and st1: "st1 = (s1, w1)"
    using run1 u1(2) cb rd ins(1)
    by (auto simp: aio_dispatch_def handle_aio_read_def read_buffer_from_aiocb_def Let_def)
  have k: "unat (get_mr u2 1) = k"
    using u2(3) ins(2) by (simp add: unat_of_nat)
  have get: "slab_get sl s1 k = Some ?op"
    using slab.slab_get_insert [OF sl ins(1)] by simp
  have ok: "aio_op_ok E ?op"
    using aio_service.read_ok [OF assms(1) rd] by simp
  have kind: "op_kind ?op = OpRead"
    by simp
  have get2: "slab_get sl s1 (unat (get_mr u2 1)) = Some ?op"
    using get k by simp
  obtain u' where u': "handle_aio_return E sl u2 s1 = (u', slab_remove sl s1 (unat (get_mr u2 1)))"
    "get_mr u' 0 = op_result ?op" "get_mr u' 1 = op_result ?op" "br_fetch u' = op_buffer ?op"
    using aio_return_read [OF u2(1) assms(2) get2 ok kind] by blast
  then have r2: "r2 = u'" "st2 = (slab_remove sl s1 k, w1)"
    using run2 st1 u2(2) k by (auto simp: aio_dispatch_def)
  have "slab_get sl (slab_remove sl s1 k) = (slab_get sl s1)(k := None)"
    using slab.slab_get_remove [OF sl] get by simp
  also have "\<dots> = slab_get sl s"
    using slab.slab_get_insert [OF sl ins(1)] slab.slab_insert_vacant [OF sl ins(1)] by auto
  finally show ?thesis
    using r1 r2 u' wf_utcb_mr_length [OF u1(1), of 0] by (simp add: aio_br_clear_def)
qed

text \<open>A request for eight bytes of descriptor 5, its control block in the payload.\<close>

definition demo_aio_request :: utcb where
  "demo_aio_request = br_store (le_bytes 8 5 @ le_bytes 8 8 @ le_bytes 8 0) (demo_utcb [0, 24, 0, 0])"

theorem aio_read_return_roundtrip_witness:
  "let (r1, st1) = aio_dispatch demo_aio vec_slab demo_aio_request ([], 0);
       (r2, st2) = aio_dispatch demo_aio vec_slab (demo_utcb [3, 0, 0, 0]) st1
   in get_mr r2 0 = 8 \<and> get_mr r2 1 = 8 \<and> br_fetch r2 = replicate 8 7"
proof -
  let ?cb = "le_bytes 8 5 @ le_bytes 8 8 @ le_bytes 8 0" and ?u1 = demo_aio_request
  obtain r1 st1 where run1: "aio_dispatch demo_aio vec_slab ?u1 ([], 0) = (r1, st1)"
    by (metis surj_pair)
  obtain r2 st2 where run2: "aio_dispatch demo_aio vec_slab (demo_utcb [3, 0, 0, 0]) st1 = (r2, st2)"
    by (metis surj_pair)
  have wf: "wf_utcb 58 ?u1"
    by (simp add: demo_aio_request_def) (simp add: wf_utcb_def demo_utcb_def)
  have ft: "br_fetch ?u1 = ?cb"
    unfolding demo_aio_request_def
    by (rule br_fetch_store [of 58]) (simp_all add: wf_utcb_def demo_utcb_def)
  have b0: "unat (br0 ?u1) = 24"
    by (simp add: demo_aio_request_def demo_utcb_def)
  have cb: "read_aiocb demo_aio 24 ?u1 = Inr ?cb"
    using ft b0
    by (simp add: read_aiocb_def br_bytes_def copy_aiocb_def demo_aio_def aio_BR_DATA_BYTES_def
        br_fetch_def overwrite_def)
  have mr: "get_mr ?u1 0 = 0" "get_mr ?u1 1 = 24"
    by (simp_all add: demo_aio_request_def) (simp_all add: demo_utcb_def get_mr_def)
  have f: "aio_fildes demo_aio ?cb = 5" "aio_nbytes demo_aio ?cb = 8" "aio_offset demo_aio ?cb = 0"
    by (simp_all add: demo_aio_def slice_def le_bytes_def)
  have rd: "perform_read demo_aio (aio_fildes demo_aio ?cb) (unat (aio_nbytes demo_aio ?cb))
      (aio_offset demo_aio ?cb) 0 = (Inr (replicate 8 7, 8), 0)"
    unfolding f by (simp add: perform_read_def demo_aio_def aio_BR_DATA_BYTES_def)
  show ?thesis
    using aio_read_return_roundtrip [OF demo_aio.aio_service_axioms, of ?u1 ?cb 0 "replicate 8 7" 8 0 "[]"
        0 "[Some \<lparr>op_kind = OpRead, op_fd = 5, op_result = 8, op_error = 0, op_buffer = replicate 8 7\<rparr>]"
        "demo_utcb [3, 0, 0, 0]" r1 st1 r2 st2, OF _ _ mr(1) _ rd _ _ _ _ _ run1 run2]
      wf mr cb f(1) run1 run2
    by (simp add: demo_aio_def aio_BR_DATA_BYTES_def vec_slab_def vec_put_def)
      (simp add: demo_utcb_def get_mr_def wf_utcb_def)
qed


text \<open>
  C19. Whatever well-formed messages arrive, every operation left in the table has succeeded with a
  non-negative result, and holds at most as many bytes as one reply can carry, so that collecting
  it never truncates its buffer.
\<close>

theorem aio_run_table:
  assumes "aio_service E sl" and "list_all (\<lambda>(err, u). wf_utcb n u) msgs"
    and "aio_run E sl (Some gate) 0 msgs w = Some (replies, s', w')"
    and "slab_get sl s' k = Some op"
  shows "op_error op = 0 \<and> 0 \<le> sint (op_result op) \<and>
    length (op_buffer op) \<le> aio_BR_DATA_BYTES E \<and>
    (op_kind op = OpRead \<longrightarrow> length (op_buffer op) = unat (op_result op))"
proof -
  have "ipc_loop (aio_dispatch E sl) msgs (slab_new sl, w) = (replies, s', w')"
    using assms(3) by (simp add: aio_run_def)
  then have "aio_table_ok E sl s'"
    using aio_service.run_table_ok [OF assms(1,2), of w] by simp
  then have "aio_op_ok E op"
    using assms(4) by (simp add: aio_table_ok_def)
  then show ?thesis
    by (auto simp: aio_op_ok_def split: if_splits)
qed

theorem aio_run_table_witness:
  "\<exists>replies s' w' op. aio_run demo_aio vec_slab (Some 7) 0 [(0, demo_utcb [1, 0, 0, 0])] 0
       = Some (replies, s', w') \<and> slab_get vec_slab s' 0 = Some op \<and> op_error op = 0"
proof -
  let ?op = "\<lparr>op_kind = OpWrite, op_fd = 0, op_result = 0, op_error = 0, op_buffer = []\<rparr>"
  obtain replies where run: "aio_run demo_aio vec_slab (Some 7) 0 [(0, demo_utcb [1, 0, 0, 0])] 0
      = Some (replies, [Some ?op], 1)"
    by (simp add: aio_run_def aio_dispatch_def handle_aio_write_def br_bytes_def
        saturating_add_usize_def demo_utcb_def get_mr_def br0_def demo_aio_def
        copy_aiocb_def perform_write_def slice_def vec_slab_def vec_put_def le_nat_zeros)
  have "list_all (\<lambda>(err, u). wf_utcb 58 u) [(0 :: u64, demo_utcb [1, 0, 0, 0])]"
    by (simp add: wf_utcb_def demo_utcb_def)
  then show ?thesis
    using aio_run_table [OF demo_aio.aio_service_axioms _ run, of 58 0 ?op] run
    by (simp add: vec_slab_def vec_get_def)
qed

text \<open>
  C40. A write request is refused with \<open>-EINVAL\<close> exactly when the control block and the data it
  announces do not fit into the payload it carries, sums past the machine's range included;
  otherwise the C library is given exactly the announced bytes behind the control block.
\<close>

theorem aio_write_bounds:
  assumes "wf_utcb (aio_BR_WORDS E) u" and "aio_BR_DATA_BYTES E < 2 ^ 64 - 1" and "get_mr u 0 = 1"
  shows "let a = unat (get_mr u 1); b = unat (get_mr u 2);
             total = min (unat (br0 u)) (aio_BR_DATA_BYTES E);
             cb = copy_aiocb E a (br_payload u);
             data = slice (br_payload u) a b
         in if total < a + b
            then aio_dispatch E sl u (s, w) = (aio_br_clear (set_mr u 0 (neg_errno (aio_EINVAL E))), s, w)
            else length data = b \<and>
              snd (snd (aio_dispatch E sl u (s, w))) =
                snd (libc_pwrite E (aio_fildes E cb) data (aio_offset E cb) w)"
proof -
  let ?a = "unat (get_mr u 1)" and ?b = "unat (get_mr u 2)"
  let ?t = "min (unat (br0 u)) (aio_BR_DATA_BYTES E)"
  have t: "?t < 2 ^ 64 - 1"
    using assms(2) by simp
  then have sat: "?t < saturating_add_usize ?a ?b \<longleftrightarrow> ?t < ?a + ?b"
    by (auto simp: saturating_add_usize_def min_def)
  have len: "length (br_payload u) = aio_BR_DATA_BYTES E"
    using assms(1) by (simp add: wf_utcb_def aio_BR_DATA_BYTES_def)
  have disp: "aio_dispatch E sl u (s, w) = handle_aio_write E sl u s w"
    using assms(3) by (simp add: aio_dispatch_def)
  show ?thesis
  proof (cases "?t < ?a + ?b")
    case True
    then show ?thesis
      using sat disp by (simp add: handle_aio_write_def br_bytes_def encode_errno_raw_def Let_def)
  next
    case False
    then have "length (slice (br_payload u) ?a ?b) = ?b"
      using len by simp
    then show ?thesis
      using False sat disp
      by (simp add: handle_aio_write_def br_bytes_def perform_write_def Let_def
          split: prod.splits sum.splits)
  qed
qed

theorem aio_write_bounds_witness:
  "aio_dispatch demo_aio vec_slab (demo_utcb [1, - 1, 2, 0]) ([], 0) =
     (aio_br_clear (set_mr (demo_utcb [1, - 1, 2, 0]) 0 (- 22)), [], 0)"
proof -
  have "wf_utcb (aio_BR_WORDS demo_aio) (demo_utcb [1, - 1, 2, 0])"
    and "get_mr (demo_utcb [1, - 1, 2, 0]) 0 = 1" "get_mr (demo_utcb [1, - 1, 2, 0]) 1 = - 1"
    "get_mr (demo_utcb [1, - 1, 2, 0]) 2 = 2" "br0 (demo_utcb [1, - 1, 2, 0]) = 0"
    by (simp_all add: wf_utcb_def demo_aio_def demo_utcb_def get_mr_def br0_def)
  then show ?thesis
    using aio_write_bounds [of demo_aio "demo_utcb [1, - 1, 2, 0]" vec_slab "[]" 0]
    by (simp add: Let_def aio_BR_DATA_BYTES_def demo_aio_def neg_errno_def)
qed

end
