(* ===== verification/Aio_Client.thy ===== *)
theory Aio_Client
  imports Aio_Server
begin

text \<open>
  The client end of the asynchronous I/O service: \<open>aio_read\<close>, \<open>aio_write\<close> and their relatives in
  \<open>crates/l4re-libc/src/aio.c\<close>, which turn POSIX calls into messages to the service of theory
  \<open>Aio_Server\<close>. The library keeps a list of control blocks with the handles the service gave for
  them. Pointers are addresses in the memory of the process, the null pointer is 0; calls of one
  thread are modelled, so the lock around the list does not appear. What C leaves undefined is
  \<open>None\<close>: an access outside the registers. Sessions of a client with the service are studied in the
  locale \<open>aio_link\<close>: control blocks and payloads are put into buffer registers, which an IPC does not
  carry, so every request is refused.
\<close>

section \<open>The library\<close>

text \<open>Constants of the C headers, the members of a control block, the allocator, the initial
  capability \<open>global_aio\<close>, and the call through it with a number of words: the error code and the
  registers after the reply.\<close>

record ('x, 'h) aio_lib =
  lib_BR_WORDS :: nat
  lib_sizeof_aiocb :: nat
  cb_nbytes :: "u8 list \<Rightarrow> u64"
  cb_buf :: "u8 list \<Rightarrow> u64"
  cb_lio_opcode :: "u8 list \<Rightarrow> i32"
  c_EINVAL :: i32
  c_EIO :: i32
  c_ENOENT :: i32
  c_EOVERFLOW :: i32
  c_ENOMEM :: i32
  c_EINPROGRESS :: i32
  c_AIO_ALLDONE :: i32
  c_LIO_READ :: i32
  c_LIO_WRITE :: i32
  c_LIO_NOP :: i32
  c_LIO_WAIT :: i32
  bad_cap :: "u64 \<Rightarrow> bool"
  env_gate :: u64
  c_malloc :: "'h \<Rightarrow> bool \<times> 'h"
  c_free :: "'h \<Rightarrow> 'h"
  gate_call :: "u64 \<Rightarrow> nat \<Rightarrow> utcb \<Rightarrow> 'x \<Rightarrow> (u64 \<times> utcb) \<times> 'x"

record ('x, 'h) aio_proc =
  aio_head :: "(u64 \<times> u64) list"
  aio_gate :: u64
  c_errno :: i32
  c_utcb :: utcb
  c_mem :: "u64 \<Rightarrow> u8"
  c_heap :: 'h
  c_world :: 'x

definition lib_BR_DATA_BYTES :: "('x, 'h) aio_lib \<Rightarrow> nat" where
  "lib_BR_DATA_BYTES L = (lib_BR_WORDS L - 1) * 8"

definition mem_bytes :: "('x, 'h) aio_proc \<Rightarrow> u64 \<Rightarrow> nat \<Rightarrow> u8 list" where
  "mem_bytes p a n = map (\<lambda>i. c_mem p (a + word_of_nat i)) [0 ..< n]"

definition mem_put :: "u64 \<Rightarrow> u8 list \<Rightarrow> ('x, 'h) aio_proc \<Rightarrow> ('x, 'h) aio_proc" where
  "mem_put a bs p = p\<lparr>c_mem := \<lambda>x. if unat (x - a) < length bs then bs ! unat (x - a) else c_mem p x\<rparr>"

definition cb_at :: "('x, 'h) aio_lib \<Rightarrow> u64 \<Rightarrow> ('x, 'h) aio_proc \<Rightarrow> u8 list" where
  "cb_at L cb p = mem_bytes p cb (lib_sizeof_aiocb L)"

definition clear_br :: "('x, 'h) aio_proc \<Rightarrow> ('x, 'h) aio_proc" where
  "clear_br p = p\<lparr>c_utcb := set_br0 (c_utcb p) 0\<rparr>"

text \<open>The handle of the first entry for a control block.\<close>

fun find_mapping :: "u64 \<Rightarrow> (u64 \<times> u64) list \<Rightarrow> u64 option" where
  "find_mapping cb [] = None"
| "find_mapping cb ((c, handle) # cur) = (if c = cb then Some handle else find_mapping cb cur)"

definition insert_mapping :: "('x, 'h) aio_lib \<Rightarrow> u64 \<Rightarrow> u64 \<Rightarrow> ('x, 'h) aio_proc \<Rightarrow> ('x, 'h) aio_proc" where
  "insert_mapping L cb handle p =
     (case c_malloc L (c_heap p) of
        (ok, h) \<Rightarrow> if \<not> ok then p\<lparr>c_heap := h\<rparr>
                   else p\<lparr>c_heap := h, aio_head := (cb, handle) # aio_head p\<rparr>)"

fun unlink_mapping :: "u64 \<Rightarrow> (u64 \<times> u64) list \<Rightarrow> u64 option \<times> (u64 \<times> u64) list" where
  "unlink_mapping cb [] = (None, [])"
| "unlink_mapping cb ((c, handle) # cur) =
     (if c = cb then (Some handle, cur)
      else case unlink_mapping cb cur of (r, cur) \<Rightarrow> (r, (c, handle) # cur))"

definition remove_mapping :: "('x, 'h) aio_lib \<Rightarrow> u64 \<Rightarrow> ('x, 'h) aio_proc \<Rightarrow> u64 \<times> ('x, 'h) aio_proc" where
  "remove_mapping L cb p =
     (case unlink_mapping cb (aio_head p) of
        (Some handle, cur) \<Rightarrow> (handle, p\<lparr>aio_head := cur, c_heap := c_free L (c_heap p)\<rparr>)
      | (None, cur) \<Rightarrow> (0, p))"

definition ensure_gate :: "('x, 'h) aio_lib \<Rightarrow> ('x, 'h) aio_proc \<Rightarrow> i32 \<times> ('x, 'h) aio_proc" where
  "ensure_gate L p =
     (if \<not> bad_cap L (aio_gate p) then (0, p)
      else if bad_cap L (env_gate L) then (c_ENOENT L, p)
      else (0, p\<lparr>aio_gate := env_gate L\<rparr>))"

definition ipc_call :: "('x, 'h) aio_lib \<Rightarrow> nat \<Rightarrow> ('x, 'h) aio_proc \<Rightarrow> i64 \<times> ('x, 'h) aio_proc" where
  "ipc_call L words p =
     (case gate_call L (aio_gate p) words (c_utcb p) (c_world p) of
        ((err, u), x) \<Rightarrow> (if err \<noteq> 0 then neg_errno (c_EIO L) else 0, p\<lparr>c_utcb := u, c_world := x\<rparr>))"

text \<open>The control block and the payload go into the buffer registers, their lengths and the operation
  into the message registers.\<close>

definition fill_request :: "('x, 'h) aio_lib \<Rightarrow> u64 \<Rightarrow> u64 \<Rightarrow> u64 \<Rightarrow> u64 \<Rightarrow> u64 \<Rightarrow> ('x, 'h) aio_proc \<Rightarrow> utcb" where
  "fill_request L cb opcode payload payload_len extra p =
     (let struct_len = word_of_nat (lib_sizeof_aiocb L);
          u = br_copy_in (c_utcb p) (cb_at L cb p @ mem_bytes p payload (unat payload_len));
          u = set_br0 u (struct_len + payload_len);
          u = set_mr u 0 opcode;
          u = set_mr u 1 struct_len;
          u = set_mr u 2 payload_len
      in set_mr u 3 extra)"

text \<open>The sum of the two lengths wraps around; the copy that follows does not fit then.\<close>

definition submit_request :: "('x, 'h) aio_lib \<Rightarrow> u64 \<Rightarrow> u64 \<Rightarrow> u64 \<Rightarrow> u64 \<Rightarrow> u64 \<Rightarrow> ('x, 'h) aio_proc
    \<Rightarrow> (i32 \<times> ('x, 'h) aio_proc) option" where
  "submit_request L cb opcode payload payload_len extra p =
     (case ensure_gate L p of
        (rc, p) \<Rightarrow>
          let struct_len = word_of_nat (lib_sizeof_aiocb L) in
          if rc \<noteq> 0 then Some (rc, p)
          else if lib_BR_DATA_BYTES L < unat (struct_len + payload_len) then Some (c_EOVERFLOW L, p)
          else if lib_BR_DATA_BYTES L < lib_sizeof_aiocb L + unat payload_len then None
          else
            let u = fill_request L cb opcode payload payload_len extra p;
                (status, p) = ipc_call L 4 (p\<lparr>c_utcb := u\<rparr>);
                result = get_mr (c_utcb p) 0
            in if sint status < 0 then Some (ucast (- status), clear_br p)
               else if sint result < 0 then Some (ucast (- result), clear_br p)
               else Some (0, clear_br (insert_mapping L cb result p)))"

text \<open>Return code, value and second result register.\<close>

definition call_simple :: "('x, 'h) aio_lib \<Rightarrow> u64 \<Rightarrow> u64 \<Rightarrow> ('x, 'h) aio_proc
    \<Rightarrow> (i32 \<times> i64 \<times> u64) \<times> ('x, 'h) aio_proc" where
  "call_simple L opcode handle p =
     (case ensure_gate L p of
        (rc, p) \<Rightarrow>
          if rc \<noteq> 0 then ((rc, 0, 0), p)
          else
            let u = set_mr (set_mr (c_utcb p) 0 opcode) 1 handle;
                (status, p) = ipc_call L 2 (p\<lparr>c_utcb := u\<rparr>);
                value = get_mr (c_utcb p) 0
            in if sint status < 0 then ((ucast (- status), 0, 0), p)
               else if sint value < 0 then ((ucast (- value), 0, 0), p)
               else ((0, value, get_mr (c_utcb p) 1), p))"

section \<open>The POSIX calls\<close>

definition or_errno :: "i32 \<times> ('x, 'h) aio_proc \<Rightarrow> i32 \<times> ('x, 'h) aio_proc" where
  "or_errno r = (case r of (rc, p) \<Rightarrow> if rc \<noteq> 0 then (- 1, p\<lparr>c_errno := rc\<rparr>) else (0, p))"

definition aio_read :: "('x, 'h) aio_lib \<Rightarrow> u64 \<Rightarrow> ('x, 'h) aio_proc \<Rightarrow> (i32 \<times> ('x, 'h) aio_proc) option" where
  "aio_read L cb p =
     (if cb = 0 then Some (- 1, p\<lparr>c_errno := c_EINVAL L\<rparr>)
      else map_option or_errno (submit_request L cb 0 0 0 0 p))"

definition aio_write :: "('x, 'h) aio_lib \<Rightarrow> u64 \<Rightarrow> ('x, 'h) aio_proc \<Rightarrow> (i32 \<times> ('x, 'h) aio_proc) option" where
  "aio_write L cb p =
     (if cb = 0 then Some (- 1, p\<lparr>c_errno := c_EINVAL L\<rparr>)
      else map_option or_errno
        (submit_request L cb 1 (cb_buf L (cb_at L cb p)) (cb_nbytes L (cb_at L cb p)) 0 p))"

definition aio_fsync :: "('x, 'h) aio_lib \<Rightarrow> i32 \<Rightarrow> u64 \<Rightarrow> ('x, 'h) aio_proc
    \<Rightarrow> (i32 \<times> ('x, 'h) aio_proc) option" where
  "aio_fsync L op cb p =
     (if cb = 0 then Some (- 1, p\<lparr>c_errno := c_EINVAL L\<rparr>)
      else map_option or_errno (submit_request L cb 6 0 0 (scast op) p))"

definition aio_error :: "('x, 'h) aio_lib \<Rightarrow> u64 \<Rightarrow> ('x, 'h) aio_proc \<Rightarrow> i32 \<times> ('x, 'h) aio_proc" where
  "aio_error L cb p =
     (let handle = (case find_mapping cb (aio_head p) of Some h \<Rightarrow> h | None \<Rightarrow> 0) in
      if cb = 0 \<or> handle = 0 then (c_EINVAL L, p)
      else case call_simple L 2 handle p of
             ((rc, value, _), p) \<Rightarrow> (if rc \<noteq> 0 then rc else ucast value, p))"

definition aio_return :: "('x, 'h) aio_lib \<Rightarrow> u64 \<Rightarrow> ('x, 'h) aio_proc \<Rightarrow> (i64 \<times> ('x, 'h) aio_proc) option" where
  "aio_return L cb p =
     (if cb = 0 then Some (- 1, p\<lparr>c_errno := c_EINVAL L\<rparr>)
      else case remove_mapping L cb p of
        (handle, p) \<Rightarrow>
          if handle = 0 then Some (- 1, p\<lparr>c_errno := c_EINVAL L\<rparr>)
          else case call_simple L 3 handle p of
            ((rc, value, aux), p) \<Rightarrow>
              if rc \<noteq> 0 then Some (- 1, p\<lparr>c_errno := rc\<rparr>)
              else
                let buf = cb_buf L (cb_at L cb p);
                    available = min (unat (br0 (c_utcb p))) (unat aux)
                in if aux = 0 \<or> buf = 0 then Some (value, clear_br p)
                   else if length (br_payload (c_utcb p)) < available then None
                   else Some (value, clear_br (mem_put buf (take available (br_payload (c_utcb p))) p)))"

definition aio_cancel :: "('x, 'h) aio_lib \<Rightarrow> u64 \<Rightarrow> ('x, 'h) aio_proc \<Rightarrow> i32 \<times> ('x, 'h) aio_proc" where
  "aio_cancel L cb p =
     (if cb = 0 then (c_AIO_ALLDONE L, p)
      else case remove_mapping L cb p of
        (handle, p) \<Rightarrow>
          if handle = 0 then (c_AIO_ALLDONE L, p)
          else case call_simple L 4 handle p of
            ((rc, _, _), p) \<Rightarrow> (if rc \<noteq> 0 then rc else c_AIO_ALLDONE L, p))"

text \<open>\<open>list\<close> is the array, \<open>None\<close> a null pointer; null entries and unknown control blocks are left
  out.\<close>

definition aio_suspend :: "('x, 'h) aio_lib \<Rightarrow> u64 list option \<Rightarrow> int \<Rightarrow> ('x, 'h) aio_proc
    \<Rightarrow> i32 \<times> ('x, 'h) aio_proc" where
  "aio_suspend L list nent p =
     (if nent < 0 then (- 1, p\<lparr>c_errno := c_EINVAL L\<rparr>)
      else case list of
        None \<Rightarrow> (0, p)
      | Some cbs \<Rightarrow>
          if nent = 0 then (0, p)
          else
            let handles = List.map_filter (\<lambda>cb. if cb = 0 then None else find_mapping cb (aio_head p)) (take (nat nent) cbs);
                (ok, h) = c_malloc L (c_heap p); p = p\<lparr>c_heap := h\<rparr>
            in if \<not> ok then (- 1, p\<lparr>c_errno := c_ENOMEM L\<rparr>)
               else if handles = [] then (0, p\<lparr>c_heap := c_free L (c_heap p)\<rparr>)
               else case ensure_gate L p of
                 (rc, p) \<Rightarrow>
                   let (rc, p) =
                     (if rc \<noteq> 0 then (rc, p)
                      else if lib_BR_DATA_BYTES L < length handles * 8 then (c_EOVERFLOW L, p)
                      else
                        let u = br_copy_in (c_utcb p) (bytes_of_words handles);
                            u = set_br0 u (word_of_nat (length handles * 8));
                            u = set_mr (set_mr u 0 5) 1 (word_of_nat (length handles));
                            (status, p) = ipc_call L 2 (p\<lparr>c_utcb := u\<rparr>);
                            result = get_mr (c_utcb p) 0
                        in (if sint status < 0 then ucast (- status)
                            else if sint result < 0 then ucast (- result) else 0, clear_br p))
                   in or_errno (rc, p\<lparr>c_heap := c_free L (c_heap p)\<rparr>))"

text \<open>The busy wait of \<open>lio_listio\<close>: \<open>None\<close> when it never ends.\<close>

partial_function (option) await_done :: "('x, 'h) aio_lib \<Rightarrow> u64 \<Rightarrow> ('x, 'h) aio_proc \<Rightarrow> ('x, 'h) aio_proc option" where
  "await_done L cb p =
     (case aio_error L cb p of (e, p) \<Rightarrow> if e = c_EINPROGRESS L then await_done L cb p else Some p)"

definition lio_one :: "('x, 'h) aio_lib \<Rightarrow> u64 \<Rightarrow> ('x, 'h) aio_proc \<Rightarrow> (i32 \<times> ('x, 'h) aio_proc) option" where
  "lio_one L cb p =
     (let opc = cb_lio_opcode L (cb_at L cb p) in
      if opc = c_LIO_WRITE L then aio_write L cb p
      else if opc = c_LIO_READ L then aio_read L cb p
      else if opc = c_LIO_NOP L then Some (0, p)
      else Some (- 1, p\<lparr>c_errno := c_EINVAL L\<rparr>))"

fun lio_submit :: "('x, 'h) aio_lib \<Rightarrow> u64 list \<Rightarrow> ('x, 'h) aio_proc \<Rightarrow> (i32 \<times> ('x, 'h) aio_proc) option" where
  "lio_submit L [] p = Some (0, p)"
| "lio_submit L (cb # cbs) p =
     (if cb = 0 then lio_submit L cbs p
      else case lio_one L cb p of
             None \<Rightarrow> None
           | Some (rc, p) \<Rightarrow> if rc \<noteq> 0 then Some (- 1, p) else lio_submit L cbs p)"

fun lio_await :: "('x, 'h) aio_lib \<Rightarrow> u64 list \<Rightarrow> ('x, 'h) aio_proc \<Rightarrow> ('x, 'h) aio_proc option" where
  "lio_await L [] p = Some p"
| "lio_await L (cb # cbs) p =
     (if cb = 0 then lio_await L cbs p else Option.bind (await_done L cb p) (lio_await L cbs))"

definition lio_listio :: "('x, 'h) aio_lib \<Rightarrow> i32 \<Rightarrow> u64 list option \<Rightarrow> int \<Rightarrow> ('x, 'h) aio_proc
    \<Rightarrow> (i32 \<times> ('x, 'h) aio_proc) option" where
  "lio_listio L mode list nent p =
     (if nent < 0 then Some (- 1, p\<lparr>c_errno := c_EINVAL L\<rparr>)
      else case list of
        None \<Rightarrow> Some (0, p)
      | Some cbs \<Rightarrow>
          (case lio_submit L (take (nat nent) cbs) p of
             None \<Rightarrow> None
           | Some (rc, p) \<Rightarrow>
               if rc \<noteq> 0 then Some (- 1, p)
               else if mode = c_LIO_WAIT L
               then map_option (\<lambda>p. (0, p)) (lio_await L (take (nat nent) cbs) p)
               else Some (0, p)))"

section \<open>A client and the service\<close>

text \<open>One request and its reply, as the kernel carries them: the words that the tag of the client counts
  arrive in the registers of the service, which runs its handler, and the words of its reply tag come back.
  The service is its registers, its table and the world behind it.\<close>

definition aio_exchange :: "'w aio_env \<Rightarrow> ('s, operation) slab_ops \<Rightarrow> nat \<Rightarrow> utcb \<Rightarrow> utcb \<times> 's \<times> 'w
    \<Rightarrow> utcb \<times> utcb \<times> 's \<times> 'w" where
  "aio_exchange E sl words u x =
     (case x of (us, st) \<Rightarrow>
       (case aio_dispatch E sl (deliver words u us) st of (us, st) \<Rightarrow> (deliver aio_reply_words us u, us, st)))"

text \<open>Client and service agree on the layout of control blocks and on error codes, which are
  positive. A call succeeds with the reply of the service, or fails, before or after the service got the
  request; the registers keep their sizes.\<close>

locale aio_link = aio_service E sl
  for E :: "'w aio_env" and sl :: "('s, operation) slab_ops" +
  fixes L :: "(utcb \<times> 's \<times> 'w, 'h) aio_lib"
  assumes link: "gate_call L gate words u x = ((err, u'), x') \<Longrightarrow>
      (if err = 0 then (u', x') = aio_exchange E sl words u x
       else length (utcb_mr u') = length (utcb_mr u) \<and> length (utcb_br u') = length (utcb_br u) \<and>
         (x' = x \<or> x' = snd (aio_exchange E sl words u x)))"
    and layout: "lib_BR_WORDS L = aio_BR_WORDS E" "lib_sizeof_aiocb L = sizeof_aiocb E"
      "0 < sizeof_aiocb E" "sizeof_aiocb E \<le> aio_BR_DATA_BYTES E" "aio_BR_DATA_BYTES E < 2 ^ 63"
    and errors: "c_EINVAL L = aio_EINVAL E" "0 < sint (aio_EINVAL E)" "0 < sint (c_EIO L)" "c_EOVERFLOW L \<noteq> 0"
      "c_EINPROGRESS L \<noteq> aio_EINVAL E" "c_LIO_NOP L \<notin> {c_LIO_READ L, c_LIO_WRITE L}"
    and gate_found: "\<not> bad_cap L (env_gate L)"

text \<open>The messages that the library sends.\<close>

definition libc_message :: "'w aio_env \<Rightarrow> nat \<Rightarrow> utcb \<Rightarrow> bool" where
  "libc_message E words u \<longleftrightarrow> 4 \<le> length (utcb_mr u) \<and>
     (words = 4 \<and> get_mr u 0 \<in> {0, 1, 6} \<and> get_mr u 1 = word_of_nat (sizeof_aiocb E) \<or>
      words = 2 \<and> get_mr u 0 \<in> {2, 3, 4, 5})"

text \<open>A service that has nothing in its buffer registers and nothing in its table, and has not touched
  the world \<open>w0\<close>; and a client of it that remembers no handle.\<close>

definition svc_idle :: "'w aio_env \<Rightarrow> ('s, operation) slab_ops \<Rightarrow> 'w \<Rightarrow> utcb \<times> 's \<times> 'w \<Rightarrow> bool" where
  "svc_idle E sl w0 x \<longleftrightarrow> (case x of (us, s, w) \<Rightarrow> wf_utcb (aio_BR_WORDS E) us \<and> br0 us = 0 \<and>
     (\<forall>k. slab_get sl s k = None) \<and> w = w0)"

definition barren :: "'w aio_env \<Rightarrow> ('s, operation) slab_ops \<Rightarrow> 'w \<Rightarrow> (utcb \<times> 's \<times> 'w, 'h) aio_proc \<Rightarrow> bool" where
  "barren E sl w0 p \<longleftrightarrow> aio_head p = [] \<and> wf_utcb (aio_BR_WORDS E) (c_utcb p) \<and> svc_idle E sl w0 (c_world p)"

lemma barren_upd [simp]:
  "barren E sl w0 (p\<lparr>c_errno := e\<rparr>) = barren E sl w0 p" "barren E sl w0 (p\<lparr>c_heap := h\<rparr>) = barren E sl w0 p"
  "barren E sl w0 (p\<lparr>aio_gate := g\<rparr>) = barren E sl w0 p" "barren E sl w0 (mem_put a bs p) = barren E sl w0 p"
  "barren E sl w0 (clear_br p) = barren E sl w0 p"
  by (simp_all add: barren_def mem_put_def clear_br_def)

lemma barren_head: "barren E sl w0 p \<Longrightarrow> aio_head p = []"
  by (simp add: barren_def)

lemma length_mem_bytes [simp]: "length (mem_bytes p a n) = n"
  by (simp add: mem_bytes_def)

lemma mem_bytes_put:
  assumes "length bs < 2 ^ 64"
  shows "mem_bytes (mem_put a bs p) a (length bs) = bs"
proof (rule nth_equalityI)
  fix i
  assume "i < length (mem_bytes (mem_put a bs p) a (length bs))"
  then have "i < length bs" "unat (word_of_nat i :: u64) = i"
    using assms by (simp_all add: unat_of_nat)
  then show "mem_bytes (mem_put a bs p) a (length bs) ! i = bs ! i"
    by (simp add: mem_bytes_def mem_put_def)
qed simp

context aio_link
begin

lemma neg_errno_neg: "0 < sint e \<Longrightarrow> sint (neg_errno e) < 0"
  using sint_neg_errno [of e] by simp

lemma ucast_neg_errno: "ucast (- neg_errno e) = e"
  by (simp add: neg_errno_def ucast_scast_32)

lemma data_bytes: "lib_BR_DATA_BYTES L = aio_BR_DATA_BYTES E"
  by (simp add: lib_BR_DATA_BYTES_def aio_BR_DATA_BYTES_def layout)

lemma ensure_gate_ok: obtains g where "ensure_gate L p = (0, p\<lparr>aio_gate := g\<rparr>)"
proof (cases "bad_cap L (aio_gate p)")
  case True
  then show thesis
    using that [of "env_gate L"] gate_found by (simp add: ensure_gate_def)
next
  case False
  then show thesis
    using that [of "aio_gate p"] by (simp add: ensure_gate_def)
qed

text \<open>Without bytes in its buffer registers the service refuses every submission, and nothing it is sent
  by the library changes that.\<close>

lemma idle_answers:
  assumes "wf_utcb (aio_BR_WORDS E) us" and "br0 us = 0" and "\<forall>k. slab_get sl s k = None"
    and "get_mr us 0 \<in> {0, 1, 6} \<Longrightarrow> get_mr us 1 = word_of_nat (sizeof_aiocb E)" and "get_mr us 0 \<in> {0, 1, 2, 3, 4, 5, 6}"
  obtains v where "aio_dispatch E sl us (s, w) = (aio_br_clear (set_mr us 0 v), s, w)"
    and "get_mr us 0 \<in> {0, 1, 6} \<Longrightarrow> v = neg_errno (aio_EINVAL E)"
proof -
  have len: "unat (word_of_nat (sizeof_aiocb E) :: u64) = sizeof_aiocb E"
    using layout(4,5) by (simp add: unat_of_nat)
  have "handle_aio_read E sl us s w = (aio_br_clear (set_mr us 0 (neg_errno (aio_EINVAL E))), s, w)"
    and "handle_aio_fsync E sl us s w = (aio_br_clear (set_mr us 0 (neg_errno (aio_EINVAL E))), s, w)"
    and "handle_aio_write E sl us s w = (aio_br_clear (set_mr us 0 (neg_errno (aio_EINVAL E))), s, w)"
    if "get_mr us 1 = word_of_nat (sizeof_aiocb E)"
    using that len layout(3,4) assms(2)
    by (simp_all add: handle_aio_read_def handle_aio_fsync_def handle_aio_write_def read_aiocb_def br_bytes_def
        encode_errno_raw_def saturating_add_usize_def)
  then show thesis
    using assms(3-5) that [of "neg_errno (aio_EINVAL E)"] that [of 0] that [of "scast (AIO_ALLDONE E)"]
    by (auto simp: aio_dispatch_def handle_aio_error_def handle_aio_return_def handle_aio_cancel_def handle_aio_suspend_def
        encode_errno_raw_def)
qed

lemma exchange_refuses:
  assumes "svc_idle E sl w0 x" and "libc_message E n u"
  shows "svc_idle E sl w0 (snd (aio_exchange E sl n u x))"
    and "n = 4 \<Longrightarrow> get_mr (fst (aio_exchange E sl n u x)) 0 = neg_errno (aio_EINVAL E)"
    and "wf_utcb b u \<Longrightarrow> wf_utcb b (fst (aio_exchange E sl n u x))"
proof -
  obtain us s w where x: "x = (us, s, w)"
    by (cases x)
  have n: "2 \<le> n" "n \<le> 4" "4 \<le> length (utcb_mr u)"
    using assms(2) by (auto simp: libc_message_def)
  let ?us = "deliver n u us"
  have mr: "get_mr ?us 0 = get_mr u 0" "get_mr ?us 1 = get_mr u 1"
    using n by (simp_all add: get_mr_deliver)
  have idle: "wf_utcb (aio_BR_WORDS E) ?us" "br0 ?us = 0" "\<forall>k. slab_get sl s k = None" "w = w0"
    using assms(1) n by (auto simp: svc_idle_def x)
  obtain v where d: "aio_dispatch E sl ?us (s, w) = (aio_br_clear (set_mr ?us 0 v), s, w)"
    and v: "get_mr u 0 \<in> {0, 1, 6} \<Longrightarrow> v = neg_errno (aio_EINVAL E)"
    by (rule idle_answers [OF idle(1-3), of w]) (use assms(2) mr in \<open>auto simp: libc_message_def\<close>)
  have e: "aio_exchange E sl n u x = (deliver 2 (aio_br_clear (set_mr ?us 0 v)) u, aio_br_clear (set_mr ?us 0 v), s, w)"
    by (simp add: aio_exchange_def x d aio_reply_words_def)
  have len: "4 \<le> length (utcb_mr ?us)" "utcb_br ?us \<noteq> []" "0 < length (utcb_mr ?us)"
    using idle(1) by (auto simp: wf_utcb_def)
  then show "svc_idle E sl w0 (snd (aio_exchange E sl n u x))"
    using idle by (simp add: e svc_idle_def aio_br_clear_def)
  show "get_mr (fst (aio_exchange E sl n u x)) 0 = neg_errno (aio_EINVAL E)" if "n = 4"
  proof -
    have "get_mr u 0 \<in> {0, 1, 6}"
      using assms(2) that by (auto simp: libc_message_def)
    then show ?thesis
      using len v by (simp add: e get_mr_deliver aio_br_clear_def del: length_greater_0_conv)
  qed
  show "wf_utcb b (fst (aio_exchange E sl n u x))" if "wf_utcb b u"
    using that len(1) by (simp add: e aio_br_clear_def)
qed

lemma ipc_call_refused:
  assumes "barren E sl w0 p" and "wf_utcb (aio_BR_WORDS E) u" and "libc_message E 4 u"
  obtains st u' x' where "ipc_call L 4 (p\<lparr>c_utcb := u\<rparr>) = (st, p\<lparr>c_utcb := u', c_world := x'\<rparr>)"
    and "wf_utcb (aio_BR_WORDS E) u'" and "svc_idle E sl w0 x'"
    and "st = neg_errno (c_EIO L) \<or> st = 0 \<and> get_mr u' 0 = neg_errno (aio_EINVAL E)"
proof -
  obtain err u' x' where c: "gate_call L (aio_gate p) 4 u (c_world p) = ((err, u'), x')"
    by (metis prod_cases3 surj_pair)
  have idle: "svc_idle E sl w0 (c_world p)"
    using assms(1) by (simp add: barren_def)
  note ex = exchange_refuses [OF idle assms(3)]
  note l = link [OF c]
  show thesis
  proof (cases "err = 0")
    case True
    then have "u' = fst (aio_exchange E sl 4 u (c_world p))" "x' = snd (aio_exchange E sl 4 u (c_world p))"
      using l by (auto simp: prod_eq_iff)
    then show thesis
      using that [where st = 0 and u' = u' and x' = x'] c True ex(1,2) ex(3) [OF assms(2)] by (simp add: ipc_call_def)
  next
    case False
    then have "wf_utcb (aio_BR_WORDS E) u'" "svc_idle E sl w0 x'"
      using l assms(2) idle ex(1) by (auto simp: wf_utcb_def)
    then show thesis
      using that [where st = "neg_errno (c_EIO L)" and u' = u' and x' = x'] c False by (simp add: ipc_call_def)
  qed
qed

lemma fill_request_sent:
  assumes "wf_utcb (aio_BR_WORDS E) (c_utcb p)" and "opcode \<in> {0, 1, 6}"
  shows "libc_message E 4 (fill_request L cb opcode payload len extra p)"
    and "wf_utcb (aio_BR_WORDS E) (fill_request L cb opcode payload len extra p)"
proof -
  have "4 \<le> length (utcb_mr (c_utcb p))" "utcb_mr (c_utcb p) \<noteq> []"
    using assms(1) by (auto simp: wf_utcb_def)
  then show "libc_message E 4 (fill_request L cb opcode payload len extra p)"
    using assms(2) by (auto simp: fill_request_def libc_message_def Let_def layout)
  show "wf_utcb (aio_BR_WORDS E) (fill_request L cb opcode payload len extra p)"
    using assms(1) by (simp add: fill_request_def Let_def)
qed

text \<open>A submission never succeeds, and leaves everything as it was.\<close>

lemma submit_refused:
  assumes "barren E sl w0 p" and "opcode \<in> {0, 1, 6}" and "submit_request L cb opcode payload n extra p = Some (rc, p')"
  shows "barren E sl w0 p'" and "c_mem p' = c_mem p"
    and "rc \<in> {aio_EINVAL E, c_EIO L} \<or> rc = c_EOVERFLOW L \<and> aio_BR_DATA_BYTES E < sizeof_aiocb E + unat n"
proof -
  obtain g where g: "ensure_gate L p = (0, p\<lparr>aio_gate := g\<rparr>)"
    by (rule ensure_gate_ok)
  define u where "u = fill_request L cb opcode payload n extra (p\<lparr>aio_gate := g\<rparr>)"
  have bar: "barren E sl w0 (p\<lparr>aio_gate := g\<rparr>)" and wf: "wf_utcb (aio_BR_WORDS E) (c_utcb (p\<lparr>aio_gate := g\<rparr>))"
    using assms(1) by (simp_all add: barren_def)
  note sent = fill_request_sent [OF wf assms(2), of cb payload n extra, folded u_def]
  obtain st u' x' where c: "ipc_call L 4 (p\<lparr>aio_gate := g, c_utcb := u\<rparr>) = (st, p\<lparr>aio_gate := g, c_utcb := u', c_world := x'\<rparr>)"
    and keep: "wf_utcb (aio_BR_WORDS E) u'" "svc_idle E sl w0 x'"
    and st: "st = neg_errno (c_EIO L) \<or> st = 0 \<and> get_mr u' 0 = neg_errno (aio_EINVAL E)"
    by (rule ipc_call_refused [OF bar sent(2,1)])
  let ?q = "clear_br (p\<lparr>aio_gate := g, c_utcb := u', c_world := x'\<rparr>)"
  have sum: "unat (word_of_nat (sizeof_aiocb E) + n) \<le> sizeof_aiocb E + unat n"
    using layout(4,5) by (simp add: unat_word_ariths unat_of_nat)
  from assms(3) st neg_errno_neg [OF errors(2)] neg_errno_neg [OF errors(3)]
  have r: "(rc, p') = (c_EOVERFLOW L, p\<lparr>aio_gate := g\<rparr>) \<and> aio_BR_DATA_BYTES E < sizeof_aiocb E + unat n \<or>
      rc \<in> {aio_EINVAL E, c_EIO L} \<and> p' = ?q"
    using sum by (auto simp: submit_request_def g Let_def c u_def [symmetric] ucast_neg_errno data_bytes layout split: if_splits)
  have "barren E sl w0 ?q"
    using assms(1) keep by (simp add: barren_def clear_br_def)
  then show "barren E sl w0 p'" "c_mem p' = c_mem p"
    using r assms(1) by (auto simp: clear_br_def)
  show "rc \<in> {aio_EINVAL E, c_EIO L} \<or> rc = c_EOVERFLOW L \<and> aio_BR_DATA_BYTES E < sizeof_aiocb E + unat n"
    using r by auto
qed

lemma submit_returns:
  assumes "sizeof_aiocb E + unat n < 2 ^ 64"
  shows "submit_request L cb opcode payload n extra p \<noteq> None"
proof -
  have "unat (word_of_nat (lib_sizeof_aiocb L) + n) = lib_sizeof_aiocb L + unat n"
    using assms by (simp add: layout unat_word_ariths unat_of_nat)
  then show ?thesis
    by (simp add: submit_request_def Let_def split: prod.splits)
qed

lemma error_codes_set: "aio_EINVAL E \<noteq> 0" "c_EIO L \<noteq> 0"
  using errors(2,3) by auto

text \<open>The calls of the library.\<close>

lemma submit_call:
  assumes "barren E sl w0 p" and "opcode \<in> {0, 1, 6}"
    and "map_option or_errno (submit_request L cb opcode payload n extra p) = Some (rc, p')"
  shows "barren E sl w0 p' \<and> c_mem p' = c_mem p \<and> rc = - 1 \<and>
    (c_errno p' \<in> {aio_EINVAL E, c_EIO L} \<or> c_errno p' = c_EOVERFLOW L \<and> aio_BR_DATA_BYTES E < sizeof_aiocb E + unat n)"
proof -
  obtain e p1 where s: "submit_request L cb opcode payload n extra p = Some (e, p1)" and r: "or_errno (e, p1) = (rc, p')"
    using assms(3) by auto
  note ref = submit_refused [OF assms(1,2) s]
  have "e \<noteq> 0"
    using ref(3) error_codes_set errors(4) by auto
  then have "rc = - 1" "p' = p1\<lparr>c_errno := e\<rparr>"
    using r by (simp_all add: or_errno_def)
  then show ?thesis
    using ref by simp
qed

lemma calls_refused:
  assumes "barren E sl w0 p"
  shows "aio_read L cb p = Some (rc, p') \<Longrightarrow> barren E sl w0 p' \<and> c_mem p' = c_mem p \<and> rc = - 1"
    and "aio_write L cb p = Some (rc, p') \<Longrightarrow> barren E sl w0 p' \<and> c_mem p' = c_mem p \<and> rc = - 1"
    and "aio_fsync L op cb p = Some (rc, p') \<Longrightarrow> barren E sl w0 p' \<and> c_mem p' = c_mem p \<and> rc = - 1"
  using assms submit_call [OF assms, of 0 cb 0 0 0 rc p']
    submit_call [OF assms, of 1 cb "cb_buf L (cb_at L cb p)" "cb_nbytes L (cb_at L cb p)" 0 rc p']
    submit_call [OF assms, of 6 cb 0 0 "scast op" rc p']
  by (auto simp: aio_read_def aio_write_def aio_fsync_def split: if_splits)

lemma error_unknown: "aio_head p = [] \<Longrightarrow> aio_error L cb p = (aio_EINVAL E, p)"
  by (simp add: aio_error_def errors)

lemma return_unknown: "aio_head p = [] \<Longrightarrow> aio_return L cb p = Some (- 1, p\<lparr>c_errno := aio_EINVAL E\<rparr>)"
  by (simp add: aio_return_def remove_mapping_def errors)

lemma cancel_unknown: "aio_head p = [] \<Longrightarrow> aio_cancel L cb p = (c_AIO_ALLDONE L, p)"
  by (simp add: aio_cancel_def remove_mapping_def)

lemma suspend_unknown:
  assumes "barren E sl w0 p"
  shows "barren E sl w0 (snd (aio_suspend L cbs nent p))"
proof -
  have "List.map_filter (\<lambda>cb. if cb = 0 then None else find_mapping cb (aio_head p)) xs = []" for xs
    using assms by (induction xs) (auto simp: barren_def List.map_filter_simps)
  then show ?thesis
    using assms by (auto simp: aio_suspend_def Let_def split: option.splits prod.splits)
qed

text \<open>List requests.\<close>

definition lio_idle :: "u64 \<Rightarrow> (utcb \<times> 's \<times> 'w, 'h) aio_proc \<Rightarrow> bool" where
  "lio_idle cb p \<longleftrightarrow> cb = 0 \<or> cb_lio_opcode L (cb_at L cb p) = c_LIO_NOP L"

lemma lio_one_result:
  assumes "barren E sl w0 p" and "lio_one L cb p = Some (rc, p')" and "cb \<noteq> 0"
  shows "barren E sl w0 p' \<and> c_mem p' = c_mem p \<and> rc = (if lio_idle cb p then 0 else - 1)"
  using assms calls_refused(1,2) [OF assms(1), of cb rc p'] errors(6)
  by (auto simp: lio_one_def lio_idle_def Let_def split: if_splits)

lemma lio_one_returns:
  assumes "sizeof_aiocb E + unat (cb_nbytes L (cb_at L cb p)) < 2 ^ 64"
  shows "lio_one L cb p \<noteq> None"
proof -
  have "sizeof_aiocb E + unat (0 :: u64) < 2 ^ 64"
    using layout(4,5) by simp
  then show ?thesis
    using submit_returns [OF assms] submit_returns [of 0 cb 0 0 0 p]
    unfolding lio_one_def aio_write_def aio_read_def Let_def by (simp del: not_None_eq)
qed

lemma lio_idle_mem: "c_mem p' = c_mem p \<Longrightarrow> lio_idle cb p' = lio_idle cb p" "c_mem p' = c_mem p \<Longrightarrow> cb_at L cb p' = cb_at L cb p"
  by (simp_all add: lio_idle_def cb_at_def mem_bytes_def)

lemma lio_submit_result:
  assumes "barren E sl w0 p" and "\<forall>cb \<in> set cbs. cb = 0 \<or> sizeof_aiocb E + unat (cb_nbytes L (cb_at L cb p)) < 2 ^ 64"
  shows "\<exists>p'. lio_submit L cbs p = Some (if \<forall>cb \<in> set cbs. lio_idle cb p then 0 else - 1, p') \<and>
    barren E sl w0 p' \<and> c_mem p' = c_mem p"
  using assms
proof (induction cbs arbitrary: p)
  case (Cons cb cbs)
  show ?case
  proof (cases "cb = 0")
    case True
    then show ?thesis
      using Cons.IH [OF Cons.prems(1)] Cons.prems(2) by (simp add: lio_idle_def)
  next
    case False
    then have "sizeof_aiocb E + unat (cb_nbytes L (cb_at L cb p)) < 2 ^ 64"
      using Cons.prems(2) by simp
    then obtain rc p1 where o: "lio_one L cb p = Some (rc, p1)"
      using lio_one_returns by fastforce
    note r = lio_one_result [OF Cons.prems(1) o False]
    then have mem: "c_mem p1 = c_mem p"
      by simp
    show ?thesis
    proof (cases "lio_idle cb p")
      case True
      have "\<forall>cb \<in> set cbs. cb = 0 \<or> sizeof_aiocb E + unat (cb_nbytes L (cb_at L cb p1)) < 2 ^ 64"
        using Cons.prems(2) lio_idle_mem(2) [OF mem] by simp
      then show ?thesis
        using Cons.IH [of p1] r o False True mem lio_idle_mem(1) [OF mem] by simp
    next
      case False
      then show ?thesis
        using r o \<open>cb \<noteq> 0\<close> by auto
    qed
  qed
qed simp

lemma await_ends: "aio_head p = [] \<Longrightarrow> await_done L cb p = Some p"
  using errors(5) by (subst await_done.simps) (simp add: error_unknown)

lemma lio_await_ends: "aio_head p = [] \<Longrightarrow> lio_await L cbs p = Some p"
  by (induction cbs) (simp_all add: await_ends)

lemma listio_result:
  assumes "barren E sl w0 p" and "\<forall>cb \<in> set (take (nat nent) cbs). cb = 0 \<or> sizeof_aiocb E + unat (cb_nbytes L (cb_at L cb p)) < 2 ^ 64"
    and "0 \<le> nent"
  shows "\<exists>p'. lio_listio L mode (Some cbs) nent p =
      Some (if \<forall>cb \<in> set (take (nat nent) cbs). lio_idle cb p then 0 else - 1, p') \<and> barren E sl w0 p'"
proof -
  obtain p1 where s: "lio_submit L (take (nat nent) cbs) p =
      Some (if \<forall>cb \<in> set (take (nat nent) cbs). lio_idle cb p then 0 else - 1, p1)" and b: "barren E sl w0 p1"
    using lio_submit_result [OF assms(1,2)] by blast
  then have "aio_head p1 = []"
    by (simp add: barren_def)
  then show ?thesis
    using s b assms(3) by (auto simp: lio_listio_def lio_await_ends)
qed

end

section \<open>Sessions\<close>

text \<open>What happens in a session: the calls of the client, stores to its memory between them, and the messages
  of other clients of the service that use the same library. A call whose copy overruns the registers has
  no result and is no step.\<close>

inductive aio_step :: "'w aio_env \<Rightarrow> ('s, operation) slab_ops \<Rightarrow> (utcb \<times> 's \<times> 'w, 'h) aio_lib
    \<Rightarrow> (utcb \<times> 's \<times> 'w, 'h) aio_proc \<Rightarrow> (utcb \<times> 's \<times> 'w, 'h) aio_proc \<Rightarrow> bool" for E sl L where
  step_read: "aio_read L cb p = Some (rc, p') \<Longrightarrow> aio_step E sl L p p'"
| step_write: "aio_write L cb p = Some (rc, p') \<Longrightarrow> aio_step E sl L p p'"
| step_fsync: "aio_fsync L op cb p = Some (rc, p') \<Longrightarrow> aio_step E sl L p p'"
| step_error: "aio_error L cb p = (e, p') \<Longrightarrow> aio_step E sl L p p'"
| step_return: "aio_return L cb p = Some (r, p') \<Longrightarrow> aio_step E sl L p p'"
| step_cancel: "aio_cancel L cb p = (rc, p') \<Longrightarrow> aio_step E sl L p p'"
| step_suspend: "aio_suspend L cbs nent p = (rc, p') \<Longrightarrow> aio_step E sl L p p'"
| step_listio: "lio_listio L mode cbs nent p = Some (rc, p') \<Longrightarrow> aio_step E sl L p p'"
| step_memory: "aio_step E sl L p (mem_put a bs p)"
| step_others: "libc_message E n v \<Longrightarrow> aio_step E sl L p (p\<lparr>c_world := snd (aio_exchange E sl n v (c_world p))\<rparr>)"

context aio_link
begin

lemma lio_submit_barren: "lio_submit L cbs p = Some (rc, p') \<Longrightarrow> barren E sl w0 p \<Longrightarrow> barren E sl w0 p'"
proof (induction cbs arbitrary: p)
  case (Cons cb cbs)
  have "barren E sl w0 p1" if "lio_one L cb p = Some (rc1, p1)" "cb \<noteq> 0" for rc1 p1
    using lio_one_result [OF Cons.prems(2) that] by simp
  then show ?case
    using Cons.IH Cons.prems by (auto split: if_splits option.splits)
qed simp

lemma step_barren: "aio_step E sl L p p' \<Longrightarrow> barren E sl w0 p \<Longrightarrow> barren E sl w0 p'"
proof (induction rule: aio_step.induct)
  case (step_suspend cbs nent p rc p')
  then show ?case
    using suspend_unknown [of w0 p cbs nent] by simp
next
  case (step_listio mode cbs nent p rc p')
  have "lio_await L xs p1 = Some p1" if "barren E sl w0 p1" for p1 xs
    using that by (simp add: barren_def lio_await_ends)
  then show ?case
    using step_listio lio_submit_barren
    by (fastforce simp: lio_listio_def split: if_splits option.splits)
next
  case (step_others n v p)
  then show ?case
    using exchange_refuses(1) by (simp add: barren_def)
next
  case (step_error cb p e p')
  then show ?case
    using error_unknown [OF barren_head [OF step_error.prems]] by simp
next
  case (step_return cb p r p')
  then show ?case
    using return_unknown [OF barren_head [OF step_return.prems]] by auto
next
  case (step_cancel cb p rc p')
  then show ?case
    using cancel_unknown [OF barren_head [OF step_cancel.prems]] by simp
qed (auto dest: calls_refused)

lemma session_barren: "(aio_step E sl L)\<^sup>*\<^sup>* p p' \<Longrightarrow> barren E sl w0 p \<Longrightarrow> barren E sl w0 p'"
  by (induction rule: rtranclp_induct) (auto intro: step_barren)

end

lemma fresh_barren:
  assumes "aio_link E sl L" and "aio_head p = []" and "wf_utcb (aio_BR_WORDS E) (c_utcb p)"
    and "c_world p = (us, slab_new sl, w0)" and "wf_utcb (aio_BR_WORDS E) us" and "br0 us = 0"
  shows "barren E sl w0 p"
proof -
  have "slab sl"
    using assms(1) by (simp add: aio_link_def aio_service_def)
  then show ?thesis
    using assms(2-6) by (simp add: barren_def svc_idle_def slab.slab_get_new)
qed


section \<open>A process that meets the contract\<close>

definition demo_lib :: "(utcb \<times> operation option list \<times> nat, unit) aio_lib" where
  "demo_lib = \<lparr>lib_BR_WORDS = 58, lib_sizeof_aiocb = 24,
     cb_nbytes = (\<lambda>cb. word_of_nat (le_nat (slice cb 8 8))), cb_buf = (\<lambda>cb. word_of_nat (le_nat (slice cb 4 2))),
     cb_lio_opcode = (\<lambda>cb. word_of_nat (le_nat (slice cb 6 2))),
     c_EINVAL = 22, c_EIO = 5, c_ENOENT = 2, c_EOVERFLOW = 75, c_ENOMEM = 12, c_EINPROGRESS = 115, c_AIO_ALLDONE = 2,
     c_LIO_READ = 0, c_LIO_WRITE = 1, c_LIO_NOP = 2, c_LIO_WAIT = 0,
     bad_cap = (\<lambda>c. c = 0), env_gate = 4096, c_malloc = Pair True, c_free = id,
     gate_call = (\<lambda>gate words u x. case aio_exchange demo_aio vec_slab words u x of (u, x) \<Rightarrow> ((0, u), x))\<rparr>"

text \<open>A control block at address 4096: eight bytes of descriptor 5 into the buffer at 512.\<close>

definition demo_cb :: "u8 list" where
  "demo_cb = le_bytes 4 5 @ le_bytes 2 512 @ le_bytes 2 0 @ le_bytes 8 8 @ le_bytes 8 0"

definition demo_proc :: "(utcb \<times> operation option list \<times> nat, unit) aio_proc" where
  "demo_proc = mem_put 4096 demo_cb
     \<lparr>aio_head = [], aio_gate = 0, c_errno = 0, c_utcb = demo_utcb [0, 0, 0, 0], c_mem = (\<lambda>_. 0), c_heap = (),
      c_world = (demo_utcb [9, 9, 9, 9], slab_new vec_slab, 0)\<rparr>"

interpretation demo_link: aio_link demo_aio vec_slab demo_lib
  by unfold_locales
    (auto simp: demo_lib_def demo_aio_def aio_BR_DATA_BYTES_def split: prod.splits)

lemma demo_proc_cb: "cb_at demo_lib 4096 demo_proc = demo_cb"
  using mem_bytes_put [of demo_cb 4096] by (simp add: cb_at_def demo_proc_def demo_lib_def demo_cb_def)

lemma demo_proc_fresh: "aio_head demo_proc = []" "wf_utcb (aio_BR_WORDS demo_aio) (c_utcb demo_proc)"
  "c_world demo_proc = (demo_utcb [9, 9, 9, 9], slab_new vec_slab, 0)"
  "wf_utcb (aio_BR_WORDS demo_aio) (demo_utcb [9, 9, 9, 9])" "br0 (demo_utcb [9, 9, 9, 9]) = 0"
  by (simp_all add: demo_proc_def mem_put_def demo_utcb_def demo_aio_def wf_utcb_def br0_def)

section \<open>Properties\<close>

text \<open>
  C20. No request of the C library ever reaches its file. The library puts control block and payload
  into its buffer registers, and an IPC carries message registers only; so in every session of a
  process with a service that starts with empty buffer registers and an empty table, with other
  processes that use the same library at the same time and with IPC errors at any point, the process never remembers a
  handle, the table of the service stays empty, and the service never calls the C library:
  the world behind it is as at the start.
\<close>
theorem aio_session_barren:
  assumes "aio_link E sl L" and "aio_head p = []" and "wf_utcb (aio_BR_WORDS E) (c_utcb p)"
    and "c_world p = (us, slab_new sl, w0)" and "wf_utcb (aio_BR_WORDS E) us" and "br0 us = 0"
    and "(aio_step E sl L)\<^sup>*\<^sup>* p p'"
  shows "aio_head p' = [] \<and> (\<exists>us' s'. c_world p' = (us', s', w0) \<and> (\<forall>k. slab_get sl s' k = None))"
proof -
  have "barren E sl w0 p'"
    using aio_link.session_barren [OF assms(1,7)] fresh_barren [OF assms(1-6)] by blast
  then show ?thesis
    by (auto simp: barren_def svc_idle_def)
qed

theorem aio_session_barren_witness:
  "\<exists>p'. aio_read demo_lib 4096 demo_proc = Some (- 1, p') \<and> aio_head p' = []"
proof -
  have "aio_read demo_lib 4096 demo_proc \<noteq> None"
    using demo_link.submit_returns [of 0 4096 0 0 0 demo_proc] by (simp add: aio_read_def demo_aio_def)
  then obtain rc p' where r: "aio_read demo_lib 4096 demo_proc = Some (rc, p')"
    by auto
  have "(aio_step demo_aio vec_slab demo_lib)\<^sup>*\<^sup>* demo_proc p'"
    using step_read [OF r] by (rule r_into_rtranclp)
  from aio_session_barren [OF demo_link.aio_link_axioms demo_proc_fresh this] show ?thesis
    using r demo_link.calls_refused(1) [OF fresh_barren [OF demo_link.aio_link_axioms demo_proc_fresh] r] by simp
qed

text \<open>
  C21. Every asynchronous request fails. At any point of such a session, \<open>aio_read\<close> and \<open>aio_fsync\<close> of any
  control block return -1 with the error \<open>EINVAL\<close> of the service, or \<open>EIO\<close> after an IPC error; so does \<open>aio_write\<close>,
  which may also report \<open>EOVERFLOW\<close> when control block and payload are larger than the buffer registers (if their sizes
  do not wrap around together).
\<close>
theorem aio_requests_fail:
  assumes "aio_link E sl L" and "aio_head p = []" and "wf_utcb (aio_BR_WORDS E) (c_utcb p)"
    and "c_world p = (us, slab_new sl, w0)" and "wf_utcb (aio_BR_WORDS E) us" and "br0 us = 0"
    and "(aio_step E sl L)\<^sup>*\<^sup>* p p'" and "cb \<noteq> 0"
    and "sizeof_aiocb E + unat (cb_nbytes L (cb_at L cb p')) < 2 ^ 64"
  shows "(\<exists>q. aio_read L cb p' = Some (- 1, q) \<and> c_errno q \<in> {aio_EINVAL E, c_EIO L}) \<and>
    (\<exists>q. aio_fsync L op cb p' = Some (- 1, q) \<and> c_errno q \<in> {aio_EINVAL E, c_EIO L}) \<and>
    (\<exists>q. aio_write L cb p' = Some (- 1, q) \<and> (c_errno q \<in> {aio_EINVAL E, c_EIO L} \<or>
       c_errno q = c_EOVERFLOW L \<and> aio_BR_DATA_BYTES E < sizeof_aiocb E + unat (cb_nbytes L (cb_at L cb p'))))"
proof -
  have b: "barren E sl w0 p'"
    using aio_link.session_barren [OF assms(1,7)] fresh_barren [OF assms(1-6)] by blast
  note lay = aio_link.layout [OF assms(1)]
  have call: "\<exists>q. map_option or_errno (submit_request L cb opc a n x p') = Some (- 1, q) \<and> (c_errno q \<in> {aio_EINVAL E, c_EIO L} \<or>
      c_errno q = c_EOVERFLOW L \<and> aio_BR_DATA_BYTES E < sizeof_aiocb E + unat n)"
    if "opc \<in> {0, 1, 6}" and "sizeof_aiocb E + unat n < 2 ^ 64" for opc a n x
  proof -
    note ret = aio_link.submit_returns [OF assms(1) that(2), of cb opc a x p']
    obtain rc q where "map_option or_errno (submit_request L cb opc a n x p') = Some (rc, q)"
      using ret by fastforce
    then show ?thesis
      using aio_link.submit_call [OF assms(1) b that(1)] by blast
  qed
  have "sizeof_aiocb E + unat (0 :: u64) < 2 ^ 64" "\<not> aio_BR_DATA_BYTES E < sizeof_aiocb E + unat (0 :: u64)"
    using lay(4,5) by simp_all
  then show ?thesis
    using call [of 0 0 0 0] call [of 6 0 0 "scast op"]
      call [of 1 "cb_nbytes L (cb_at L cb p')" "cb_buf L (cb_at L cb p')" 0] assms(8,9)
    by (simp add: aio_read_def aio_fsync_def aio_write_def)
qed

theorem aio_requests_fail_witness:
  "\<exists>q. aio_read demo_lib 4096 demo_proc = Some (- 1, q) \<and> c_errno q \<in> {22, 5}"
proof -
  have "sizeof_aiocb demo_aio + unat (cb_nbytes demo_lib (cb_at demo_lib 4096 demo_proc)) < 2 ^ 64"
    unfolding demo_proc_cb by (simp add: demo_aio_def demo_lib_def demo_cb_def le_bytes_def slice_def)
  from aio_requests_fail [OF demo_link.aio_link_axioms demo_proc_fresh rtranclp.rtrancl_refl _ this, of 0]
  show ?thesis
    by (simp add: demo_aio_def demo_lib_def)
qed

text \<open>
  The library takes handle 0 for no handle: a request that got it can be neither queried nor collected.
\<close>

lemma aio_handle_zero_lost:
  assumes "find_mapping cb (aio_head p) = Some 0"
  shows "aio_error L cb p = (c_EINVAL L, p)" and "\<exists>p'. aio_return L cb p = Some (- 1, p')"
proof -
  show "aio_error L cb p = (c_EINVAL L, p)"
    using assms by (simp add: aio_error_def)
  have "fst (unlink_mapping cb ms) = find_mapping cb ms" for ms
    by (induction ms) (auto split: prod.splits)
  then show "\<exists>p'. aio_return L cb p = Some (- 1, p')"
    using assms by (auto simp: aio_return_def remove_mapping_def split: prod.splits option.splits) (metis fst_conv option.distinct(1) option.inject)+
qed

text \<open>
  A write whose length wraps around together with the size of the control block passes the check of
  its length, and the copy into the registers runs past them.
\<close>

lemma aio_write_overruns:
  assumes "aio_link E sl L" and "cb \<noteq> 0" and "2 ^ 64 \<le> sizeof_aiocb E + unat (cb_nbytes L (cb_at L cb p))"
  shows "aio_write L cb p = None"
proof -
  let ?n = "cb_nbytes L (cb_at L cb p)"
  obtain g where g: "ensure_gate L p = (0, p\<lparr>aio_gate := g\<rparr>)"
    by (rule aio_link.ensure_gate_ok [OF assms(1)])
  have d: "lib_BR_DATA_BYTES L = aio_BR_DATA_BYTES E" "lib_sizeof_aiocb L = sizeof_aiocb E"
    "sizeof_aiocb E \<le> aio_BR_DATA_BYTES E" "aio_BR_DATA_BYTES E < 2 ^ 63"
    using aio_link.data_bytes [OF assms(1)] aio_link.layout [OF assms(1)] by simp_all
  have n: "unat ?n < 2 ^ 64"
    using unsigned_less [of ?n] by simp
  then have "unat (word_of_nat (sizeof_aiocb E) + ?n) = sizeof_aiocb E + unat ?n - 2 ^ 64"
    using d(3,4) assms(3) by (simp add: unat_word_ariths unat_of_nat mod_if)
  then show ?thesis
    using assms(2,3) g d n by (simp add: aio_write_def submit_request_def Let_def)
qed

text \<open>
  C39. A list request ends, its busy wait included, at any point of such a session: with a list of entries whose
  sizes do not wrap around together with the control block, \<open>lio_listio\<close> returns 0 when every entry is
  null or asks for nothing, and otherwise -1, in both modes. It never waits, because no request gets a handle.
\<close>
theorem lio_listio_returns:
  assumes "aio_link E sl L" and "aio_head p = []" and "wf_utcb (aio_BR_WORDS E) (c_utcb p)"
    and "c_world p = (us, slab_new sl, w0)" and "wf_utcb (aio_BR_WORDS E) us" and "br0 us = 0"
    and "(aio_step E sl L)\<^sup>*\<^sup>* p p'" and "0 \<le> nent"
    and "\<forall>cb \<in> set (take (nat nent) cbs). cb = 0 \<or> sizeof_aiocb E + unat (cb_nbytes L (cb_at L cb p')) < 2 ^ 64"
  shows "\<exists>q. lio_listio L mode (Some cbs) nent p' =
      Some (if \<forall>cb \<in> set (take (nat nent) cbs). cb = 0 \<or> cb_lio_opcode L (cb_at L cb p') = c_LIO_NOP L then 0 else - 1, q)"
proof -
  have b: "barren E sl w0 p'"
    using aio_link.session_barren [OF assms(1,7)] fresh_barren [OF assms(1-6)] by blast
  show ?thesis
    using aio_link.listio_result [OF assms(1) b assms(9,8), of mode] unfolding aio_link.lio_idle_def [OF assms(1)] by blast
qed

theorem lio_listio_returns_witness:
  "\<exists>q. lio_listio demo_lib 0 (Some [4096, 0]) 2 demo_proc = Some (- 1, q)"
proof -
  have cb: "cb_lio_opcode demo_lib (cb_at demo_lib 4096 demo_proc) \<noteq> c_LIO_NOP demo_lib"
    unfolding demo_proc_cb by (simp add: demo_lib_def demo_cb_def le_bytes_def slice_def)
  have "\<forall>cb \<in> set (take (nat 2) [4096, 0]). cb = 0 \<or>
      sizeof_aiocb demo_aio + unat (cb_nbytes demo_lib (cb_at demo_lib cb demo_proc)) < 2 ^ 64"
    by (simp add: demo_proc_cb) (simp add: demo_aio_def demo_lib_def demo_cb_def le_bytes_def slice_def)
  from lio_listio_returns [OF demo_link.aio_link_axioms demo_proc_fresh rtranclp.rtrancl_refl _ this, of 0] cb
  show ?thesis
    by simp
qed

end
