(* ===== verification/Driver_Waits.thy ===== *)
theory Driver_Waits
  imports Ipc_Server
begin

text \<open>
  The thread of a service and how the virtio drivers wait on it. \<open>transfer\<close>
  (\<open>src/src/fs_server/src/virtio.rs\<close>), \<open>send_frame\<close> and \<open>receive_frame\<close>
  (\<open>src/src/net_server/src/virtio.rs\<close>) receive from the interrupt and then wait once more, for a
  message from anyone, on the thread and with the registers that also serve the clients. What the
  kernel does is a parameter; the contract states what the L4 interface documents.
\<close>

section \<open>The kernel interface of a thread\<close>

text \<open>A thread is its registers and the state the kernel keeps for it.\<close>

type_synonym 'k thread = "utcb \<times> 'k"

text \<open>\<open>l4_ipc_receive\<close> (from one object), \<open>l4_ipc_wait\<close> (from any sender) and \<open>l4_ipc_reply_and_wait\<close> (with the
  number of words of the reply tag), all without a timeout: the error of the returned tag and the thread
  afterwards. \<open>None\<close> is a wait that never ends.\<close>

record 'k ipc_env =
  ipc_receive :: "u64 \<Rightarrow> 'k thread \<Rightarrow> (u64 \<times> 'k thread) option"
  ipc_wait :: "'k thread \<Rightarrow> (u64 \<times> 'k thread) option"
  ipc_reply_and_wait :: "nat \<Rightarrow> 'k thread \<Rightarrow> (u64 \<times> 'k thread) option"

text \<open>The two waits of the drivers, whose results they ignore.\<close>

definition await_irq :: "'k ipc_env \<Rightarrow> u64 \<Rightarrow> 'k thread \<Rightarrow> 'k thread option" where
  "await_irq K irq t = do {
     (_, t) \<leftarrow> ipc_receive K irq t;
     (_, t) \<leftarrow> ipc_wait K t;
     Some t
   }"

primrec awaits :: "'k ipc_env \<Rightarrow> u64 \<Rightarrow> nat \<Rightarrow> 'k thread \<Rightarrow> 'k thread option" where
  "awaits K irq 0 t = Some t"
| "awaits K irq (Suc n) t = Option.bind (await_irq K irq t) (awaits K irq n)"

lemma awaits_add: "awaits K irq (m + n) t = Option.bind (awaits K irq m t) (awaits K irq n)"
  by (induction m arbitrary: t) (auto simp: bind_eq_Some_conv split: bind_splits)

lemma awaits_1: "awaits K irq (Suc 0) t = await_irq K irq t"
  by (cases "await_irq K irq t") simp_all

section \<open>The contract of the kernel\<close>

text \<open>The words of a message replace the first message registers of the receiver.\<close>

definition put_words :: "u64 list \<Rightarrow> utcb \<Rightarrow> utcb" where
  "put_words ms u = u\<lparr>utcb_mr := take (length (utcb_mr u)) ms @ drop (length ms) (utcb_mr u)\<rparr>"

lemma put_words_br [simp]: "utcb_br (put_words ms u) = utcb_br u" "length (utcb_mr (put_words ms u)) = length (utcb_mr u)"
  by (simp_all add: put_words_def)

lemma wf_put_words [simp]: "wf_utcb b (put_words ms u) = wf_utcb b u"
  by (simp add: wf_utcb_def)

lemma put_words_mr:
  "i < length ms \<Longrightarrow> i < length (utcb_mr u) \<Longrightarrow> get_mr (put_words ms u) i = ms ! i"
  by (simp add: get_mr_def put_words_def nth_append)

text \<open>What the messages of the first \<open>n + 1\<close> of a list of callers leave in the registers.\<close>

definition swallowed :: "nat \<Rightarrow> (nat \<times> u64 list) list \<Rightarrow> utcb \<Rightarrow> utcb" where
  "swallowed n cs u = fold put_words (map snd (take (Suc n) cs)) u"

lemma wf_swallowed [simp]: "wf_utcb b (swallowed n cs u) = wf_utcb b u"
proof -
  have "wf_utcb b (fold put_words ws u) = wf_utcb b u" for ws
    by (induction ws arbitrary: u) simp_all
  then show ?thesis
    by (simp add: swallowed_def)
qed

lemma length_swallowed: "length (utcb_mr (swallowed n cs u)) = length (utcb_mr u)"
proof -
  have "length (utcb_mr (fold put_words ws u)) = length (utcb_mr u)" for ws
    by (induction ws arbitrary: u) simp_all
  then show ?thesis
    by (simp add: swallowed_def)
qed

lemma swallowed_last:
  assumes "n < length cs" and "i < length (snd (cs ! n))" and "i < length (utcb_mr u)"
  shows "get_mr (swallowed n cs u) i = snd (cs ! n) ! i"
proof -
  have len: "length (utcb_mr (fold put_words ws u)) = length (utcb_mr u)" for ws
    by (induction ws arbitrary: u) simp_all
  have "swallowed n cs u = put_words (snd (cs ! n)) (fold put_words (map snd (take n cs)) u)"
    using assms(1) by (simp add: swallowed_def take_Suc_conv_app_nth)
  then show ?thesis
    using put_words_mr assms(2,3) len by simp
qed

text \<open>
  Callers that wait for the thread with their messages, in the order the kernel lets them in, the
  caller a reply goes to, and the replies sent so far. An interrupt arrives for every transfer; it
  carries no words and leaves the registers and the callers alone. A wait for any sender takes the first
  caller in, copies the words of its message over the message registers, and makes it the one that is
  answered; without a caller it never ends. A reply sends the words its tag counts to that caller and
  then waits.
\<close>

locale server_thread =
  fixes K :: "'k ipc_env" and pending :: "'k \<Rightarrow> (nat \<times> u64 list) list" and reply_to :: "'k \<Rightarrow> nat option"
    and sent :: "'k \<Rightarrow> (nat option \<times> u64 list) list"
  assumes receive_irq: "\<exists>k'. ipc_receive K irq (u, k) = Some (0, u, k') \<and> pending k' = pending k \<and> sent k' = sent k"
    and wait_next: "pending k = (c, ms) # cs \<Longrightarrow> \<exists>k'. ipc_wait K (u, k) = Some (0, put_words ms u, k') \<and>
      pending k' = cs \<and> reply_to k' = Some c \<and> sent k' = sent k"
    and wait_never: "pending k = [] \<Longrightarrow> ipc_wait K (u, k) = None"
    and reply_then_wait: "\<exists>k'. ipc_reply_and_wait K n (u, k) = ipc_wait K (u, k') \<and> pending k' = pending k \<and>
      sent k' = sent k @ [(reply_to k, take n (utcb_mr u))]"
begin

lemma await_next:
  assumes "pending k = (c, ms) # cs"
  shows "\<exists>k'. await_irq K irq (u, k) = Some (put_words ms u, k') \<and> pending k' = cs \<and> reply_to k' = Some c \<and> sent k' = sent k"
proof -
  obtain k1 where r: "ipc_receive K irq (u, k) = Some (0, u, k1)" and k1: "pending k1 = pending k" "sent k1 = sent k"
    using receive_irq by blast
  obtain k2 where "ipc_wait K (u, k1) = Some (0, put_words ms u, k2)" "pending k2 = cs" "reply_to k2 = Some c" "sent k2 = sent k1"
    using wait_next [of k1] k1(1) assms by metis
  then show ?thesis
    using r k1(2) by (simp add: await_irq_def)
qed

lemma await_blocks:
  assumes "pending k = []"
  shows "await_irq K irq (u, k) = None"
proof -
  obtain k1 where "ipc_receive K irq (u, k) = Some (0, u, k1)" "pending k1 = []"
    using receive_irq [of irq u k] assms by metis
  then show ?thesis
    by (simp add: await_irq_def wait_never)
qed

text \<open>Waiting \<open>n + 1\<close> times takes in as many callers: their words pile up in the registers, and only
  the last of them will be answered.\<close>

lemma awaits_take:
  "n < length (pending k) \<Longrightarrow> \<exists>k'. awaits K irq (Suc n) (u, k) =
     Some (swallowed n (pending k) u, k') \<and>
   pending k' = drop (Suc n) (pending k) \<and> reply_to k' = Some (fst (pending k ! n)) \<and> sent k' = sent k"
proof (induction n arbitrary: u k)
  case 0
  then obtain c ms cs where "pending k = (c, ms) # cs"
    by (cases "pending k") auto
  then show ?case
    using await_next [of k c ms cs irq u] by (auto simp: swallowed_def)
next
  case (Suc n)
  then obtain c ms cs where p: "pending k = (c, ms) # cs"
    by (cases "pending k") auto
  then obtain k1 where a: "await_irq K irq (u, k) = Some (put_words ms u, k1)" and k1: "pending k1 = cs" "sent k1 = sent k"
    using await_next [of k c ms cs irq u] by blast
  have "n < length (pending k1)"
    using Suc.prems p k1(1) by simp
  from Suc.IH [OF this, of "put_words ms u"] show ?case
    using a k1 p by (auto simp: swallowed_def)
qed

lemma awaits_block: "length (pending k) < n \<Longrightarrow> awaits K irq n (u, k) = None"
proof (induction n arbitrary: u k)
  case (Suc n)
  show ?case
  proof (cases "pending k")
    case Nil
    then show ?thesis
      by (simp add: await_blocks)
  next
    case (Cons m cs)
    then obtain k1 where "await_irq K irq (u, k) = Some (put_words (snd m) u, k1)" "pending k1 = cs"
      using await_next [of k "fst m" "snd m" cs irq u] by auto
    then show ?thesis
      using Suc Cons by simp
  qed
qed simp

end

text \<open>A kernel that keeps exactly what the contract speaks of.\<close>

type_synonym demo_kernel = "(nat \<times> u64 list) list \<times> nat option \<times> (nat option \<times> u64 list) list"

fun demo_wait :: "demo_kernel thread \<Rightarrow> (u64 \<times> demo_kernel thread) option" where
  "demo_wait (u, [], r, out) = None"
| "demo_wait (u, (c, ms) # cs, r, out) = Some (0, put_words ms u, cs, Some c, out)"

definition demo_thread :: "demo_kernel ipc_env" where
  "demo_thread = \<lparr>ipc_receive = (\<lambda>irq t. Some (0, t)), ipc_wait = demo_wait,
     ipc_reply_and_wait = (\<lambda>n (u, cs, r, out). demo_wait (u, cs, r, out @ [(r, take n (utcb_mr u))]))\<rparr>"

lemma demo_thread_simps [simp]:
  "ipc_wait demo_thread t = demo_wait t"
  "ipc_reply_and_wait demo_thread n (u, cs, r, out) = demo_wait (u, cs, r, out @ [(r, take n (utcb_mr u))])"
  "await_irq demo_thread irq t = map_option snd (demo_wait t)"
  by (auto simp: demo_thread_def await_irq_def split: bind_splits)

interpretation demo_thread: server_thread demo_thread fst "\<lambda>k. fst (snd k)" "\<lambda>k. snd (snd k)"
proof
  fix irq :: u64 and u :: utcb and k :: demo_kernel and c :: nat and ms :: "u64 list" and cs n
  obtain ps r out where k: "k = (ps, r, out)"
    by (cases k)
  show "\<exists>k'. ipc_receive demo_thread irq (u, k) = Some (0, u, k') \<and> fst k' = fst k \<and> snd (snd k') = snd (snd k)"
    by (simp add: demo_thread_def)
  show "fst k = (c, ms) # cs \<Longrightarrow> \<exists>k'. ipc_wait demo_thread (u, k) = Some (0, put_words ms u, k') \<and>
      fst k' = cs \<and> fst (snd k') = Some c \<and> snd (snd k') = snd (snd k)"
    by (simp add: demo_thread_def k)
  show "fst k = [] \<Longrightarrow> ipc_wait demo_thread (u, k) = None"
    by (simp add: demo_thread_def k)
  show "\<exists>k'. ipc_reply_and_wait demo_thread n (u, k) = ipc_wait demo_thread (u, k') \<and> fst k' = fst k \<and>
      snd (snd k') = snd (snd k) @ [(fst (snd k), take n (utcb_mr u))]"
    by (rule exI [of _ "(ps, r, out @ [(r, take n (utcb_mr u))])"]) (simp add: demo_thread_def k)
qed

end
