(* ===== verification/Virtio.thy ===== *)
theory Virtio
  imports Driver_Waits
begin

text \<open>
  The virtio drivers of the servers: \<open>src/src/fs_server/src/virtio.rs\<close> with the block driver and
  the byte stream \<open>VirtioDisk\<close> the file system layer mounts; the virtqueue is also that of
  \<open>src/src/net_server/src/virtio.rs\<close>. What a device does with memory between the submission of a
  descriptor chain and the return of the waits that follow it is a parameter; the waits themselves
  are those of theory \<open>Driver_Waits\<close>, on the thread of the server.
\<close>

section \<open>The virtqueue\<close>

definition QUEUE_SIZE :: nat where
  "QUEUE_SIZE = 8"

record virtq_desc =
  desc_addr :: u64
  desc_len :: u32
  desc_flags :: u16
  desc_next :: u16

record virtq_avail =
  avail_flags :: u16
  avail_idx :: u16
  avail_ring :: "u16 list"
  used_event :: u16

record virtq_used_elem =
  used_id :: u32
  used_len :: u32

record virtq_used =
  used_flags :: u16
  used_idx :: u16
  used_ring :: "virtq_used_elem list"
  avail_event :: u16

record virt_queue =
  vq_desc :: "virtq_desc list"
  vq_avail :: virtq_avail
  vq_used :: virtq_used

definition virt_queue_new :: virt_queue where
  "virt_queue_new = \<lparr>
     vq_desc = replicate QUEUE_SIZE \<lparr>desc_addr = 0, desc_len = 0, desc_flags = 0, desc_next = 0\<rparr>,
     vq_avail = \<lparr>avail_flags = 0, avail_idx = 0, avail_ring = replicate QUEUE_SIZE 0, used_event = 0\<rparr>,
     vq_used = \<lparr>used_flags = 0, used_idx = 0,
       used_ring = replicate QUEUE_SIZE \<lparr>used_id = 0, used_len = 0\<rparr>, avail_event = 0\<rparr>\<rparr>"

definition set_desc :: "nat \<Rightarrow> virtq_desc \<Rightarrow> virt_queue \<Rightarrow> virt_queue" where
  "set_desc i x q = q\<lparr>vq_desc := (vq_desc q)[i := x]\<rparr>"

text \<open>The chain that starts at descriptor 0 enters the available ring.\<close>

definition push_avail :: "virt_queue \<Rightarrow> virt_queue" where
  "push_avail q =
     (let a = vq_avail q; idx = unat (avail_idx a) mod QUEUE_SIZE
      in q\<lparr>vq_avail := a\<lparr>avail_ring := (avail_ring a)[idx := 0], avail_idx := avail_idx a + 1\<rparr>\<rparr>)"

section \<open>The block driver\<close>

record blk_req =
  req_type :: u32
  req_reserved :: u32
  req_sector :: u64

record virtio_blk =
  blk_device :: u64
  blk_irq :: u64
  blk_queue :: virt_queue

text \<open>Where the locals of \<open>transfer\<close> live, and what memory and device are like once the waits for
  the interrupt returned: the queue (the device writes the used ring), the data buffer and the
  status byte.\<close>

record 'd blk_env =
  hdr_at :: u64
  buf_at :: u64
  status_at :: u64
  blk_complete :: "u64 \<Rightarrow> virt_queue \<Rightarrow> blk_req \<Rightarrow> u8 list \<Rightarrow> u8 \<Rightarrow> 'd \<Rightarrow> virt_queue \<times> u8 list \<times> u8 \<times> 'd"

definition blk_new :: "(string \<Rightarrow> u64 option) \<Rightarrow> virtio_blk option" where
  "blk_new env_cap = do {
     device \<leftarrow> env_cap ''virtio_blk'';
     irq \<leftarrow> env_cap ''virtio_blk_irq'';
     Some \<lparr>blk_device = device, blk_irq = irq, blk_queue = virt_queue_new\<rparr>
   }"

definition blk_chain :: "'d blk_env \<Rightarrow> nat \<Rightarrow> bool \<Rightarrow> virt_queue \<Rightarrow> virt_queue" where
  "blk_chain B len rd q =
     (let q = set_desc 0 \<lparr>desc_addr = hdr_at B, desc_len = 16, desc_flags = 0x0002, desc_next = 1\<rparr> q;
          flags = (if rd then 0x0002 OR 0x0001 else 0x0002);
          q = set_desc 1 \<lparr>desc_addr = buf_at B, desc_len = word_of_nat len, desc_flags = flags,
                desc_next = 2\<rparr> q;
          q = set_desc 2 \<lparr>desc_addr = status_at B, desc_len = 1, desc_flags = 0x0001, desc_next = 0\<rparr> q
      in push_avail q)"

text \<open>\<open>None\<close> is a wait that never ends.\<close>

definition blk_transfer :: "'k ipc_env \<Rightarrow> 'd blk_env \<Rightarrow> virtio_blk \<Rightarrow> u64 \<Rightarrow> u8 list \<Rightarrow> bool \<Rightarrow> 'd \<Rightarrow> 'k thread
    \<Rightarrow> ((unit, unit) result \<times> virtio_blk \<times> u8 list \<times> 'd \<times> 'k thread) option" where
  "blk_transfer K B v sector buf rd d t =
     (let header = \<lparr>req_type = (if rd then 0 else 1), req_reserved = 0, req_sector = sector\<rparr>;
          q = blk_chain B (length buf) rd (blk_queue v);
          (q, buf, status, d) = blk_complete B (blk_device v) q header buf 0 d
      in do {
        t \<leftarrow> await_irq K (blk_irq v) t;
        Some (if status = 0 then Inr () else Inl (), v\<lparr>blk_queue := q\<rparr>, buf, d, t)
      })"

definition read_sector :: "'k ipc_env \<Rightarrow> 'd blk_env \<Rightarrow> virtio_blk \<Rightarrow> u64 \<Rightarrow> u8 list \<Rightarrow> 'd \<Rightarrow> 'k thread
    \<Rightarrow> ((unit, unit) result \<times> virtio_blk \<times> u8 list \<times> 'd \<times> 'k thread) option" where
  "read_sector K B v sector buf d t = blk_transfer K B v sector buf True d t"

definition write_sector :: "'k ipc_env \<Rightarrow> 'd blk_env \<Rightarrow> virtio_blk \<Rightarrow> u64 \<Rightarrow> u8 list \<Rightarrow> 'd \<Rightarrow> 'k thread
    \<Rightarrow> ((unit, unit) result \<times> virtio_blk \<times> 'd \<times> 'k thread) option" where
  "write_sector K B v sector buf d t = do {
     (r, v, tmp, d, t) \<leftarrow> blk_transfer K B v sector buf False d t;
     Some (r, v, d, t)
   }"

section \<open>The byte stream\<close>

record virtio_disk =
  disk_driver :: virtio_blk
  disk_pos :: u64
  sector_size :: nat

datatype io_error = IoOther | IoUnsupported | IoInvalidInput

datatype seek_from = SeekStart u64 | SeekCurrent i64 | SeekEnd i64

definition disk_new :: "(string \<Rightarrow> u64 option) \<Rightarrow> virtio_disk option" where
  "disk_new env_cap = do {
     driver \<leftarrow> blk_new env_cap;
     Some \<lparr>disk_driver = driver, disk_pos = 0, sector_size = 512\<rparr>
   }"

text \<open>Every round of the transfer loops handles at least one byte.\<close>

lemma chunk_pos: "0 < s \<Longrightarrow> n < len \<Longrightarrow> 0 < min (s - p mod s) (len - n :: nat)"
  using mod_less_divisor [of s p] by simp

lemma chunk_progress: "0 < s \<Longrightarrow> n < len \<Longrightarrow> len - (n + min (s - p mod s) (len - n)) < len - (n :: nat)"
  using chunk_pos [of s n len p] by linarith

lemma chunk_progress_slice:
  "0 < s \<Longrightarrow> n < len \<Longrightarrow> \<not> L < p mod s + min (s - p mod s) (len - n) \<Longrightarrow>
   len - (n + min (min (s - p mod s) (len - n)) (L - p mod s)) < len - (n :: nat)"
  using chunk_progress [of s n len p] min_absorb1 [of "min (s - p mod s) (len - n)" "L - p mod s"]
  by fastforce

text \<open>\<open>Read::read\<close> for a buffer of \<open>len\<close> bytes; \<open>acc\<close> is its part filled so far. \<open>None\<close> is a wait that never
  ends or a panic: a division by zero, a slice out of range, or an overflow when the build checks
  for it.\<close>

function disk_read_loop :: "bool \<Rightarrow> 'k ipc_env \<Rightarrow> 'd blk_env \<Rightarrow> nat \<Rightarrow> u8 list \<Rightarrow> virtio_disk \<Rightarrow> 'd \<Rightarrow> 'k thread
    \<Rightarrow> ((io_error, nat) result \<times> u8 list \<times> virtio_disk \<times> 'd \<times> 'k thread) option" where
  "disk_read_loop oc K B len acc v d t =
     (if length acc < len then
        if sector_size v = 0 then None
        else
          let sector = disk_pos v div word_of_nat (sector_size v);
              offset = unat (disk_pos v) mod sector_size v
          in do {
            (r, driver, blk, d, t) \<leftarrow> read_sector K B (disk_driver v) sector (replicate 512 0) d t;
            let v' = v\<lparr>disk_driver := driver\<rparr>;
                count = min (sector_size v - offset) (len - length acc)
            in (case r of
                  Inl _ \<Rightarrow> Some (Inl IoOther, acc, v', d, t)
                | Inr _ \<Rightarrow>
                    if length blk < offset + count then None
                    else do {
                      pos \<leftarrow> op_add oc (disk_pos v) (word_of_nat count);
                      disk_read_loop oc K B len (acc @ slice blk offset count) (v'\<lparr>disk_pos := pos\<rparr>) d t
                    })
          }
      else Some (Inr (length acc), acc, v, d, t))"
  by pat_completeness auto
termination
  by (relation "measure (\<lambda>(oc, K, B, len, acc, v, d, t). len - length acc)") (auto intro!: chunk_progress_slice)

declare disk_read_loop.simps [simp del]

definition disk_read :: "bool \<Rightarrow> 'k ipc_env \<Rightarrow> 'd blk_env \<Rightarrow> nat \<Rightarrow> virtio_disk \<Rightarrow> 'd \<Rightarrow> 'k thread
    \<Rightarrow> ((io_error, nat) result \<times> u8 list \<times> virtio_disk \<times> 'd \<times> 'k thread) option" where
  "disk_read oc K B len v d t = disk_read_loop oc K B len [] v d t"

function disk_write_loop :: "bool \<Rightarrow> 'k ipc_env \<Rightarrow> 'd blk_env \<Rightarrow> u8 list \<Rightarrow> nat \<Rightarrow> virtio_disk \<Rightarrow> 'd \<Rightarrow> 'k thread
    \<Rightarrow> ((io_error, nat) result \<times> virtio_disk \<times> 'd \<times> 'k thread) option" where
  "disk_write_loop oc K B buf n v d t =
     (if n < length buf then
        if sector_size v = 0 then None
        else
          let sector = disk_pos v div word_of_nat (sector_size v);
              offset = unat (disk_pos v) mod sector_size v
          in do {
            (r, driver, blk, d, t) \<leftarrow>
              (if offset \<noteq> 0 \<or> length buf - n < sector_size v
               then read_sector K B (disk_driver v) sector (replicate 512 0) d t
               else Some (Inr (), disk_driver v, replicate 512 0, d, t));
            let v' = v\<lparr>disk_driver := driver\<rparr>;
                count = min (sector_size v - offset) (length buf - n)
            in (case r of
                  Inl _ \<Rightarrow> Some (Inl IoOther, v', d, t)
                | Inr _ \<Rightarrow>
                    if length blk < offset + count then None
                    else do {
                      (r, driver, d, t) \<leftarrow> write_sector K B driver sector (overwrite blk offset (slice buf n count)) d t;
                      let v' = v\<lparr>disk_driver := driver\<rparr>
                      in (case r of
                            Inl _ \<Rightarrow> Some (Inl IoOther, v', d, t)
                          | Inr _ \<Rightarrow> do {
                              pos \<leftarrow> op_add oc (disk_pos v) (word_of_nat count);
                              disk_write_loop oc K B buf (n + count) (v'\<lparr>disk_pos := pos\<rparr>) d t
                            })
                    })
          }
      else Some (Inr n, v, d, t))"
  by pat_completeness auto
termination
  by (relation "measure (\<lambda>(oc, K, B, buf, n, v, d, t). length buf - n)") (auto simp: chunk_progress)

declare disk_write_loop.simps [simp del]

definition disk_write :: "bool \<Rightarrow> 'k ipc_env \<Rightarrow> 'd blk_env \<Rightarrow> u8 list \<Rightarrow> virtio_disk \<Rightarrow> 'd \<Rightarrow> 'k thread
    \<Rightarrow> ((io_error, nat) result \<times> virtio_disk \<times> 'd \<times> 'k thread) option" where
  "disk_write oc K B buf v d t = disk_write_loop oc K B buf 0 v d t"

definition disk_flush :: "virtio_disk \<Rightarrow> (io_error, unit) result" where
  "disk_flush v = Inr ()"

text \<open>\<open>Seek::seek\<close>; the sum of two \<open>i64\<close> panics on overflow when the build checks for it.\<close>

definition disk_seek :: "bool \<Rightarrow> seek_from \<Rightarrow> virtio_disk \<Rightarrow> ((io_error, u64) result \<times> virtio_disk) option" where
  "disk_seek oc p v =
     (let settle = (\<lambda>new. if sint new < 0 then (Inl IoInvalidInput, v)
                           else (Inr new, v\<lparr>disk_pos := new\<rparr>))
      in case p of
           SeekStart off \<Rightarrow> Some (settle off)
         | SeekCurrent off \<Rightarrow>
             if oc \<and> sint (disk_pos v + off) \<noteq> sint (disk_pos v) + sint off then None
             else Some (settle (disk_pos v + off))
         | SeekEnd _ \<Rightarrow> Some (Inl IoUnsupported, v))"

section \<open>The contract of a block device\<close>

text \<open>
  The chain a device finds: descriptor 0 in the newest entry of the available ring, header, data
  and status linked in this order with their sizes, and marked as written by the device or not. Which
  bits of the flags mark a link and a part the device writes is a parameter: the driver writes 2
  for a link and 1 for a part the device writes, as its comments say; in the virtio specification it is the
  other way round.
\<close>

type_synonym desc_bits = "u16 \<times> u16"

definition driver_bits :: desc_bits where "driver_bits = (2, 1)"
definition virtio_bits :: desc_bits where "virtio_bits = (1, 2)"

definition desc_is :: "desc_bits \<Rightarrow> u64 \<Rightarrow> u32 \<Rightarrow> bool \<Rightarrow> u16 option \<Rightarrow> virtq_desc \<Rightarrow> bool" where
  "desc_is F a len written link x \<longleftrightarrow> desc_addr x = a \<and> desc_len x = len \<and> (desc_flags x AND snd F \<noteq> 0 \<longleftrightarrow> written) \<and>
     (case link of None \<Rightarrow> desc_flags x AND fst F = 0 | Some i \<Rightarrow> desc_flags x AND fst F \<noteq> 0 \<and> desc_next x = i)"

definition blk_chain_ok :: "desc_bits \<Rightarrow> 'd blk_env \<Rightarrow> nat \<Rightarrow> bool \<Rightarrow> virt_queue \<Rightarrow> bool" where
  "blk_chain_ok F B len rd q \<longleftrightarrow>
     avail_ring (vq_avail q) ! (unat (avail_idx (vq_avail q) - 1) mod QUEUE_SIZE) = 0 \<and>
     desc_is F (hdr_at B) 16 False (Some 1) (vq_desc q ! 0) \<and>
     desc_is F (buf_at B) (word_of_nat len) rd (Some 2) (vq_desc q ! 1) \<and>
     desc_is F (status_at B) 1 True None (vq_desc q ! 2)"

definition queue_wf :: "virt_queue \<Rightarrow> bool" where
  "queue_wf q \<longleftrightarrow> length (vq_desc q) = QUEUE_SIZE \<and> length (avail_ring (vq_avail q)) = QUEUE_SIZE"

lemma queue_wf_new [simp]: "queue_wf virt_queue_new"
  by (simp add: queue_wf_def virt_queue_new_def)

lemma blk_chain_descs:
  assumes "queue_wf q"
  shows "vq_desc (blk_chain B len rd q) ! 0 = \<lparr>desc_addr = hdr_at B, desc_len = 16, desc_flags = 2, desc_next = 1\<rparr>"
    and "vq_desc (blk_chain B len rd q) ! 1 =
      \<lparr>desc_addr = buf_at B, desc_len = word_of_nat len, desc_flags = (if rd then 3 else 2), desc_next = 2\<rparr>"
    and "vq_desc (blk_chain B len rd q) ! 2 = \<lparr>desc_addr = status_at B, desc_len = 1, desc_flags = 1, desc_next = 0\<rparr>"
    and "queue_wf (blk_chain B len rd q)"
    and "avail_ring (vq_avail (blk_chain B len rd q)) !
      (unat (avail_idx (vq_avail (blk_chain B len rd q)) - 1) mod QUEUE_SIZE) = 0"
  using assms
  by (simp_all add: queue_wf_def blk_chain_def set_desc_def push_avail_def Let_def QUEUE_SIZE_def)

lemma blk_chain_ok: "queue_wf q \<Longrightarrow> blk_chain_ok driver_bits B len rd (blk_chain B len rd q)"
  unfolding blk_chain_ok_def by (simp only: blk_chain_descs) (simp add: desc_is_def driver_bits_def)

text \<open>To a device that follows the specification the chain is broken: its first descriptor is not linked to the
  second, and is marked for writing although it holds the request.\<close>

lemma blk_chain_broken: "queue_wf q \<Longrightarrow> \<not> blk_chain_ok virtio_bits B len rd (blk_chain B len rd q)"
  by (simp add: blk_chain_ok_def blk_chain_descs desc_is_def virtio_bits_def)

text \<open>
  A block device of \<open>cap\<close> sectors of 512 bytes that reads the flags with the bits \<open>F\<close> and looks at the
  available ring by itself, as the driver never notifies it. Given a well-formed chain, a read
  request for one of its sectors fills the buffer with the sector and a write request replaces it;
  the status byte says so; a request beyond the last sector gets another status and changes no
  sector. The device leaves the driver's part of the queue alone.
\<close>

locale blk_store =
  fixes F :: desc_bits and B :: "'d blk_env" and disk :: "'d \<Rightarrow> u64 \<Rightarrow> u8 list" and cap :: nat
  assumes disk_sector: "length (disk d s) = 512"
    and complete_read: "queue_wf q \<Longrightarrow> blk_chain_ok F B 512 True q \<Longrightarrow> req_type h = 0 \<Longrightarrow> length buf = 512 \<Longrightarrow>
      blk_complete B c q h buf st d = (q', buf', st', d') \<Longrightarrow> unat (req_sector h) < cap \<Longrightarrow>
      queue_wf q' \<and> buf' = disk d (req_sector h) \<and> st' = 0 \<and> disk d' = disk d"
    and complete_write: "queue_wf q \<Longrightarrow> blk_chain_ok F B 512 False q \<Longrightarrow> req_type h = 1 \<Longrightarrow> length buf = 512 \<Longrightarrow>
      blk_complete B c q h buf st d = (q', buf', st', d') \<Longrightarrow> unat (req_sector h) < cap \<Longrightarrow>
      queue_wf q' \<and> st' = 0 \<and> disk d' = (disk d)(req_sector h := buf)"
    and complete_beyond: "queue_wf q \<Longrightarrow> blk_chain_ok F B 512 rd q \<Longrightarrow> req_type h = (if rd then 0 else 1) \<Longrightarrow>
      length buf = 512 \<Longrightarrow> blk_complete B c q h buf st d = (q', buf', st', d') \<Longrightarrow> cap \<le> unat (req_sector h) \<Longrightarrow>
      queue_wf q' \<and> st' \<noteq> 0 \<and> disk d' = disk d"

text \<open>The numbers of sector transfers a read and a write take; a sector that is only partly written is
  read first.\<close>

definition sectors :: "nat \<Rightarrow> nat \<Rightarrow> nat" where
  "sectors p len = (if len = 0 then 0 else Suc ((p + len - 1) div 512 - p div 512))"

function write_transfers :: "nat \<Rightarrow> nat \<Rightarrow> nat" where
  "write_transfers p len =
     (if len = 0 then 0
      else let c = min (512 - p mod 512) len
           in (if p mod 512 \<noteq> 0 \<or> len < 512 then 2 else 1) + write_transfers (p + c) (len - c))"
  by pat_completeness auto
termination
  by (relation "measure snd") auto

declare write_transfers.simps [simp del]

lemma sectors_step:
  assumes "0 < len"
  shows "sectors p len = Suc (sectors (p + min (512 - p mod 512) len) (len - min (512 - p mod 512) len))"
proof (cases "len \<le> 512 - p mod 512")
  case True
  have "p mod 512 + (len - 1) < 512"
    using True assms mod_less_divisor [of 512 p] by linarith
  then have "(p + (len - 1)) div 512 = p div 512"
    using div_add1_eq [of p "len - 1" 512] by simp
  then show ?thesis
    using True assms by (simp add: sectors_def min_def)
next
  case False
  let ?c = "512 - p mod 512"
  have "(p + ?c) = 512 * (p div 512 + 1)"
    using mult_div_mod_eq [of 512 p] mod_less_divisor [of 512 p] unfolding distrib_left by linarith
  then have c: "(p + ?c) div 512 = Suc (p div 512)"
    by simp
  have "(p + ?c) div 512 \<le> (p + len - 1) div 512"
    using False by (intro div_le_mono) linarith
  moreover have "p + ?c + (len - ?c) - 1 = p + len - 1"
    using False by linarith
  moreover have "min ?c len = ?c" "len - ?c \<noteq> 0"
    using False by linarith+
  ultimately show ?thesis
    using assms c by (simp only: sectors_def if_False) (simp add: Suc_diff_Suc)
qed

lemma sector_word: "pos div 512 = word_of_nat (unat (pos :: u64) div 512)"
  using word_arith_nat_div [of pos 512] by simp

lemma sector_in_cap: "unat pos < 512 * cap \<Longrightarrow> unat (pos div 512 :: u64) < cap"
  using unat_div_distrib [of pos 512] by (simp add: less_mult_imp_div_less mult.commute)

text \<open>One round of the write loop, as its transfers turn out.\<close>

lemma write_round:
  assumes "n < length buf" and "sector_size v = 512"
    and part: "part \<longleftrightarrow> unat (disk_pos v) mod 512 \<noteq> 0 \<or> length buf - n < 512"
    and c: "c = min (512 - unat (disk_pos v) mod 512) (length buf - n)"
    and rs: "\<And>t. (if part then read_sector K B (disk_driver v) (disk_pos v div 512) (replicate 512 0) d t
        else Some (Inr (), disk_driver v, replicate 512 0, d, t)) =
        map_option (\<lambda>t. (Inr (), drv, blk, d1, t)) (awaits K irq (if part then 1 else 0) t)"
    and "unat (disk_pos v) mod 512 + c \<le> length blk"
    and ws: "\<And>t. write_sector K B drv (disk_pos v div 512) (overwrite blk (unat (disk_pos v) mod 512) (slice buf n c)) d1 t =
        map_option (\<lambda>t. (Inr (), drv2, d2, t)) (await_irq K irq t)"
    and "op_add oc (disk_pos v) (word_of_nat c) = Some pos"
  shows "disk_write_loop oc K B buf n v d t = Option.bind (awaits K irq (if part then 2 else 1) t)
    (disk_write_loop oc K B buf (n + c) (v\<lparr>disk_driver := drv2, disk_pos := pos\<rparr>) d2)"
proof -
  have "disk_write_loop oc K B buf n v d t = Option.bind (awaits K irq (if part then 1 else 0) t) (\<lambda>t.
      Option.bind (await_irq K irq t) (disk_write_loop oc K B buf (n + c) (v\<lparr>disk_driver := drv2, disk_pos := pos\<rparr>) d2))"
    apply (subst disk_write_loop.simps)
    unfolding Let_def assms(2) of_nat_numeral part [symmetric] c [symmetric] rs bind_map_option
    using assms(1,6,8) by (simp add: comp_def ws bind_map_option del: awaits.simps)
  also have "\<dots> = Option.bind (awaits K irq ((if part then 1 else 0) + 1) t)
      (disk_write_loop oc K B buf (n + c) (v\<lparr>disk_driver := drv2, disk_pos := pos\<rparr>) d2)"
    by (simp only: awaits_add One_nat_def awaits_1 [abs_def] bind_assoc)
  finally show ?thesis
    by (simp add: numeral_2_eq_2 split: if_splits)
qed

text \<open>A device that reads the flags as the driver writes them.\<close>

locale blk_disk = blk_store driver_bits B disk cap
  for B :: "'d blk_env" and disk :: "'d \<Rightarrow> u64 \<Rightarrow> u8 list" and cap :: nat
begin

text \<open>The device as one array of bytes.\<close>

definition image :: "'d \<Rightarrow> nat \<Rightarrow> u8" where
  "image d p = disk d (word_of_nat (p div 512)) ! (p mod 512)"

definition drv_ok :: "virtio_blk \<Rightarrow> bool" where
  "drv_ok v \<longleftrightarrow> queue_wf (blk_queue v)"

lemma read_sector_ok:
  assumes "drv_ok v" and "length buf = 512" and "unat s < cap"
  obtains v' d' where "\<And>t. read_sector K B v s buf d t = map_option (\<lambda>t. (Inr (), v', disk d s, d', t)) (await_irq K (blk_irq v) t)"
    "drv_ok v'" "blk_irq v' = blk_irq v" "disk d' = disk d"
proof -
  let ?h = "\<lparr>req_type = 0, req_reserved = 0, req_sector = s\<rparr>"
  let ?q = "blk_chain B 512 True (blk_queue v)"
  obtain q' buf' st' d' where c: "blk_complete B (blk_device v) ?q ?h buf 0 d = (q', buf', st', d')"
    by (metis prod_cases4)
  have "queue_wf q' \<and> buf' = disk d (req_sector ?h) \<and> st' = 0 \<and> disk d' = disk d"
    using complete_read [OF _ _ _ assms(2) c] blk_chain_ok [of "blk_queue v" B 512 True] blk_chain_descs(4) [of "blk_queue v" B 512] assms(1,3)
    by (simp add: drv_ok_def)
  then show thesis
    using c assms(2) that [of "v\<lparr>blk_queue := q'\<rparr>" d']
    by (simp add: read_sector_def blk_transfer_def drv_ok_def map_conv_bind_option comp_def)
qed

lemma write_sector_ok:
  assumes "drv_ok v" and "length buf = 512" and "unat s < cap"
  obtains v' d' where "\<And>t. write_sector K B v s buf d t = map_option (\<lambda>t. (Inr (), v', d', t)) (await_irq K (blk_irq v) t)"
    "drv_ok v'" "blk_irq v' = blk_irq v" "disk d' = (disk d)(s := buf)"
proof -
  let ?h = "\<lparr>req_type = 1, req_reserved = 0, req_sector = s\<rparr>"
  let ?q = "blk_chain B 512 False (blk_queue v)"
  obtain q' buf' st' d' where c: "blk_complete B (blk_device v) ?q ?h buf 0 d = (q', buf', st', d')"
    by (metis prod_cases4)
  have "queue_wf q' \<and> st' = 0 \<and> disk d' = (disk d)(req_sector ?h := buf)"
    using complete_write [OF _ _ _ assms(2) c] blk_chain_ok [of "blk_queue v" B 512 False] blk_chain_descs(4) [of "blk_queue v" B 512] assms(1,3)
    by (simp add: drv_ok_def)
  then show thesis
    using c assms(2) that [of "v\<lparr>blk_queue := q'\<rparr>" d']
    by (simp add: write_sector_def blk_transfer_def drv_ok_def map_conv_bind_option comp_def)
qed

text \<open>A transfer beyond the last sector fails, and nothing else changes.\<close>

lemma transfer_beyond:
  assumes "drv_ok v" and "length buf = 512" and "cap \<le> unat s"
  obtains v' buf' d' where
    "\<And>t. blk_transfer K B v s buf rd d t = map_option (\<lambda>t. (Inl (), v', buf', d', t)) (await_irq K (blk_irq v) t)"
    "drv_ok v'" "disk d' = disk d"
proof -
  let ?h = "\<lparr>req_type = (if rd then 0 else 1), req_reserved = 0, req_sector = s\<rparr>"
  let ?q = "blk_chain B 512 rd (blk_queue v)"
  obtain q' buf' st' d' where c: "blk_complete B (blk_device v) ?q ?h buf 0 d = (q', buf', st', d')"
    by (metis prod_cases4)
  have "queue_wf q' \<and> st' \<noteq> 0 \<and> disk d' = disk d"
    using complete_beyond [OF _ _ _ assms(2) c] blk_chain_ok [of "blk_queue v" B 512 rd] blk_chain_descs(4) [of "blk_queue v" B 512] assms(1,3)
    by (simp add: drv_ok_def)
  then show thesis
    using c assms(2) that [of "v\<lparr>blk_queue := q'\<rparr>" buf' d']
    by (simp add: blk_transfer_def drv_ok_def map_conv_bind_option comp_def)
qed

text \<open>A run of bytes inside one sector.\<close>

lemma slice_sector:
  assumes "p mod 512 + n \<le> 512"
  shows "slice (disk d (word_of_nat (p div 512))) (p mod 512) n = map (image d) [p ..< p + n]"
proof (rule nth_equalityI)
  show "length (slice (disk d (word_of_nat (p div 512))) (p mod 512) n) = length (map (image d) [p ..< p + n])"
    using assms disk_sector by simp
  fix i
  assume "i < length (slice (disk d (word_of_nat (p div 512))) (p mod 512) n)"
  then have i: "i < n"
    using assms disk_sector by simp
  have lt: "p mod 512 + i < 512"
    using assms i by simp
  have "(p + i) div 512 = p div 512"
    using div_add1_eq [of p i 512] lt by simp
  moreover have "(p + i) mod 512 = p mod 512 + i"
    using lt by (metis mod_add_left_eq mod_less)
  ultimately show "slice (disk d (word_of_nat (p div 512))) (p mod 512) n ! i = map (image d) [p ..< p + n] ! i"
    using i assms disk_sector by (simp add: slice_def image_def)
qed


text \<open>Reading: the loop appends the bytes from the position on, after one wait for each of their
  sectors.\<close>

lemma read_loop_ok:
  assumes "drv_ok (disk_driver v)" and "sector_size v = 512" and "blk_irq (disk_driver v) = irq"
    and "unat (disk_pos v) + (len - length acc) < 2 ^ 64" and "unat (disk_pos v) + (len - length acc) \<le> 512 * cap"
  shows "\<exists>v' d'. (\<forall>t. disk_read_loop oc K B len acc v d t = map_option (\<lambda>t. (Inr (max len (length acc)),
        acc @ map (image d) [unat (disk_pos v) ..< unat (disk_pos v) + (len - length acc)], v', d', t))
      (awaits K irq (sectors (unat (disk_pos v)) (len - length acc)) t)) \<and>
    drv_ok (disk_driver v') \<and> sector_size v' = 512 \<and> blk_irq (disk_driver v') = irq \<and> disk d' = disk d \<and>
    unat (disk_pos v') = unat (disk_pos v) + (len - length acc)"
  using assms
proof (induction "len - length acc" arbitrary: acc v d rule: less_induct)
  case less
  show ?case
  proof (cases "length acc < len")
    case False
    then show ?thesis
      using less.prems by (simp add: disk_read_loop.simps sectors_def)
  next
    case True
    let ?p = "unat (disk_pos v)" and ?s = "disk_pos v div 512"
    define n where "n = min (512 - ?p mod 512) (len - length acc)"
    have n: "0 < n" "?p mod 512 + n \<le> 512" "n \<le> len - length acc"
      using True by (simp_all add: n_def)
    have s: "?s = word_of_nat (?p div 512)" and "unat ?s < cap"
      using sector_word [of "disk_pos v"] sector_in_cap [of "disk_pos v"] less.prems(5) n(1,3) by auto
    then obtain drv d1 where rs: "\<And>t. read_sector K B (disk_driver v) ?s (replicate 512 0) d t =
        map_option (\<lambda>t. (Inr (), drv, disk d ?s, d1, t)) (await_irq K irq t)"
      and drv: "drv_ok drv" "blk_irq drv = irq" "disk d1 = disk d"
      using read_sector_ok [OF less.prems(1), of "replicate 512 0" ?s K d] less.prems(3) by auto
    have img: "image d1 = image d"
      using drv(3) by (simp add: image_def fun_eq_iff)
    have chunk: "slice (disk d ?s) (?p mod 512) n = map (image d) [?p ..< ?p + n]"
      unfolding s by (rule slice_sector) (rule n(2))
    have "?p + n < 2 ^ 64"
      using less.prems(4) n(3) by linarith
    then have add: "op_add oc (disk_pos v) (word_of_nat n) = Some (disk_pos v + word_of_nat n)"
      and pos: "unat (disk_pos v + word_of_nat n) = ?p + n"
      by (simp_all add: op_add_def unat_word_ariths unat_of_nat)
    let ?v = "v\<lparr>disk_driver := drv, disk_pos := disk_pos v + word_of_nat n\<rparr>"
    let ?acc = "acc @ map (image d) [?p ..< ?p + n]"
    have step: "disk_read_loop oc K B len acc v d t =
        Option.bind (await_irq K irq t) (disk_read_loop oc K B len ?acc ?v d1)" for t
      using True less.prems(2) rs add chunk n(2) disk_sector [of d ?s]
      by (subst disk_read_loop.simps) (cases "await_irq K irq t"; simp add: Let_def flip: n_def)
    have rest: "len - length ?acc = len - length acc - n"
      by simp
    have "len - length ?acc < len - length acc"
      using n rest by simp
    moreover have "unat (disk_pos ?v) + (len - length ?acc) < 2 ^ 64" "unat (disk_pos ?v) + (len - length ?acc) \<le> 512 * cap"
      using less.prems(4,5) pos n(3) rest by simp_all
    ultimately obtain v' d' where IH: "\<And>t. disk_read_loop oc K B len ?acc ?v d1 t = map_option (\<lambda>t. (Inr (max len (length ?acc)),
        ?acc @ map (image d1) [unat (disk_pos ?v) ..< unat (disk_pos ?v) + (len - length ?acc)], v', d', t))
        (awaits K irq (sectors (unat (disk_pos ?v)) (len - length ?acc)) t)"
      "drv_ok (disk_driver v')" "sector_size v' = 512" "blk_irq (disk_driver v') = irq" "disk d' = disk d1"
      "unat (disk_pos v') = unat (disk_pos ?v) + (len - length ?acc)"
      using less.hyps [of ?acc ?v d1] drv(1,2) less.prems(2) by auto
    obtain k where "len - length acc = n + k"
      using n(3) le_Suc_ex by blast
    then have upt: "[?p ..< ?p + (len - length acc)] = [?p ..< ?p + n] @ [?p + n ..< ?p + (len - length acc)]"
      using upt_add_eq_append [of ?p "?p + n" k] by (simp add: add.assoc)
    have len: "max len (length ?acc) = max len (length acc)"
      "unat (disk_pos ?v) + (len - length ?acc) = ?p + (len - length acc)"
      using n(3) True pos rest by simp_all
    have "sectors ?p (len - length acc) = Suc (sectors (unat (disk_pos ?v)) (len - length ?acc))"
      using sectors_step [of "len - length acc" ?p] True pos rest by (simp flip: n_def)
    then have "disk_read_loop oc K B len acc v d t = map_option (\<lambda>t. (Inr (max len (length acc)),
        acc @ map (image d) [?p ..< ?p + (len - length acc)], v', d', t)) (awaits K irq (sectors ?p (len - length acc)) t)" for t
      using step [of t] IH(1) upt len img pos by (cases "await_irq K irq t") (simp_all add: add.assoc)
    then show ?thesis
      using IH(2-6) len(2) drv(3) by metis
  qed
qed


text \<open>A sector rewritten in place.\<close>

lemma image_write:
  assumes "disk d' = (disk d)(word_of_nat (p div 512) := overwrite (disk d (word_of_nat (p div 512))) (p mod 512) bs)"
    and "p mod 512 + length bs \<le> 512" and "p < 2 ^ 64" and "x < 2 ^ 64"
  shows "image d' x = (if p \<le> x \<and> x < p + length bs then bs ! (x - p) else image d x)"
proof (cases "x div 512 = p div 512")
  case False
  have "word_of_nat (x div 512) \<noteq> (word_of_nat (p div 512) :: u64)"
  proof
    assume "word_of_nat (x div 512) = (word_of_nat (p div 512) :: u64)"
    then have "unat (word_of_nat (x div 512) :: u64) = unat (word_of_nat (p div 512) :: u64)"
      by simp
    moreover have "x div 512 < 2 ^ 64" "p div 512 < 2 ^ 64"
      using assms(3,4) by simp_all
    ultimately show False
      using False by (simp add: unat_of_nat)
  qed
  moreover have "\<not> (p \<le> x \<and> x < p + length bs)"
  proof
    assume "p \<le> x \<and> x < p + length bs"
    then obtain k where k: "x = p + k" "k < length bs"
      by (metis le_add_diff_inverse nat_add_left_cancel_less)
    then show False
      using div_add1_eq [of p k 512] assms(2) False by simp
  qed
  ultimately show ?thesis
    using assms(1) by (auto simp: image_def)
next
  case True
  have x: "x = 512 * (p div 512) + x mod 512" and p: "p = 512 * (p div 512) + p mod 512"
    using True mult_div_mod_eq [of 512 x] by simp_all
  have rng: "(p mod 512 \<le> x mod 512 \<and> x mod 512 < p mod 512 + length bs) \<longleftrightarrow> (p \<le> x \<and> x < p + length bs)"
    using x p by linarith
  have diff: "x mod 512 - p mod 512 = x - p"
    using x p by linarith
  have "image d' x = overwrite (disk d (word_of_nat (p div 512))) (p mod 512) bs ! (x mod 512)"
    using assms(1) True by (simp add: image_def)
  also have "\<dots> = (if p \<le> x \<and> x < p + length bs then bs ! (x - p) else image d x)"
    using nth_overwrite [of "p mod 512" bs "disk d (word_of_nat (p div 512))" "x mod 512"] assms(2)
      disk_sector rng diff True by (simp add: image_def)
  finally show ?thesis .
qed

text \<open>Writing: the loop replaces exactly the bytes from the position on, after one wait for each
  transfer.\<close>

lemma write_loop_ok:
  assumes "drv_ok (disk_driver v)" and "sector_size v = 512" and "blk_irq (disk_driver v) = irq" and "n \<le> length buf"
    and "unat (disk_pos v) + (length buf - n) < 2 ^ 64" and "unat (disk_pos v) + (length buf - n) \<le> 512 * cap"
  shows "\<exists>v' d'. (\<forall>t. disk_write_loop oc K B buf n v d t = map_option (\<lambda>t. (Inr (length buf), v', d', t))
      (awaits K irq (write_transfers (unat (disk_pos v)) (length buf - n)) t)) \<and>
    drv_ok (disk_driver v') \<and> sector_size v' = 512 \<and> blk_irq (disk_driver v') = irq \<and>
    unat (disk_pos v') = unat (disk_pos v) + (length buf - n) \<and>
    (\<forall>x < 2 ^ 64. image d' x = (if unat (disk_pos v) \<le> x \<and> x < unat (disk_pos v) + (length buf - n)
       then buf ! (n + (x - unat (disk_pos v))) else image d x))"
  using assms
proof (induction "length buf - n" arbitrary: n v d rule: less_induct)
  case less
  show ?case
  proof (cases "n < length buf")
    case False
    then show ?thesis
      using less.prems by (auto simp: disk_write_loop.simps write_transfers.simps)
  next
    case True
    let ?p = "unat (disk_pos v)" and ?s = "disk_pos v div 512" and ?z = "replicate 512 (0 :: u8)"
    define c where "c = min (512 - ?p mod 512) (length buf - n)"
    have c: "0 < c" "?p mod 512 + c \<le> 512" "c \<le> length buf - n"
      using True by (simp_all add: c_def)
    have s: "?s = word_of_nat (?p div 512)" and cap: "unat ?s < cap"
      using sector_word [of "disk_pos v"] sector_in_cap [of "disk_pos v"] less.prems(6) c(1,3) by auto
    define part where "part \<longleftrightarrow> ?p mod 512 \<noteq> 0 \<or> length buf - n < 512"
    obtain drv blk d1 where rs: "\<And>t. (if part then read_sector K B (disk_driver v) ?s ?z d t
        else Some (Inr (), disk_driver v, ?z, d, t)) =
        map_option (\<lambda>t. (Inr (), drv, blk, d1, t)) (awaits K irq (if part then 1 else 0) t)"
      and drv: "drv_ok drv" "blk_irq drv = irq" "disk d1 = disk d" and blk: "blk = (if part then disk d ?s else ?z)"
    proof (cases part)
      case True
      obtain drv d1 where "\<And>t. read_sector K B (disk_driver v) ?s ?z d t =
          map_option (\<lambda>t. (Inr (), drv, disk d ?s, d1, t)) (await_irq K irq t)"
        "drv_ok drv" "blk_irq drv = irq" "disk d1 = disk d"
        by (rule read_sector_ok [OF less.prems(1), of ?z ?s K d]) (use less.prems(3) cap in auto)
      then show thesis
        using True that [of drv "disk d ?s" d1] by (simp add: awaits_1 del: awaits.simps)
    next
      case False
      then show thesis
        using less.prems(1,3) that by simp
    qed
    have len: "length blk = 512"
      using blk disk_sector by simp
    let ?new = "overwrite blk (?p mod 512) (slice buf n c)"
    have sl: "length (slice buf n c) = c"
      using c(3) by simp
    have new: "?new = overwrite (disk d ?s) (?p mod 512) (slice buf n c)"
    proof (cases part)
      case False
      then have "?p mod 512 = 0" "c = 512"
        by (auto simp: part_def c_def)
      then show ?thesis
        using sl len disk_sector [of d ?s] by (simp add: overwrite_def)
    qed (simp add: blk)
    obtain drv2 d2 where ws: "\<And>t. write_sector K B drv ?s ?new d1 t =
        map_option (\<lambda>t. (Inr (), drv2, d2, t)) (await_irq K irq t)"
      "drv_ok drv2" "blk_irq drv2 = irq" "disk d2 = (disk d1)(?s := ?new)"
      using write_sector_ok [OF drv(1), of ?new ?s K d1] sl c(2) len cap drv(2) by auto
    have pc: "?p + c < 2 ^ 64"
      using less.prems(5) c(3) by linarith
    then have add: "op_add oc (disk_pos v) (word_of_nat c) = Some (disk_pos v + word_of_nat c)"
      and pos: "unat (disk_pos v + word_of_nat c) = ?p + c"
      by (simp_all add: op_add_def unat_word_ariths unat_of_nat)
    let ?v = "v\<lparr>disk_driver := drv2, disk_pos := disk_pos v + word_of_nat c\<rparr>"
    have step: "disk_write_loop oc K B buf n v d t = Option.bind (awaits K irq (if part then 2 else 1) t)
        (disk_write_loop oc K B buf (n + c) ?v d2)" for t
      using write_round [OF True less.prems(2) part_def c_def rs _ ws(1) add] c(2) len by simp
    have img: "image d2 x = (if ?p \<le> x \<and> x < ?p + c then slice buf n c ! (x - ?p) else image d x)"
      if "x < 2 ^ 64" for x
      using image_write [of d2 d1 ?p "slice buf n c" x] ws(4) new drv(3) s sl c(2) pc that
      by (simp add: image_def)
    have nc: "length buf - (n + c) < length buf - n" "n + c \<le> length buf"
      using c True by simp_all
    have "unat (disk_pos ?v) + (length buf - (n + c)) < 2 ^ 64" "unat (disk_pos ?v) + (length buf - (n + c)) \<le> 512 * cap"
      using less.prems(5,6) pos c(3) by simp_all
    then obtain v' d' where IH: "\<And>t. disk_write_loop oc K B buf (n + c) ?v d2 t = map_option (\<lambda>t. (Inr (length buf), v', d', t))
        (awaits K irq (write_transfers (unat (disk_pos ?v)) (length buf - (n + c))) t)"
      "drv_ok (disk_driver v')" "sector_size v' = 512" "blk_irq (disk_driver v') = irq"
      "unat (disk_pos v') = unat (disk_pos ?v) + (length buf - (n + c))"
      "\<forall>x < 2 ^ 64. image d' x = (if unat (disk_pos ?v) \<le> x \<and> x < unat (disk_pos ?v) + (length buf - (n + c))
         then buf ! (n + c + (x - unat (disk_pos ?v))) else image d2 x)"
      using less.hyps [OF nc(1), of ?v d2] nc(2) ws(2,3) less.prems(2) by auto
    have bytes: "image d' x = (if ?p \<le> x \<and> x < ?p + (length buf - n) then buf ! (n + (x - ?p)) else image d x)"
      if x: "x < 2 ^ 64" for x
    proof -
      have "slice buf n c ! (x - ?p) = buf ! (n + (x - ?p))" if "?p \<le> x" "x < ?p + c"
        using that c(3) by (simp add: slice_def)
      moreover have "n + c + (x - (?p + c)) = n + (x - ?p)" if "?p + c \<le> x"
        using that by simp
      ultimately show ?thesis
        using IH(6) img [OF x] x pos c(3) by auto
    qed
    have "write_transfers ?p (length buf - n) =
        (if part then 2 else 1) + write_transfers (unat (disk_pos ?v)) (length buf - (n + c))"
      using True pos by (subst write_transfers.simps) (simp add: Let_def part_def c_def)
    then have "disk_write_loop oc K B buf n v d t = map_option (\<lambda>t. (Inr (length buf), v', d', t))
        (awaits K irq (write_transfers ?p (length buf - n)) t)" for t
      using step [of t] IH(1)
      by (cases "awaits K irq (if part then 2 else 1) t") (simp_all only: awaits_add bind.simps option.map)
    moreover have "unat (disk_pos v') = ?p + (length buf - n)"
      using IH(5) pos c(3) by simp
    ultimately show ?thesis
      using IH(2-4) bytes by blast
  qed
qed

end


text \<open>A device that keeps its sectors in a function, for the witnesses.\<close>

definition demo_sectors :: "(u64 \<Rightarrow> u8 list) \<Rightarrow> u64 \<Rightarrow> u8 list" where
  "demo_sectors d s = take 512 (d s @ replicate 512 0)"

definition demo_blk_store :: "(u64 \<Rightarrow> u8 list) blk_env" where
  "demo_blk_store = \<lparr>hdr_at = 4096, buf_at = 8192, status_at = 4112,
     blk_complete = (\<lambda>c q h buf st d. if 1000 \<le> unat (req_sector h) then (q, buf, 1, d)
        else if req_type h = 0 then (q, demo_sectors d (req_sector h), 0, d)
        else (q, buf, 0, d(req_sector h := buf)))\<rparr>"

lemma demo_sectors_upd:
  "length buf = 512 \<Longrightarrow> demo_sectors (d(s := buf)) = (demo_sectors d)(s := buf)"
  by (simp add: demo_sectors_def fun_eq_iff)

interpretation demo_blk: blk_disk demo_blk_store demo_sectors 1000
proof
  fix d s q h buf c st q' buf' st' rd and d' :: "u64 \<Rightarrow> u8 list"
  show "length (demo_sectors d s) = 512"
    by (simp add: demo_sectors_def)
  show "queue_wf q \<Longrightarrow> blk_chain_ok driver_bits demo_blk_store 512 True q \<Longrightarrow> req_type h = 0 \<Longrightarrow> length buf = 512 \<Longrightarrow>
      blk_complete demo_blk_store c q h buf st d = (q', buf', st', d') \<Longrightarrow> unat (req_sector h) < 1000 \<Longrightarrow>
      queue_wf q' \<and> buf' = demo_sectors d (req_sector h) \<and> st' = 0 \<and> demo_sectors d' = demo_sectors d"
    by (auto simp: demo_blk_store_def)
  show "queue_wf q \<Longrightarrow> blk_chain_ok driver_bits demo_blk_store 512 False q \<Longrightarrow> req_type h = 1 \<Longrightarrow> length buf = 512 \<Longrightarrow>
      blk_complete demo_blk_store c q h buf st d = (q', buf', st', d') \<Longrightarrow> unat (req_sector h) < 1000 \<Longrightarrow>
      queue_wf q' \<and> st' = 0 \<and> demo_sectors d' = (demo_sectors d)(req_sector h := buf)"
    by (auto simp: demo_blk_store_def demo_sectors_upd)
  show "queue_wf q \<Longrightarrow> blk_chain_ok driver_bits demo_blk_store 512 rd q \<Longrightarrow> req_type h = (if rd then 0 else 1) \<Longrightarrow>
      length buf = 512 \<Longrightarrow> blk_complete demo_blk_store c q h buf st d = (q', buf', st', d') \<Longrightarrow>
      1000 \<le> unat (req_sector h) \<Longrightarrow> queue_wf q' \<and> st' \<noteq> 0 \<and> demo_sectors d' = demo_sectors d"
    by (auto simp: demo_blk_store_def)
qed

section \<open>Properties\<close>

definition stored :: "('d \<Rightarrow> u64 \<Rightarrow> u8 list) \<Rightarrow> 'd \<Rightarrow> nat \<Rightarrow> u8" where
  "stored disk d p = disk d (word_of_nat (p div 512)) ! (p mod 512)"

lemma stored_image: "blk_disk B disk cap \<Longrightarrow> stored disk = blk_disk.image disk"
  by (simp add: stored_def blk_disk.image_def fun_eq_iff)

text \<open>The two loops, started where \<open>read\<close> and \<open>write\<close> start them.\<close>

lemma disk_write_store:
  assumes "blk_disk B disk cap" and "queue_wf (blk_queue (disk_driver v))" and "sector_size v = 512"
    and "unat (disk_pos v) + length buf \<le> 512 * cap" and "unat (disk_pos v) + length buf < 2 ^ 64"
  shows "\<exists>v' d'. (\<forall>t. disk_write oc K B buf v d t = map_option (\<lambda>t. (Inr (length buf), v', d', t))
      (awaits K (blk_irq (disk_driver v)) (write_transfers (unat (disk_pos v)) (length buf)) t)) \<and>
    queue_wf (blk_queue (disk_driver v')) \<and> sector_size v' = 512 \<and> blk_irq (disk_driver v') = blk_irq (disk_driver v) \<and>
    unat (disk_pos v') = unat (disk_pos v) + length buf \<and>
    (\<forall>x < 2 ^ 64. stored disk d' x =
       (if unat (disk_pos v) \<le> x \<and> x < unat (disk_pos v) + length buf
        then buf ! (x - unat (disk_pos v)) else stored disk d x))"
  using blk_disk.write_loop_ok [OF assms(1), of v "blk_irq (disk_driver v)" 0 buf oc K d] assms(2-5)
  unfolding disk_write_def blk_disk.drv_ok_def [OF assms(1)] stored_image [OF assms(1)] diff_zero add_0
  by blast

lemma disk_read_store:
  assumes "blk_disk B disk cap" and "queue_wf (blk_queue (disk_driver v))" and "sector_size v = 512"
    and "unat (disk_pos v) + len \<le> 512 * cap" and "unat (disk_pos v) + len < 2 ^ 64"
  shows "\<exists>v' d'. (\<forall>t. disk_read oc K B len v d t = map_option (\<lambda>t. (Inr len,
        map (stored disk d) [unat (disk_pos v) ..< unat (disk_pos v) + len], v', d', t))
      (awaits K (blk_irq (disk_driver v)) (sectors (unat (disk_pos v)) len) t)) \<and>
    queue_wf (blk_queue (disk_driver v')) \<and> sector_size v' = 512 \<and> blk_irq (disk_driver v') = blk_irq (disk_driver v) \<and>
    disk d' = disk d \<and> unat (disk_pos v') = unat (disk_pos v) + len"
  using blk_disk.read_loop_ok [OF assms(1), of v "blk_irq (disk_driver v)" len "[]" oc K d] assms(2-5)
  unfolding disk_read_def blk_disk.drv_ok_def [OF assms(1)] stored_image [OF assms(1)]
    list.size(3) diff_zero max_0R append_Nil
  by blast

lemma disk_new_ok:
  assumes "disk_new env_cap = Some v"
  shows "sector_size v = 512 \<and> disk_pos v = 0 \<and> queue_wf (blk_queue (disk_driver v))"
  using assms by (auto simp: disk_new_def blk_new_def bind_eq_Some_conv)

text \<open>A read that starts beyond the last sector of the device is an error, once its wait is over.\<close>

lemma disk_read_beyond:
  assumes "blk_disk B disk cap" and "queue_wf (blk_queue (disk_driver v))" and "sector_size v = 512"
    and "0 < len" and "512 * cap \<le> unat (disk_pos v)"
  shows "\<exists>v' d'. (\<forall>t. disk_read oc K B len v d t = map_option (\<lambda>t. (Inl IoOther, [], v', d', t)) (await_irq K (blk_irq (disk_driver v)) t)) \<and>
    disk_pos v' = disk_pos v \<and> disk d' = disk d"
proof -
  have cap: "cap \<le> unat (disk_pos v div 512)"
    using assms(5) unat_div_distrib [of "disk_pos v" 512] by (simp add: less_eq_div_iff_mult_less_eq mult.commute)
  obtain v' buf' d' where "\<And>t. blk_transfer K B (disk_driver v) (disk_pos v div 512) (replicate 512 0) True d t =
      map_option (\<lambda>t. (Inl (), v', buf', d', t)) (await_irq K (blk_irq (disk_driver v)) t)" "disk d' = disk d"
    by (rule blk_disk.transfer_beyond [OF assms(1), of "disk_driver v" "replicate 512 0" "disk_pos v div 512" K True d])
      (use assms(2) cap in \<open>auto simp: blk_disk.drv_ok_def [OF assms(1)]\<close>)
  then show ?thesis
    using assms(3,4) by (intro exI [of _ "v\<lparr>disk_driver := v'\<rparr>"] exI [of _ d'])
      (simp add: disk_read_def disk_read_loop.simps read_sector_def bind_map_option comp_def map_conv_bind_option)
qed


text \<open>Four bytes across the border of two sectors take four transfers.\<close>

lemma demo_write_transfers: "write_transfers 510 4 = 4"
  by (simp add: write_transfers.simps Let_def)


text \<open>
  Reading \<open>len\<close> bytes at the current position returns exactly the stored bytes, moves the
  position behind them and changes nothing on the device, after a wait for each sector.
\<close>

theorem disk_read_exact:
  assumes "blk_disk B disk cap" and "queue_wf (blk_queue (disk_driver v))" and "sector_size v = 512"
    and "unat (disk_pos v) + len \<le> 512 * cap" and "unat (disk_pos v) + len < 2 ^ 64"
  shows "\<exists>v' d'. (\<forall>t. disk_read oc K B len v d t = map_option (\<lambda>t. (Inr len,
        map (stored disk d) [unat (disk_pos v) ..< unat (disk_pos v) + len], v', d', t))
      (awaits K (blk_irq (disk_driver v)) (sectors (unat (disk_pos v)) len) t)) \<and>
    queue_wf (blk_queue (disk_driver v')) \<and> sector_size v' = 512 \<and> disk d' = disk d \<and>
    unat (disk_pos v') = unat (disk_pos v) + len"
  using disk_read_store [OF assms, of oc K d] by blast

text \<open>
  Round trip: what was written is read back after seeking to where the write began, with the waits of both
  on the way.
\<close>

theorem disk_write_seek_read:
  assumes st: "blk_disk B disk cap" "queue_wf (blk_queue (disk_driver v))" "sector_size v = 512"
    and room: "unat (disk_pos v) + length buf \<le> 512 * cap" "unat (disk_pos v) + length buf < 2 ^ 63"
    and irq: "irq = blk_irq (disk_driver v)"
  shows "\<exists>v1 d1 v2 v3 d3. (\<forall>t. disk_write oc K B buf v d t = map_option (\<lambda>t. (Inr (length buf), v1, d1, t))
      (awaits K irq (write_transfers (unat (disk_pos v)) (length buf)) t)) \<and>
    disk_seek oc (SeekStart (disk_pos v)) v1 = Some (Inr (disk_pos v), v2) \<and>
    (\<forall>t. disk_read oc K B (length buf) v2 d1 t = map_option (\<lambda>t. (Inr (length buf), buf, v3, d3, t))
      (awaits K irq (sectors (unat (disk_pos v)) (length buf)) t))"
proof -
  let ?p = "unat (disk_pos v)"
  have r64: "?p + length buf < 2 ^ 64"
    using room(2) by simp
  obtain v1 d1 where w: "\<forall>t. disk_write oc K B buf v d t = map_option (\<lambda>t. (Inr (length buf), v1, d1, t))
      (awaits K irq (write_transfers ?p (length buf)) t)"
    "queue_wf (blk_queue (disk_driver v1))" "sector_size v1 = 512" "blk_irq (disk_driver v1) = irq"
    "\<forall>x < 2 ^ 64. stored disk d1 x =
       (if ?p \<le> x \<and> x < ?p + length buf then buf ! (x - ?p) else stored disk d x)"
    using disk_write_store [OF st room(1) r64, of oc K d] irq by blast
  let ?v2 = "v1\<lparr>disk_pos := disk_pos v\<rparr>"
  have "int ?p < int (2 ^ 63)"
    using room(2) by (subst of_nat_less_iff) simp
  then have "uint (disk_pos v) < 2 ^ 63" and "0 \<le> uint (disk_pos v)"
    by simp_all
  then have "signed_take_bit 63 (uint (disk_pos v)) = uint (disk_pos v)"
    by (intro signed_take_bit_int_eq_self) linarith+
  then have "sint (disk_pos v) = uint (disk_pos v)"
    by (simp add: sint_uint)
  then have "0 \<le> sint (disk_pos v)"
    by simp
  then have seek: "disk_seek oc (SeekStart (disk_pos v)) v1 = Some (Inr (disk_pos v), ?v2)"
    by (simp add: disk_seek_def)
  have "map (stored disk d1) [?p ..< ?p + length buf] = buf"
    using w(5) r64 by (intro nth_equalityI) auto
  moreover obtain v3 d3 where "\<forall>t. disk_read oc K B (length buf) ?v2 d1 t = map_option (\<lambda>t. (Inr (length buf),
      map (stored disk d1) [?p ..< ?p + length buf], v3, d3, t)) (awaits K irq (sectors ?p (length buf)) t)"
    using disk_read_store [OF st(1), of ?v2 "length buf" oc K d1] w(2-4) room(1) r64 by auto
  ultimately show ?thesis
    using w(1) seek by metis
qed

end
