(* ===== verification/Fs_Server.thy ===== *)
theory Fs_Server
  imports Ipc_Server Virtio
begin

text \<open>
  The file service, \<open>src/src/fs_server/src/main.rs\<close>, on top of the disk of theory \<open>Virtio\<close>. The
  FAT layer (the fatfs crate), the slab crate and the kernel IPC are parameters. The registers a
  handler reads and writes are those of the thread, which every wait of the disk driver overwrites in between.
  Paths are byte strings, checked with the UTF-8 check of the prelude.
\<close>

section \<open>Parameters\<close>

datatype fs_error = FsNotFound | FsOther

text \<open>The operations of the mounted volume: the number of root entries, \<open>create_file\<close> (which opens
  an existing file and creates a missing one) and \<open>open_file\<close> in the root directory, the drop of
  that directory, and \<open>read\<close>, \<open>write\<close>, the seek to the end and the drop of an open file. A read is given
  the buffer and returns it filled. All of them work on the volume, on the thread that
  waits for the disk below it; \<open>None\<close> is a panic of the disk or a wait that never ends.\<close>

record ('f, 'k, 'w) fat_env =
  fs_BR_WORDS :: nat
  fs_EBADF :: i32
  fs_EIO :: i32
  fs_ENOENT :: i32
  root_count :: "'k thread \<Rightarrow> 'w \<Rightarrow> ((nat \<times> 'k thread) \<times> 'w) option"
  create_file :: "u8 list \<Rightarrow> 'k thread \<Rightarrow> 'w \<Rightarrow> (((fs_error, 'f) result \<times> 'k thread) \<times> 'w) option"
  open_file :: "u8 list \<Rightarrow> 'k thread \<Rightarrow> 'w \<Rightarrow> (((fs_error, 'f) result \<times> 'k thread) \<times> 'w) option"
  drop_root :: "'k thread \<Rightarrow> 'w \<Rightarrow> ((unit \<times> 'k thread) \<times> 'w) option"
  file_read :: "'f \<Rightarrow> u8 list \<Rightarrow> 'k thread \<Rightarrow> 'w \<Rightarrow> (((((fs_error, nat) result \<times> u8 list) \<times> 'f) \<times> 'k thread) \<times> 'w) option"
  file_write :: "'f \<Rightarrow> u8 list \<Rightarrow> 'k thread \<Rightarrow> 'w \<Rightarrow> ((((fs_error, nat) result \<times> 'f) \<times> 'k thread) \<times> 'w) option"
  seek_end :: "'f \<Rightarrow> 'k thread \<Rightarrow> 'w \<Rightarrow> ((((fs_error, u64) result \<times> 'f) \<times> 'k thread) \<times> 'w) option"
  drop_file :: "'f \<Rightarrow> 'k thread \<Rightarrow> 'w \<Rightarrow> ((unit \<times> 'k thread) \<times> 'w) option"

section \<open>Buffer registers and paths\<close>

definition BR_DATA_MAX :: "('f, 'k, 'w) fat_env \<Rightarrow> nat" where
  "BR_DATA_MAX E = fs_BR_WORDS E * 8 - 8"

definition fs_br_read_bytes :: "('f, 'k, 'w) fat_env \<Rightarrow> utcb \<Rightarrow> u8 list" where
  "fs_br_read_bytes E u =
     (let len = min (unat (br0 u)) (BR_DATA_MAX E) in take len (br_payload u))"

definition br_read_bytes_into :: "('f, 'k, 'w) fat_env \<Rightarrow> utcb \<Rightarrow> nat \<times> u8 list" where
  "br_read_bytes_into E u =
     (let len = min (unat (br0 u)) (BR_DATA_MAX E) in (len, take len (br_payload u)))"

definition br_read_path :: "('f, 'k, 'w) fat_env \<Rightarrow> utcb \<Rightarrow> u8 list option" where
  "br_read_path E u = (let data = fs_br_read_bytes E u in if utf8_ok data then Some data else None)"

definition fs_br_write_bytes :: "('f, 'k, 'w) fat_env \<Rightarrow> u8 list \<Rightarrow> utcb \<Rightarrow> utcb" where
  "fs_br_write_bytes E data u =
     (let len = min (length data) (BR_DATA_MAX E);
          u = set_br0 u (word_of_nat len)
      in br_copy_in u (take len data))"

text \<open>String literals as bytes.\<close>

definition bytes_of :: "string \<Rightarrow> u8 list" where
  "bytes_of s = map (\<lambda>c. of_char c) s"

definition starts_with :: "u8 list \<Rightarrow> u8 list \<Rightarrow> bool" where
  "starts_with p xs \<longleftrightarrow> take (length p) xs = p"

definition resolve_path :: "u8 list \<Rightarrow> u8 list option" where
  "resolve_path p =
     (if \<not> starts_with (bytes_of ''/'') p then None
      else let rel = drop 1 p in
        if starts_with (bytes_of ''bin/'') rel \<or> starts_with (bytes_of ''etc/'') rel \<or>
           starts_with (bytes_of ''usr/'') rel
        then Some rel else None)"

definition io_to_errno :: "('f, 'k, 'w) fat_env \<Rightarrow> fs_error \<Rightarrow> i32" where
  "io_to_errno E e = (case e of FsNotFound \<Rightarrow> fs_ENOENT E | _ \<Rightarrow> fs_EIO E)"

section \<open>The request loop\<close>

record ('s, 'w) fs_state =
  fs_handles :: 's
  read_buf :: "u8 list"
  write_buf :: "u8 list"
  fs_world :: 'w

text \<open>A write to a message register of the thread.\<close>

definition put_mr :: "nat \<Rightarrow> u64 \<Rightarrow> 'k thread \<Rightarrow> 'k thread" where
  "put_mr i x t = apfst (\<lambda>u. set_mr u i x) t"

text \<open>The directory of the \<open>match\<close> lives until its end, so it is dropped after the registers are written.\<close>

definition fs_open :: "('f, 'k, 'w) fat_env \<Rightarrow> ('s, 'f) slab_ops \<Rightarrow> 'k thread \<Rightarrow> ('s, 'w) fs_state
    \<Rightarrow> ('k thread \<times> ('s, 'w) fs_state) option" where
  "fs_open E sl t st =
     (case Option.bind (br_read_path E (fst t)) resolve_path of
        Some p \<Rightarrow> do {
          ((r, t), w) \<leftarrow> create_file E p t (fs_world st);
          let (t, s) = (case r of
             Inr f \<Rightarrow> (let (fd, s) = slab_insert sl (fs_handles st) f in (put_mr 0 (word_of_nat fd) t, s))
           | Inl e \<Rightarrow> (put_mr 0 (neg_errno (io_to_errno E e)) t, fs_handles st))
          in do {
            ((_, t), w) \<leftarrow> drop_root E t w;
            Some (t, st\<lparr>fs_handles := s, fs_world := w\<rparr>)
          }
        }
      | None \<Rightarrow> Some (put_mr 0 (neg_errno (fs_ENOENT E)) t, st))"

text \<open>\<open>Vec::resize\<close> with zeros, when the vector is too short. A read that reports more bytes than
  the buffer has would panic (\<open>None\<close>).\<close>

definition fs_read :: "('f, 'k, 'w) fat_env \<Rightarrow> ('s, 'f) slab_ops \<Rightarrow> 'k thread \<Rightarrow> ('s, 'w) fs_state
    \<Rightarrow> ('k thread \<times> ('s, 'w) fs_state) option" where
  "fs_read E sl t st =
     (let fd = unat (get_mr (fst t) 1); len = unat (get_mr (fst t) 2) in
      case slab_get sl (fs_handles st) fd of
        None \<Rightarrow> Some (put_mr 0 (neg_errno (fs_EBADF E)) t, st)
      | Some file \<Rightarrow>
          let read_len = min len (BR_DATA_MAX E);
              buf = (if length (read_buf st) < read_len
                     then read_buf st @ replicate (read_len - length (read_buf st)) 0
                     else read_buf st)
          in do {
            ((((res, filled), file), t), w) \<leftarrow> file_read E file (take read_len buf) t (fs_world st);
            let buf = filled @ drop read_len buf;
                st = st\<lparr>fs_handles := slab_update sl (fs_handles st) fd file, fs_world := w,
                        read_buf := []\<rparr>
            in (case res of
                  Inr n \<Rightarrow>
                    if length buf < n then None
                    else Some (put_mr 0 (word_of_nat n) (apfst (fs_br_write_bytes E (take n buf)) t), st)
                | Inl e \<Rightarrow> Some (put_mr 0 (neg_errno (io_to_errno E e)) t, st))
          })"

definition fs_write :: "('f, 'k, 'w) fat_env \<Rightarrow> ('s, 'f) slab_ops \<Rightarrow> 'k thread \<Rightarrow> ('s, 'w) fs_state
    \<Rightarrow> ('k thread \<times> ('s, 'w) fs_state) option" where
  "fs_write E sl t st =
     (let fd = unat (get_mr (fst t) 1) in
      case slab_get sl (fs_handles st) fd of
        None \<Rightarrow> Some (put_mr 0 (neg_errno (fs_EBADF E)) t, st)
      | Some file \<Rightarrow>
          let (data_len, buf) = br_read_bytes_into E (fst t)
          in do {
            (((res, file), t), w) \<leftarrow> file_write E file (take data_len buf) t (fs_world st);
            let st = st\<lparr>fs_handles := slab_update sl (fs_handles st) fd file, fs_world := w,
                        write_buf := []\<rparr>
            in Some (put_mr 0 (case res of Inr n \<Rightarrow> word_of_nat n
                                         | Inl e \<Rightarrow> neg_errno (io_to_errno E e)) t, st)
          })"

definition fs_close :: "('f, 'k, 'w) fat_env \<Rightarrow> ('s, 'f) slab_ops \<Rightarrow> 'k thread \<Rightarrow> ('s, 'w) fs_state
    \<Rightarrow> ('k thread \<times> ('s, 'w) fs_state) option" where
  "fs_close E sl t st =
     (let fd = unat (get_mr (fst t) 1) in
      case slab_get sl (fs_handles st) fd of
        Some f \<Rightarrow> do {
          ((_, t), w) \<leftarrow> drop_file E f t (fs_world st);
          Some (put_mr 0 0 t, st\<lparr>fs_handles := slab_remove sl (fs_handles st) fd, fs_world := w\<rparr>)
        }
      | None \<Rightarrow> Some (put_mr 0 (neg_errno (fs_EBADF E)) t, st))"

text \<open>The file, and after it the directory, are dropped once the registers are written.\<close>

definition fs_stat :: "('f, 'k, 'w) fat_env \<Rightarrow> 'k thread \<Rightarrow> ('s, 'w) fs_state
    \<Rightarrow> ('k thread \<times> ('s, 'w) fs_state) option" where
  "fs_stat E t st =
     (case Option.bind (br_read_path E (fst t)) resolve_path of
        Some p \<Rightarrow> do {
          ((r, t), w) \<leftarrow> open_file E p t (fs_world st);
          ((_, t), w) \<leftarrow> (case r of
             Inr f \<Rightarrow> do {
               (((sz, f), t), w) \<leftarrow> seek_end E f t w;
               drop_file E f (case sz of Inr sz \<Rightarrow> put_mr 1 sz (put_mr 0 0 t) | Inl _ \<Rightarrow> put_mr 0 (neg_errno (fs_EIO E)) t) w
             }
           | Inl e \<Rightarrow> Some (((), put_mr 0 (neg_errno (io_to_errno E e)) t), w));
          ((_, t), w) \<leftarrow> drop_root E t w;
          Some (t, st\<lparr>fs_world := w\<rparr>)
        }
      | None \<Rightarrow> Some (put_mr 0 (neg_errno (fs_ENOENT E)) t, st))"

definition fs_count :: "('f, 'k, 'w) fat_env \<Rightarrow> 'k thread \<Rightarrow> ('s, 'w) fs_state
    \<Rightarrow> ('k thread \<times> ('s, 'w) fs_state) option" where
  "fs_count E t st = do {
     ((n, t), w) \<leftarrow> root_count E t (fs_world st);
     Some (put_mr 0 (word_of_nat n) t, st\<lparr>fs_world := w\<rparr>)
   }"

definition fs_dispatch :: "('f, 'k, 'w) fat_env \<Rightarrow> ('s, 'f) slab_ops \<Rightarrow> 'k thread \<Rightarrow> ('s, 'w) fs_state
    \<Rightarrow> ('k thread \<times> ('s, 'w) fs_state) option" where
  "fs_dispatch E sl t st =
     (let opc = get_mr (fst t) 0 in
      if opc = 0 then fs_count E t st
      else if opc = 1 then fs_open E sl t st
      else if opc = 2 then fs_read E sl t st
      else if opc = 3 then fs_write E sl t st
      else if opc = 4 then fs_close E sl t st
      else if opc = 5 then fs_stat E t st
      else Some (put_mr 0 (neg_errno (fs_ENOENT E)) t, st))"

definition fs_init :: "('s, 'f) slab_ops \<Rightarrow> 'w \<Rightarrow> ('s, 'w) fs_state" where
  "fs_init sl w = \<lparr>fs_handles = slab_new sl, read_buf = [], write_buf = [], fs_world = w\<rparr>"

text \<open>Rounds of the loop, from the tag of the last wait on; each ends with the next wait.\<close>

primrec fs_loop :: "'k ipc_env \<Rightarrow> ('f, 'k, 'w) fat_env \<Rightarrow> ('s, 'f) slab_ops \<Rightarrow> nat \<Rightarrow> u64 \<times> 'k thread \<Rightarrow> ('s, 'w) fs_state
    \<Rightarrow> ((u64 \<times> 'k thread) \<times> ('s, 'w) fs_state) option" where
  "fs_loop K E sl 0 et st = Some (et, st)"
| "fs_loop K E sl (Suc n) et st =
     (case et of (err, t) \<Rightarrow>
        if err \<noteq> 0 then do { et \<leftarrow> ipc_wait K t; fs_loop K E sl n et st }
        else do {
          (t, st) \<leftarrow> fs_dispatch E sl t st;
          et \<leftarrow> ipc_reply_and_wait K 2 t;
          fs_loop K E sl n et st
        })"

text \<open>\<open>run\<close>, from a thread \<open>t\<close> whose gate was bound with the given error, for \<open>n\<close> rounds of its
  loop. It panics without the gate, when binding it fails, without a disk, or when the volume on
  the disk cannot be mounted; mounting waits for the disk already.\<close>

definition fs_run :: "'k ipc_env \<Rightarrow> ('f, 'k, 'w) fat_env \<Rightarrow> ('s, 'f) slab_ops \<Rightarrow> (string \<Rightarrow> u64 option) \<Rightarrow> u64
    \<Rightarrow> (virtio_disk \<Rightarrow> 'k thread \<Rightarrow> ('k thread \<times> 'w) option) \<Rightarrow> nat \<Rightarrow> 'k thread
    \<Rightarrow> ((u64 \<times> 'k thread) \<times> ('s, 'w) fs_state) option" where
  "fs_run K E sl env_cap bind_error mount n t = do {
     gate \<leftarrow> env_cap ''global_fs'';
     (if bind_error \<noteq> 0 then None
      else do {
        disk \<leftarrow> disk_new env_cap;
        (t, w) \<leftarrow> mount disk t;
        et \<leftarrow> ipc_wait K t;
        fs_loop K E sl n et (fs_init sl w)
      })
   }"

section \<open>Properties\<close>

text \<open>What the server relies on of the FAT layer: a read fills the buffer it is given, in place, and reports
  at most its length.\<close>

locale fat_service = sl: slab sl
  for E :: "('f, 'k, 'w) fat_env" and sl :: "('s, 'f) slab_ops" +
  assumes read_bound: "file_read E f bs t w = Some ((((res, filled), f'), t'), w') \<Longrightarrow>
      length filled = length bs \<and> (\<forall>n. res = Inr n \<longrightarrow> n \<le> length bs)"

lemma starts_with_iff: "starts_with p xs \<longleftrightarrow> (\<exists>rest. xs = p @ rest)"
  by (metis append_eq_conv_conj starts_with_def append_take_drop_id)

lemma fs_br_write_store: "length data \<le> BR_DATA_MAX E \<Longrightarrow> data \<noteq> [] \<Longrightarrow>
    fs_br_write_bytes E data u = br_store data u"
  by (simp add: fs_br_write_bytes_def br_store_def Let_def min_absorb1)

lemma fs_br_write_fetch:
  assumes "wf_utcb (fs_BR_WORDS E) u" and "length data \<le> BR_DATA_MAX E" and "BR_DATA_MAX E < 2 ^ 64"
  shows "br_fetch (fs_br_write_bytes E data u) = data"
proof (cases "data = []")
  case True
  have "utcb_br u \<noteq> []"
    using assms(1) by (rule wf_utcb_br_nonempty)
  moreover have "utcb_br (set_br0 u 0) \<noteq> []"
    using calculation by (simp add: set_br0_def)
  ultimately show ?thesis
    using True by (simp add: fs_br_write_bytes_def br_fetch_def)
next
  case False
  have "8 * (fs_BR_WORDS E - 1) = BR_DATA_MAX E"
    by (simp add: BR_DATA_MAX_def right_diff_distrib')
  then show ?thesis
    using fs_br_write_store [OF assms(2) False] br_fetch_store [OF assms(1)] assms(2,3) by simp
qed

text \<open>Between requests the scratch buffers are empty, so a read starts from a zeroed buffer of
  exactly the requested length.\<close>

definition scratch_empty :: "('s, 'w) fs_state \<Rightarrow> bool" where
  "scratch_empty st \<longleftrightarrow> read_buf st = [] \<and> write_buf st = []"

context fat_service
begin

lemma read_cases:
  assumes "scratch_empty st"
    and "slab_get sl (fs_handles st) (unat (get_mr (fst t) 1)) = Some file"
    and "file_read E file (replicate (min (unat (get_mr (fst t) 2)) (BR_DATA_MAX E)) 0) t (fs_world st)
      = Some ((((res, filled), file'), t'), w')"
  shows "fs_read E sl t st =
    Some (case res of Inr n \<Rightarrow> put_mr 0 (word_of_nat n) (apfst (fs_br_write_bytes E (take n filled)) t')
                    | Inl e \<Rightarrow> put_mr 0 (neg_errno (io_to_errno E e)) t',
      st\<lparr>fs_handles := slab_update sl (fs_handles st) (unat (get_mr (fst t) 1)) file', fs_world := w',
         read_buf := []\<rparr>)"
proof -
  let ?n = "min (unat (get_mr (fst t) 2)) (BR_DATA_MAX E)"
  have "length filled = ?n" "\<forall>n. res = Inr n \<longrightarrow> n \<le> ?n"
    using read_bound [OF assms(3)] by simp_all
  then show ?thesis
    using assms by (auto simp: fs_read_def scratch_empty_def Let_def split: sum.splits)
qed

lemma read_blocks:
  assumes "scratch_empty st"
    and "slab_get sl (fs_handles st) (unat (get_mr (fst t) 1)) = Some file"
    and "file_read E file (replicate (min (unat (get_mr (fst t) 2)) (BR_DATA_MAX E)) 0) t (fs_world st) = None"
  shows "fs_read E sl t st = None"
  using assms by (auto simp: fs_read_def scratch_empty_def Let_def)

text \<open>The registers of the reply to a read: the result and the payload are those of the read, every other
  message register is what the waits of the read left in it.\<close>

lemma read_registers:
  assumes "wf_utcb (fs_BR_WORDS E) u" and "BR_DATA_MAX E < 2 ^ 64" and "length bs \<le> BR_DATA_MAX E"
  shows "get_mr (set_mr (fs_br_write_bytes E bs u) 0 x) 0 = x"
    and "br_fetch (set_mr (fs_br_write_bytes E bs u) 0 x) = bs"
    and "get_mr (set_mr (fs_br_write_bytes E bs u) 0 x) (Suc i) = get_mr u (Suc i)"
proof -
  show "get_mr (set_mr (fs_br_write_bytes E bs u) 0 x) 0 = x"
    using wf_utcb_mr_length [OF assms(1), of 0] by (simp add: fs_br_write_bytes_def Let_def)
  have "br_fetch (set_mr (fs_br_write_bytes E bs u) 0 x) = br_fetch (fs_br_write_bytes E bs u)"
    by (simp add: br_fetch_def)
  then show "br_fetch (set_mr (fs_br_write_bytes E bs u) 0 x) = bs"
    using fs_br_write_fetch [OF assms(1,3,2)] by simp
  show "get_mr (set_mr (fs_br_write_bytes E bs u) 0 x) (Suc i) = get_mr u (Suc i)"
    using wf_utcb_mr_length [OF assms(1), of 0] by (simp add: fs_br_write_bytes_def Let_def)
qed

end

text \<open>
  Only absolute paths into \<open>/bin\<close>, \<open>/etc\<close> and \<open>/usr\<close> reach the file system: a path resolves
  exactly when it is a slash followed by one of these directory names and a slash, and it resolves
  to itself without the first slash.
\<close>

theorem resolve_path_confined:
  "resolve_path p = Some r \<longleftrightarrow>
     p = 47 # r \<and> (\<exists>d rest. d \<in> {bytes_of ''bin/'', bytes_of ''etc/'', bytes_of ''usr/''} \<and> r = d @ rest)"
proof -
  have "bytes_of ''/'' = [47]"
    by (simp add: bytes_of_def)
  then have "starts_with (bytes_of ''/'') p \<longleftrightarrow> (\<exists>q. p = 47 # q)"
    by (simp add: starts_with_iff)
  then show ?thesis
    by (auto simp: resolve_path_def Let_def starts_with_iff)
qed

lemma fs_refuses_unresolved:
  assumes "get_mr (fst t) 0 \<in> {1, 5}" and "Option.bind (br_read_path E (fst t)) resolve_path = None"
  shows "fs_dispatch E sl t st = Some (put_mr 0 (neg_errno (fs_ENOENT E)) t, st)"
  using assms by (auto simp: fs_dispatch_def fs_open_def fs_stat_def)

lemma wf_utcb_take_2: "wf_utcb b u \<Longrightarrow> take 2 (utcb_mr u) = [get_mr u 0, get_mr u 1]"
  by (cases "utcb_mr u"; cases "tl (utcb_mr u)") (auto simp: wf_utcb_def get_mr_def numeral_2_eq_2)

text \<open>
  A read request delivers what the file system read: the result register holds the number of
  bytes, the payload is exactly these bytes, every other register is what the waits of the read left
  in it, and never more than the registers can carry are asked for.
\<close>

lemma fs_read_reply:
  assumes "fat_service E sl" and "scratch_empty st" and "wf_utcb (fs_BR_WORDS E) (fst t')"
    and "BR_DATA_MAX E < 2 ^ 64" and "get_mr (fst t) 0 = 2"
    and fl: "slab_get sl (fs_handles st) (unat (get_mr (fst t) 1)) = Some file"
    and call: "file_read E file (replicate (min (unat (get_mr (fst t) 2)) (BR_DATA_MAX E)) 0) t (fs_world st)
      = Some ((((Inr n, filled), file'), t'), w')"
  shows "\<exists>u' st'. fs_dispatch E sl t st = Some ((u', snd t'), st') \<and> get_mr u' 0 = word_of_nat n \<and>
    br_fetch u' = take n filled \<and> n \<le> BR_DATA_MAX E \<and> (\<forall>i. get_mr u' (Suc i) = get_mr (fst t') (Suc i)) \<and>
    wf_utcb (fs_BR_WORDS E) u' \<and>
    slab_get sl (fs_handles st') = (slab_get sl (fs_handles st))(unat (get_mr (fst t) 1) \<mapsto> file')"
proof -
  have sl: "slab sl"
    using assms(1) by (simp add: fat_service_def)
  have bound: "length (take n filled) \<le> BR_DATA_MAX E" "n \<le> BR_DATA_MAX E"
    using fat_service.read_bound [OF assms(1) call] by simp_all
  have "fs_dispatch E sl t st = Some (put_mr 0 (word_of_nat n) (apfst (fs_br_write_bytes E (take n filled)) t'),
      st\<lparr>fs_handles := slab_update sl (fs_handles st) (unat (get_mr (fst t) 1)) file', fs_world := w', read_buf := []\<rparr>)"
    using fat_service.read_cases [OF assms(1,2) fl call] assms(5) by (simp add: fs_dispatch_def)
  then show ?thesis
    using bound(2) assms(3) slab.slab_get_update [OF sl, of "fs_handles st"] fl
      fat_service.read_registers [OF assms(1,3,4) bound(1), of "word_of_nat n"]
    by (cases t') (simp add: put_mr_def fs_br_write_bytes_def Let_def)
qed

end
