(* ===== verification/Net_Server.thy ===== *)
theory Net_Server
  imports Ipc_Server Virtio
begin

text \<open>
  The network service, \<open>src/src/net_server/src\<close> (the virtio-net driver, its adapter to the
  protocol stack and the request loop), and its client library, \<open>src/crates/net-client/src/lib.rs\<close>.
  The protocol stack, the device behind the queue and the kernel IPC are parameters. The driver waits on the
  thread of the server, whose registers hold the request that is being served.
\<close>

section \<open>The network driver\<close>

record virtio_net_hdr =
  nh_flags :: u8
  nh_gso_type :: u8
  nh_hdr_len :: u16
  nh_gso_size :: u16
  nh_csum_start :: u16
  nh_csum_offset :: u16

definition net_hdr_default :: virtio_net_hdr where
  "net_hdr_default = \<lparr>nh_flags = 0, nh_gso_type = 0, nh_hdr_len = 0, nh_gso_size = 0,
     nh_csum_start = 0, nh_csum_offset = 0\<rparr>"

text \<open>The size of the packed header.\<close>

definition NET_HDR_SIZE :: nat where
  "NET_HDR_SIZE = 10"

record virtio_net =
  net_device :: u64
  net_irq :: u64
  net_queue :: virt_queue

text \<open>Where the buffers live, and the queue and frame buffer once the wait for the interrupt
  returned.\<close>

record 'd net_env =
  nh_at :: u64
  frame_at :: u64
  net_complete :: "u64 \<Rightarrow> virt_queue \<Rightarrow> virtio_net_hdr \<Rightarrow> u8 list \<Rightarrow> 'd \<Rightarrow> virt_queue \<times> u8 list \<times> 'd"

definition virtio_net_new :: "(string \<Rightarrow> u64 option) \<Rightarrow> virtio_net option" where
  "virtio_net_new env_cap = do {
     device \<leftarrow> env_cap ''virtio_net'';
     irq \<leftarrow> env_cap ''virtio_net_irq'';
     Some \<lparr>net_device = device, net_irq = irq, net_queue = virt_queue_new\<rparr>
   }"

definition send_frame :: "'k ipc_env \<Rightarrow> 'd net_env \<Rightarrow> virtio_net \<Rightarrow> u8 list \<Rightarrow> 'd \<Rightarrow> 'k thread
    \<Rightarrow> ((unit, unit) result \<times> virtio_net \<times> 'd \<times> 'k thread) option" where
  "send_frame K N v frame d t =
     (let header = net_hdr_default;
          q = set_desc 0 \<lparr>desc_addr = nh_at N, desc_len = word_of_nat NET_HDR_SIZE, desc_flags = 0x0002,
                desc_next = 1\<rparr> (net_queue v);
          q = set_desc 1 \<lparr>desc_addr = frame_at N, desc_len = word_of_nat (length frame), desc_flags = 0,
                desc_next = 0\<rparr> q;
          (q, frame, d) = net_complete N (net_device v) (push_avail q) header frame d
      in do {
        t \<leftarrow> await_irq K (net_irq v) t;
        Some (Inr (), v\<lparr>net_queue := q\<rparr>, d, t)
      })"

definition receive_frame :: "'k ipc_env \<Rightarrow> 'd net_env \<Rightarrow> virtio_net \<Rightarrow> u8 list \<Rightarrow> 'd \<Rightarrow> 'k thread
    \<Rightarrow> ((unit, nat) result \<times> virtio_net \<times> u8 list \<times> 'd \<times> 'k thread) option" where
  "receive_frame K N v buf d t =
     (let header = net_hdr_default;
          q = set_desc 0 \<lparr>desc_addr = nh_at N, desc_len = word_of_nat NET_HDR_SIZE, desc_flags = 0x0003,
                desc_next = 1\<rparr> (net_queue v);
          q = set_desc 1 \<lparr>desc_addr = frame_at N, desc_len = word_of_nat (length buf), desc_flags = 0x0001,
                desc_next = 0\<rparr> q;
          (q, buf, d) = net_complete N (net_device v) (push_avail q) header buf d
      in do {
        t \<leftarrow> await_irq K (net_irq v) t;
        let used = vq_used q;
            used_idx = unat (used_idx used - 1) mod QUEUE_SIZE;
            len = unat (used_len (used_ring used ! used_idx))
        in Some (if len < NET_HDR_SIZE then Inl () else Inr (len - NET_HDR_SIZE), v\<lparr>net_queue := q\<rparr>, buf, d, t)
      })"

text \<open>The tokens of the protocol stack; \<open>f\<close> is the closure it passes. Slicing past the end of the
  frame buffer panics (\<open>None\<close>).\<close>

definition rx_consume :: "'k ipc_env \<Rightarrow> 'd net_env \<Rightarrow> virtio_net \<Rightarrow> (u8 list \<Rightarrow> 'r) \<Rightarrow> 'd \<Rightarrow> 'k thread
    \<Rightarrow> ('r \<times> virtio_net \<times> 'd \<times> 'k thread) option" where
  "rx_consume K N v f d t =
     (let buf = replicate 1536 0 in do {
        (r, v, buf, d, t) \<leftarrow> receive_frame K N v buf d t;
        let len = (case r of Inl _ \<Rightarrow> 0 | Inr n \<Rightarrow> n)
        in if length buf < len then None else Some (f (take len buf), v, d, t)
      })"

definition tx_consume :: "'k ipc_env \<Rightarrow> 'd net_env \<Rightarrow> virtio_net \<Rightarrow> nat \<Rightarrow> (u8 list \<Rightarrow> 'r \<times> u8 list) \<Rightarrow> 'd \<Rightarrow> 'k thread
    \<Rightarrow> ('r \<times> virtio_net \<times> 'd \<times> 'k thread) option" where
  "tx_consume K N v len f d t =
     (let (res, buf) = f (replicate len 0) in do {
        (_, v, d, t) \<leftarrow> send_frame K N v buf d t;
        Some (res, v, d, t)
      })"

text \<open>\<open>Device::capabilities\<close>. \<open>receive\<close> and \<open>transmit\<close> hand out tokens unconditionally.\<close>

datatype medium = Ethernet

record device_capabilities =
  max_transmission_unit :: nat
  max_burst_size :: "nat option"
  dev_medium :: medium

definition device_caps :: device_capabilities where
  "device_caps = \<lparr>max_transmission_unit = 1514, max_burst_size = Some 1, dev_medium = Ethernet\<rparr>"

section \<open>The protocol stack\<close>

text \<open>What polling the stack does with the device: it consumes receive tokens, whose frames it looks
  at, and transmit tokens, which it fills, and ends in a new state of the stack.\<close>

datatype 'n dev_prog = PollDone 'n | PollRx "u8 list \<Rightarrow> 'n dev_prog" | PollTx "u8 list" "'n dev_prog"

type_synonym ipv4 = "nat \<times> nat \<times> nat \<times> nat"

type_synonym endpoint = "ipv4 \<times> nat"

text \<open>Sockets by the sizes of their buffers: packet slots and bytes to receive and to send.\<close>

datatype net_socket = UdpSocket nat nat nat nat | TcpSocket nat nat

text \<open>The operations of the library on an interface with its sockets. \<open>None\<close> is a full table.\<close>

record 'n net_stack =
  iface_new :: "u8 list \<Rightarrow> device_capabilities \<Rightarrow> nat \<Rightarrow> 'n"
  push_ip_addr :: "ipv4 \<Rightarrow> nat \<Rightarrow> 'n \<Rightarrow> 'n option"
  add_default_route :: "ipv4 \<Rightarrow> 'n \<Rightarrow> 'n option"
  socket_set :: "nat \<Rightarrow> 'n \<Rightarrow> 'n"
  socket_add :: "net_socket \<Rightarrow> 'n \<Rightarrow> (nat \<times> 'n) option"
  iface_poll :: "'n \<Rightarrow> 'n dev_prog"
  udp_send :: "nat \<Rightarrow> u8 list \<Rightarrow> endpoint \<Rightarrow> 'n \<Rightarrow> 'n"
  udp_recv :: "nat \<Rightarrow> 'n \<Rightarrow> u8 list option \<times> 'n"
  tcp_is_open :: "nat \<Rightarrow> 'n \<Rightarrow> bool"
  tcp_connect :: "nat \<Rightarrow> endpoint \<Rightarrow> nat \<Rightarrow> 'n \<Rightarrow> 'n"
  tcp_send :: "nat \<Rightarrow> u8 list \<Rightarrow> 'n \<Rightarrow> 'n"
  tcp_recv_slice :: "nat \<Rightarrow> nat \<Rightarrow> 'n \<Rightarrow> nat option \<times> 'n"

primrec run_poll :: "'k ipc_env \<Rightarrow> 'd net_env \<Rightarrow> 'n dev_prog \<Rightarrow> virtio_net \<Rightarrow> 'd \<Rightarrow> 'k thread
    \<Rightarrow> ('n \<times> virtio_net \<times> 'd \<times> 'k thread) option" where
  "run_poll K N (PollDone n) v d t = Some (n, v, d, t)"
| "run_poll K N (PollRx f) v d t =
     Option.bind (rx_consume K N v (\<lambda>frame. frame) d t) (\<lambda>(frame, v, d, t). run_poll K N (f frame) v d t)"
| "run_poll K N (PollTx frame p) v d t =
     Option.bind (tx_consume K N v (length frame) (\<lambda>buf. ((), frame)) d t) (\<lambda>(_, v, d, t). run_poll K N p v d t)"

section \<open>The request loop\<close>

record ('n, 'd) net_state =
  ns_stack :: 'n
  ns_net :: virtio_net
  ns_dev :: 'd
  udp_handle :: nat
  tcp_handle :: nat

definition net_mac :: "u8 list" where
  "net_mac = [0x52, 0x54, 0x00, 0x12, 0x34, 0x56]"

definition net_ip :: ipv4 where "net_ip = (10, 0, 2, 15)"
definition net_gateway :: ipv4 where "net_gateway = (10, 0, 2, 2)"

definition net_peer :: endpoint where
  "net_peer = ((10, 0, 2, 2), 80)"

text \<open>Interface, address, route and the two sockets; full tables panic.\<close>

definition net_setup :: "'n net_stack \<Rightarrow> virtio_net \<Rightarrow> 'd \<Rightarrow> ('n, 'd) net_state option" where
  "net_setup S v d = do {
     n \<leftarrow> push_ip_addr S net_ip 24 (iface_new S net_mac device_caps 0);
     n \<leftarrow> add_default_route S net_gateway n;
     (udp, n) \<leftarrow> socket_add S (UdpSocket 4 512 4 512) (socket_set S 2 n);
     (tcp, n) \<leftarrow> socket_add S (TcpSocket 1024 1024) n;
     Some \<lparr>ns_stack = n, ns_net = v, ns_dev = d, udp_handle = udp, tcp_handle = tcp\<rparr>
   }"

definition net_poll :: "'k ipc_env \<Rightarrow> 'd net_env \<Rightarrow> 'n net_stack \<Rightarrow> 'k thread \<Rightarrow> ('n, 'd) net_state
    \<Rightarrow> ('k thread \<times> ('n, 'd) net_state) option" where
  "net_poll K N S t st = do {
     (n, v, d, t) \<leftarrow> run_poll K N (iface_poll S (ns_stack st)) (ns_net st) (ns_dev st) t;
     Some (t, st\<lparr>ns_stack := n, ns_net := v, ns_dev := d\<rparr>)
   }"

text \<open>The operations of the protocol, after polling.\<close>

definition net_op :: "'n net_stack \<Rightarrow> utcb \<Rightarrow> ('n, 'd) net_state \<Rightarrow> utcb \<times> ('n, 'd) net_state" where
  "net_op S u st =
     (let n = ns_stack st; opc = get_mr u 0 in
      if opc = 0 then (set_mr u 0 0, st\<lparr>ns_stack := udp_send S (udp_handle st) [] net_peer n\<rparr>)
      else if opc = 1 then
        let (r, n) = udp_recv S (udp_handle st) n
        in (set_mr u 0 (word_of_nat (case r of Some p \<Rightarrow> length p | None \<Rightarrow> 0)), st\<lparr>ns_stack := n\<rparr>)
      else if opc = 2 then
        (set_mr u 0 0, st\<lparr>ns_stack := if \<not> tcp_is_open S (tcp_handle st) n
           then tcp_connect S (tcp_handle st) net_peer 49500 n else n\<rparr>)
      else if opc = 3 then (set_mr u 0 0, st\<lparr>ns_stack := tcp_send S (tcp_handle st) [] n\<rparr>)
      else if opc = 4 then
        let (r, n) = tcp_recv_slice S (tcp_handle st) 512 n
        in (set_mr u 0 (word_of_nat (case r of Some k \<Rightarrow> k | None \<Rightarrow> 0)), st\<lparr>ns_stack := n\<rparr>)
      else (set_mr u 0 (- 1), st))"

text \<open>The operation is read from the registers once the poll is over.\<close>

definition net_dispatch :: "'k ipc_env \<Rightarrow> 'd net_env \<Rightarrow> 'n net_stack \<Rightarrow> 'k thread \<Rightarrow> ('n, 'd) net_state
    \<Rightarrow> ('k thread \<times> ('n, 'd) net_state) option" where
  "net_dispatch K N S t st = do {
     ((u, k), st) \<leftarrow> net_poll K N S t st;
     let (u, st) = net_op S u st in Some ((u, k), st)
   }"

definition net_reply_words :: nat where
  "net_reply_words = 1"

text \<open>Rounds of the loop, from the tag of the last wait on; each ends with the next wait.\<close>

primrec net_loop :: "'k ipc_env \<Rightarrow> 'd net_env \<Rightarrow> 'n net_stack \<Rightarrow> nat \<Rightarrow> u64 \<times> 'k thread \<Rightarrow> ('n, 'd) net_state
    \<Rightarrow> ((u64 \<times> 'k thread) \<times> ('n, 'd) net_state) option" where
  "net_loop K N S 0 et st = Some (et, st)"
| "net_loop K N S (Suc n) et st =
     (case et of (err, t) \<Rightarrow>
        if err \<noteq> 0 then do { et \<leftarrow> ipc_wait K t; net_loop K N S n et st }
        else do {
          (t, st) \<leftarrow> net_dispatch K N S t st;
          et \<leftarrow> ipc_reply_and_wait K net_reply_words t;
          net_loop K N S n et st
        })"

text \<open>\<open>run\<close> panics without the gate, when binding it under the label of the source fails, without a
  device, or when the stack cannot be set up. \<open>t\<close> is the thread once the gate is bound.\<close>

definition net_gatelabel :: u64 where
  "net_gatelabel = 0b11110000"

definition net_run :: "'k ipc_env \<Rightarrow> 'd net_env \<Rightarrow> 'n net_stack \<Rightarrow> (string \<Rightarrow> u64 option) \<Rightarrow> (u64 \<Rightarrow> u64 \<Rightarrow> u64)
    \<Rightarrow> nat \<Rightarrow> 'd \<Rightarrow> 'k thread \<Rightarrow> ((u64 \<times> 'k thread) \<times> ('n, 'd) net_state) option" where
  "net_run K N S env_cap bind_error n d t = do {
     gate \<leftarrow> env_cap ''global_net'';
     (if bind_error gate net_gatelabel \<noteq> 0 then None
      else do {
        v \<leftarrow> virtio_net_new env_cap;
        st \<leftarrow> net_setup S v d;
        et \<leftarrow> ipc_wait K t;
        net_loop K N S n et st
      })
   }"

section \<open>The client library\<close>

definition OP_OPEN :: u64 where "OP_OPEN = 0"
definition OP_SEND :: u64 where "OP_SEND = 1"
definition OP_RECV :: u64 where "OP_RECV = 2"
definition OP_CLOSE :: u64 where "OP_CLOSE = 3"

record net_client =
  nc_gate :: u64

text \<open>An IPC call: the gate, the caller's UTCB and the number of words of the tag; it returns the
  error of the reply tag and the caller's UTCB after the call.\<close>

type_synonym 'w ipc_call = "u64 \<Rightarrow> utcb \<Rightarrow> nat \<Rightarrow> 'w \<Rightarrow> (i32 \<times> utcb) \<times> 'w"

definition client_new :: "(string \<Rightarrow> u64 option) \<Rightarrow> net_client option" where
  "client_new env_cap = map_option (\<lambda>gate. \<lparr>nc_gate = gate\<rparr>) (env_cap ''global_net'')"

definition open_socket :: "'w ipc_call \<Rightarrow> net_client \<Rightarrow> utcb \<Rightarrow> 'w \<Rightarrow> (i32, u64) result \<times> utcb \<times> 'w" where
  "open_socket call c u w =
     (let u = set_mr (set_mr u 0 OP_OPEN) 1 0;
          ((err, u), w) = call (nc_gate c) u 2 w
      in (if err \<noteq> 0 then Inl err else Inr (get_mr u 0), u, w))"

definition client_send :: "'w ipc_call \<Rightarrow> net_client \<Rightarrow> u64 \<Rightarrow> u64 \<Rightarrow> utcb \<Rightarrow> 'w
    \<Rightarrow> (i32, unit) result \<times> utcb \<times> 'w" where
  "client_send call c handle wd u w =
     (let u = set_mr (set_mr (set_mr u 0 OP_SEND) 1 handle) 2 wd;
          ((err, u), w) = call (nc_gate c) u 3 w
      in (if err \<noteq> 0 then Inl err else Inr (), u, w))"

definition client_recv :: "'w ipc_call \<Rightarrow> net_client \<Rightarrow> u64 \<Rightarrow> utcb \<Rightarrow> 'w
    \<Rightarrow> (i32, u64) result \<times> utcb \<times> 'w" where
  "client_recv call c handle u w =
     (let u = set_mr (set_mr u 0 OP_RECV) 1 handle;
          ((err, u), w) = call (nc_gate c) u 2 w
      in (if err \<noteq> 0 then Inl err else Inr (get_mr u 0), u, w))"

definition client_close :: "'w ipc_call \<Rightarrow> net_client \<Rightarrow> u64 \<Rightarrow> utcb \<Rightarrow> 'w
    \<Rightarrow> (i32, unit) result \<times> utcb \<times> 'w" where
  "client_close call c handle u w =
     (let u = set_mr (set_mr u 0 OP_CLOSE) 1 handle;
          ((err, u), w) = call (nc_gate c) u 2 w
      in (if err \<noteq> 0 then Inl err else Inr (), u, w))"

section \<open>Properties\<close>

text \<open>A call that the server takes in: the words the tag counts arrive in the registers of its thread, and
  the reply tag counts one word.\<close>

definition served_call :: "'k ipc_env \<Rightarrow> 'd net_env \<Rightarrow> 'n net_stack \<Rightarrow> i32 \<Rightarrow> ('k thread \<times> ('n, 'd) net_state) ipc_call" where
  "served_call K N S dead gate u words w =
     (case w of ((srv, k), st) \<Rightarrow>
        case net_dispatch K N S (deliver words u srv, k) st of
          None \<Rightarrow> ((dead, u), w)
        | Some ((srv, k), st) \<Rightarrow> ((0, deliver net_reply_words srv u), ((srv, k), st)))"

text \<open>
  The client library and the server disagree on the operation codes, even if the poll handles no frame: opening a
  socket sends an empty UDP datagram to the fixed peer and reports handle 0; receiving opens the TCP connection
  and reports 0 bytes; closing sends an empty TCP segment. None of them opens, receives or closes.
\<close>

theorem net_protocol_mismatch:
  assumes "wf_utcb b u" and "wf_utcb c srv" and "iface_poll S (ns_stack st) = PollDone n"
    and "\<not> tcp_is_open S (tcp_handle st) n"
  shows "fst (open_socket (served_call K N S dead) cl u ((srv, k), st)) = Inr 0 \<and>
    snd (snd (snd (open_socket (served_call K N S dead) cl u ((srv, k), st)))) =
      st\<lparr>ns_stack := udp_send S (udp_handle st) [] net_peer n\<rparr> \<and>
    fst (client_recv (served_call K N S dead) cl h u ((srv, k), st)) = Inr 0 \<and>
    snd (snd (snd (client_recv (served_call K N S dead) cl h u ((srv, k), st)))) =
      st\<lparr>ns_stack := tcp_connect S (tcp_handle st) net_peer 49500 n\<rparr> \<and>
    fst (client_close (served_call K N S dead) cl h u ((srv, k), st)) = Inr () \<and>
    snd (snd (snd (client_close (served_call K N S dead) cl h u ((srv, k), st)))) =
      st\<lparr>ns_stack := tcp_send S (tcp_handle st) [] n\<rparr>"
proof -
  have len: "4 \<le> length (utcb_mr u)" "4 \<le> length (utcb_mr srv)"
    using assms(1,2) by (simp_all add: wf_utcb_def)
  then have ne: "utcb_mr u \<noteq> []" "utcb_mr srv \<noteq> []" "Suc 0 < length (utcb_mr u)"
    using len by auto
  have m0: "get_mr (deliver 2 (set_mr (set_mr u 0 a) 1 b) srv) 0 = a" for a b
    using len ne by (simp add: get_mr_deliver)
  have nw: "net_reply_words = 1"
    by (simp add: net_reply_words_def)
  have reply: "get_mr (deliver 1 (set_mr (deliver 2 (set_mr (set_mr u 0 a) 1 b) srv) 0 v) x) 0 = v" for a b v x
    using len ne by (simp add: get_mr_deliver Suc_le_eq)
  have poll: "net_poll K N S t st = Some (t, st\<lparr>ns_stack := n\<rparr>)" for t
    by (simp add: net_poll_def assms(3))
  show ?thesis
    using assms(4) m0 reply
    by (simp add: open_socket_def client_recv_def client_close_def served_call_def net_dispatch_def net_op_def poll
        OP_OPEN_def OP_RECV_def OP_CLOSE_def nw Let_def)
qed

text \<open>
  The receive path trusts the length the device reports: a frame is handed to the protocol
  stack exactly when that length is at most 1546, the frame buffer and the header together, and a
  larger one panics the server; a length shorter than the header yields an empty frame.
\<close>

theorem rx_consume_panics:
  assumes "receive_frame K N v (replicate 1536 0) d t = Some (r, v', buf, d', t')" and "length buf = 1536"
    and "len = unat (used_len (used_ring (vq_used (net_queue v')) !
      (unat (used_idx (vq_used (net_queue v')) - 1) mod QUEUE_SIZE)))"
  shows "rx_consume K N v f d t =
    (if 1546 < len then None
     else Some (f (if len < 10 then [] else take (len - 10) buf), v', d', t'))"
proof -
  have "r = (if len < 10 then Inl () else Inr (len - 10))"
    using assms(1,3) by (auto simp: receive_frame_def Let_def NET_HDR_SIZE_def bind_eq_Some_conv split: prod.splits)
  then show ?thesis
    using assms(1,2) by (auto simp: rx_consume_def Let_def)
qed

section \<open>Requests taken in while the stack is polled\<close>

text \<open>A thread whose waits all end at once, leave the registers alone and are counted.\<close>

definition counting_kernel :: "nat ipc_env" where
  "counting_kernel = \<lparr>ipc_receive = (\<lambda>irq t. Some (0, t)), ipc_wait = (\<lambda>(u, c). Some (0, (u, Suc c))),
     ipc_reply_and_wait = (\<lambda>n t. Some (0, t))\<rparr>"

lemma count_await: "await_irq counting_kernel irq (u, c) = Some (u, Suc c)"
  by (simp add: await_irq_def counting_kernel_def)

text \<open>A frame takes one wait; nothing else of it depends on the thread.\<close>

lemma rx_counted:
  assumes "rx_consume counting_kernel N v f d (u, c) = Some (x, v', d', t')"
  shows "t' = (u, Suc c) \<and> net_irq v' = net_irq v \<and>
    (\<forall>t. rx_consume K N v f d t = map_option (\<lambda>t. (x, v', d', t)) (await_irq K (net_irq v) t))"
  using assms
  by (auto simp: rx_consume_def receive_frame_def Let_def count_await map_conv_bind_option comp_def split: prod.splits if_splits)

lemma tx_counted:
  assumes "tx_consume counting_kernel N v len f d (u, c) = Some (x, v', d', t')"
  shows "t' = (u, Suc c) \<and> net_irq v' = net_irq v \<and>
    (\<forall>t. tx_consume K N v len f d t = map_option (\<lambda>t. (x, v', d', t)) (await_irq K (net_irq v) t))"
  using assms
  by (auto simp: tx_consume_def send_frame_def Let_def count_await map_conv_bind_option comp_def split: prod.splits)

lemma poll_counted:
  "run_poll counting_kernel N p v d (u, c) = Some (n, v', d', t') \<Longrightarrow>
   \<exists>m. t' = (u, c + m) \<and> (\<forall>t. run_poll K N p v d t = map_option (\<lambda>t. (n, v', d', t)) (awaits K (net_irq v) m t))"
proof (induction p arbitrary: v d c)
  case (PollDone x)
  then show ?case
    by (intro exI [of _ 0]) simp
next
  case (PollRx f)
  then obtain x v1 d1 t1 where rx: "rx_consume counting_kernel N v (\<lambda>frame. frame) d (u, c) = Some (x, v1, d1, t1)"
    and rest: "run_poll counting_kernel N (f x) v1 d1 t1 = Some (n, v', d', t')"
    by (auto simp: bind_eq_Some_conv)
  note one = rx_counted [OF rx, of K]
  then obtain m where m: "t' = (u, Suc c + m)"
    "\<And>t. run_poll K N (f x) v1 d1 t = map_option (\<lambda>t. (n, v', d', t)) (awaits K (net_irq v) m t)"
    using PollRx.IH [OF rangeI, of x v1 d1 "Suc c"] rest by auto
  have "run_poll K N (PollRx f) v d t = map_option (\<lambda>t. (n, v', d', t)) (awaits K (net_irq v) (Suc m) t)" for t
    using one m(2) by (cases t; cases "await_irq K (net_irq v) t") simp_all
  then show ?case
    using m(1) by (intro exI [of _ "Suc m"]) simp
next
  case (PollTx frame p)
  then obtain x v1 d1 t1 where tx: "tx_consume counting_kernel N v (length frame) (\<lambda>buf. ((), frame)) d (u, c) = Some (x, v1, d1, t1)"
    and rest: "run_poll counting_kernel N p v1 d1 t1 = Some (n, v', d', t')"
    by (auto simp: bind_eq_Some_conv)
  note one = tx_counted [OF tx, of K]
  then obtain m where m: "t' = (u, Suc c + m)"
    "\<And>t. run_poll K N p v1 d1 t = map_option (\<lambda>t. (n, v', d', t)) (awaits K (net_irq v) m t)"
    using PollTx.IH [of v1 d1 "Suc c"] rest by auto
  have "run_poll K N (PollTx frame p) v d t = map_option (\<lambda>t. (n, v', d', t)) (awaits K (net_irq v) (Suc m) t)" for t
    using one m(2) by (cases t; cases "await_irq K (net_irq v) t") simp_all
  then show ?case
    using m(1) by (intro exI [of _ "Suc m"]) simp
qed


text \<open>A stack that records what it is asked to do and reads and sends one frame per poll; a device that
  delivers frames of the length it is given.\<close>

definition demo_stack :: "string list net_stack" where
  "demo_stack = \<lparr>iface_new = (\<lambda>_ _ _. []), push_ip_addr = (\<lambda>_ _. Some), add_default_route = (\<lambda>_. Some),
     socket_set = (\<lambda>_ l. l), socket_add = (\<lambda>s l. Some (case s of UdpSocket a b c d \<Rightarrow> 0 | TcpSocket a b \<Rightarrow> 1, l)),
     iface_poll = (\<lambda>l. PollRx (\<lambda>f. PollTx [1, 2] (PollDone l))), udp_send = (\<lambda>_ _ _ l. l @ [''udp'']),
     udp_recv = (\<lambda>_ l. (None, l)), tcp_is_open = (\<lambda>_ l. ''connect'' \<in> set l),
     tcp_connect = (\<lambda>_ _ _ l. l @ [''connect'']), tcp_send = (\<lambda>_ _ l. l @ [''tcp'']),
     tcp_recv_slice = (\<lambda>_ _ l. (Some 0, l))\<rparr>"

definition demo_net_env :: "u32 \<Rightarrow> nat net_env" where
  "demo_net_env len = \<lparr>nh_at = 0, frame_at = 64, net_complete = (\<lambda>_ q _ buf d.
     (q\<lparr>vq_used := (vq_used q)\<lparr>used_idx := 1, used_ring := replicate QUEUE_SIZE \<lparr>used_id = 0, used_len = len\<rparr>\<rparr>\<rparr>,
      buf, Suc d))\<rparr>"

definition demo_net_state :: "(string list, nat) net_state" where
  "demo_net_state = \<lparr>ns_stack = [], ns_net = \<lparr>net_device = 1, net_irq = 2, net_queue = virt_queue_new\<rparr>,
     ns_dev = 0, udp_handle = 0, tcp_handle = 1\<rparr>"

lemma demo_poll:
  "\<exists>v. run_poll counting_kernel (demo_net_env 60) (iface_poll demo_stack (ns_stack demo_net_state)) (ns_net demo_net_state)
      (ns_dev demo_net_state) (u, 0) = Some ([], v, 2, (u, Suc (Suc 0)))"
  by (simp add: demo_stack_def demo_net_state_def rx_consume_def tx_consume_def receive_frame_def send_frame_def count_await
      demo_net_env_def Let_def NET_HDR_SIZE_def virt_queue_new_def set_desc_def push_avail_def QUEUE_SIZE_def)


end
