(* ===== verification/C_Layout.thy ===== *)
theory C_Layout
  imports Net_Server
begin

text \<open>
  The structures the Rust side shares with C and with devices: \<open>epoll_event\<close>, \<open>signalfd_siginfo\<close> and
  \<open>inotify_event\<close> with the flag constants of \<open>crates/l4re-libc/src/lib.rs\<close>, the virtqueue of
  \<open>src/virtio_frontend/src/queue.rs\<close> and \<open>src/net_server/src/virtio.rs\<close>, and the request headers.
  They are declared \<open>repr(C)\<close> or \<open>repr(C, packed)\<close>; the layout rules of these representations are
  part of the language and written out here. Values are read and written field by field.
\<close>

section \<open>Layout\<close>

text \<open>A primitive type is aligned to its size; a structure may be packed.\<close>

datatype c_type = CPrim nat | CArray c_type nat | CStruct bool "c_type list" | CUnion "c_type list"

definition round_up :: "nat \<Rightarrow> nat \<Rightarrow> nat" where
  "round_up n a = (n + a - 1) div a * a"

text \<open>The offsets of fields given by size and alignment, and the end of the last.\<close>

fun place_fields :: "bool \<Rightarrow> nat \<Rightarrow> (nat \<times> nat) list \<Rightarrow> nat list \<times> nat" where
  "place_fields packed pos [] = ([], pos)"
| "place_fields packed pos ((s, a) # fs) =
     (let off = (if packed then pos else round_up pos a);
          (offs, e) = place_fields packed (off + s) fs
      in (off # offs, e))"

fun c_align :: "c_type \<Rightarrow> nat" where
  "c_align (CPrim n) = n"
| "c_align (CArray t n) = c_align t"
| "c_align (CStruct packed ts) = (if packed then 1 else foldr max (map c_align ts) 1)"
| "c_align (CUnion ts) = foldr max (map c_align ts) 1"

fun c_size :: "c_type \<Rightarrow> nat" where
  "c_size (CPrim n) = n"
| "c_size (CArray t n) = n * c_size t"
| "c_size (CStruct packed ts) =
     (let e = snd (place_fields packed 0 (zip (map c_size ts) (map c_align ts)))
      in round_up e (c_align (CStruct packed ts)))"
| "c_size (CUnion ts) = round_up (foldr max (map c_size ts) 0) (c_align (CUnion ts))"

fun c_offsets :: "c_type \<Rightarrow> nat list" where
  "c_offsets (CStruct packed ts) = fst (place_fields packed 0 (zip (map c_size ts) (map c_align ts)))"
| "c_offsets (CUnion ts) = map (\<lambda>_. 0) ts"
| "c_offsets t = []"

fun c_fields :: "c_type \<Rightarrow> c_type list" where
  "c_fields (CStruct packed ts) = ts"
| "c_fields (CUnion ts) = ts"
| "c_fields t = []"

text \<open>A value of a structure: its fields stored into zeroed memory, and one field read back.\<close>

definition store_fields :: "c_type \<Rightarrow> u8 list list \<Rightarrow> u8 list" where
  "store_fields t vs = fold (\<lambda>(off, v) m. overwrite m off v) (zip (c_offsets t) vs) (replicate (c_size t) 0)"

definition load_field :: "c_type \<Rightarrow> nat \<Rightarrow> u8 list \<Rightarrow> u8 list" where
  "load_field t i bs = slice bs (c_offsets t ! i) (c_size (c_fields t ! i))"

section \<open>The structures\<close>

abbreviation (input) u8_t :: c_type where "u8_t \<equiv> CPrim 1"
abbreviation (input) u16_t :: c_type where "u16_t \<equiv> CPrim 2"
abbreviation (input) u32_t :: c_type where "u32_t \<equiv> CPrim 4"
abbreviation (input) u64_t :: c_type where "u64_t \<equiv> CPrim 8"

text \<open>\<open>c_int\<close> has 4 bytes, pointers have 8.\<close>

definition epoll_data_t :: c_type where
  "epoll_data_t = CUnion [u64_t, u32_t, u32_t, u64_t]"

definition epoll_event :: c_type where
  "epoll_event = CStruct False [u32_t, epoll_data_t]"

definition signalfd_siginfo :: c_type where
  "signalfd_siginfo = CStruct False
     [u32_t, u32_t, u32_t, u32_t, u32_t, u32_t, u32_t, u32_t, u32_t, u32_t, u32_t, u32_t,
      u64_t, u64_t, u64_t, u64_t, u16_t, u16_t, u32_t, u64_t, u32_t, CArray u8_t 28]"

definition inotify_event :: c_type where
  "inotify_event = CStruct False [u32_t, u32_t, u32_t, u32_t, CArray u8_t 0]"

definition VirtqDesc :: c_type where
  "VirtqDesc = CStruct False [u64_t, u32_t, u16_t, u16_t]"

definition VirtqAvail :: c_type where
  "VirtqAvail = CStruct False [u16_t, u16_t, CArray u16_t QUEUE_SIZE, u16_t]"

definition VirtqUsedElem :: c_type where
  "VirtqUsedElem = CStruct False [u32_t, u32_t]"

definition VirtqUsed :: c_type where
  "VirtqUsed = CStruct False [u16_t, u16_t, CArray VirtqUsedElem QUEUE_SIZE, u16_t]"

definition VirtioBlkReq :: c_type where
  "VirtioBlkReq = CStruct False [u32_t, u32_t, u64_t]"

definition VirtioNetHdr :: c_type where
  "VirtioNetHdr = CStruct True [u8_t, u8_t, u16_t, u16_t, u16_t, u16_t]"

section \<open>Flags\<close>

text \<open>Events of a watch and event bits of epoll, in the order of the source.\<close>

definition IN_events :: "u32 list" where
  "IN_events = [0x00000001, 0x00000002, 0x00000004, 0x00000008, 0x00000010, 0x00000020, 0x00000040, 0x00000080,
     0x00000100, 0x00000200, 0x00000400, 0x00000800]"

definition IN_flags :: "u32 list" where
  "IN_flags = [0x00002000, 0x00004000, 0x00008000, 0x01000000, 0x02000000, 0x04000000, 0x20000000, 0x40000000, 0x80000000]"

definition IN_ALL_EVENTS :: u32 where
  "IN_ALL_EVENTS = foldr or IN_events 0"

definition EPOLL_bits :: "u32 list" where
  "EPOLL_bits = [0x001, 0x002, 0x004, 0x040, 0x080, 0x100, 0x200, 0x400, 0x008, 0x010, 0x2000,
     push_bit 28 1, push_bit 29 1, push_bit 30 1, push_bit 31 1]"

text \<open>Creation flags of the descriptors: the own flags of event descriptors and timers, and what all
  kinds call \<open>CLOEXEC\<close> and \<open>NONBLOCK\<close> (octal 2000000 and 4000).\<close>

definition EFD_SEMAPHORE :: i32 where
  "EFD_SEMAPHORE = 1"

definition TFD_TIMER_ABSTIME :: i32 where
  "TFD_TIMER_ABSTIME = 1"

definition TFD_TIMER_CANCEL_ON_SET :: i32 where
  "TFD_TIMER_CANCEL_ON_SET = 2"

definition FD_CLOEXEC_flags :: "i32 list" where
  "FD_CLOEXEC_flags = replicate 4 (word_of_nat (2 * 8 ^ 6))"

definition FD_NONBLOCK_flags :: "i32 list" where
  "FD_NONBLOCK_flags = replicate 4 (word_of_nat (4 * 8 ^ 3))"

section \<open>Layout rules\<close>

lemma round_up_ge: "0 < a \<Longrightarrow> n \<le> round_up n a"
  unfolding round_up_def using dividend_less_div_times [of a "n + a - 1"] by linarith

lemma round_up_dvd [simp]: "a dvd round_up n a"
  by (simp add: round_up_def)

lemma round_up_1 [simp]: "round_up n 1 = n" "round_up n (Suc 0) = n"
  by (simp_all add: round_up_def)

lemma length_place_fields [simp]: "length (fst (place_fields packed pos fs)) = length fs"
  by (induction packed pos fs rule: place_fields.induct) (auto simp: Let_def split: prod.splits)

text \<open>Fields are placed one behind the other.\<close>

lemma place_fields_between:
  assumes "packed \<or> (\<forall>f \<in> set fs. 0 < snd f)" and "i < length fs"
  shows "pos \<le> fst (place_fields packed pos fs) ! i \<and>
    fst (place_fields packed pos fs) ! i + fst (fs ! i) \<le> snd (place_fields packed pos fs)"
  using assms
proof (induction packed pos fs arbitrary: i rule: place_fields.induct)
  case (2 packed pos s a fs)
  define off where "off = (if packed then pos else round_up pos a)"
  have off: "pos \<le> off"
    using 2(2) round_up_ge [of a pos] by (auto simp: off_def)
  have IH: "off + s \<le> fst (place_fields packed (off + s) fs) ! j \<and>
      fst (place_fields packed (off + s) fs) ! j + fst (fs ! j) \<le> snd (place_fields packed (off + s) fs)" if "j < length fs" for j
    using 2(1) [OF off_def _ that] 2(2) by auto
  have "off + s \<le> snd (place_fields packed (off + s) fs)"
    using IH [of 0] by (cases fs) auto
  then show ?case
    using 2(3) off IH [of "i - 1"] by (cases i) (auto simp: Let_def off_def [symmetric] split: prod.splits)
qed simp

lemma place_fields_apart:
  assumes "packed \<or> (\<forall>f \<in> set fs. 0 < snd f)" and "i < j" and "j < length fs"
  shows "fst (place_fields packed pos fs) ! i + fst (fs ! i) \<le> fst (place_fields packed pos fs) ! j"
  using assms
proof (induction packed pos fs arbitrary: i j rule: place_fields.induct)
  case (2 packed pos s a fs)
  define off where "off = (if packed then pos else round_up pos a)"
  obtain k where j: "j = Suc k" "k < length fs"
    using 2(3,4) by (cases j) auto
  have p: "packed \<or> (\<forall>f \<in> set fs. 0 < snd f)"
    using 2(2) by auto
  show ?case
    using place_fields_between [OF p j(2), of "off + s"] 2(1) [OF off_def p, of "i - 1" k] 2(3) j
    by (cases i) (auto simp: Let_def off_def [symmetric] split: prod.splits)
qed simp

lemma place_fields_aligned:
  "\<not> packed \<Longrightarrow> i < length fs \<Longrightarrow> snd (fs ! i) dvd fst (place_fields packed pos fs) ! i"
proof (induction packed pos fs arbitrary: i rule: place_fields.induct)
  case (2 packed pos s a fs)
  then show ?case
    by (cases i) (auto simp: Let_def split: prod.splits)
qed simp

text \<open>Types without primitives of size 0.\<close>

fun c_wf :: "c_type \<Rightarrow> bool" where
  "c_wf (CPrim n) = (0 < n)"
| "c_wf (CArray t n) = c_wf t"
| "c_wf (CStruct packed ts) = list_all c_wf ts"
| "c_wf (CUnion ts) = list_all c_wf ts"

lemma foldr_max_ge: "b \<le> foldr max ns b" for b :: nat
  by (induction ns) auto

lemma c_align_pos: "c_wf t \<Longrightarrow> 0 < c_align t"
  by (induction t) (auto intro: less_le_trans [OF _ foldr_max_ge])

lemma c_align_dvd_size: "c_align t dvd c_size t"
  by (induction t) (simp_all add: Let_def del: c_align.simps(3,4))

lemma struct_offsets:
  assumes "c_wf (CStruct packed ts)" and "j < length ts"
  shows "c_offsets (CStruct packed ts) ! j + c_size (ts ! j) \<le> c_size (CStruct packed ts)"
    and "i < j \<Longrightarrow> c_offsets (CStruct packed ts) ! i + c_size (ts ! i) \<le> c_offsets (CStruct packed ts) ! j"
    and "packed \<or> c_align (ts ! j) dvd c_offsets (CStruct packed ts) ! j"
proof -
  let ?fs = "zip (map c_size ts) (map c_align ts)"
  have pos: "packed \<or> (\<forall>f \<in> set ?fs. 0 < snd f)"
    using assms(1) c_align_pos by (auto simp: list_all_iff dest!: set_zip_rightD)
  have "0 < c_align (CStruct packed ts)"
    using c_align_pos [OF assms(1)] .
  then have "snd (place_fields packed 0 ?fs) \<le> c_size (CStruct packed ts)"
    using round_up_ge by (simp add: Let_def del: c_align.simps)
  then show "c_offsets (CStruct packed ts) ! j + c_size (ts ! j) \<le> c_size (CStruct packed ts)"
    using place_fields_between [OF pos, of j 0] assms(2) by simp
  show "packed \<or> c_align (ts ! j) dvd c_offsets (CStruct packed ts) ! j"
    using place_fields_aligned [of packed j ?fs 0] assms(2) by (cases packed) auto
  show "c_offsets (CStruct packed ts) ! i + c_size (ts ! i) \<le> c_offsets (CStruct packed ts) ! j" if "i < j"
    using place_fields_apart [OF pos that, of 0] assms(2) that by simp
qed

text \<open>Stores to places apart from each other.\<close>

lemma slice_stores:
  assumes "\<forall>(off, v) \<in> set ps. i + n \<le> off \<and> off + length v \<le> length m"
  shows "slice (fold (\<lambda>(off, v) m. overwrite m off v) ps m) i n = slice m i n"
  using assms
proof (induction ps arbitrary: m)
  case (Cons p ps)
  then show ?case
    by (cases p) (simp add: slice_overwrite_before)
qed simp

lemma slice_store_nth:
  assumes "sorted_wrt (\<lambda>(o1, v1) (o2, v2). o1 + length v1 \<le> o2) ps"
    and "\<forall>(off, v) \<in> set ps. off + length v \<le> length m" and "k < length ps"
  shows "slice (fold (\<lambda>(off, v) m. overwrite m off v) ps m) (fst (ps ! k)) (length (snd (ps ! k))) = snd (ps ! k)"
  using assms
proof (induction ps arbitrary: m k)
  case (Cons p ps)
  obtain off v where p: "p = (off, v)"
    by (cases p)
  show ?case
  proof (cases k)
    case 0
    then show ?thesis
      using Cons.prems slice_stores [of ps off "length v" "overwrite m off v"] by (fastforce simp: p buf_simps)
  next
    case (Suc l)
    then show ?thesis
      using Cons.IH [of "overwrite m off v" l] Cons.prems by (simp add: p)
  qed
qed simp

text \<open>Every field that is stored is loaded again.\<close>

lemma struct_store_load:
  assumes "c_wf (CStruct packed ts)" and "map length vs = map c_size ts" and "k < length ts"
  shows "load_field (CStruct packed ts) k (store_fields (CStruct packed ts) vs) = vs ! k"
proof -
  let ?t = "CStruct packed ts" and ?ps = "zip (c_offsets (CStruct packed ts)) vs"
  have len: "length vs = length ts" "length (c_offsets ?t) = length ts"
    using map_eq_imp_length_eq [OF assms(2)] by simp_all
  have size: "length (vs ! i) = c_size (ts ! i)" if "i < length ts" for i
    using that assms(2) len by (metis nth_map)
  have "sorted_wrt (\<lambda>(o1, v1) (o2, v2). o1 + length v1 \<le> o2) ?ps"
    unfolding sorted_wrt_iff_nth_less using struct_offsets(2) [OF assms(1)] len size by (simp del: c_offsets.simps)
  moreover have "\<forall>(off, v) \<in> set ?ps. off + length v \<le> length (replicate (c_size ?t) (0 :: u8))"
    using struct_offsets(1) [OF assms(1)] len size by (auto simp: set_zip simp del: c_offsets.simps c_size.simps)
  ultimately show ?thesis
    using slice_store_nth [of ?ps "replicate (c_size ?t) 0" k] len size assms(3)
    by (simp add: load_field_def store_fields_def del: c_offsets.simps c_size.simps)
qed

section \<open>Properties\<close>

definition shared_structs :: "c_type list" where
  "shared_structs = [epoll_event, signalfd_siginfo, inotify_event, VirtqDesc, VirtqAvail, VirtqUsedElem, VirtqUsed,
     VirtioBlkReq, VirtioNetHdr]"

lemmas shared_defs = epoll_event_def epoll_data_t_def signalfd_siginfo_def inotify_event_def VirtqDesc_def VirtqAvail_def
  VirtqUsedElem_def VirtqUsed_def VirtioBlkReq_def VirtioNetHdr_def QUEUE_SIZE_def

lemma place_fields_step:
  "place_fields packed pos ((s, a) # fs) =
     map_prod ((#) (if packed then pos else round_up pos a)) id (place_fields packed ((if packed then pos else round_up pos a) + s) fs)"
  by (simp add: Let_def split: prod.splits)

text \<open>Sizes and offsets: no padding in \<open>signalfd_siginfo\<close> and in the descriptors, four bytes of padding
  in \<open>epoll_event\<close>, two at the end of the used ring.\<close>

lemma shared_struct_sizes:
  "map c_size shared_structs = [16, 128, 16, 16, 22, 8, 72, 16, 10]"
  "c_offsets epoll_event = [0, 8]"
  "c_offsets signalfd_siginfo =
     [0, 4, 8, 12, 16, 20, 24, 28, 32, 36, 40, 44, 48, 56, 64, 72, 80, 82, 84, 88, 96, 100]"
  "c_offsets inotify_event = [0, 4, 8, 12, 16]" "c_offsets VirtqDesc = [0, 8, 12, 14]"
  "c_offsets VirtqAvail = [0, 2, 4, 20]" "c_offsets VirtqUsed = [0, 2, 4, 68]"
  "c_offsets VirtioBlkReq = [0, 4, 8]" "c_offsets VirtioNetHdr = [0, 1, 2, 4, 6, 8]"
  by (simp_all add: shared_structs_def shared_defs round_up_def place_fields_step numeral_2_eq_2 [symmetric] del: place_fields.simps(2))

text \<open>
  The structures shared with C and with the devices hold their fields: for each of them, in the
  layout its representation prescribes, the fields lie inside the structure, do not overlap, and
  storing all of them and loading one gives that one back.
\<close>

theorem shared_structs_hold_fields:
  assumes "t \<in> set shared_structs" and "map length vs = map c_size (c_fields t)" and "k < length vs"
  shows "load_field t k (store_fields t vs) = vs ! k \<and> c_offsets t ! k + length (vs ! k) \<le> c_size t"
proof -
  have "list_all (\<lambda>t. c_wf t \<and> (case t of CStruct p ts \<Rightarrow> True | _ \<Rightarrow> False)) shared_structs"
    by (simp add: shared_structs_def shared_defs)
  then obtain packed ts where t: "t = CStruct packed ts" "c_wf t"
    using assms(1) by (cases t) (auto simp: list_all_iff)
  have len: "length vs = length ts" "length (vs ! k) = c_size (ts ! k)"
    using assms(2,3) map_eq_imp_length_eq [OF assms(2)] nth_map [of k vs length] nth_map [of k ts c_size] by (simp_all add: t(1))
  show ?thesis
    using struct_store_load [of packed ts vs k] struct_offsets(1) [of packed ts k] assms(2,3) t len
    by (simp del: c_offsets.simps c_size.simps)
qed

theorem shared_structs_hold_fields_witness:
  "load_field epoll_event 1 (store_fields epoll_event [le_bytes 4 1, le_bytes 8 7]) = le_bytes 8 7"
proof -
  have "load_field epoll_event 1 (store_fields epoll_event [le_bytes 4 1, le_bytes 8 7]) = [le_bytes 4 1, le_bytes 8 7] ! 1 \<and>
      c_offsets epoll_event ! 1 + length ([le_bytes 4 1, le_bytes 8 7] ! 1) \<le> c_size epoll_event"
    by (rule shared_structs_hold_fields) (simp_all add: shared_structs_def shared_defs round_up_def)
  then show ?thesis
    by simp
qed

text \<open>The header descriptors of the drivers have the sizes of the header structures.\<close>

lemma header_descriptor_sizes:
  assumes "3 \<le> length (vq_desc q)"
  shows "desc_len (vq_desc (blk_chain B n rd q) ! 0) = word_of_nat (c_size VirtioBlkReq)"
    and "NET_HDR_SIZE = c_size VirtioNetHdr"
proof -
  have "0 < length (vq_desc q)"
    using assms by linarith
  then show "desc_len (vq_desc (blk_chain B n rd q) ! 0) = word_of_nat (c_size VirtioBlkReq)"
    by (simp add: blk_chain_def push_avail_def set_desc_def Let_def VirtioBlkReq_def round_up_def)
  show "NET_HDR_SIZE = c_size VirtioNetHdr"
    by (simp add: NET_HDR_SIZE_def VirtioNetHdr_def)
qed

text \<open>
  An event written by this library and read by a peer that takes the structure packed, as Linux does
  on x86-64: what it finds as data are the four bytes of padding and the lower half.
\<close>

lemma epoll_data_shifted:
  assumes "length e = 4" and "length d = 8"
  shows "load_field (CStruct True [u32_t, epoll_data_t]) 1 (store_fields epoll_event [e, d]) = replicate 4 0 @ take 4 d"
  using assms by (simp add: load_field_def store_fields_def shared_defs round_up_def Let_def slice_def overwrite_def)

text \<open>Every flag is a bit of its own, and the mask of all events has the twelve events.\<close>

lemma flags_single_bits:
  "IN_events @ IN_flags = map (\<lambda>n. push_bit n 1) ([0 ..< 12] @ [13, 14, 15, 24, 25, 26, 29, 30, 31])"
  "EPOLL_bits = map (\<lambda>n. push_bit n 1) [0, 1, 2, 6, 7, 8, 9, 10, 3, 4, 13, 28, 29, 30, 31]"
  "IN_ALL_EVENTS = mask 12"
  by code_simp+

lemma creation_flags_bits:
  "set FD_CLOEXEC_flags = {push_bit 19 1}" "set FD_NONBLOCK_flags = {push_bit 11 1}"
  "EFD_SEMAPHORE = push_bit 0 1" "TFD_TIMER_ABSTIME = push_bit 0 1" "TFD_TIMER_CANCEL_ON_SET = push_bit 1 1"
  by (simp_all add: FD_CLOEXEC_flags_def FD_NONBLOCK_flags_def EFD_SEMAPHORE_def TFD_TIMER_ABSTIME_def
      TFD_TIMER_CANCEL_ON_SET_def push_bit_eq_mult)

end
