(* ===== verification/Msgtag.thy ===== *)
theory Msgtag
  imports Ipc_Server
begin

text \<open>
  Message tags and typed items: the inline functions of \<open>crates/l4-sys/ipc_basic.rs\<close>,
  \<open>ipc_ext.rs\<close> and \<open>cap.rs\<close>, and the \<open>MsgTag\<close> type of \<open>crates/l4/ipc/mod.rs\<close>.

  A tag is one signed machine word: the label in the upper 48 bits, the flags in bits 12 to 15,
  the number of typed items in bits 6 to 11 and the number of untyped words in bits 0 to 5. The
  constants that bindgen takes from the C headers are the parameter record \<open>abi\<close>.
\<close>

section \<open>Constants and functions of the C headers\<close>

record abi =
  GENERIC_DATA_SIZE :: nat      \<comment> \<open>message registers of a UTCB\<close>
  GENERIC_BUFFERS_SIZE :: nat   \<comment> \<open>buffer registers of a UTCB\<close>
  MSGTAG_ERROR :: i64
  ENOMEM :: i32
  ITEM_MAP :: u64
  ITEM_CONT :: u64
  FPAGE_CONTROL_MASK :: u64
  INVALID_CAP_BIT :: u64
  CAP_MASK :: u64
  RCV_ITEM_SINGLE_CAP :: u64
  RCV_ITEM_LOCAL_ID :: u64
  IPC_ERROR_MASK :: i64
  FPAGE_RWX :: u8
  FPAGE_X :: u8
  FPAGE_W :: u8
  FPAGE_RO :: u8
  obj_fpage :: "u64 \<Rightarrow> u32 \<Rightarrow> u8 \<Rightarrow> u64"   \<comment> \<open>\<open>l4_obj_fpage_w\<close>\<close>

text \<open>What the headers say of them: the error flag lies in the flag field of a tag, and tags can
  count every message register.\<close>

definition abi_ok :: "abi \<Rightarrow> bool" where
  "abi_ok A \<longleftrightarrow> MSGTAG_ERROR A AND 0xf000 = MSGTAG_ERROR A \<and> MSGTAG_ERROR A \<noteq> 0 \<and>
     2 \<le> GENERIC_DATA_SIZE A \<and> GENERIC_DATA_SIZE A \<le> 63"

section \<open>Tags of l4-sys\<close>

definition l4_msgtag :: "i64 \<Rightarrow> u32 \<Rightarrow> u32 \<Rightarrow> u32 \<Rightarrow> i64" where
  "l4_msgtag label words items flags =
     push_bit 16 label OR ucast (words AND 0x3f) OR ucast (push_bit 6 (items AND 0x3f))
       OR ucast (flags AND 0xf000)"

definition l4_msgtag_flags :: "i64 \<Rightarrow> u64" where
  "l4_msgtag_flags t = t AND 0xf000"

definition l4_msgtag_has_error :: "abi \<Rightarrow> i64 \<Rightarrow> bool" where
  "l4_msgtag_has_error A t \<longleftrightarrow> t AND MSGTAG_ERROR A \<noteq> 0"

text \<open>The right shifts of a signed word are arithmetic.\<close>

definition l4_msgtag_items :: "i64 \<Rightarrow> nat" where
  "l4_msgtag_items t = unat (signed_drop_bit 6 t AND 0x3f)"

definition l4_msgtag_label :: "i64 \<Rightarrow> i64" where
  "l4_msgtag_label t = signed_drop_bit 16 t"

definition l4_msgtag_words :: "i64 \<Rightarrow> u32" where
  "l4_msgtag_words t = ucast (t AND 0x3f)"

definition msgtag_flags :: "i64 \<Rightarrow> u32" where
  "msgtag_flags t = ucast (t AND 0xf000)"

definition l4_sndfpage_add_u :: "abi \<Rightarrow> u64 \<Rightarrow> u64 \<Rightarrow> i64 \<Rightarrow> utcb \<Rightarrow> i32 \<times> i64 \<times> utcb" where
  "l4_sndfpage_add_u A snd_fpage snd_base tag u =
     (let i = unat (l4_msgtag_words tag) + 2 * l4_msgtag_items tag
      in if i \<ge> GENERIC_DATA_SIZE A - 1 then (ENOMEM A * -1, tag, u)
         else let u = set_mr u i (snd_base OR ITEM_MAP A OR ITEM_CONT A);
                  u = set_mr u (i + 1) snd_fpage
              in (0, l4_msgtag (l4_msgtag_label tag) (l4_msgtag_words tag)
                       (word_of_nat (l4_msgtag_items tag) + 1) (ucast (l4_msgtag_flags tag)), u))"

definition ipc_error2code :: "abi \<Rightarrow> i64 \<Rightarrow> u64" where
  "ipc_error2code A code = code AND IPC_ERROR_MASK A"

definition l4_is_invalid_cap :: "abi \<Rightarrow> u64 \<Rightarrow> bool" where
  "l4_is_invalid_cap A cap \<longleftrightarrow> cap AND INVALID_CAP_BIT A > 0"

definition l4_map_control :: "abi \<Rightarrow> u64 \<Rightarrow> u8 \<Rightarrow> u32 \<Rightarrow> u64" where
  "l4_map_control A snd_base cache grant =
     (snd_base AND FPAGE_CONTROL_MASK A) OR push_bit 4 (ucast cache) OR ITEM_MAP A OR ucast grant"

definition l4_map_obj_control :: "abi \<Rightarrow> u64 \<Rightarrow> u32 \<Rightarrow> u64" where
  "l4_map_obj_control A snd_base grant = l4_map_control A snd_base 0 grant"

section \<open>The MsgTag type\<close>

record msg_tag =
  raw :: i64

definition tag_new :: "i64 \<Rightarrow> u32 \<Rightarrow> u32 \<Rightarrow> u32 \<Rightarrow> msg_tag" where
  "tag_new label words items flags = \<lparr>raw = l4_msgtag label words items flags\<rparr>"

definition tag_label :: "msg_tag \<Rightarrow> i64" where
  "tag_label t = signed_drop_bit 16 (raw t)"

definition set_label :: "i64 \<Rightarrow> msg_tag \<Rightarrow> msg_tag" where
  "set_label l t = t\<lparr>raw := (raw t AND 0x0ffff) OR push_bit 16 l\<rparr>"

definition tag_words :: "msg_tag \<Rightarrow> nat" where
  "tag_words t = unat (raw t AND 0x3f)"

definition tag_items :: "msg_tag \<Rightarrow> nat" where
  "tag_items t = unat (drop_bit 6 (raw t) AND 0x3f)"

definition tag_flags :: "msg_tag \<Rightarrow> u32" where
  "tag_flags t = ucast (raw t) AND 0xf000"

definition has_error :: "abi \<Rightarrow> msg_tag \<Rightarrow> bool" where
  "has_error A t \<longleftrightarrow> raw t AND MSGTAG_ERROR A \<noteq> 0"

section \<open>Fields of a tag\<close>

text \<open>The masks of the fields, as truncations and shifts.\<close>

lemma and_0x3f: "x AND 0x3f = take_bit 6 x" for x :: "'a::len word"
  by (simp add: take_bit_eq_mask mask_eq_exp_minus_1)

lemma and_0xffff: "x AND 0xffff = take_bit 16 x" for x :: "'a::len word"
  by (simp add: take_bit_eq_mask mask_eq_exp_minus_1)

lemma and_0xf000: "x AND 0xf000 = push_bit 12 (take_bit 4 (drop_bit 12 x))" for x :: "'a::len word"
proof (rule bit_word_eqI)
  fix n assume n: "n < LENGTH('a)"
  have "(0xf000 :: 'a word) = push_bit 12 (mask 4)"
    by (simp add: mask_eq_exp_minus_1 push_bit_eq_mult)
  then have "bit (x AND 0xf000) n = bit (x AND push_bit 12 (mask 4)) n"
    by (rule arg_cong)
  also have "\<dots> = bit (push_bit 12 (take_bit 4 (drop_bit 12 x))) n"
    unfolding bit_and_iff bit_push_bit_iff bit_mask_iff bit_take_bit_iff bit_drop_bit_eq
    using n by auto
  finally show "bit (x AND 0xf000) n = bit (push_bit 12 (take_bit 4 (drop_bit 12 x))) n" .
qed

lemmas tag_masks = and_0x3f and_0xf000 and_0xffff
lemmas tag_bits = bit_and_iff bit_or_iff bit_push_bit_iff bit_take_bit_iff
  bit_drop_bit_eq bit_unsigned_iff bit_signed_drop_bit_iff

lemma l4_msgtag_words_new: "l4_msgtag_words (l4_msgtag l w i f) = w AND 0x3f"
  unfolding l4_msgtag_words_def l4_msgtag_def tag_masks
  by (rule bit_word_eqI) (auto simp: tag_bits)

lemma msgtag_flags_new: "msgtag_flags (l4_msgtag l w i f) = f AND 0xf000"
  unfolding msgtag_flags_def l4_msgtag_def tag_masks
  by (rule bit_word_eqI) (auto simp: tag_bits)

lemma unat_and_0x3f: "unat (x AND 0x3f) = unat x mod 64" for x :: "'a::len word"
proof -
  have "unat (take_bit 6 x) = take_bit 6 (unat x)"
    by (simp add: unsigned_take_bit_eq)
  then show ?thesis
    unfolding and_0x3f by (simp add: take_bit_eq_mod)
qed

text \<open>The readers of \<open>l4-sys\<close> and the methods of \<open>MsgTag\<close> read the same fields of every word.\<close>

lemma signed_drop_and_0x3f: "signed_drop_bit 6 t AND 0x3f = drop_bit 6 t AND 0x3f" for t :: i64
  unfolding tag_masks by (rule bit_word_eqI) (auto simp: tag_bits min_def)

lemma tag_items_eq: "tag_items t = l4_msgtag_items (raw t)"
  by (simp add: tag_items_def l4_msgtag_items_def signed_drop_and_0x3f)

lemma tag_label_eq: "tag_label t = l4_msgtag_label (raw t)"
  by (simp add: tag_label_def l4_msgtag_label_def)

lemma tag_words_eq: "tag_words t = unat (l4_msgtag_words (raw t))"
proof -
  have "unat (raw t) mod 64 < 2 ^ 32"
    by (rule order_less_trans [OF mod_less_divisor]) simp_all
  then show ?thesis
    by (simp add: tag_words_def l4_msgtag_words_def unsigned_ucast_eq unat_and_0x3f take_bit_nat_eq_self)
qed

lemma tag_flags_eq: "tag_flags t = msgtag_flags (raw t)"
  unfolding tag_flags_def msgtag_flags_def tag_masks
  by (rule bit_word_eqI) (auto simp: tag_bits)

lemma l4_msgtag_items_new: "l4_msgtag_items (l4_msgtag l w i f) = unat i mod 64"
proof -
  have "signed_drop_bit 6 (l4_msgtag l w i f) AND 0x3f = ucast (i AND 0x3f)"
    unfolding l4_msgtag_def tag_masks
    by (rule bit_word_eqI) (auto simp: tag_bits min_def)
  moreover have "unat i mod 64 < 2 ^ 64"
    by (rule order_less_trans [OF mod_less_divisor]) simp_all
  ultimately show ?thesis
    by (simp add: l4_msgtag_items_def unsigned_ucast_eq unat_and_0x3f take_bit_nat_eq_self)
qed

text \<open>A label survives when it fits into the 48 bits of its field.\<close>

definition label_fits :: "i64 \<Rightarrow> bool" where
  "label_fits l \<longleftrightarrow> - (2 ^ 47) \<le> sint l \<and> sint l < 2 ^ 47"

lemma bit_47: "47 \<le> n \<Longrightarrow> \<not> 48 \<le> n \<Longrightarrow> n = (47 :: nat)"
  by simp

lemma l4_msgtag_label_new: "l4_msgtag_label (l4_msgtag l w i f) = signed_take_bit 47 l"
  unfolding l4_msgtag_label_def l4_msgtag_def tag_masks
  by (rule bit_word_eqI) (auto simp: tag_bits bit_signed_take_bit_iff min_def dest!: bit_47)

lemma signed_take_bit_label: "label_fits l \<Longrightarrow> signed_take_bit 47 l = l"
proof (rule bit_word_eqI)
  fix n assume fits: "label_fits l" and n: "n < LENGTH(64)"
  have "signed_take_bit 47 (sint l) = sint l"
    using fits by (simp add: label_fits_def signed_take_bit_int_eq_self)
  then have "bit (signed_take_bit 47 (sint l)) n = bit (sint l) n"
    by (rule arg_cong)
  then have "bit (sint l) n = bit (sint l) (min 47 n)"
    unfolding bit_signed_take_bit_iff by simp
  moreover have "bit (sint l) m = bit l m" if "m < 64" for m
    using that by (simp add: bit_sint_iff)
  ultimately show "bit (signed_take_bit 47 l) n = bit l n"
    using n by (simp add: bit_signed_take_bit_iff min.commute)
qed

lemma l4_msgtag_label_fits: "label_fits l \<Longrightarrow> l4_msgtag_label (l4_msgtag l w i f) = l"
  by (simp add: l4_msgtag_label_new signed_take_bit_label)

lemma tag_label_new [simp]: "label_fits l \<Longrightarrow> tag_label (tag_new l w i f) = l"
  by (simp add: tag_label_eq tag_new_def l4_msgtag_label_fits)

lemma tag_words_new [simp]: "tag_words (tag_new l w i f) = unat w mod 64"
  by (simp add: tag_words_eq tag_new_def l4_msgtag_words_new unat_and_0x3f)

lemma tag_items_new [simp]: "tag_items (tag_new l w i f) = unat i mod 64"
  by (simp add: tag_items_eq tag_new_def l4_msgtag_items_new)

lemma tag_flags_new [simp]: "tag_flags (tag_new l w i f) = f AND 0xf000"
  by (simp add: tag_flags_eq tag_new_def msgtag_flags_new)

text \<open>The error flag is a matter of the flag field alone.\<close>

lemma has_error_new:
  assumes "abi_ok A"
  shows "has_error A (tag_new l w i f) \<longleftrightarrow> ucast f AND MSGTAG_ERROR A \<noteq> 0"
proof -
  have m: "MSGTAG_ERROR A = MSGTAG_ERROR A AND 0xf000"
    using assms by (simp add: abi_ok_def)
  have "l4_msgtag l w i f AND (e AND 0xf000) = ucast f AND (e AND 0xf000)" for e :: i64
    unfolding l4_msgtag_def tag_masks by (rule bit_word_eqI) (auto simp: tag_bits)
  from this [of "MSGTAG_ERROR A"] show ?thesis
    using m by (simp add: has_error_def tag_new_def)
qed

lemma has_error_new_0: "abi_ok A \<Longrightarrow> \<not> has_error A (tag_new l w i 0)"
  by (simp add: has_error_new)

text \<open>Replacing the label.\<close>

lemma set_label_fields:
  "label_fits l \<Longrightarrow> tag_label (set_label l t) = l"
  "tag_words (set_label l t) = tag_words t"
  "tag_items (set_label l t) = tag_items t"
  "tag_flags (set_label l t) = tag_flags t"
proof -
  have "signed_drop_bit 16 (take_bit 16 (raw t) OR push_bit 16 l) = signed_take_bit 47 l"
    by (rule bit_word_eqI) (auto simp: tag_bits bit_signed_take_bit_iff min_def dest!: bit_47)
  then show "tag_label (set_label l t) = l" if "label_fits l"
    using that by (simp add: tag_label_def set_label_def and_0xffff signed_take_bit_label)
  have "(take_bit 16 (raw t) OR push_bit 16 l) AND 0x3f = raw t AND 0x3f"
    unfolding tag_masks by (rule bit_word_eqI) (auto simp: tag_bits)
  then show "tag_words (set_label l t) = tag_words t"
    by (simp add: tag_words_def set_label_def and_0xffff)
  have "drop_bit 6 (take_bit 16 (raw t) OR push_bit 16 l) AND 0x3f = drop_bit 6 (raw t) AND 0x3f"
    unfolding tag_masks by (rule bit_word_eqI) (auto simp: tag_bits)
  then show "tag_items (set_label l t) = tag_items t"
    by (simp add: tag_items_def set_label_def and_0xffff)
  have "(ucast (take_bit 16 (raw t) OR push_bit 16 l) :: u32) AND 0xf000 = ucast (raw t) AND 0xf000"
    unfolding tag_masks by (rule bit_word_eqI) (auto simp: tag_bits)
  then show "tag_flags (set_label l t) = tag_flags t"
    by (simp add: tag_flags_def set_label_def and_0xffff)
qed

section \<open>The message a tag describes\<close>

text \<open>The registers as the kernel reads them: the untyped words first, then the items, two words
  each.\<close>

definition untyped_words :: "i64 \<Rightarrow> utcb \<Rightarrow> u64 list" where
  "untyped_words t u = take (unat (l4_msgtag_words t)) (utcb_mr u)"

definition typed_items :: "i64 \<Rightarrow> utcb \<Rightarrow> (u64 \<times> u64) list" where
  "typed_items t u = map (\<lambda>k. (get_mr u (unat (l4_msgtag_words t) + 2 * k),
     get_mr u (unat (l4_msgtag_words t) + 2 * k + 1))) [0..<l4_msgtag_items t]"

definition regs_used :: "i64 \<Rightarrow> nat" where
  "regs_used t = unat (l4_msgtag_words t) + 2 * l4_msgtag_items t"

lemma label_fits_label: "label_fits (l4_msgtag_label t)"
proof -
  have "sint (signed_drop_bit 16 t) = drop_bit 16 (sint t)"
    by (simp add: sint_signed_drop_bit_eq)
  moreover have "- (2 ^ 63) \<le> sint t" and "sint t < 2 ^ 63"
    using sint_ge [of t] sint_lt [of t] by simp_all
  moreover have "- (2 ^ 47) \<le> x div 65536 \<and> x div 65536 < 2 ^ 47"
    if "- (2 ^ 63) \<le> x" "x < 2 ^ 63" for x :: int
    using zdiv_mono1 [of "- (2 ^ 63)" x 65536] zdiv_mono1 [of x "2 ^ 63 - 1" 65536] that by simp
  ultimately show ?thesis
    by (simp add: label_fits_def l4_msgtag_label_def drop_bit_eq_div)
qed

lemma words_and_mask: "l4_msgtag_words t AND 0x3f = l4_msgtag_words t"
  unfolding l4_msgtag_words_def tag_masks by (rule bit_word_eqI) (auto simp: tag_bits)

lemma flags_and_mask: "(ucast (l4_msgtag_flags t) :: u32) AND 0xf000 = msgtag_flags t"
  unfolding l4_msgtag_flags_def msgtag_flags_def tag_masks
  by (rule bit_word_eqI) (auto simp: tag_bits)

lemma l4_msgtag_items_less: "l4_msgtag_items t < 64"
  by (simp add: l4_msgtag_items_def unat_and_0x3f)

lemma items_plus_1:
  assumes "l4_msgtag_items t < 63"
  shows "unat (word_of_nat (l4_msgtag_items t) + 1 :: u32) mod 64 = l4_msgtag_items t + 1"
proof -
  have "word_of_nat (l4_msgtag_items t) + 1 = (word_of_nat (l4_msgtag_items t + 1) :: u32)"
    by (simp add: add.commute)
  then show ?thesis
    using assms by (simp add: unat_of_nat del: of_nat_add of_nat_Suc)
qed

lemma sndfpage_tag:
  fixes t
  assumes "l4_msgtag_items t < 63"
  defines "t' \<equiv> l4_msgtag (l4_msgtag_label t) (l4_msgtag_words t)
                (word_of_nat (l4_msgtag_items t) + 1) (ucast (l4_msgtag_flags t))"
  shows "l4_msgtag_label t' = l4_msgtag_label t" and "l4_msgtag_words t' = l4_msgtag_words t"
    and "msgtag_flags t' = msgtag_flags t" and "l4_msgtag_items t' = l4_msgtag_items t + 1"
  unfolding t'_def
  using items_plus_1 [OF assms(1)]
  by (simp_all add: l4_msgtag_label_fits label_fits_label l4_msgtag_words_new words_and_mask
      msgtag_flags_new flags_and_mask l4_msgtag_items_new)

text \<open>
  A tag keeps its fields. Built from a label that fits into 48 bits, a number of words, a number
  of items and flags, a tag gives the label back, the two numbers reduced to their six bits and the
  flags reduced to the flag bits; it carries the error flag exactly when the flags did; and
  replacing the label afterwards changes nothing but the label. Labels are how protocols are
  selected and how errors are reported, numbers of words and items are what the kernel transfers.
\<close>
theorem msgtag_fields:
  assumes "abi_ok A" and "label_fits l" and "label_fits l'" and "t = tag_new l w i f"
  shows "tag_label t = l \<and> tag_words t = unat w mod 64 \<and> tag_items t = unat i mod 64 \<and>
    tag_flags t = f AND 0xf000 \<and> (has_error A t \<longleftrightarrow> ucast f AND MSGTAG_ERROR A \<noteq> 0) \<and>
    tag_label (set_label l' t) = l' \<and> tag_words (set_label l' t) = tag_words t \<and>
    tag_items (set_label l' t) = tag_items t \<and> tag_flags (set_label l' t) = tag_flags t"
  using assms(1-3) by (simp add: assms(4) set_label_fields has_error_new)

definition demo_abi :: abi where
  "demo_abi = \<lparr>GENERIC_DATA_SIZE = 63, GENERIC_BUFFERS_SIZE = 58, MSGTAG_ERROR = 0x8000,
     ENOMEM = 12, ITEM_MAP = 8, ITEM_CONT = 1, FPAGE_CONTROL_MASK = NOT 0xfff,
     INVALID_CAP_BIT = 0x800, CAP_MASK = NOT 0xfff, RCV_ITEM_SINGLE_CAP = 0x10,
     RCV_ITEM_LOCAL_ID = 4, IPC_ERROR_MASK = 0x1f, FPAGE_RWX = 7, FPAGE_X = 1, FPAGE_W = 2, FPAGE_RO = 4,
     obj_fpage = (\<lambda>obj order rights. (obj AND NOT 0xfff) OR push_bit 6 (ucast order) OR 0x30 OR ucast rights)\<rparr>"

lemma demo_abi_ok: "abi_ok demo_abi"
  by (simp add: abi_ok_def demo_abi_def)

theorem msgtag_fields_witness:
  "tag_label (tag_new (-22) 3 65 0x8001) = -22 \<and> tag_words (tag_new (-22) 3 65 0x8001) = 3 \<and>
   tag_items (tag_new (-22) 3 65 0x8001) = 1 \<and> has_error demo_abi (tag_new (-22) 3 65 0x8001) \<and>
   tag_label (set_label 7 (tag_new (-22) 3 65 0x8001)) = 7"
proof -
  have fits: "label_fits (-22)" "label_fits 7"
    by (simp_all add: label_fits_def)
  show ?thesis
    using msgtag_fields [OF demo_abi_ok fits, where w = 3 and i = 65 and f = "0x8001", OF refl]
    by (simp add: demo_abi_def)
qed

text \<open>
  Adding a flex page to a message. While there is room for the two words of an item,
  \<open>l4_sndfpage_add_u\<close> returns 0, appends the item (the send base marked as a map item, and the
  page) to the typed items the tag describes, and changes neither the untyped words, nor the label,
  nor the flags; the message still fits into the registers. Without room it returns \<open>-ENOMEM\<close> and
  changes nothing.
\<close>
theorem sndfpage_add_appends:
  assumes "abi_ok A" and "length (utcb_mr u) = GENERIC_DATA_SIZE A"
    and "l4_sndfpage_add_u A fpage base t u = (r, t', u')"
  shows "if regs_used t + 2 \<le> GENERIC_DATA_SIZE A
    then r = 0 \<and> typed_items t' u' = typed_items t u @ [(base OR ITEM_MAP A OR ITEM_CONT A, fpage)] \<and>
         untyped_words t' u' = untyped_words t u \<and> l4_msgtag_label t' = l4_msgtag_label t \<and>
         msgtag_flags t' = msgtag_flags t \<and> regs_used t' \<le> GENERIC_DATA_SIZE A
    else r = - ENOMEM A \<and> t' = t \<and> u' = u"
proof (cases "regs_used t + 2 \<le> GENERIC_DATA_SIZE A")
  case False
  then have "GENERIC_DATA_SIZE A - 1 \<le> regs_used t"
    using assms(1) by (auto simp: abi_ok_def)
  with False assms(3) show ?thesis
    by (auto simp: l4_sndfpage_add_u_def regs_used_def)
next
  case True
  define i where "i = regs_used t"
  have i: "i + 1 < length (utcb_mr u)" and "\<not> GENERIC_DATA_SIZE A - 1 \<le> i"
    using True assms(2) by (auto simp: i_def)
  then have r: "r = 0" and u': "u' = set_mr (set_mr u i (base OR ITEM_MAP A OR ITEM_CONT A)) (i + 1) fpage"
    and t': "t' = l4_msgtag (l4_msgtag_label t) (l4_msgtag_words t)
       (word_of_nat (l4_msgtag_items t) + 1) (ucast (l4_msgtag_flags t))"
    using assms(3) by (simp_all add: l4_sndfpage_add_u_def i_def regs_used_def Let_def)
  have "l4_msgtag_items t < 63"
    using True assms(1) by (simp add: regs_used_def abi_ok_def)
  note tag = sndfpage_tag [OF this, folded t']
  have mr: "get_mr u' j = get_mr u j" if "j < i" for j
    using that i u' by simp
  have new: "get_mr u' i = base OR ITEM_MAP A OR ITEM_CONT A" "get_mr u' (i + 1) = fpage"
    using i u' by simp_all
  have "typed_items t' u' = typed_items t u @ [(get_mr u' i, get_mr u' (i + 1))]"
    by (auto simp: typed_items_def tag mr i_def regs_used_def)
  moreover have "untyped_words t' u' = untyped_words t u"
    using u' by (simp add: untyped_words_def tag set_mr_def i_def regs_used_def)
  ultimately show ?thesis
    using True r tag new by (simp add: regs_used_def)
qed

theorem sndfpage_add_appends_witness:
  "case l4_sndfpage_add_u demo_abi 0x5037 0x3000 (l4_msgtag 0 1 0 0) (demo_utcb [7, 0, 0])
   of (r, t', u') \<Rightarrow> r = 0 \<and> typed_items t' u' = [(0x3009, 0x5037)] \<and> untyped_words t' u' = [7]"
proof -
  obtain r t' u' where res: "l4_sndfpage_add_u demo_abi 0x5037 0x3000 (l4_msgtag 0 1 0 0) (demo_utcb [7, 0, 0])
      = (r, t', u')"
    by (metis prod_cases3)
  have len: "length (utcb_mr (demo_utcb [7, 0, 0])) = GENERIC_DATA_SIZE demo_abi"
    by (simp add: demo_utcb_def demo_abi_def)
  have "l4_msgtag_words (l4_msgtag 0 1 0 0) = 1" "l4_msgtag_items (l4_msgtag 0 1 0 0) = 0"
    by (simp_all add: l4_msgtag_words_new l4_msgtag_items_new)
  then show ?thesis
    unfolding res using sndfpage_add_appends [OF demo_abi_ok len res]
    by (simp add: regs_used_def typed_items_def untyped_words_def demo_abi_def demo_utcb_def)
qed

end
