(* ===== verification/L4_Error.thy ===== *)
theory L4_Error
  imports Msgtag
begin

text \<open>
  Error values of the framework, \<open>crates/l4/error.rs\<close>, and \<open>MsgTag::result\<close> of
  \<open>crates/l4/ipc/mod.rs\<close>: how a reply's tag becomes an error and how an error becomes a label.

  The numeric codes come from the C headers; the conversions between an enum and its codes are
  derived by the num-derive crate. Both are parameters, with the law of the derived conversions as
  the locale \<open>enum_codes\<close>.
\<close>

section \<open>Enums with codes\<close>

record 'e prim_enum =
  code_of :: "'e \<Rightarrow> i64"          \<comment> \<open>\<open>to_i64().unwrap()\<close> and \<open>as i64\<close>\<close>
  from_i64 :: "i64 \<Rightarrow> 'e option"
  from_u64 :: "u64 \<Rightarrow> 'e option"

locale enum_codes =
  fixes P :: "'e prim_enum"
  assumes from_i64_iff: "from_i64 P n = Some e \<longleftrightarrow> code_of P e = n"
    and from_u64_iff: "from_u64 P n = Some e \<longleftrightarrow> code_of P e = n \<and> 0 \<le> sint n"
begin

lemma from_i64_code: "from_i64 P (code_of P e) = Some e"
  by (simp add: from_i64_iff)

lemma from_u64_code: "0 \<le> sint (code_of P e) \<Longrightarrow> from_u64 P (code_of P e) = Some e"
  by (simp add: from_u64_iff)

lemma code_of_inject: "code_of P e = code_of P e' \<longleftrightarrow> e = e'"
  using from_i64_code by (metis option.inject)

lemma from_i64_None: "from_i64 P n = None \<longleftrightarrow> (\<forall>e. code_of P e \<noteq> n)"
  using from_i64_iff by (metis not_Some_eq)

end

text \<open>An enum with its discriminants and its variants in declaration order.\<close>

definition enum_of :: "('e \<Rightarrow> i64) \<Rightarrow> 'e list \<Rightarrow> 'e prim_enum" where
  "enum_of c es = \<lparr>code_of = c, from_i64 = (\<lambda>n. find (\<lambda>e. c e = n) es),
     from_u64 = (\<lambda>n. if 0 \<le> sint n then find (\<lambda>e. c e = n) es else None)\<rparr>"

lemma find_code:
  assumes "inj c" and "set es = UNIV"
  shows "find (\<lambda>e. c e = n) es = Some e \<longleftrightarrow> c e = n"
proof
  assume "find (\<lambda>e. c e = n) es = Some e"
  then show "c e = n"
    by (auto simp: find_Some_iff)
next
  assume e: "c e = n"
  then obtain e' where e': "find (\<lambda>e. c e = n) es = Some e'"
    using assms(2) by (cases "find (\<lambda>e. c e = n) es") (auto simp: find_None_iff)
  then have "c e' = n"
    by (auto simp: find_Some_iff)
  then have "e' = e"
    using e assms(1) by (simp add: inj_def)
  then show "find (\<lambda>e. c e = n) es = Some e"
    using e' by simp
qed

lemma enum_of_codes:
  assumes "inj c" and "set es = UNIV"
  shows "enum_codes (enum_of c es)"
  by unfold_locales (auto simp: enum_of_def find_code [OF assms])

section \<open>The error types\<close>

datatype generic_err =
    GeOk | NoPerm | NoEntity | IO | NoDevOrAddr | Arg2Big | TryAgain | NoMem | PermissionDenied
  | InvalidMemAddr | ObjBusy | AlreadyExists | NoDev | GeInvalidArg | NoSpace | OutOfBounds
  | NameTooLong | NoSys | InvalidProt | AddrNotAvail | MaxErr | NoReply | MsgTooShort | MsgTooLong
  | MsgInvalidCap | IpcRLow | IpcRHigh

datatype tcr_err =
    IpcErrorMask | SendErrMask | NotExistent | RecvTimeout | SendTimeout | RecvCanceled
  | SendCanceled | RemapFailed | SendMapFailed | RecvSendPFTimeout | SendSendPFTimeout
  | RecvRecvPFTimeout | SendRecvPFTimeout | RecvAbort | SendAbort | RecvMsgCut | SendMsgCut

text \<open>The standard library's description of an encoding error carries no information the framework
  looks at.\<close>

datatype utf8_error = Utf8Error

datatype l4_error =
    Generic generic_err
  | Tcr tcr_err
  | InvalidCap
  | InvalidArg string "i64 option"
  | InvalidState string
  | Unknown i64
  | Protocol i64
  | InvalidEncoding "utf8_error option"

text \<open>The codes, and \<open>l4_ipc_error_w\<close>, which reads the error register of the thread whose UTCB it
  is given.\<close>

record err_env =
  generic_codes :: "generic_err prim_enum"
  tcr_codes :: "tcr_err prim_enum"
  ipc_error :: "i64 \<Rightarrow> utcb \<Rightarrow> u64"

text \<open>\<open>Display\<close>: the text of an error; that of an encoding error is the standard library's.\<close>

definition error_display :: "err_env \<Rightarrow> (utf8_error \<Rightarrow> string) \<Rightarrow> l4_error \<Rightarrow> string" where
  "error_display E utf8 e =
     (case e of
        Generic e \<Rightarrow> ''Generic L4 error code: '' @ show_int (code_of (generic_codes E) e)
      | Tcr i \<Rightarrow> ''IPC error: '' @ show_int (code_of (tcr_codes E) i)
      | InvalidCap \<Rightarrow> ''Invalid capability''
      | InvalidArg r arg \<Rightarrow> ''Invalid argument '' @ [CHR 0x27] @ r @ [CHR 0x27]
      | InvalidState r \<Rightarrow> ''Invalid state: '' @ r
      | Unknown u \<Rightarrow> ''Unknown error code '' @ show_int u
      | Protocol p \<Rightarrow> ''Unknown protocol requested: '' @ show_int p
      | InvalidEncoding None \<Rightarrow> ''Invalid encoding''
      | InvalidEncoding (Some u) \<Rightarrow> ''Invalid encoding: '' @ utf8 u)"

text \<open>The text tells errors apart, but for the value of an invalid argument.\<close>

lemma error_display_distinguishes:
  assumes "enum_codes (generic_codes E)" and "enum_codes (tcr_codes E)"
    and "error_display E utf8 e = error_display E utf8 e'"
  shows "case e of InvalidArg r a \<Rightarrow> (\<exists>a'. e' = InvalidArg r a') | _ \<Rightarrow> e' = e"
proof -
  have utf: "u = u'" for u u' :: utf8_error
    by (cases u; cases u') simp
  show ?thesis
    using assms(3)
    by (auto simp: error_display_def show_int_inject enum_codes.code_of_inject [OF assms(1)]
        enum_codes.code_of_inject [OF assms(2)] intro: utf split: l4_error.splits option.splits)
qed

section \<open>Signed negation and absolute value\<close>

definition op_neg :: "bool \<Rightarrow> i64 \<Rightarrow> i64 option" where
  [arith_defs]: "op_neg oc n = (if oc \<and> sint n = - (2 ^ 63) then None else Some (- n))"

definition op_abs :: "bool \<Rightarrow> i64 \<Rightarrow> i64 option" where
  [arith_defs]: "op_abs oc n = (if sint n < 0 then op_neg oc n else Some n)"

section \<open>Conversions\<close>

definition tcr_from_tag_u :: "err_env \<Rightarrow> i64 \<Rightarrow> utcb \<Rightarrow> (l4_error, tcr_err) result" where
  "tcr_from_tag_u E tag u =
     (case from_u64 (tcr_codes E) (ipc_error E tag u) of
        Some e \<Rightarrow> Inr e | None \<Rightarrow> Inl (Unknown (ipc_error E tag u)))"

definition from_tag_u :: "err_env \<Rightarrow> i64 \<Rightarrow> utcb \<Rightarrow> l4_error" where
  "from_tag_u E tag u = (case tcr_from_tag_u E tag u of Inr tc \<Rightarrow> Tcr tc | Inl e \<Rightarrow> e)"

definition INVALID_CAP_CODE :: i64 where "INVALID_CAP_CODE = -65540"
definition INVALID_ENCODING :: i64 where "INVALID_ENCODING = -65541"

definition from_ipc :: "bool \<Rightarrow> err_env \<Rightarrow> i64 \<Rightarrow> l4_error option" where
  "from_ipc oc E code =
     (if code = INVALID_CAP_CODE then Some InvalidCap
      else if code = INVALID_ENCODING then Some (InvalidEncoding None)
      else do {
        n \<leftarrow> op_abs oc code;
        Some (case from_u64 (generic_codes E) n of Some tc \<Rightarrow> Generic tc | None \<Rightarrow> Unknown code)
      })"

definition into_ipc_err :: "bool \<Rightarrow> err_env \<Rightarrow> l4_error \<Rightarrow> i64 option" where
  "into_ipc_err oc E e =
     (case e of
        Generic err \<Rightarrow> op_neg oc (code_of (generic_codes E) err)
      | Tcr err \<Rightarrow> op_neg oc (code_of (tcr_codes E) err)
      | InvalidCap \<Rightarrow> op_neg oc INVALID_CAP_CODE
      | InvalidArg _ _ \<Rightarrow> op_neg oc (code_of (generic_codes E) GeInvalidArg)
      | InvalidState _ \<Rightarrow> op_neg oc (code_of (generic_codes E) GeInvalidArg)
      | InvalidEncoding _ \<Rightarrow> op_neg oc INVALID_ENCODING
      | Unknown n \<Rightarrow> op_neg oc n
      | Protocol n \<Rightarrow> op_neg oc n)"

text \<open>\<open>MsgTag::result\<close>; \<open>Error::from_tag_raw\<close> reads the error register of the current thread.\<close>

definition tag_result :: "bool \<Rightarrow> abi \<Rightarrow> err_env \<Rightarrow> utcb \<Rightarrow> msg_tag \<Rightarrow> (l4_error, msg_tag) result option" where
  "tag_result oc A E u t =
     (if has_error A t then Some (Inl (from_tag_u E (raw t) u))
      else if sint (tag_label t) < 0 then map_option Inl (from_ipc oc E (tag_label t))
      else Some (Inr t))"

section \<open>Protocols\<close>

datatype protocol =
    ProtoNone | PfException | Irq | PageFault | Preemption | SysException | ExceptionProto | Sigma0
  | IoPageFault | Kobject | Task | Thread | Log | SchedulerProto | Factory | Vm | DmaSpace | IrqSender
  | IrqMux | Semaphore | Meta | Iommu | Debugger

text \<open>\<open>MsgTag::protocol\<close> and \<open>set_protocol\<close>, for the codes of the C header.\<close>

definition tag_protocol :: "protocol prim_enum \<Rightarrow> msg_tag \<Rightarrow> (l4_error, protocol) result" where
  "tag_protocol P t =
     (case from_i64 P (signed_drop_bit 16 (raw t)) of
        Some p \<Rightarrow> Inr p
      | None \<Rightarrow> Inl (InvalidArg ''Unknown protocol'' (Some (signed_drop_bit 16 (raw t)))))"

definition set_protocol :: "protocol prim_enum \<Rightarrow> protocol \<Rightarrow> msg_tag \<Rightarrow> msg_tag" where
  "set_protocol P p t = t\<lparr>raw := (raw t AND 0x0ffff) OR push_bit 16 (code_of P p)\<rparr>"

lemma set_protocol_label: "set_protocol P p t = set_label (code_of P p) t"
  by (simp add: set_protocol_def set_label_def)

lemma protocol_roundtrip:
  assumes "enum_codes P" and "label_fits (code_of P p)"
  shows "tag_protocol P (set_protocol P p t) = Inr p"
  using set_label_fields(1) [OF assms(2), of t] enum_codes.from_i64_code [OF assms(1), of p]
  by (simp add: tag_protocol_def set_protocol_label tag_label_def)

text \<open>A label \<open>result\<close> reads is a shifted word, so \<open>from_ipc\<close> is never given the one number without
  an absolute value: \<open>result\<close> does not panic.\<close>

lemma tag_result_total: "\<exists>r. tag_result oc A E u t = Some r"
proof -
  have "sint (tag_label t) \<noteq> - (2 ^ 63)"
    using label_fits_label [of "raw t"] by (simp add: label_fits_def tag_label_eq)
  then show ?thesis
    by (auto simp: tag_result_def from_ipc_def op_abs_def op_neg_def)
qed

section \<open>Contracts of the codes\<close>

text \<open>The two enums decode their own codes; the generic codes are the non-negative numbers of the C
  header, small enough for a label and away from the two codes \<open>Error\<close> adds.\<close>

locale error_codes =
  fixes E :: err_env
  assumes generic: "enum_codes (generic_codes E)" and tcr: "enum_codes (tcr_codes E)"
    and generic_range: "0 \<le> sint (code_of (generic_codes E) g)" "sint (code_of (generic_codes E) g) < 65540"
    and tcr_range: "0 < sint (code_of (tcr_codes E) t)" "sint (code_of (tcr_codes E) t) < 65540"
    and ok_code: "code_of (generic_codes E) GeOk = 0"
begin

lemma generic_code_pos: "g \<noteq> GeOk \<Longrightarrow> 0 < sint (code_of (generic_codes E) g)"
proof -
  assume "g \<noteq> GeOk"
  then have "code_of (generic_codes E) g \<noteq> 0"
    using enum_codes.code_of_inject [OF generic] ok_code by metis
  then have "sint (code_of (generic_codes E) g) \<noteq> 0"
    by (metis signed_0 signed_word_eqI)
  then show ?thesis
    using generic_range(1) [of g] by linarith
qed

lemma sint_neg_generic: "sint (- code_of (generic_codes E) g) = - sint (code_of (generic_codes E) g)"
  using generic_range [of g] by (simp add: sint_word_minus signed_take_bit_int_eq_self)

lemma generic_neg_fits: "label_fits (- code_of (generic_codes E) g)"
  using generic_range [of g] by (simp add: label_fits_def sint_neg_generic)

lemma into_ipc_err_generic: "into_ipc_err oc E (Generic g) = Some (- code_of (generic_codes E) g)"
  using generic_range [of g] by (simp add: into_ipc_err_def op_neg_def)

lemma neg_generic_not_special:
  "- code_of (generic_codes E) g \<noteq> INVALID_CAP_CODE" "- code_of (generic_codes E) g \<noteq> INVALID_ENCODING"
proof -
  have "sint INVALID_CAP_CODE = -65540" "sint INVALID_ENCODING = -65541"
    by (simp_all add: INVALID_CAP_CODE_def INVALID_ENCODING_def)
  then show "- code_of (generic_codes E) g \<noteq> INVALID_CAP_CODE" "- code_of (generic_codes E) g \<noteq> INVALID_ENCODING"
    using generic_range [of g] sint_neg_generic [of g] by force+
qed

lemma from_ipc_generic: "from_ipc oc E (- code_of (generic_codes E) g) = Some (Generic g)"
proof -
  have "op_abs oc (- code_of (generic_codes E) g) = Some (code_of (generic_codes E) g)"
  proof (cases "g = GeOk")
    case True
    then show ?thesis
      by (simp add: op_abs_def ok_code)
  next
    case False
    then show ?thesis
      using generic_code_pos [of g] generic_range [of g]
      by (simp add: op_abs_def op_neg_def sint_neg_generic)
  qed
  then show ?thesis
    using neg_generic_not_special [of g] enum_codes.from_u64_code [OF generic generic_range(1) [of g]]
    by (simp add: from_ipc_def)
qed

end

section \<open>The numbers of the headers\<close>

definition demo_generic_code :: "generic_err \<Rightarrow> i64" where
  "demo_generic_code g = (case g of
      GeOk \<Rightarrow> 0 | NoPerm \<Rightarrow> 1 | NoEntity \<Rightarrow> 2
      | IO \<Rightarrow> 5 | NoDevOrAddr \<Rightarrow> 6 | Arg2Big \<Rightarrow> 7
      | TryAgain \<Rightarrow> 11 | NoMem \<Rightarrow> 12 | PermissionDenied \<Rightarrow> 13
      | InvalidMemAddr \<Rightarrow> 14 | ObjBusy \<Rightarrow> 16
      | AlreadyExists \<Rightarrow> 17 | NoDev \<Rightarrow> 19 | GeInvalidArg \<Rightarrow> 22
      | NoSpace \<Rightarrow> 28 | OutOfBounds \<Rightarrow> 34 | NameTooLong \<Rightarrow> 36
      | NoSys \<Rightarrow> 38 | InvalidProt \<Rightarrow> 39 | AddrNotAvail \<Rightarrow> 99
      | MaxErr \<Rightarrow> 100 | NoReply \<Rightarrow> 1000 | MsgTooShort \<Rightarrow> 1001
      | MsgTooLong \<Rightarrow> 1002 | MsgInvalidCap \<Rightarrow> 1003
      | IpcRLow \<Rightarrow> 2000 | IpcRHigh \<Rightarrow> 2031)"

definition demo_generics :: "generic_err list" where
  "demo_generics =
    [GeOk, NoPerm, NoEntity, IO, NoDevOrAddr, Arg2Big, TryAgain, NoMem, PermissionDenied
     , InvalidMemAddr, ObjBusy, AlreadyExists, NoDev, GeInvalidArg, NoSpace, OutOfBounds
     , NameTooLong, NoSys, InvalidProt, AddrNotAvail, MaxErr, NoReply, MsgTooShort, MsgTooLong
     , MsgInvalidCap, IpcRLow, IpcRHigh]"

definition demo_tcr_code :: "tcr_err \<Rightarrow> i64" where
  "demo_tcr_code t = (case t of
      IpcErrorMask \<Rightarrow> 0x1f | SendErrMask \<Rightarrow> 1 | NotExistent \<Rightarrow> 4
      | RecvTimeout \<Rightarrow> 3 | SendTimeout \<Rightarrow> 2 | RecvCanceled \<Rightarrow> 7
      | SendCanceled \<Rightarrow> 6 | RemapFailed \<Rightarrow> 0x11
      | SendMapFailed \<Rightarrow> 0x10 | RecvSendPFTimeout \<Rightarrow> 0xb
      | SendSendPFTimeout \<Rightarrow> 0xa | RecvRecvPFTimeout \<Rightarrow> 0xd
      | SendRecvPFTimeout \<Rightarrow> 0xc | RecvAbort \<Rightarrow> 0xf
      | SendAbort \<Rightarrow> 0xe | RecvMsgCut \<Rightarrow> 9 | SendMsgCut \<Rightarrow> 8)"

definition demo_tcrs :: "tcr_err list" where
  "demo_tcrs =
    [IpcErrorMask, SendErrMask, NotExistent, RecvTimeout, SendTimeout, RecvCanceled, SendCanceled
     , RemapFailed, SendMapFailed, RecvSendPFTimeout, SendSendPFTimeout, RecvRecvPFTimeout
     , SendRecvPFTimeout, RecvAbort, SendAbort, RecvMsgCut, SendMsgCut]"

definition demo_errors :: err_env where
  "demo_errors = \<lparr>generic_codes = enum_of demo_generic_code demo_generics,
     tcr_codes = enum_of demo_tcr_code demo_tcrs, ipc_error = (\<lambda>tag u. 4)\<rparr>"

lemma set_demo_generics: "set demo_generics = UNIV"
proof (rule UNIV_eq_I [symmetric])
  fix x show "x \<in> set demo_generics"
    by (cases x) (simp_all add: demo_generics_def)
qed

lemma set_demo_tcrs: "set demo_tcrs = UNIV"
proof (rule UNIV_eq_I [symmetric])
  fix x show "x \<in> set demo_tcrs"
    by (cases x) (simp_all add: demo_tcrs_def)
qed

lemma inj_demo_generic_code: "inj demo_generic_code"
proof -
  have "distinct (map demo_generic_code demo_generics)"
    by (simp add: demo_generics_def demo_generic_code_def)
  then show ?thesis
    by (simp add: distinct_map set_demo_generics)
qed

lemma inj_demo_tcr_code: "inj demo_tcr_code"
proof -
  have "distinct (map demo_tcr_code demo_tcrs)"
    by (simp add: demo_tcrs_def demo_tcr_code_def)
  then show ?thesis
    by (simp add: distinct_map set_demo_tcrs)
qed

interpretation demo_errs: error_codes demo_errors
proof (rule error_codes.intro)
  show "enum_codes (generic_codes demo_errors)"
    by (simp add: demo_errors_def enum_of_codes inj_demo_generic_code set_demo_generics)
  show "enum_codes (tcr_codes demo_errors)"
    by (simp add: demo_errors_def enum_of_codes inj_demo_tcr_code set_demo_tcrs)
  show "0 \<le> sint (code_of (generic_codes demo_errors) g)" for g
    by (cases g) (simp_all add: demo_errors_def enum_of_def demo_generic_code_def)
  show "sint (code_of (generic_codes demo_errors) g) < 65540" for g
    by (cases g) (simp_all add: demo_errors_def enum_of_def demo_generic_code_def)
  show "0 < sint (code_of (tcr_codes demo_errors) t)" for t
    by (cases t) (simp_all add: demo_errors_def enum_of_def demo_tcr_code_def)
  show "sint (code_of (tcr_codes demo_errors) t) < 65540" for t
    by (cases t) (simp_all add: demo_errors_def enum_of_def demo_tcr_code_def)
  show "code_of (generic_codes demo_errors) GeOk = 0"
    by (simp add: demo_errors_def enum_of_def demo_generic_code_def)
qed

end
