(* ===== verification/Utcb_Regs.thy ===== *)
theory Utcb_Regs
  imports L4_Error
begin

text \<open>
  The typed, byte-granular view of the message and buffer registers, \<open>crates/l4/utcb.rs\<close>. A
  \<open>Registers\<close> value is the memory behind its base pointer and an offset; \<open>UtcbMr\<close> adds the number
  of typed items. The size \<open>BUF_SIZE\<close> of the register area is the argument \<open>B\<close>.

  A value of a serialisable type is its bit pattern, a number below \<open>256 ^ size\<close>.
\<close>

section \<open>Serialisable types\<close>

datatype mty = I8 | I16 | I32 | I64 | I128 | U8 | U16 | U32 | U64 | U128 | F32 | F64
  | Usize | Isize | Bool | Char | FlexPage | TwoWords

text \<open>Sizes and alignments of a 64-bit ARM target; a flex page is a C structure of two words, and so
  are the structures \<open>DsStats\<close> and \<open>DeprecatedPhys\<close> of \<open>l4re/mem.rs\<close>, which are read and written as a
  whole (\<open>TwoWords\<close>).\<close>

fun size_of :: "mty \<Rightarrow> nat" where
  "size_of I8 = 1" | "size_of U8 = 1" | "size_of Bool = 1"
| "size_of I16 = 2" | "size_of U16 = 2"
| "size_of I32 = 4" | "size_of U32 = 4" | "size_of F32 = 4" | "size_of Char = 4"
| "size_of I64 = 8" | "size_of U64 = 8" | "size_of F64 = 8" | "size_of Usize = 8" | "size_of Isize = 8"
| "size_of I128 = 16" | "size_of U128 = 16" | "size_of FlexPage = 16" | "size_of TwoWords = 16"

definition align_of :: "mty \<Rightarrow> nat" where
  "align_of T = (if T = FlexPage \<or> T = TwoWords then 8 else size_of T)"

text \<open>\<open>NumCast::from\<close> of a length into an integer type, and \<open>to_usize\<close> of a stored length.\<close>

definition signed_ty :: "mty \<Rightarrow> bool" where
  "signed_ty T \<longleftrightarrow> T \<in> {I8, I16, I32, I64, I128, Isize}"

definition num_max :: "mty \<Rightarrow> nat" where
  "num_max T = (if signed_ty T then 2 ^ (8 * size_of T - 1) else 2 ^ (8 * size_of T))"

definition num_cast :: "mty \<Rightarrow> nat \<Rightarrow> nat option" where
  "num_cast T n = (if n < num_max T then Some n else None)"

definition to_usize :: "mty \<Rightarrow> nat \<Rightarrow> nat option" where
  "to_usize T n = (if n < num_max T \<and> n < 2 ^ 64 then Some n else None)"

section \<open>Registers\<close>

definition align_offset :: "nat \<Rightarrow> nat \<Rightarrow> nat" where
  "align_offset align off =
     unat ((word_of_nat (off + align - 1) :: u64) AND NOT (word_of_nat (align - 1)))"

record registers =
  reg_mem :: "u8 list"
  reg_offset :: nat

text \<open>The aligned slot the next value of a type takes, as \<open>write\<close>, \<open>read\<close> and \<open>skip\<close> compute it.\<close>

definition next_slot :: "nat \<Rightarrow> mty \<Rightarrow> nat \<Rightarrow> (l4_error, nat \<times> nat) result" where
  "next_slot B T off =
     (let start = align_offset (align_of T) off
      in case checked_add_usize start (size_of T) of
           None \<Rightarrow> Inl (Generic MsgTooLong)
         | Some e \<Rightarrow> if e > B then Inl (Generic MsgTooLong) else Inr (start, e))"

definition regs_write :: "nat \<Rightarrow> mty \<Rightarrow> nat \<Rightarrow> 'z registers_scheme
    \<Rightarrow> (l4_error, unit) result \<times> 'z registers_scheme" where
  "regs_write B T v r =
     (case next_slot B T (reg_offset r) of
        Inl err \<Rightarrow> (Inl err, r)
      | Inr (start, e) \<Rightarrow>
          (Inr (), r\<lparr>reg_mem := overwrite (reg_mem r) start (le_bytes (size_of T) v), reg_offset := e\<rparr>))"

definition regs_read :: "nat \<Rightarrow> mty \<Rightarrow> 'z registers_scheme
    \<Rightarrow> (l4_error, nat) result \<times> 'z registers_scheme" where
  "regs_read B T r =
     (case next_slot B T (reg_offset r) of
        Inl err \<Rightarrow> (Inl err, r)
      | Inr (start, e) \<Rightarrow> (Inr (le_nat (slice (reg_mem r) start (size_of T))), r\<lparr>reg_offset := e\<rparr>))"

definition regs_skip :: "nat \<Rightarrow> mty \<Rightarrow> 'z registers_scheme
    \<Rightarrow> (l4_error, unit) result \<times> 'z registers_scheme" where
  "regs_skip B T r =
     (case next_slot B T (reg_offset r) of
        Inl err \<Rightarrow> (Inl err, r)
      | Inr (start, e) \<Rightarrow> (Inr (), r\<lparr>reg_offset := e\<rparr>))"

text \<open>The region of \<open>n\<close> elements of a slice; writing and reading differ in the error they report.\<close>

definition slice_slot :: "generic_err \<Rightarrow> nat \<Rightarrow> mty \<Rightarrow> nat \<Rightarrow> nat \<Rightarrow> (l4_error, nat \<times> nat) result" where
  "slice_slot err B T n off =
     (let start = align_offset (align_of T) off
      in case checked_mul_usize n (size_of T) of
           None \<Rightarrow> Inl (Generic err)
         | Some size_bytes \<Rightarrow>
             (case checked_add_usize start size_bytes of
                None \<Rightarrow> Inl (Generic err)
              | Some e \<Rightarrow> if e > B then Inl (Generic err) else Inr (start, e)))"

definition elems_bytes :: "mty \<Rightarrow> nat list \<Rightarrow> u8 list" where
  "elems_bytes T vs = concat (map (le_bytes (size_of T)) vs)"

primrec bytes_elems :: "mty \<Rightarrow> nat \<Rightarrow> u8 list \<Rightarrow> nat list" where
  "bytes_elems T 0 bs = []"
| "bytes_elems T (Suc n) bs = le_nat (take (size_of T) bs) # bytes_elems T n (drop (size_of T) bs)"

definition write_slice :: "nat \<Rightarrow> mty \<Rightarrow> mty \<Rightarrow> nat list \<Rightarrow> 'z registers_scheme
    \<Rightarrow> (l4_error, unit) result \<times> 'z registers_scheme" where
  "write_slice B Len T vs r =
     (case num_cast Len (length vs) of
        None \<Rightarrow> (Inl (Generic GeInvalidArg), r)
      | Some len \<Rightarrow>
          (case regs_write B Len len r of
             (Inl err, r) \<Rightarrow> (Inl err, r)
           | (Inr _, r) \<Rightarrow>
               (case slice_slot MsgTooLong B T (length vs) (reg_offset r) of
                  Inl err \<Rightarrow> (Inl err, r)
                | Inr (start, e) \<Rightarrow>
                    (Inr (), r\<lparr>reg_mem := overwrite (reg_mem r) start (elems_bytes T vs),
                               reg_offset := e\<rparr>))))"

definition write_str :: "nat \<Rightarrow> u8 list \<Rightarrow> 'z registers_scheme
    \<Rightarrow> (l4_error, unit) result \<times> 'z registers_scheme" where
  "write_str B s r = write_slice B Usize U8 (map unat s) r"

definition read_slice :: "nat \<Rightarrow> mty \<Rightarrow> mty \<Rightarrow> 'z registers_scheme
    \<Rightarrow> (l4_error, nat list) result \<times> 'z registers_scheme" where
  "read_slice B Len T r =
     (case regs_read B Len r of
        (Inl err, r) \<Rightarrow> (Inl err, r)
      | (Inr l, r) \<Rightarrow>
          (case to_usize Len l of
             None \<Rightarrow> (Inl (Generic GeInvalidArg), r)
           | Some len \<Rightarrow>
               (case slice_slot OutOfBounds B T len (reg_offset r) of
                  Inl err \<Rightarrow> (Inl err, r)
                | Inr (start, e) \<Rightarrow>
                    (Inr (bytes_elems T len (drop start (reg_mem r))), r\<lparr>reg_offset := e\<rparr>))))"

definition read_str :: "nat \<Rightarrow> 'z registers_scheme \<Rightarrow> (l4_error, u8 list) result \<times> 'z registers_scheme" where
  "read_str B r =
     (case regs_read B Usize r of
        (Inl err, r) \<Rightarrow> (Inl err, r)
      | (Inr len, r) \<Rightarrow>
          (case checked_add_usize (reg_offset r) len of
             None \<Rightarrow> (Inl (Generic OutOfBounds), r)
           | Some e \<Rightarrow>
               if e > B then (Inl (Generic OutOfBounds), r)
               else let s = slice (reg_mem r) (reg_offset r) len;
                        usable = (if s \<noteq> [] \<and> last s = 0 then len - 1 else len);
                        str = take usable s
                    in if utf8_ok str then (Inr str, r\<lparr>reg_offset := e\<rparr>)
                       else (Inl (InvalidEncoding (Some Utf8Error)), r)))"

definition regs_words :: "'z registers_scheme \<Rightarrow> u32" where
  "regs_words r = word_of_nat (reg_offset r div 8 + (if reg_offset r mod 8 = 0 then 0 else 1))"

section \<open>UtcbMr\<close>

record utcb_mrs = registers +
  mr_items :: u32

definition write_item :: "bool \<Rightarrow> nat \<Rightarrow> mty \<Rightarrow> nat \<Rightarrow> utcb_mrs
    \<Rightarrow> ((l4_error, unit) result \<times> utcb_mrs) option" where
  "write_item oc B T v m =
     (case regs_write B T v m of
        (Inl err, m) \<Rightarrow> Some (Inl err, m)
      | (Inr _, m) \<Rightarrow> do { i \<leftarrow> op_add oc (mr_items m) 1; Some (Inr (), m\<lparr>mr_items := i\<rparr>) })"

definition mr_words :: "bool \<Rightarrow> utcb_mrs \<Rightarrow> u32 option" where
  "mr_words oc m = do { i2 \<leftarrow> op_mul oc (mr_items m) 2; op_sub oc (regs_words m) i2 }"

definition mr_reset :: "utcb_mrs \<Rightarrow> utcb_mrs" where
  "mr_reset m = m\<lparr>mr_items := 0, reg_offset := 0\<rparr>"

text \<open>\<open>UtcbMr::from_mr\<close> on the memory of the message registers.\<close>

definition from_mr :: "u8 list \<Rightarrow> utcb_mrs" where
  "from_mr mem = \<lparr>reg_mem = mem, reg_offset = 0, mr_items = 0\<rparr>"

section \<open>Flex pages\<close>

record snd_flex_page =
  fp_description :: u64
  fp_fpage :: u64

definition flex_new :: "abi \<Rightarrow> u64 \<Rightarrow> u64 \<Rightarrow> u64 option \<Rightarrow> snd_flex_page" where
  "flex_new A fpage snd_base mt =
     \<lparr>fp_description = ITEM_MAP A OR (snd_base AND push_bit 10 (NOT 0)) OR (case mt of Some v \<Rightarrow> v | None \<Rightarrow> 0),
      fp_fpage = fpage\<rparr>"

definition rights_RWX :: "abi \<Rightarrow> u8" where
  "rights_RWX A = FPAGE_RO A OR FPAGE_W A OR FPAGE_X A"

definition from_cap :: "abi \<Rightarrow> u64 \<Rightarrow> u8 \<Rightarrow> u64 option \<Rightarrow> snd_flex_page" where
  "from_cap A c rights mt = flex_new A (obj_fpage A c 0 rights) 0 mt"

text \<open>The structure in memory: the description, then the page.\<close>

definition flex_bits :: "snd_flex_page \<Rightarrow> nat" where
  "flex_bits fp = unat (fp_description fp) + 2 ^ 64 * unat (fp_fpage fp)"

section \<open>Alignment\<close>

lemma unat_and_not_mask:
  fixes w :: "'a::len word"
  shows "unat (w AND NOT (mask k)) = unat w div 2 ^ k * 2 ^ k"
proof -
  have "w AND NOT (mask k) = push_bit k (drop_bit k w)"
    by (rule bit_word_eqI) (auto simp: bit_simps)
  moreover have "unat w div 2 ^ k * 2 ^ k < 2 ^ LENGTH('a)"
    using unsigned_less [of w] by (metis div_times_less_eq_dividend order_le_less_trans)
  moreover have "unat (push_bit k (drop_bit k w)) = take_bit LENGTH('a) (push_bit k (drop_bit k (unat w)))"
    using take_bit_nat_eq_self [OF unsigned_less [of w]]
    by (simp only: unsigned_push_bit_eq unsigned_drop_bit_eq)
  ultimately show ?thesis
    by (simp add: push_bit_eq_mult drop_bit_eq_div take_bit_nat_eq_self)
qed

lemma align_offset_pow2:
  assumes "off + 2 ^ k \<le> 2 ^ 64"
  shows "align_offset (2 ^ k) off = (off + 2 ^ k - 1) div 2 ^ k * 2 ^ k"
proof -
  have "word_of_nat (2 ^ k - 1) = (mask k :: u64)"
    by (simp add: mask_eq_exp_minus_1 of_nat_diff)
  moreover have "off + 2 ^ k - 1 < 2 ^ 64"
    using assms by (metis diff_less less_numeral_extra(1) order_less_le_trans
        add_gr_0 zero_less_numeral zero_less_power)
  then have "unat (word_of_nat (off + 2 ^ k - 1) :: u64) = off + 2 ^ k - 1"
    by (simp add: unat_of_nat take_bit_nat_eq_self)
  ultimately show ?thesis
    by (simp add: align_offset_def unat_and_not_mask)
qed

lemma align_of_pow2: "\<exists>k\<le>4. align_of T = 2 ^ k"
proof -
  have "align_of T \<in> {2 ^ 0, 2 ^ 1, 2 ^ 2, 2 ^ 3, 2 ^ 4}"
    by (cases T) (simp_all add: align_of_def)
  then show ?thesis
    by (elim insertE emptyE) (auto intro: exI [of _ 0] exI [of _ 1] exI [of _ 2] exI [of _ 3] exI [of _ 4])
qed

lemma align_bounds:
  assumes "off + 16 \<le> 2 ^ 64"
  shows "off \<le> align_offset (align_of T) off" and "align_offset (align_of T) off < off + align_of T"
proof -
  obtain k where k: "k \<le> 4" "align_of T = 2 ^ k"
    using align_of_pow2 by blast
  have "(2 :: nat) ^ k \<le> 2 ^ 4"
    using k(1) by (rule power_increasing) simp
  then have eq: "align_offset (align_of T) off = (off + 2 ^ k - 1) div 2 ^ k * 2 ^ k"
    using assms k(2) by (simp add: align_offset_pow2)
  define p where "p = (2 :: nat) ^ k"
  have p: "0 < p"
    by (simp add: p_def)
  have div: "(off + p - 1) div p * p = off + p - 1 - (off + p - 1) mod p"
    by (metis minus_mod_eq_div_mult)
  have "(off + p - 1) mod p < p"
    using p by (rule mod_less_divisor)
  then show "off \<le> align_offset (align_of T) off"
    unfolding eq p_def [symmetric] div by linarith
  show "align_offset (align_of T) off < off + align_of T"
    unfolding eq unfolding k(2) p_def [symmetric] div using p by linarith
qed

text \<open>The closed form in which concrete slots are computed.\<close>

lemma align_offset_eval:
  "off + 16 \<le> 2 ^ 64 \<Longrightarrow> align_offset (Suc 0) off = off"
  "off + 16 \<le> 2 ^ 64 \<Longrightarrow> align_offset 2 off = (off + 1) div 2 * 2"
  "off + 16 \<le> 2 ^ 64 \<Longrightarrow> align_offset 4 off = (off + 3) div 4 * 4"
  "off + 16 \<le> 2 ^ 64 \<Longrightarrow> align_offset 8 off = (off + 7) div 8 * 8"
  "off + 16 \<le> 2 ^ 64 \<Longrightarrow> align_offset 16 off = (off + 15) div 16 * 16"
  using align_offset_pow2 [of off 0] align_offset_pow2 [of off 1] align_offset_pow2 [of off 2]
    align_offset_pow2 [of off 3] align_offset_pow2 [of off 4] by simp_all

lemma align_offset_1 [simp]: "off < 2 ^ 64 \<Longrightarrow> align_offset (align_of U8) off = off"
  using align_offset_pow2 [of off 0] by (simp add: align_of_def)

text \<open>The slot of a value starts at an aligned address at or after the offset, and ends inside the
  registers.\<close>

lemma next_slot_Inr:
  assumes "next_slot B T off = Inr (s, e)" and "off \<le> B" and "B + 16 \<le> 2 ^ 64"
  shows "s = align_offset (align_of T) off" "off \<le> s" "e = s + size_of T" "e \<le> B" "off < e"
proof -
  have off: "off + 16 \<le> 2 ^ 64"
    using assms(2,3) by simp
  show s: "s = align_offset (align_of T) off" and e: "e = s + size_of T" and "e \<le> B"
    using assms(1)
    by (auto simp: next_slot_def checked_add_usize_def Let_def split: option.splits if_splits)
  show "off \<le> s"
    using align_bounds(1) [OF off] s by simp
  moreover have "0 < size_of T"
    by (cases T) simp_all
  ultimately show "off < e"
    using e by simp
qed

lemma slice_slot_Inr:
  assumes "slice_slot err B T n off = Inr (s, e)" and "off \<le> B" and "B + 16 \<le> 2 ^ 64"
  shows "s = align_offset (align_of T) off" "off \<le> s" "e = s + n * size_of T" "e \<le> B"
proof -
  have off: "off + 16 \<le> 2 ^ 64"
    using assms(2,3) by simp
  show s: "s = align_offset (align_of T) off" and "e = s + n * size_of T" and "e \<le> B"
    using assms(1)
    by (auto simp: slice_slot_def checked_add_usize_def checked_mul_usize_def Let_def
        split: option.splits if_splits)
  show "off \<le> s"
    using align_bounds(1) [OF off] s by simp
qed

section \<open>Elements of slices\<close>

lemma length_elems_bytes [simp]: "length (elems_bytes T vs) = length vs * size_of T"
  by (induction vs) (simp_all add: elems_bytes_def)

lemma bytes_elems_elems_bytes:
  assumes "\<forall>v\<in>set vs. v < 256 ^ size_of T"
  shows "bytes_elems T (length vs) (elems_bytes T vs @ rest) = vs"
  using assms by (induction vs) (simp_all add: elems_bytes_def)

lemma bytes_elems_take:
  "n * size_of T \<le> length bs \<Longrightarrow> bytes_elems T n (take (n * size_of T) bs) = bytes_elems T n bs"
proof (induction n arbitrary: bs)
  case 0
  then show ?case by simp
next
  case (Suc n)
  then have "n * size_of T \<le> length (drop (size_of T) bs)"
    by simp
  from Suc.IH [OF this] show ?case
    by (simp add: drop_take min_def)
qed

section \<open>Agreement of memories\<close>

definition agree :: "nat \<Rightarrow> nat \<Rightarrow> 'a list \<Rightarrow> 'a list \<Rightarrow> bool" where
  "agree a b xs ys \<longleftrightarrow> (\<forall>i. a \<le> i \<and> i < b \<longrightarrow> xs ! i = ys ! i)"

lemma agree_refl [simp]: "agree a b xs xs"
  by (simp add: agree_def)

lemma agree_mono: "agree a b xs ys \<Longrightarrow> a \<le> a' \<Longrightarrow> b' \<le> b \<Longrightarrow> agree a' b' xs ys"
  by (simp add: agree_def)

lemma agree_trans: "agree a b xs ys \<Longrightarrow> agree a b ys zs \<Longrightarrow> agree a b xs zs"
  by (simp add: agree_def)

lemma agree_sym: "agree a b xs ys \<Longrightarrow> agree a b ys xs"
  by (simp add: agree_def)

lemma agree_slice:
  assumes "agree a b xs ys" and "a \<le> s" and "s + n \<le> b" and "length xs = length ys"
    and "s + n \<le> length xs"
  shows "slice xs s n = slice ys s n"
proof (rule nth_equalityI)
  show "length (slice xs s n) = length (slice ys s n)"
    using assms(4) by simp
  fix i assume "i < length (slice xs s n)"
  then have "s + i < s + n"
    by simp
  then show "slice xs s n ! i = slice ys s n ! i"
    using assms by (simp add: slice_def agree_def)
qed

lemma agree_overwrite:
  assumes "b \<le> i" and "i + length ys \<le> length xs"
  shows "agree 0 b (overwrite xs i ys) xs"
  using assms by (simp add: agree_def nth_overwrite)

section \<open>Writing and reading back\<close>

text \<open>The registers of a builder and its offset; the sizes of the areas are small.\<close>

definition regs_ok :: "nat \<Rightarrow> 'z registers_scheme \<Rightarrow> bool" where
  "regs_ok B r \<longleftrightarrow> B + 16 \<le> 2 ^ 32 \<and> length (reg_mem r) = B \<and> reg_offset r \<le> B"

text \<open>\<open>r'\<close> is \<open>r\<close> with more written behind its offset.\<close>

definition extends :: "nat \<Rightarrow> 'z registers_scheme \<Rightarrow> 'z registers_scheme \<Rightarrow> bool" where
  "extends B r r' \<longleftrightarrow> regs_ok B r' \<and> reg_offset r \<le> reg_offset r' \<and>
     agree 0 (reg_offset r) (reg_mem r') (reg_mem r)"

text \<open>A reader \<open>q\<close> at the place where \<open>r\<close> began sees what was written up to \<open>r'\<close>.\<close>

definition sees :: "nat \<Rightarrow> 'z registers_scheme \<Rightarrow> 'z registers_scheme \<Rightarrow> 'y registers_scheme \<Rightarrow> bool" where
  "sees B r r' q \<longleftrightarrow> regs_ok B q \<and> reg_offset q = reg_offset r \<and>
     agree (reg_offset r) (reg_offset r') (reg_mem q) (reg_mem r')"

lemma regs_okD: "regs_ok B r \<Longrightarrow> B + 16 \<le> 2 ^ 64" "regs_ok B r \<Longrightarrow> reg_offset r \<le> B"
  "regs_ok B r \<Longrightarrow> length (reg_mem r) = B"
  by (auto simp: regs_ok_def)

lemma extends_trans: "extends B r r1 \<Longrightarrow> extends B r1 r2 \<Longrightarrow> extends B r r2"
  by (auto simp: extends_def agree_def)

lemma sees_split:
  assumes "sees B r r2 q" and "extends B r r1" and "extends B r1 r2"
  shows "sees B r r1 q" and "sees B r1 r2 (q\<lparr>reg_offset := reg_offset r1\<rparr>)"
  using assms by (auto simp: sees_def extends_def agree_def regs_ok_def)

lemma slot_in_regs:
  assumes "regs_ok B r" and "next_slot B T (reg_offset r) = Inr (s, e)"
  shows "reg_offset r \<le> s" "e = s + size_of T" "e \<le> B" "reg_offset r < e"
  using next_slot_Inr [OF assms(2) regs_okD(2) [OF assms(1)] regs_okD(1) [OF assms(1)]] by simp_all

lemma slices_in_regs:
  assumes "regs_ok B r" and "slice_slot err B T n (reg_offset r) = Inr (s, e)"
  shows "reg_offset r \<le> s" "e = s + n * size_of T" "e \<le> B"
  using slice_slot_Inr [OF assms(2) regs_okD(2) [OF assms(1)] regs_okD(1) [OF assms(1)]] by simp_all

lemma overwrite_extends:
  assumes "regs_ok B r" and "reg_offset r \<le> s" and "s + length bs \<le> B"
  shows "extends B r (r\<lparr>reg_mem := overwrite (reg_mem r) s bs, reg_offset := s + length bs\<rparr>)"
  using assms agree_overwrite [of "reg_offset r" s bs "reg_mem r"]
  by (simp add: extends_def regs_ok_def)

lemma sees_bytes:
  assumes "sees B r (r\<lparr>reg_mem := overwrite (reg_mem r) s bs, reg_offset := s + length bs\<rparr>) q"
    and "regs_ok B r" and "reg_offset r \<le> s" and "s + length bs \<le> B"
  shows "slice (reg_mem q) s (length bs) = bs"
proof -
  have "slice (reg_mem q) s (length bs) = slice (overwrite (reg_mem r) s bs) s (length bs)"
    using assms by (intro agree_slice [of "reg_offset r" "s + length bs"]) (auto simp: sees_def regs_ok_def)
  then show ?thesis
    using assms(2,4) by (simp add: slice_overwrite regs_ok_def)
qed

lemma regs_write_Inr:
  assumes "regs_write B T v r = (Inr (), r')"
  obtains s where "next_slot B T (reg_offset r) = Inr (s, s + size_of T)"
    and "r' = r\<lparr>reg_mem := overwrite (reg_mem r) s (le_bytes (size_of T) v),
                reg_offset := s + length (le_bytes (size_of T) v)\<rparr>"
proof -
  obtain s e where "next_slot B T (reg_offset r) = Inr (s, e)"
    and "r' = r\<lparr>reg_mem := overwrite (reg_mem r) s (le_bytes (size_of T) v), reg_offset := e\<rparr>"
    using assms by (auto simp: regs_write_def split: sum.splits)
  moreover from this(1) have "e = s + size_of T"
    by (auto simp: next_slot_def checked_add_usize_def Let_def split: option.splits if_splits)
  ultimately show thesis
    using that by simp
qed

lemma regs_write_extends:
  assumes "regs_ok B r" and "regs_write B T v r = (Inr (), r')"
  shows "extends B r r'"
proof (rule regs_write_Inr [OF assms(2)])
  fix s
  assume slot: "next_slot B T (reg_offset r) = Inr (s, s + size_of T)"
    and r': "r' = r\<lparr>reg_mem := overwrite (reg_mem r) s (le_bytes (size_of T) v),
                reg_offset := s + length (le_bytes (size_of T) v)\<rparr>"
  show "extends B r r'"
    unfolding r' using slot_in_regs [OF assms(1) slot] assms(1) by (intro overwrite_extends) simp_all
qed

lemma regs_read_back:
  assumes "regs_ok B r" and "regs_write B T v r = (Inr (), r')" and "sees B r r' q"
    and "v < 256 ^ size_of T"
  shows "regs_read B T q = (Inr v, q\<lparr>reg_offset := reg_offset r'\<rparr>)"
proof (rule regs_write_Inr [OF assms(2)])
  fix s
  assume slot: "next_slot B T (reg_offset r) = Inr (s, s + size_of T)"
    and r': "r' = r\<lparr>reg_mem := overwrite (reg_mem r) s (le_bytes (size_of T) v),
                reg_offset := s + length (le_bytes (size_of T) v)\<rparr>"
  have "slice (reg_mem q) s (length (le_bytes (size_of T) v)) = le_bytes (size_of T) v"
    using assms(1,3) slot_in_regs [OF assms(1) slot] unfolding r' by (intro sees_bytes) simp_all
  moreover have "reg_offset q = reg_offset r"
    using assms(3) by (simp add: sees_def)
  ultimately show "regs_read B T q = (Inr v, q\<lparr>reg_offset := reg_offset r'\<rparr>)"
    using slot assms(4) by (simp add: regs_read_def r')
qed

text \<open>A slice is its length and its elements.\<close>

lemma write_slice_Inr:
  assumes "write_slice B Len T vs r = (Inr (), r')"
  obtains r1 s where "num_cast Len (length vs) = Some (length vs)"
    and "regs_write B Len (length vs) r = (Inr (), r1)"
    and "slice_slot MsgTooLong B T (length vs) (reg_offset r1) = Inr (s, s + length (elems_bytes T vs))"
    and "r' = r1\<lparr>reg_mem := overwrite (reg_mem r1) s (elems_bytes T vs),
                 reg_offset := s + length (elems_bytes T vs)\<rparr>"
proof -
  obtain r1 s e where "num_cast Len (length vs) = Some (length vs)"
    and "regs_write B Len (length vs) r = (Inr (), r1)"
    and slot: "slice_slot MsgTooLong B T (length vs) (reg_offset r1) = Inr (s, e)"
    and "r' = r1\<lparr>reg_mem := overwrite (reg_mem r1) s (elems_bytes T vs), reg_offset := e\<rparr>"
    using assms by (auto simp: write_slice_def num_cast_def split: sum.splits option.splits if_splits prod.splits)
  moreover from slot have "e = s + length (elems_bytes T vs)"
    by (auto simp: slice_slot_def checked_add_usize_def checked_mul_usize_def Let_def
        split: option.splits if_splits)
  ultimately show thesis
    using that by simp
qed

lemma write_slice_extends:
  assumes "regs_ok B r" and "write_slice B Len T vs r = (Inr (), r')"
  shows "extends B r r'"
proof (rule write_slice_Inr [OF assms(2)])
  fix r1 s
  assume w: "regs_write B Len (length vs) r = (Inr (), r1)"
    and slot: "slice_slot MsgTooLong B T (length vs) (reg_offset r1) = Inr (s, s + length (elems_bytes T vs))"
    and r': "r' = r1\<lparr>reg_mem := overwrite (reg_mem r1) s (elems_bytes T vs),
                 reg_offset := s + length (elems_bytes T vs)\<rparr>"
  have r1: "extends B r r1"
    by (rule regs_write_extends [OF assms(1) w])
  then have ok: "regs_ok B r1"
    by (simp add: extends_def)
  have "extends B r1 r'"
    unfolding r' using slices_in_regs [OF ok slot] ok by (intro overwrite_extends) simp_all
  with r1 show "extends B r r'"
    by (rule extends_trans)
qed

lemma num_cast_fits:
  assumes "num_cast T n = Some m"
  shows "n < 256 ^ size_of T" and "m = n"
proof -
  have "n < num_max T" and m: "m = n"
    using assms by (auto simp: num_cast_def split: if_splits)
  moreover have "num_max T \<le> 2 ^ (8 * size_of T)"
    by (simp add: num_max_def)
  moreover have "(256 :: nat) ^ size_of T = 2 ^ (8 * size_of T)"
    by (simp add: power_mult)
  ultimately show "n < 256 ^ size_of T"
    by simp
  show "m = n"
    by (rule m)
qed

lemma read_slice_back:
  assumes "regs_ok B r" and "write_slice B Len T vs r = (Inr (), r')" and "sees B r r' q"
    and "\<forall>v\<in>set vs. v < 256 ^ size_of T"
  shows "read_slice B Len T q = (Inr vs, q\<lparr>reg_offset := reg_offset r'\<rparr>)"
proof (rule write_slice_Inr [OF assms(2)])
  fix r1 s
  assume cast: "num_cast Len (length vs) = Some (length vs)"
    and w: "regs_write B Len (length vs) r = (Inr (), r1)"
    and slot: "slice_slot MsgTooLong B T (length vs) (reg_offset r1) = Inr (s, s + length (elems_bytes T vs))"
    and r': "r' = r1\<lparr>reg_mem := overwrite (reg_mem r1) s (elems_bytes T vs),
                 reg_offset := s + length (elems_bytes T vs)\<rparr>"
  have r1: "extends B r r1"
    by (rule regs_write_extends [OF assms(1) w])
  then have ok: "regs_ok B r1"
    by (simp add: extends_def)
  note bounds = slices_in_regs [OF ok slot]
  have r2: "extends B r1 r'"
    unfolding r' using bounds ok by (intro overwrite_extends) simp_all
  note split = sees_split [OF assms(3) r1 r2]
  let ?q = "q\<lparr>reg_offset := reg_offset r1\<rparr>"
  have len: "regs_read B Len q = (Inr (length vs), ?q)"
    using regs_read_back [OF assms(1) w split(1)] num_cast_fits(1) [OF cast] by simp
  have small: "length vs < 2 ^ 64"
    using bounds regs_okD(1) [OF ok] by (cases T) simp_all
  have "slice (reg_mem ?q) s (length (elems_bytes T vs)) = elems_bytes T vs"
    using split(2) ok bounds unfolding r' by (intro sees_bytes) simp_all
  then have bytes: "take (length vs * size_of T) (drop s (reg_mem q)) = elems_bytes T vs"
    by (simp add: slice_def)
  have "bytes_elems T (length vs) (drop s (reg_mem q)) =
      bytes_elems T (length vs) (elems_bytes T vs)"
    using bytes bytes_elems_take [of "length vs" T "drop s (reg_mem q)"]
    by (metis length_elems_bytes length_take min.cobounded1 min_def order_refl)
  also have "\<dots> = vs"
    using bytes_elems_elems_bytes [of vs T "[]"] assms(4) by simp
  finally have elems: "bytes_elems T (length vs) (drop s (reg_mem q)) = vs" .
  have "slice_slot OutOfBounds B T (length vs) (reg_offset r1) = Inr (s, s + length (elems_bytes T vs))"
    using slot by (auto simp: slice_slot_def Let_def split: option.splits if_splits)
  then show "read_slice B Len T q = (Inr vs, q\<lparr>reg_offset := reg_offset r'\<rparr>)"
    using len small elems cast
    by (simp add: read_slice_def to_usize_def num_cast_def r' split: if_splits)
qed

lemma elems_bytes_U8: "elems_bytes U8 (map unat s) = s"
  by (induction s) (simp_all add: elems_bytes_def)

lemma read_str_back:
  assumes "regs_ok B r" and "write_str B s r = (Inr (), r')" and "sees B r r' q"
    and "utf8_ok s" and "s = [] \<or> last s \<noteq> 0"
  shows "read_str B q = (Inr s, q\<lparr>reg_offset := reg_offset r'\<rparr>)"
proof (rule write_slice_Inr [OF assms(2) [unfolded write_str_def]])
  fix r1 i
  assume cast: "num_cast Usize (length (map unat s)) = Some (length (map unat s))"
    and w: "regs_write B Usize (length (map unat s)) r = (Inr (), r1)"
    and slot: "slice_slot MsgTooLong B U8 (length (map unat s)) (reg_offset r1)
       = Inr (i, i + length (elems_bytes U8 (map unat s)))"
    and r': "r' = r1\<lparr>reg_mem := overwrite (reg_mem r1) i (elems_bytes U8 (map unat s)),
                 reg_offset := i + length (elems_bytes U8 (map unat s))\<rparr>"
  have r1: "extends B r r1"
    by (rule regs_write_extends [OF assms(1) w])
  then have ok: "regs_ok B r1"
    by (simp add: extends_def)
  note bounds = slices_in_regs [OF ok slot]
  have "i = align_offset (align_of U8) (reg_offset r1)"
    using slice_slot_Inr(1) [OF slot regs_okD(2) [OF ok] regs_okD(1) [OF ok]] .
  moreover have "reg_offset r1 < 2 ^ 64"
    using regs_okD(1,2) [OF ok] by linarith
  ultimately have i: "i = reg_offset r1"
    by simp
  have r2: "extends B r1 r'"
    unfolding r' using bounds ok by (intro overwrite_extends) simp_all
  note split = sees_split [OF assms(3) r1 r2]
  let ?q = "q\<lparr>reg_offset := reg_offset r1\<rparr>"
  have len: "regs_read B Usize q = (Inr (length s), ?q)"
    using regs_read_back [OF assms(1) w split(1)] num_cast_fits(1) [OF cast] by simp
  have "slice (reg_mem ?q) i (length (elems_bytes U8 (map unat s))) = elems_bytes U8 (map unat s)"
    using split(2) ok bounds unfolding r' by (intro sees_bytes) simp_all
  then have str: "slice (reg_mem q) (reg_offset r1) (length s) = s"
    by (simp add: i elems_bytes_U8)
  have "checked_add_usize (reg_offset r1) (length s) = Some (reg_offset r1 + length s)"
    using bounds regs_okD(1) [OF ok] by (simp add: checked_add_usize_def i)
  then show "read_str B q = (Inr s, q\<lparr>reg_offset := reg_offset r'\<rparr>)"
    using len str assms(4,5) bounds by (auto simp: read_str_def i r' elems_bytes_U8 Let_def)
qed

section \<open>Any sequence of operations\<close>

text \<open>The operations a handler has on a builder, in any order and with any arguments.\<close>

datatype reg_op =
    RWrite mty nat
  | RRead mty
  | RSkip mty
  | RWriteSlice mty mty "nat list"
  | RReadSlice mty mty
  | RWriteStr "u8 list"
  | RReadStr
  | RReset

definition regs_reset :: "'z registers_scheme \<Rightarrow> 'z registers_scheme" where
  "regs_reset r = r\<lparr>reg_offset := 0\<rparr>"

definition reg_step :: "nat \<Rightarrow> reg_op \<Rightarrow> 'z registers_scheme \<Rightarrow> 'z registers_scheme" where
  "reg_step B c r = (case c of
      RWrite T v \<Rightarrow> snd (regs_write B T v r)
    | RRead T \<Rightarrow> snd (regs_read B T r)
    | RSkip T \<Rightarrow> snd (regs_skip B T r)
    | RWriteSlice Len T vs \<Rightarrow> snd (write_slice B Len T vs r)
    | RReadSlice Len T \<Rightarrow> snd (read_slice B Len T r)
    | RWriteStr s \<Rightarrow> snd (write_str B s r)
    | RReadStr \<Rightarrow> snd (read_str B r)
    | RReset \<Rightarrow> regs_reset r)"

lemma regs_write_Inl: "regs_write B T v r = (Inl e, r') \<Longrightarrow> r' = r"
  by (auto simp: regs_write_def split: sum.splits)

lemma regs_write_ok: "regs_ok B r \<Longrightarrow> regs_ok B (snd (regs_write B T v r))"
proof -
  assume ok: "regs_ok B r"
  obtain x r' where w: "regs_write B T v r = (x, r')"
    by (metis surj_pair)
  show ?thesis
  proof (cases x)
    case (Inl e)
    with w ok show ?thesis
      by (auto dest: regs_write_Inl)
  next
    case (Inr u)
    with w regs_write_extends [OF ok, of T v r'] show ?thesis
      by (simp add: extends_def)
  qed
qed

lemma regs_read_ok: "regs_ok B r \<Longrightarrow> regs_ok B (snd (regs_read B T r))"
  using slot_in_regs(3) [of B r T] by (auto simp: regs_read_def regs_ok_def split: sum.splits)

lemma regs_skip_ok: "regs_ok B r \<Longrightarrow> regs_ok B (snd (regs_skip B T r))"
  using slot_in_regs(3) [of B r T] by (auto simp: regs_skip_def regs_ok_def split: sum.splits)

lemma write_slice_ok:
  assumes "regs_ok B r"
  shows "regs_ok B (snd (write_slice B Len T vs r))"
proof (cases "write_slice B Len T vs r")
  case (Pair x r')
  show ?thesis
  proof (cases x)
    case (Inr u)
    with Pair write_slice_extends [OF assms, of Len T vs r'] show ?thesis
      by (simp add: extends_def)
  next
    case (Inl e)
    with Pair have "r' = r \<or> r' = snd (regs_write B Len (length vs) r)"
      by (auto simp: write_slice_def num_cast_def split: sum.splits option.splits if_splits prod.splits)
    with Pair assms regs_write_ok [OF assms] show ?thesis
      by auto
  qed
qed

lemma read_slice_ok:
  assumes "regs_ok B r"
  shows "regs_ok B (snd (read_slice B Len T r))"
proof (cases "regs_read B Len r")
  case (Pair x r1)
  with regs_read_ok [OF assms, of Len] have ok: "regs_ok B r1"
    by simp
  show ?thesis
    using slices_in_regs(3) [OF ok, of OutOfBounds T] ok Pair
    by (auto simp: read_slice_def regs_ok_def split: sum.splits option.splits)
qed

lemma read_str_ok:
  assumes "regs_ok B r"
  shows "regs_ok B (snd (read_str B r))"
proof (cases "regs_read B Usize r")
  case (Pair x r1)
  with regs_read_ok [OF assms, of Usize] have ok: "regs_ok B r1"
    by simp
  then show ?thesis
    using Pair
    by (auto simp: read_str_def regs_ok_def Let_def checked_add_usize_def split: sum.splits)
qed

lemmas regs_ops_ok = regs_write_ok regs_read_ok regs_skip_ok write_slice_ok read_slice_ok read_str_ok

lemma reg_step_ok: "regs_ok B r \<Longrightarrow> regs_ok B (reg_step B c r)"
  by (cases c) (simp_all add: reg_step_def regs_ops_ok write_str_def, simp add: regs_reset_def regs_ok_def)

text \<open>
  Message handling stays inside the registers. Whatever sequence of writes, reads, skips, slice
  and string operations a handler performs, with whatever values, and whatever lengths the sender of
  the message has put into the registers, the builder never accesses memory outside the register
  area: its memory keeps exactly the size of the area and its offset stays within it.
\<close>
theorem registers_stay_inside:
  assumes "regs_ok B r"
  shows "regs_ok B (fold (reg_step B) cs r)"
  using assms by (induction cs arbitrary: r) (simp_all add: reg_step_ok)

theorem registers_stay_inside_witness:
  "regs_ok 16 (fold (reg_step 16) [RWrite U64 (2 ^ 64 - 1), RReset, RReadSlice U64 U32, RReadStr]
     \<lparr>reg_mem = replicate 16 0, reg_offset = 0\<rparr>)"
proof -
  have "regs_ok 16 \<lparr>reg_mem = replicate 16 0, reg_offset = 0\<rparr>"
    by (simp add: regs_ok_def)
  then show ?thesis
    by (rule registers_stay_inside)
qed

end
