(* ===== verification/Serialise.thy ===== *)
theory Serialise
  imports Utcb_Regs
begin

text \<open>
  The \<open>Serialiser\<close> implementations, \<open>crates/l4/ipc/serialise.rs\<close> and the array types of
  \<open>crates/l4/ipc/types.rs\<close>: how the arguments and results of an IPC function are put into the
  message registers and taken out again. The types that implement the trait are the datatype \<open>sty\<close>,
  their values \<open>sval\<close>. \<open>None\<close> is a panic or an access outside an object.
\<close>

section \<open>Types and values\<close>

datatype sty =
    STy mty           \<comment> \<open>the primitive types\<close>
  | SUnit
  | SFlex             \<comment> \<open>\<open>SndFlexPage\<close>\<close>
  | SOpt mty          \<comment> \<open>\<open>Option<T>\<close>\<close>
  | SCap              \<comment> \<open>\<open>Cap<T>\<close>\<close>
  | SString
  | SArray mty mty    \<comment> \<open>\<open>Array<Len, T>\<close>\<close>
  | SVec mty          \<comment> \<open>\<open>Vec<T>\<close>\<close>

datatype sval =
    VVal nat
  | VUnit
  | VFlex snd_flex_page
  | VOpt "nat option"
  | VCap u64
  | VStr "u8 list"
  | VVec "nat list"

text \<open>\<open>BufferAccess\<close>: a pointer into the receive buffers, as the buffers and a position.\<close>

record buf_access =
  ba_ptr :: "(u64 list \<times> nat) option"

section \<open>Writing\<close>

fun ser_write :: "bool \<Rightarrow> abi \<Rightarrow> nat \<Rightarrow> sty \<Rightarrow> sval \<Rightarrow> utcb_mrs
    \<Rightarrow> ((l4_error, unit) result \<times> utcb_mrs) option" where
  "ser_write oc A B (STy T) (VVal n) m = Some (regs_write B T n m)"
| "ser_write oc A B SUnit VUnit m = Some (Inr (), m)"
| "ser_write oc A B SFlex (VFlex fp) m = write_item oc B FlexPage (flex_bits fp) m"
| "ser_write oc A B (SOpt T) (VOpt None) m =
     Some (case regs_skip B T m of
             (Inl e, m) \<Rightarrow> (Inl e, m)
           | (Inr _, m) \<Rightarrow> regs_write B Bool 0 m)"
| "ser_write oc A B (SOpt T) (VOpt (Some n)) m =
     Some (case regs_write B T n m of
             (Inl e, m) \<Rightarrow> (Inl e, m)
           | (Inr _, m) \<Rightarrow> regs_write B Bool 1 m)"
| "ser_write oc A B SCap (VCap c) m =
     write_item oc B FlexPage (flex_bits (from_cap A c (rights_RWX A) None)) m"
| "ser_write oc A B SString (VStr s) m = Some (write_str B s m)"
| "ser_write oc A B (SArray Len T) (VVec vs) m = Some (write_slice B Len T vs m)"
| "ser_write oc A B (SVec T) (VVec vs) m = Some (write_slice B U16 T vs m)"
| "ser_write oc A B _ _ m = None"

section \<open>Reading\<close>

text \<open>\<open>rcv_cap_unchecked\<close> and the read of a flex page go through the pointer; only the latter moves
  it on.\<close>

definition rcv_cap_unchecked :: "buf_access \<Rightarrow> (u64 \<times> buf_access) option" where
  "rcv_cap_unchecked ba =
     (case ba_ptr ba of
        None \<Rightarrow> None
      | Some (mem, i) \<Rightarrow> if i < length mem then Some (mem ! i, ba\<lparr>ba_ptr := Some (mem, i)\<rparr>) else None)"

definition array_read :: "nat \<Rightarrow> mty \<Rightarrow> mty \<Rightarrow> utcb_mrs \<Rightarrow> (l4_error, nat list) result \<times> utcb_mrs" where
  "array_read B Len T m =
     (case read_slice B Len T m of
        (Inl e, m) \<Rightarrow> (Inl e, m)
      | (Inr sl, m) \<Rightarrow>
          (case num_cast Len (length sl) of
             None \<Rightarrow> (Inl (Generic OutOfBounds), m)
           | Some _ \<Rightarrow> (Inr sl, m)))"

definition flex_read :: "abi \<Rightarrow> nat \<Rightarrow> utcb_mrs \<Rightarrow> buf_access
    \<Rightarrow> ((l4_error, sval) result \<times> utcb_mrs \<times> buf_access) option" where
  "flex_read A B m ba =
     (case regs_read B U64 m of
        (Inl e, m) \<Rightarrow> Some (Inl e, m, ba)
      | (Inr description, m) \<Rightarrow>
          (case regs_read B U64 m of
             (Inl e, m) \<Rightarrow> Some (Inl e, m, ba)
           | (Inr fp_raw, m) \<Rightarrow>
               (let rights = (word_of_nat fp_raw :: u8) AND rights_RWX A
                in case ba_ptr ba of
                     None \<Rightarrow> Some (Inl (InvalidState ''missing capability for flex page''), m, ba)
                   | Some (mem, i) \<Rightarrow>
                       if i < length mem
                       then Some (Inr (VFlex \<lparr>fp_description = word_of_nat description,
                                              fp_fpage = obj_fpage A (mem ! i) 0 rights\<rparr>),
                                  m, ba\<lparr>ba_ptr := Some (mem, i + 1)\<rparr>)
                       else None)))"

fun ser_read :: "abi \<Rightarrow> nat \<Rightarrow> sty \<Rightarrow> utcb_mrs \<Rightarrow> buf_access
    \<Rightarrow> ((l4_error, sval) result \<times> utcb_mrs \<times> buf_access) option" where
  "ser_read A B (STy T) m ba = (case regs_read B T m of (r, m) \<Rightarrow> Some (map_sum id VVal r, m, ba))"
| "ser_read A B SUnit m ba = Some (Inr VUnit, m, ba)"
| "ser_read A B SFlex m ba = flex_read A B m ba"
| "ser_read A B (SOpt T) m ba =
     (case regs_read B T m of
        (Inl e, m) \<Rightarrow> Some (Inl e, m, ba)
      | (Inr val, m) \<Rightarrow>
          (case regs_read B Bool m of (r, m) \<Rightarrow> Some (map_sum id (\<lambda>_. VOpt (Some val)) r, m, ba)))"
| "ser_read A B SCap m ba =
     (case rcv_cap_unchecked ba of None \<Rightarrow> None | Some (c, ba) \<Rightarrow> Some (Inr (VCap c), m, ba))"
| "ser_read A B SString m ba = (case read_str B m of (r, m) \<Rightarrow> Some (map_sum id VStr r, m, ba))"
| "ser_read A B (SArray Len T) m ba =
     (case array_read B Len T m of (r, m) \<Rightarrow> Some (map_sum id VVec r, m, ba))"
| "ser_read A B (SVec T) m ba = (case array_read B U16 T m of (r, m) \<Rightarrow> Some (map_sum id VVec r, m, ba))"

text \<open>The arguments of a function, one after the other, as the interface macros write and read
  them.\<close>

fun ser_writes :: "bool \<Rightarrow> abi \<Rightarrow> nat \<Rightarrow> (sty \<times> sval) list \<Rightarrow> utcb_mrs
    \<Rightarrow> ((l4_error, unit) result \<times> utcb_mrs) option" where
  "ser_writes oc A B [] m = Some (Inr (), m)"
| "ser_writes oc A B ((T, v) # args) m =
     (case ser_write oc A B T v m of
        None \<Rightarrow> None
      | Some (Inl e, m) \<Rightarrow> Some (Inl e, m)
      | Some (Inr _, m) \<Rightarrow> ser_writes oc A B args m)"

fun ser_reads :: "abi \<Rightarrow> nat \<Rightarrow> sty list \<Rightarrow> utcb_mrs \<Rightarrow> buf_access
    \<Rightarrow> ((l4_error, sval list) result \<times> utcb_mrs \<times> buf_access) option" where
  "ser_reads A B [] m ba = Some (Inr [], m, ba)"
| "ser_reads A B (T # Ts) m ba =
     (case ser_read A B T m ba of
        None \<Rightarrow> None
      | Some (Inl e, m, ba) \<Rightarrow> Some (Inl e, m, ba)
      | Some (Inr v, m, ba) \<Rightarrow>
          (case ser_reads A B Ts m ba of
             None \<Rightarrow> None
           | Some (Inl e, m, ba) \<Rightarrow> Some (Inl e, m, ba)
           | Some (Inr vs, m, ba) \<Rightarrow> Some (Inr (v # vs), m, ba)))"

section \<open>Round trip of data\<close>

text \<open>Values of the types that are carried by the registers alone. A string may not end in a zero
  byte, which the reader takes for the terminator of a C string.\<close>

fun data_ok :: "sty \<Rightarrow> sval \<Rightarrow> bool" where
  "data_ok (STy T) (VVal n) \<longleftrightarrow> n < 256 ^ size_of T"
| "data_ok SUnit VUnit \<longleftrightarrow> True"
| "data_ok (SOpt T) (VOpt (Some n)) \<longleftrightarrow> n < 256 ^ size_of T"
| "data_ok SString (VStr s) \<longleftrightarrow> utf8_ok s \<and> (s = [] \<or> last s \<noteq> 0)"
| "data_ok (SArray Len T) (VVec vs) \<longleftrightarrow> (\<forall>v\<in>set vs. v < 256 ^ size_of T)"
| "data_ok (SVec T) (VVec vs) \<longleftrightarrow> (\<forall>v\<in>set vs. v < 256 ^ size_of T)"
| "data_ok _ _ \<longleftrightarrow> False"

lemma extends_refl: "regs_ok B r \<Longrightarrow> extends B r r"
  by (simp add: extends_def)

lemma regs_write_items: "regs_write B T v m = (x, m') \<Longrightarrow> mr_items m' = mr_items m"
  by (auto simp: regs_write_def split: sum.splits)

lemma write_slice_items: "write_slice B L T vs m = (x, m') \<Longrightarrow> mr_items m' = mr_items m"
  by (auto simp: write_slice_def regs_write_def split: sum.splits option.splits prod.splits)

lemma array_read_back:
  assumes "regs_ok B r" and "write_slice B Len T vs r = (Inr (), r')" and "sees B r r' q"
    and "\<forall>v\<in>set vs. v < 256 ^ size_of T"
  shows "array_read B Len T q = (Inr vs, q\<lparr>reg_offset := reg_offset r'\<rparr>)"
proof -
  have "num_cast Len (length vs) \<noteq> None"
    using assms(2) by (auto simp: write_slice_def split: option.splits)
  then show ?thesis
    using read_slice_back [OF assms] by (auto simp: array_read_def)
qed

lemma opt_write_Inr:
  assumes "regs_ok B m" and "ser_write oc A B (SOpt T) (VOpt (Some n)) m = Some (Inr (), m')"
  obtains m1 where "regs_write B T n m = (Inr (), m1)" and "regs_write B Bool 1 m1 = (Inr (), m')"
    and "extends B m m1" and "extends B m1 m'"
proof -
  obtain m1 where w: "regs_write B T n m = (Inr (), m1)" "regs_write B Bool 1 m1 = (Inr (), m')"
    using assms(2) by (auto split: prod.splits sum.splits)
  have e: "extends B m m1"
    by (rule regs_write_extends [OF assms(1) w(1)])
  then have "regs_ok B m1"
    by (simp add: extends_def)
  then have "extends B m1 m'"
    by (rule regs_write_extends [OF _ w(2)])
  with w e show thesis
    by (rule that)
qed

text \<open>One value: the write extends the message and a reader at the same place gets the value.\<close>

lemma ser_write_extends:
  assumes "regs_ok B m" and "ser_write oc A B T v m = Some (Inr (), m')" and "data_ok T v"
  shows "extends B m m'" and "mr_items m' = mr_items m"
proof -
  have "extends B m m' \<and> mr_items m' = mr_items m"
    using assms
  proof (induction T v rule: data_ok.induct)
    case (3 T n)
    then obtain m1 where w: "regs_write B T n m = (Inr (), m1)" "regs_write B Bool 1 m1 = (Inr (), m')"
      and e: "extends B m m1" "extends B m1 m'"
      using opt_write_Inr by blast
    show ?case
      using extends_trans [OF e] regs_write_items [OF w(1)] regs_write_items [OF w(2)] by simp
  qed (auto simp: extends_refl write_str_def dest: regs_write_items write_slice_items
        intro: regs_write_extends write_slice_extends)
  then show "extends B m m'" and "mr_items m' = mr_items m"
    by blast+
qed

lemma ser_read_back:
  assumes "regs_ok B m" and "ser_write oc A B T v m = Some (Inr (), m')" and "data_ok T v"
    and "sees B m m' q"
  shows "ser_read A B T q ba = Some (Inr v, q\<lparr>reg_offset := reg_offset m'\<rparr>, ba)"
  using assms
proof (induction T v rule: data_ok.induct)
  case (2)
  then show ?case
    by (simp add: sees_def)
next
  case (3 T n)
  then obtain m1 where w: "regs_write B T n m = (Inr (), m1)" "regs_write B Bool 1 m1 = (Inr (), m')"
    and e: "extends B m m1" "extends B m1 m'"
    using opt_write_Inr by blast
  note split = sees_split [OF "3"(4) e]
  have "regs_ok B m1"
    using e(1) by (simp add: extends_def)
  from regs_read_back [OF this w(2) split(2)] regs_read_back [OF "3"(1) w(1) split(1)] "3"(3)
  show ?case by simp
next
  case (4 s)
  then have "write_str B s m = (Inr (), m')"
    by simp
  from read_str_back [OF "4"(1) this "4"(4)] "4"(3) show ?case
    by simp
next
  case (5 Len T vs)
  then show ?case
    using array_read_back [of B m Len T vs m' q] by simp
next
  case (6 T vs)
  then show ?case
    using array_read_back [of B m U16 T vs m' q] by simp
qed (auto dest: regs_read_back)

lemma ser_writes_Cons:
  assumes "ser_writes oc A B ((T, v) # args) m = Some (Inr (), m')"
  obtains m1 where "ser_write oc A B T v m = Some (Inr (), m1)"
    and "ser_writes oc A B args m1 = Some (Inr (), m')"
  using assms by (auto split: option.splits sum.splits)

lemma ser_writes_extends:
  assumes "regs_ok B m" and "ser_writes oc A B args m = Some (Inr (), m')"
    and "\<forall>(T, v)\<in>set args. data_ok T v"
  shows "extends B m m' \<and> mr_items m' = mr_items m"
  using assms
proof (induction args arbitrary: m)
  case Nil
  then show ?case
    by (simp add: extends_refl)
next
  case (Cons a args)
  obtain T v where a: "a = (T, v)"
    by (metis surj_pair)
  obtain m1 where w: "ser_write oc A B T v m = Some (Inr (), m1)"
    and ws: "ser_writes oc A B args m1 = Some (Inr (), m')"
    using Cons.prems(2) unfolding a by (rule ser_writes_Cons)
  have "data_ok T v"
    using Cons.prems(3) a by simp
  note e = ser_write_extends [OF Cons.prems(1) w this]
  then have "regs_ok B m1"
    by (simp add: extends_def)
  from Cons.IH [OF this ws] Cons.prems(3) e show ?case
    using extends_trans by auto
qed

lemma ser_reads_back:
  assumes "regs_ok B m" and "ser_writes oc A B args m = Some (Inr (), m')"
    and "\<forall>(T, v)\<in>set args. data_ok T v" and "sees B m m' q"
  shows "ser_reads A B (map fst args) q ba =
    Some (Inr (map snd args), q\<lparr>reg_offset := reg_offset m'\<rparr>, ba)"
  using assms
proof (induction args arbitrary: m q)
  case Nil
  then show ?case
    by (simp add: sees_def)
next
  case (Cons a args)
  obtain T v where a: "a = (T, v)"
    by (metis surj_pair)
  obtain m1 where w: "ser_write oc A B T v m = Some (Inr (), m1)"
    and ws: "ser_writes oc A B args m1 = Some (Inr (), m')"
    using Cons.prems(2) unfolding a by (rule ser_writes_Cons)
  have ok: "data_ok T v" and oks: "\<forall>(T, v)\<in>set args. data_ok T v"
    using Cons.prems(3) a by auto
  note e = ser_write_extends(1) [OF Cons.prems(1) w ok]
  then have ok1: "regs_ok B m1"
    by (simp add: extends_def)
  have "extends B m1 m'"
    using ser_writes_extends [OF ok1 ws oks] by blast
  note split = sees_split [OF Cons.prems(4) e this]
  from ser_read_back [OF Cons.prems(1) w ok split(1)] Cons.IH [OF ok1 ws oks split(2)] a
  show ?case by simp
qed

section \<open>Properties\<close>

text \<open>
  C10. Arguments survive the message registers. When a sequence of values of primitive types, present
  options, strings that do not end in a zero byte, vectors, arrays and units (no absent options and
  no capabilities: an absent option is read back as a present one, \<open>option_none_read_as_some\<close>, and a zero byte
  at the end is taken for a terminator) has been written into a message from its start, a receiver whose registers hold the same bytes up to the writer's offset reads the same
  sequence of types back as exactly the values written, and its offset ends where the writer's
  ended; nothing is reported as an error and no typed item is counted.
\<close>
theorem args_roundtrip:
  assumes "regs_ok B (from_mr mem)" and "ser_writes oc A B args (from_mr mem) = Some (Inr (), m')"
    and "\<forall>(T, v)\<in>set args. data_ok T v"
    and "length mem' = B" and "agree 0 (reg_offset m') mem' (reg_mem m')"
  shows "ser_reads A B (map fst args) (from_mr mem') ba =
    Some (Inr (map snd args), (from_mr mem')\<lparr>reg_offset := reg_offset m'\<rparr>, ba) \<and> mr_items m' = 0"
proof -
  have "sees B (from_mr mem) m' (from_mr mem')"
    using assms(1,4,5) by (simp add: sees_def from_mr_def regs_ok_def)
  moreover have "mr_items m' = 0"
    using ser_writes_extends [OF assms(1-3)] by (simp add: from_mr_def)
  ultimately show ?thesis
    using ser_reads_back [OF assms(1-3)] by simp
qed

lemmas slot_eval = regs_write_def regs_skip_def next_slot_def slice_slot_def align_offset_eval
  align_of_def checked_add_usize_def checked_mul_usize_def num_cast_def num_max_def signed_ty_def
  from_mr_def

definition demo_args :: "(sty \<times> sval) list" where
  "demo_args = [(STy U8, VVal 7), (STy U32, VVal 1000), (SOpt U16, VOpt (Some 5)),
     (SString, VStr [104, 105]), (SVec I16, VVec [1, 2])]"

lemma demo_args_ok: "\<forall>(T, v)\<in>set demo_args. data_ok T v"
  by (simp add: demo_args_def utf8_ok.simps [of "[104, 105]"] utf8_ok.simps [of "[105]"] utf8_ok.simps [of "[]"]
      utf8_char_def)

lemma demo_args_written:
  "\<exists>m'. ser_writes True demo_abi 48 demo_args (from_mr (replicate 48 0)) = Some (Inr (), m')"
  by (simp add: demo_args_def write_str_def write_slice_def slot_eval)

theorem args_roundtrip_witness:
  "\<exists>m'. ser_writes True demo_abi 48 demo_args (from_mr (replicate 48 0)) = Some (Inr (), m') \<and>
     ser_reads demo_abi 48 (map fst demo_args) (from_mr (reg_mem m')) \<lparr>ba_ptr = None\<rparr> =
       Some (Inr (map snd demo_args), (from_mr (reg_mem m'))\<lparr>reg_offset := reg_offset m'\<rparr>, \<lparr>ba_ptr = None\<rparr>)"
proof -
  obtain m' where w: "ser_writes True demo_abi 48 demo_args (from_mr (replicate 48 0)) = Some (Inr (), m')"
    using demo_args_written by blast
  have ok: "regs_ok 48 (from_mr (replicate 48 0))"
    by (simp add: regs_ok_def from_mr_def)
  have "extends 48 (from_mr (replicate 48 0)) m'"
    using ser_writes_extends [OF ok w demo_args_ok] by blast
  then have "length (reg_mem m') = 48"
    by (simp add: extends_def regs_ok_def)
  from w args_roundtrip [OF ok w demo_args_ok this agree_refl] show ?thesis
    by blast
qed

text \<open>
  An absent option does not arrive as absent. Whatever type it is of, an \<open>Option\<close> written as
  \<open>None\<close> is read back as \<open>Some\<close> of whatever bytes its slot holds: the reader drops the flag that
  the writer stores behind the value.
\<close>
theorem option_none_read_as_some:
  assumes "regs_ok B (from_mr mem)"
    and "ser_write oc A B (SOpt T) (VOpt None) (from_mr mem) = Some (Inr (), m')"
    and "length mem' = B" and "agree 0 (reg_offset m') mem' (reg_mem m')"
  shows "\<exists>n. ser_read A B (SOpt T) (from_mr mem') ba =
    Some (Inr (VOpt (Some n)), (from_mr mem')\<lparr>reg_offset := reg_offset m'\<rparr>, ba)"
proof -
  obtain s e where slot: "next_slot B T 0 = Inr (s, e)"
    and w: "regs_write B Bool 0 ((from_mr mem)\<lparr>reg_offset := e\<rparr>) = (Inr (), m')"
    using assms(2) by (auto simp: regs_skip_def from_mr_def split: sum.splits)
  have "next_slot B T (reg_offset (from_mr mem)) = Inr (s, e)"
    using slot by (simp add: from_mr_def)
  then have ok: "regs_ok B ((from_mr mem)\<lparr>reg_offset := e\<rparr>)"
    using slot_in_regs(3) [OF assms(1)] assms(1) by (simp add: regs_ok_def)
  have "sees B ((from_mr mem)\<lparr>reg_offset := e\<rparr>) m' ((from_mr mem')\<lparr>reg_offset := e\<rparr>)"
    using assms(1,3,4) ok by (simp add: sees_def from_mr_def regs_ok_def agree_def)
  from regs_read_back [OF ok w this] slot show ?thesis
    by (simp add: regs_read_def from_mr_def)
qed

theorem option_none_read_as_some_witness:
  "\<exists>m' n. ser_write True demo_abi 16 (SOpt U32) (VOpt None) (from_mr (replicate 16 0)) = Some (Inr (), m') \<and>
     ser_read demo_abi 16 (SOpt U32) (from_mr (reg_mem m')) \<lparr>ba_ptr = None\<rparr> =
       Some (Inr (VOpt (Some n)), (from_mr (reg_mem m'))\<lparr>reg_offset := reg_offset m'\<rparr>, \<lparr>ba_ptr = None\<rparr>)"
proof -
  have "\<exists>m'. ser_write True demo_abi 16 (SOpt U32) (VOpt None) (from_mr (replicate 16 0)) = Some (Inr (), m') \<and>
     length (reg_mem m') = 16"
    by (simp add: slot_eval)
  then obtain m' where w: "ser_write True demo_abi 16 (SOpt U32) (VOpt None) (from_mr (replicate 16 0)) = Some (Inr (), m')"
    and len: "length (reg_mem m') = 16"
    by blast
  have ok: "regs_ok 16 (from_mr (replicate 16 0))"
    by (simp add: regs_ok_def from_mr_def)
  from w option_none_read_as_some [OF ok w len agree_refl] show ?thesis
    by blast
qed

end
