(* ===== verification/Buffer_Manager.thy ===== *)
theory Buffer_Manager
  imports Serialise
begin

text \<open>
  Receive windows for capabilities, \<open>crates/l4/ipc/types.rs\<close>: the \<open>CapProvider\<close> interface and its
  two implementations, \<open>BufferManager\<close> (slots allocated on demand, laid out as the receive items
  the kernel expects) and \<open>Bufferless\<close>. The capability allocator of the runtime is a parameter.
  \<open>None\<close> is a panic.
\<close>

section \<open>BufferManager\<close>

record buf_mgr =
  bm_caps :: u8
  bm_cap_flags :: u64
  bm_br :: "u64 list"

type_synonym 'w cap_alloc = "'w \<Rightarrow> u64 \<times> 'w"   \<comment> \<open>\<open>l4re_util_cap_alloc\<close>\<close>

definition bm_new :: "abi \<Rightarrow> nat \<Rightarrow> buf_mgr" where
  "bm_new A N = \<lparr>bm_caps = 0, bm_cap_flags = RCV_ITEM_LOCAL_ID A, bm_br = replicate N 0\<rparr>"

lemma unat_caps_inc: "caps < demand \<Longrightarrow> unat (caps + 1) = Suc (unat caps)" for caps demand :: u8
  using unat_word_less [of demand] by (simp add: unat_word_ariths word_less_nat_alt)

text \<open>The loop of \<open>alloc_capslots\<close>.\<close>

function bm_fill :: "abi \<Rightarrow> 'w cap_alloc \<Rightarrow> u8 \<Rightarrow> buf_mgr \<Rightarrow> 'w
    \<Rightarrow> ((l4_error, unit) result \<times> buf_mgr \<times> 'w) option" where
  "bm_fill A alloc demand bm w =
     (if demand > bm_caps bm then
        (case alloc w of (cap, w) \<Rightarrow>
           if cap AND INVALID_CAP_BIT A \<noteq> 0 then Some (Inl (Generic NoMem), bm, w)
           else if unat (bm_caps bm) < length (bm_br bm) then
             bm_fill A alloc demand
               (bm\<lparr>bm_br := (bm_br bm)[unat (bm_caps bm) := cap OR RCV_ITEM_SINGLE_CAP A OR bm_cap_flags bm],
                   bm_caps := bm_caps bm + 1\<rparr>) w
           else None)
      else Some (Inr (), bm, w))"
  by pat_completeness auto

termination
  by (relation "measure (\<lambda>(A, alloc, demand, bm, w). unat demand - unat (bm_caps bm))")
    (auto simp: unat_caps_inc word_less_nat_alt)

declare bm_fill.simps [simp del]

definition bm_alloc_capslots :: "bool \<Rightarrow> abi \<Rightarrow> 'w cap_alloc \<Rightarrow> nat \<Rightarrow> u8 \<Rightarrow> buf_mgr \<Rightarrow> 'w
    \<Rightarrow> ((l4_error, unit) result \<times> buf_mgr \<times> 'w) option" where
  "bm_alloc_capslots oc A alloc N demand bm w = do {
     d \<leftarrow> op_add oc demand 3;
     if d \<ge> word_of_nat N
     then Some (Inl (InvalidArg ''Capability slot demand too large'' (Some (ucast demand))), bm, w)
     else do {
       (r, bm, w) \<leftarrow> bm_fill A alloc demand bm w;
       case r of
         Inl e \<Rightarrow> Some (Inl e, bm, w)
       | Inr _ \<Rightarrow> if unat (bm_caps bm) < length (bm_br bm)
           then Some (Inr (), bm\<lparr>bm_br := (bm_br bm)[unat (bm_caps bm) := 0]\<rparr>, w)
           else None
     }
   }"

definition bm_rcv_cap :: "abi \<Rightarrow> buf_mgr \<Rightarrow> nat \<Rightarrow> (l4_error, u64) result option" where
  "bm_rcv_cap A bm i =
     (if i < unat (bm_caps bm)
      then (if i < length (bm_br bm) then Some (Inr (bm_br bm ! i AND CAP_MASK A)) else None)
      else Some (Inl (InvalidArg ''Index not allocated'' (Some (word_of_nat i)))))"

definition bm_set_rcv_cap_flags :: "u64 \<Rightarrow> buf_mgr \<Rightarrow> (l4_error, unit) result \<times> buf_mgr" where
  "bm_set_rcv_cap_flags flags bm =
     (if bm_cap_flags bm = 0 then (Inr (), bm\<lparr>bm_cap_flags := flags\<rparr>)
      else (Inl (InvalidState ''Unable to set buffer flags when capabilities were already allocated''), bm))"

definition bm_setup_wait :: "buf_mgr \<Rightarrow> utcb \<Rightarrow> utcb option" where
  "bm_setup_wait bm u =
     (let caps = unat (bm_caps bm)
      in if caps \<le> length (bm_br bm) \<and> caps \<le> length (utcb_br u)
         then Some (u\<lparr>utcb_bdr := 0, utcb_br := overwrite (utcb_br u) 0 (take caps (bm_br bm))\<rparr>)
         else None)"

definition bm_access_buffers :: "buf_mgr \<Rightarrow> buf_access" where
  "bm_access_buffers bm = \<lparr>ba_ptr = Some (bm_br bm, 0)\<rparr>"

section \<open>Bufferless\<close>

definition bl_alloc_capslots :: "u8 \<Rightarrow> 'w \<Rightarrow> ((l4_error, unit) result \<times> unit \<times> 'w) option" where
  "bl_alloc_capslots demand w =
     (if demand = 0 then Some (Inr (), (), w)
      else Some (Inl (InvalidArg ''buffer allocation not permitted'' None), (), w))"

definition bl_rcv_cap :: "unit \<Rightarrow> nat \<Rightarrow> (l4_error, u64) result option" where
  "bl_rcv_cap b i = Some (Inl (InvalidArg ''No buffers allocated'' None))"

definition bl_caps_used :: "unit \<Rightarrow> u8" where
  "bl_caps_used b = 0"

section \<open>Invariant and effect of an allocation\<close>

text \<open>A manager of \<open>N\<close> registers keeps two behind the terminator free.\<close>

definition bm_ok :: "nat \<Rightarrow> buf_mgr \<Rightarrow> bool" where
  "bm_ok N bm \<longleftrightarrow> 4 \<le> N \<and> N \<le> 255 \<and> length (bm_br bm) = N \<and> unat (bm_caps bm) + 3 < N"

text \<open>What filling the slots up to a demand does: the old slots stay, each new one is a receive item
  for a valid capability.\<close>

definition bm_filled :: "abi \<Rightarrow> buf_mgr \<Rightarrow> buf_mgr \<Rightarrow> bool" where
  "bm_filled A bm bm' \<longleftrightarrow> bm_caps bm \<le> bm_caps bm' \<and> bm_cap_flags bm' = bm_cap_flags bm \<and>
     length (bm_br bm') = length (bm_br bm) \<and>
     take (unat (bm_caps bm)) (bm_br bm') = take (unat (bm_caps bm)) (bm_br bm) \<and>
     (\<forall>i. unat (bm_caps bm) \<le> i \<and> i < unat (bm_caps bm') \<longrightarrow>
       (\<exists>cap. cap AND INVALID_CAP_BIT A = 0 \<and>
          bm_br bm' ! i = cap OR RCV_ITEM_SINGLE_CAP A OR bm_cap_flags bm))"

lemma bm_filled_refl: "bm_filled A bm bm"
  by (auto simp: bm_filled_def)

lemma bm_filled_step:
  assumes "bm_caps bm < d" and "unat (bm_caps bm) < length (bm_br bm)"
    and "cap AND INVALID_CAP_BIT A = 0"
    and "bm_filled A (bm\<lparr>bm_br := (bm_br bm)[unat (bm_caps bm) := cap OR RCV_ITEM_SINGLE_CAP A OR bm_cap_flags bm],
                   bm_caps := bm_caps bm + 1\<rparr>) bm'"
  shows "bm_filled A bm bm'"
proof -
  let ?c = "unat (bm_caps bm)" and ?v = "cap OR RCV_ITEM_SINGLE_CAP A OR bm_cap_flags bm"
  have c1: "unat (bm_caps bm + 1) = Suc ?c"
    using assms(1) by (rule unat_caps_inc)
  have pre: "take (Suc ?c) (bm_br bm') = take (Suc ?c) ((bm_br bm)[?c := ?v])"
    and le: "bm_caps bm + 1 \<le> bm_caps bm'"
    and len: "length (bm_br bm') = length (bm_br bm)" and fl: "bm_cap_flags bm' = bm_cap_flags bm"
    and new: "\<And>i. Suc ?c \<le> i \<Longrightarrow> i < unat (bm_caps bm') \<Longrightarrow> \<exists>cap. cap AND INVALID_CAP_BIT A = 0 \<and>
          bm_br bm' ! i = cap OR RCV_ITEM_SINGLE_CAP A OR bm_cap_flags bm"
    using assms(4) by (simp_all add: bm_filled_def c1)
  have "take ?c (bm_br bm') = take ?c (take (Suc ?c) (bm_br bm'))"
    by simp
  also have "\<dots> = take ?c (bm_br bm)"
    unfolding pre by simp
  finally have pre': "take ?c (bm_br bm') = take ?c (bm_br bm)" .
  have "bm_br bm' ! ?c = take (Suc ?c) (bm_br bm') ! ?c"
    by simp
  also have "\<dots> = ?v"
    unfolding pre using assms(2) by simp
  finally have "bm_br bm' ! ?c = ?v" .
  then have "\<exists>cap. cap AND INVALID_CAP_BIT A = 0 \<and> bm_br bm' ! i = cap OR RCV_ITEM_SINGLE_CAP A OR bm_cap_flags bm"
    if "?c \<le> i" "i < unat (bm_caps bm')" for i
    using that new [of i] assms(3) by (cases "i = ?c") auto
  moreover have "bm_caps bm \<le> bm_caps bm'"
    using le c1 by (simp add: word_le_nat_alt)
  ultimately show ?thesis
    using pre' len fl by (simp add: bm_filled_def)
qed

lemma bm_fill_spec:
  assumes "unat (bm_caps bm) \<le> length (bm_br bm)" and "unat d \<le> length (bm_br bm)"
  shows "\<exists>r bm' w'. bm_fill A alloc d bm w = Some (r, bm', w') \<and> bm_filled A bm bm' \<and>
    (bm_caps bm' = (if r = Inr () then max (bm_caps bm) d else bm_caps bm') \<and> bm_caps bm' \<le> max (bm_caps bm) d) \<and>
    (r = Inr () \<or> r = Inl (Generic NoMem))"
  using assms
proof (induction A alloc d bm w rule: bm_fill.induct)
  case (1 A alloc d bm w)
  obtain cap w1 where al: "alloc w = (cap, w1)"
    by (metis surj_pair)
  let ?bm = "bm\<lparr>bm_br := (bm_br bm)[unat (bm_caps bm) := cap OR RCV_ITEM_SINGLE_CAP A OR bm_cap_flags bm],
                bm_caps := bm_caps bm + 1\<rparr>"
  show ?case
  proof (cases "d > bm_caps bm")
    case False
    then have "bm_fill A alloc d bm w = Some (Inr (), bm, w)"
      by (simp add: bm_fill.simps [of A alloc d bm w])
    with False show ?thesis
      by (simp add: bm_filled_refl max_def)
  next
    case True
    show ?thesis
    proof (cases "cap AND INVALID_CAP_BIT A = 0")
      case False
      then have "bm_fill A alloc d bm w = Some (Inl (Generic NoMem), bm, w1)"
        using True al by (simp add: bm_fill.simps [of A alloc d bm w])
      then show ?thesis
        by (simp add: bm_filled_refl)
    next
      case valid: True
      have c1: "unat (bm_caps bm + 1) = Suc (unat (bm_caps bm))"
        using True by (rule unat_caps_inc)
      have lt: "unat (bm_caps bm) < length (bm_br bm)"
        using True "1.prems"(2) by (simp add: word_less_nat_alt)
      then have step: "bm_fill A alloc d bm w = bm_fill A alloc d ?bm w1"
        using True valid al by (simp add: bm_fill.simps [of A alloc d bm w])
      have max: "max (bm_caps bm + 1) d = max (bm_caps bm) d"
        using True c1 by (simp add: max_def word_le_nat_alt word_less_nat_alt)
      have nv: "\<not> cap AND INVALID_CAP_BIT A \<noteq> 0"
        using valid by simp
      have "unat (bm_caps ?bm) \<le> length (bm_br ?bm)" "unat d \<le> length (bm_br ?bm)"
        using c1 lt "1.prems"(2) by simp_all
      from "1.IH" [OF True al [symmetric] nv lt this] obtain r bm' w' where
        "bm_fill A alloc d ?bm w1 = Some (r, bm', w')" and filled: "bm_filled A ?bm bm'"
        and "bm_caps bm' = (if r = Inr () then max (bm_caps bm + 1) d else bm_caps bm')"
        and "bm_caps bm' \<le> max (bm_caps bm + 1) d" and "r = Inr () \<or> r = Inl (Generic NoMem)"
        by auto
      then show ?thesis
        using step max bm_filled_step [OF True lt valid filled] by auto
    qed
  qed
qed

lemma bm_caps_bound:
  assumes "bm_ok N bm" and "c \<le> max (bm_caps bm) d" and "unat d + 3 < N"
  shows "unat c + 3 < N"
  using assms by (auto simp: bm_ok_def max_def word_le_nat_alt split: if_splits)

lemma bm_demand_guard:
  fixes d :: u8
  assumes "N \<le> 255" and "unat d + 3 < 256"
  shows "op_add oc d 3 = Some (d + 3)" and "d + 3 \<ge> word_of_nat N \<longleftrightarrow> N \<le> unat d + 3"
proof -
  show "op_add oc d 3 = Some (d + 3)"
    using assms(2) by (simp add: op_add_def)
  have "unat (d + 3) = unat d + 3" and "unat (word_of_nat N :: u8) = N"
    using assms by (simp_all add: unat_word_ariths unat_of_nat)
  then show "d + 3 \<ge> word_of_nat N \<longleftrightarrow> N \<le> unat d + 3"
    by (simp add: word_le_nat_alt)
qed

lemma bm_filled_terminate:
  assumes "bm_filled A bm bm'"
  shows "bm_filled A bm (bm'\<lparr>bm_br := (bm_br bm')[unat (bm_caps bm') := 0]\<rparr>)"
proof -
  have "unat (bm_caps bm) \<le> unat (bm_caps bm')"
    using assms by (simp add: bm_filled_def word_le_nat_alt)
  then show ?thesis
    using assms by (simp add: bm_filled_def)
qed

text \<open>A demand that fits is met, or the allocator ran out; a demand that does not fit is refused and
  changes nothing.\<close>

lemma bm_alloc_capslots_spec:
  assumes "bm_ok N bm" and "unat d + 3 < 256"
  shows "if N \<le> unat d + 3
    then bm_alloc_capslots oc A alloc N d bm w =
      Some (Inl (InvalidArg ''Capability slot demand too large'' (Some (ucast d))), bm, w)
    else \<exists>r bm' w'. bm_alloc_capslots oc A alloc N d bm w = Some (r, bm', w') \<and> bm_ok N bm' \<and>
      bm_filled A bm bm' \<and>
      (r = Inr () \<and> bm_caps bm' = max (bm_caps bm) d \<and> bm_br bm' ! unat (bm_caps bm') = 0 \<or>
       r = Inl (Generic NoMem))"
proof (cases "N \<le> unat d + 3")
  case True
  have "N \<le> 255"
    using assms(1) by (simp add: bm_ok_def)
  from True bm_demand_guard [OF this assms(2)] show ?thesis
    by (simp add: bm_alloc_capslots_def)
next
  case False
  have N: "N \<le> 255" and len: "length (bm_br bm) = N"
    using assms(1) by (simp_all add: bm_ok_def)
  have "unat (bm_caps bm) \<le> length (bm_br bm)" "unat d \<le> length (bm_br bm)"
    using assms(1) False by (simp_all add: bm_ok_def)
  from bm_fill_spec [OF this, of A alloc w] obtain r bm' w' where
    fill: "bm_fill A alloc d bm w = Some (r, bm', w')" and filled: "bm_filled A bm bm'"
    and caps: "r = Inr () \<Longrightarrow> bm_caps bm' = max (bm_caps bm) d" "bm_caps bm' \<le> max (bm_caps bm) d"
    and r: "r = Inr () \<or> r = Inl (Generic NoMem)"
    by auto
  have bound: "unat (bm_caps bm') + 3 < N"
    using bm_caps_bound [OF assms(1) caps(2)] False by simp
  have ok: "bm_ok N bm'"
    using assms(1) filled bound by (simp add: bm_ok_def bm_filled_def)
  then have ok': "bm_ok N (bm'\<lparr>bm_br := (bm_br bm')[unat (bm_caps bm') := 0]\<rparr>)"
    and in_br: "unat (bm_caps bm') < length (bm_br bm')"
    by (simp_all add: bm_ok_def)
  show ?thesis
    using False r caps(1) ok ok' in_br fill filled bm_filled_terminate [OF filled]
      bm_demand_guard [OF N assms(2)]
    by (auto simp: bm_alloc_capslots_def)
qed

section \<open>The interface\<close>

text \<open>The demands of the objects registered with a server loop, one after the other; the first error
  ends the registration.\<close>

fun alloc_all :: "(u8 \<Rightarrow> 'b \<Rightarrow> 'w \<Rightarrow> ((l4_error, unit) result \<times> 'b \<times> 'w) option) \<Rightarrow> u8 list \<Rightarrow> 'b \<Rightarrow> 'w
    \<Rightarrow> ((l4_error, unit) result \<times> 'b \<times> 'w) option" where
  "alloc_all alloc [] b w = Some (Inr (), b, w)"
| "alloc_all alloc (d # ds) b w =
     (case alloc d b w of
        None \<Rightarrow> None
      | Some (Inl e, b, w) \<Rightarrow> Some (Inl e, b, w)
      | Some (Inr _, b, w) \<Rightarrow> alloc_all alloc ds b w)"

text \<open>What a client of \<open>CapProvider\<close> relies on: an allocation of an acceptable demand returns, its
  success means the demand is met, slots are never taken back or changed, and exactly the slots in
  use can be read.\<close>

locale cap_provider =
  fixes alloc_slots :: "u8 \<Rightarrow> 'b \<Rightarrow> 'w \<Rightarrow> ((l4_error, unit) result \<times> 'b \<times> 'w) option"
    and used :: "'b \<Rightarrow> u8"
    and rcv :: "'b \<Rightarrow> nat \<Rightarrow> (l4_error, u64) result option"
    and ok :: "'b \<Rightarrow> bool"
    and acceptable :: "u8 \<Rightarrow> bool"
  assumes alloc_returns: "ok b \<Longrightarrow> acceptable d \<Longrightarrow> \<exists>r b' w'. alloc_slots d b w = Some (r, b', w')"
    and alloc_ok: "ok b \<Longrightarrow> acceptable d \<Longrightarrow> alloc_slots d b w = Some (r, b', w') \<Longrightarrow> ok b' \<and> used b \<le> used b'"
    and alloc_met: "ok b \<Longrightarrow> acceptable d \<Longrightarrow> alloc_slots d b w = Some (Inr (), b', w') \<Longrightarrow> used b' = max (used b) d"
    and rcv_used: "ok b \<Longrightarrow> (\<exists>c. rcv b i = Some (Inr c)) \<longleftrightarrow> i < unat (used b)"
    and alloc_keeps: "ok b \<Longrightarrow> acceptable d \<Longrightarrow> alloc_slots d b w = Some (r, b', w') \<Longrightarrow>
      i < unat (used b) \<Longrightarrow> rcv b' i = rcv b i"
begin

lemma alloc_all_spec:
  assumes "ok b" and "\<forall>d\<in>set ds. acceptable d"
  shows "\<exists>r b' w'. alloc_all alloc_slots ds b w = Some (r, b', w') \<and> ok b' \<and> used b \<le> used b' \<and>
    (\<forall>i<unat (used b). rcv b' i = rcv b i) \<and>
    (r = Inr () \<longrightarrow> (\<forall>d\<in>set ds. d \<le> used b'))"
  using assms
proof (induction ds arbitrary: b w)
  case Nil
  then show ?case by simp
next
  case (Cons d ds)
  from Cons.prems have d: "acceptable d" and ds: "\<forall>d\<in>set ds. acceptable d"
    by simp_all
  obtain r1 b1 w1 where a: "alloc_slots d b w = Some (r1, b1, w1)"
    using alloc_returns [OF Cons.prems(1) d] by blast
  from alloc_ok [OF Cons.prems(1) d a] have b1: "ok b1" and le: "used b \<le> used b1"
    by simp_all
  note keep = alloc_keeps [OF Cons.prems(1) d a]
  show ?case
  proof (cases r1)
    case (Inl e)
    with a b1 le keep show ?thesis by simp
  next
    case (Inr u)
    then have "used b1 = max (used b) d"
      using alloc_met [OF Cons.prems(1) d] a by simp
    then have dle: "d \<le> used b1"
      by simp
    from Cons.IH [OF b1 ds, of w1] obtain r b' w' where
      "alloc_all alloc_slots ds b1 w1 = Some (r, b', w')" "ok b'" and le': "used b1 \<le> used b'"
      and keep': "\<forall>i<unat (used b1). rcv b' i = rcv b1 i"
      and met: "r = Inr () \<longrightarrow> (\<forall>d\<in>set ds. d \<le> used b')"
      by blast
    moreover have "\<forall>i<unat (used b). rcv b' i = rcv b i"
      using keep keep' le by (metis order_less_le_trans word_le_nat_alt)
    moreover have "used b \<le> used b'" "d \<le> used b'"
      using le le' dle by (auto intro: order_trans)
    ultimately show ?thesis
      using a Inr by auto
  qed
qed

end

lemma bm_rcv_used: "bm_ok N bm \<Longrightarrow> (\<exists>c. bm_rcv_cap A bm i = Some (Inr c)) \<longleftrightarrow> i < unat (bm_caps bm)"
  by (auto simp: bm_rcv_cap_def bm_ok_def)

lemma bm_alloc_result:
  assumes "bm_ok N bm" and "unat d + 3 < 256" and "bm_alloc_capslots oc A alloc N d bm w = Some (r, bm', w')"
  shows "bm_ok N bm'" and "bm_filled A bm bm'" and "r = Inr () \<Longrightarrow> bm_caps bm' = max (bm_caps bm) d"
  using bm_alloc_capslots_spec [OF assms(1,2), of oc A alloc w] assms(1,3)
  by (auto simp: bm_filled_refl split: if_splits)

lemma bm_filled_rcv:
  assumes "bm_ok N bm" and "bm_ok N bm'" and "bm_filled A bm bm'" and "i < unat (bm_caps bm)"
  shows "bm_rcv_cap A' bm' i = bm_rcv_cap A' bm i"
proof -
  have le: "unat (bm_caps bm) \<le> unat (bm_caps bm')"
    and pre: "take (unat (bm_caps bm)) (bm_br bm') = take (unat (bm_caps bm)) (bm_br bm)"
    using assms(3) by (simp_all add: bm_filled_def word_le_nat_alt)
  have "bm_br bm' ! i = take (unat (bm_caps bm)) (bm_br bm') ! i"
    using assms(4) by simp
  also have "\<dots> = bm_br bm ! i"
    unfolding pre using assms(4) by simp
  finally show ?thesis
    using assms le by (simp add: bm_rcv_cap_def bm_ok_def)
qed

interpretation bm: cap_provider "bm_alloc_capslots oc A alloc N" bm_caps "bm_rcv_cap A" "bm_ok N"
  "\<lambda>d. unat d + 3 < 256"
  for oc A alloc N
proof
  fix b :: buf_mgr and d :: u8 and w r b' w' i
  assume ok: "bm_ok N b"
  show "(\<exists>c. bm_rcv_cap A b i = Some (Inr c)) \<longleftrightarrow> i < unat (bm_caps b)"
    using ok by (rule bm_rcv_used)
  assume d: "unat d + 3 < 256"
  show "\<exists>r b' w'. bm_alloc_capslots oc A alloc N d b w = Some (r, b', w')"
    using bm_alloc_capslots_spec [OF ok d, of oc A alloc w] by (auto split: if_splits)
  show "bm_caps b' = max (bm_caps b) d" if "bm_alloc_capslots oc A alloc N d b w = Some (Inr (), b', w')"
    using bm_alloc_result(3) [OF ok d that] by simp
  assume a: "bm_alloc_capslots oc A alloc N d b w = Some (r, b', w')"
  note res = bm_alloc_result [OF ok d a]
  show "bm_ok N b' \<and> bm_caps b \<le> bm_caps b'"
    using res(1,2) by (simp add: bm_filled_def)
  show "bm_rcv_cap A b' i = bm_rcv_cap A b i" if "i < unat (bm_caps b)"
    by (rule bm_filled_rcv [OF ok res(1,2) that])
qed

interpretation bl: cap_provider "\<lambda>d b. bl_alloc_capslots d" bl_caps_used bl_rcv_cap "\<lambda>b. True" "\<lambda>d. True"
  by unfold_locales (auto simp: bl_alloc_capslots_def bl_caps_used_def bl_rcv_cap_def split: if_splits)



text \<open>With overflow checks off, the guard on the demand wraps: demands of 253 and more pass it and
  the loop runs off the end of the registers; with the checks on the sum itself panics.\<close>

lemma bm_fill_overrun:
  assumes "bm_caps bm < d" and "length (bm_br bm) < unat d" and "unat (bm_caps bm) \<le> length (bm_br bm)"
    and "\<And>w. fst (alloc w) AND INVALID_CAP_BIT A = 0"
  shows "bm_fill A alloc d bm w = None"
  using assms
proof (induction A alloc d bm w rule: bm_fill.induct)
  case (1 A alloc d bm w)
  obtain cap w1 where al: "alloc w = (cap, w1)"
    by (metis surj_pair)
  have valid: "\<not> cap AND INVALID_CAP_BIT A \<noteq> 0"
    using "1.prems"(4) [of w] al by simp
  have c1: "unat (bm_caps bm + 1) = Suc (unat (bm_caps bm))"
    using "1.prems"(1) by (rule unat_caps_inc)
  show ?case
  proof (cases "unat (bm_caps bm) < length (bm_br bm)")
    case False
    then show ?thesis
      using "1.prems"(1) al valid by (simp add: bm_fill.simps [of A alloc d bm w])
  next
    case True
    from "1.IH" [OF "1.prems"(1) al [symmetric] valid True] "1.prems" True c1
    show ?thesis
      using al valid by (simp add: bm_fill.simps [of A alloc d bm w] word_less_nat_alt)
  qed
qed

lemma bm_alloc_demand_wraps:
  assumes "bm_ok N bm" and "N < 253" and "253 \<le> unat d"
    and "\<And>w. fst (alloc w) AND INVALID_CAP_BIT A = 0"
  shows "bm_alloc_capslots oc A alloc N d bm w = None"
proof -
  have N: "N \<le> 255" "4 \<le> N" "length (bm_br bm) = N" "unat (bm_caps bm) + 3 < N"
    using assms(1) by (simp_all add: bm_ok_def)
  have "unat d + 3 - 256 < 4" and d: "unat d < 256"
    using unat_word_less [of d] by simp_all
  moreover have "unat (d + 3) = unat d + 3 - 256"
    using assms(3) d by (simp add: unat_word_ariths mod_if)
  moreover have "unat (word_of_nat N :: u8) = N"
    using N(1) by (simp add: unat_of_nat)
  ultimately have "\<not> d + 3 \<ge> word_of_nat N"
    using N(2) by (simp add: word_le_nat_alt)
  moreover have "bm_fill A alloc d bm w = None"
    using N assms(2-4) by (intro bm_fill_overrun) (simp_all add: word_less_nat_alt)
  moreover have "op_add oc d 3 = (if oc then None else Some (d + 3))"
    using assms(3) by (simp add: op_add_def)
  ultimately show ?thesis
    by (simp add: bm_alloc_capslots_def)
qed

text \<open>A manager starts with receive flags set, so the flags can never be chosen.\<close>

lemma bm_flags_fixed:
  assumes "RCV_ITEM_LOCAL_ID A \<noteq> 0"
  shows "\<exists>e. bm_set_rcv_cap_flags flags (bm_new A N) = (Inl e, bm_new A N)"
  using assms by (simp add: bm_set_rcv_cap_flags_def bm_new_def)

text \<open>Setting up a wait copies the receive items in use and nothing behind them: the terminator stays
  in the manager, and the next buffer register keeps what it held before.\<close>

lemma bm_setup_wait_copies:
  assumes "bm_setup_wait bm u = Some u'"
  shows "take (unat (bm_caps bm)) (utcb_br u') = take (unat (bm_caps bm)) (bm_br bm)"
    and "drop (unat (bm_caps bm)) (utcb_br u') = drop (unat (bm_caps bm)) (utcb_br u)"
  using assms by (auto simp: bm_setup_wait_def Let_def overwrite_def min_def split: if_splits)

end
