(* ===== verification/Rpc.thy ===== *)
theory Rpc
  imports Buffer_Manager
begin

text \<open>
  Remote calls: the server loop of \<open>crates/l4/ipc/server.rs\<close>, and the client stubs and the
  dispatcher that the macros of \<open>crates/l4/ipc/iface.rs\<close> generate for an interface (with the
  numbering of \<open>crates/l4_derive/iface.rs\<close>). An interface is a value: its protocol, its demand of
  capability slots, the type of its operation codes and its operations, each with the types of its
  arguments and its result and the implementation the server supplies. The kernel is a parameter;
  what it does with a call is the locale \<open>ipc_kernel\<close>. \<open>None\<close> is a panic.
\<close>

section \<open>Interfaces\<close>

record 's ipc_op =
  op_code :: nat
  op_args :: "sty list"
  op_ret :: sty
  op_fun :: "'s \<Rightarrow> sval list \<Rightarrow> (l4_error, sval) result \<times> 's"

record 's iface =
  PROTOCOL_ID :: i64
  CAP_DEMAND :: u8
  OpType :: mty
  iface_ops :: "'s ipc_op list"

section \<open>Message registers of a UTCB\<close>

definition mr_bytes :: "abi \<Rightarrow> nat" where
  "mr_bytes A = GENERIC_DATA_SIZE A * 8"

definition open_mr :: "utcb \<Rightarrow> utcb_mrs" where
  "open_mr u = from_mr (bytes_of_words (utcb_mr u))"

text \<open>The builder writes through to the registers.\<close>

definition close_mr :: "utcb_mrs \<Rightarrow> utcb \<Rightarrow> utcb" where
  "close_mr m u = u\<lparr>utcb_mr := words_of_bytes (length (utcb_mr u)) (reg_mem m)\<rparr>"

section \<open>The dispatcher of an interface\<close>

definition opcode_isize :: "mty \<Rightarrow> nat \<Rightarrow> i64" where
  "opcode_isize T n = (if signed_ty T then word_of_int (signed_take_bit (8 * size_of T - 1) (int n))
     else word_of_nat n)"

definition op_call :: "bool \<Rightarrow> abi \<Rightarrow> 's ipc_op \<Rightarrow> utcb_mrs \<Rightarrow> buf_access \<Rightarrow> 's
    \<Rightarrow> ((l4_error, msg_tag) result \<times> utcb_mrs \<times> 's) option" where
  "op_call oc A o1 m ba s =
     (case ser_reads A (mr_bytes A) (op_args o1) m ba of
        None \<Rightarrow> None
      | Some (Inl e, m, ba) \<Rightarrow> Some (Inl e, m, s)
      | Some (Inr vs, m, ba) \<Rightarrow>
          (case op_fun o1 s vs of
             (Inl e, s) \<Rightarrow> Some (Inl e, m, s)
           | (Inr user_ret, s) \<Rightarrow>
               (case ser_write oc A (mr_bytes A) (op_ret o1) user_ret (mr_reset m) of
                  None \<Rightarrow> None
                | Some (Inl e, m) \<Rightarrow> Some (Inl e, m, s)
                | Some (Inr _, m) \<Rightarrow>
                    do { wd \<leftarrow> mr_words oc m; Some (Inr (tag_new 0 wd (mr_items m) 0), m, s) })))"

definition op_dispatch :: "bool \<Rightarrow> abi \<Rightarrow> 's iface \<Rightarrow> msg_tag \<Rightarrow> utcb_mrs \<Rightarrow> buf_access \<Rightarrow> 's
    \<Rightarrow> ((l4_error, msg_tag) result \<times> utcb_mrs \<times> 's) option" where
  "op_dispatch oc A I tag m ba s =
     (if tag_words tag + tag_items tag * 2 > GENERIC_DATA_SIZE A
      then Some (Inl (Generic MsgTooLong), m, s)
      else if tag_label tag \<noteq> PROTOCOL_ID I then Some (Inl (Generic InvalidProt), m, s)
      else (case regs_read (mr_bytes A) (OpType I) m of
              (Inl e, m) \<Rightarrow> Some (Inl e, m, s)
            | (Inr opcode, m) \<Rightarrow>
                (case find (\<lambda>o1. op_code o1 = opcode) (iface_ops I) of
                   Some o1 \<Rightarrow> op_call oc A o1 m ba s
                 | None \<Rightarrow> Some (Inl (InvalidArg ''unknown opcode received''
                              (Some (opcode_isize (OpType I) opcode))), m, s))))"

section \<open>The client stub of an operation\<close>

text \<open>The literal operation code of a stub has the type \<open>i32\<close>, the default of an integer literal.
  \<open>ensure\<close> and \<open>access\<close> are the slots of the client object, \<open>kcall\<close> is \<open>l4_ipc_call\<close> on its
  capability.\<close>

definition client_stub :: "bool \<Rightarrow> abi \<Rightarrow> err_env \<Rightarrow> (i64 \<Rightarrow> utcb \<Rightarrow> 'w \<Rightarrow> i64 \<times> utcb \<times> 'w)
    \<Rightarrow> (u8 \<Rightarrow> 'b \<Rightarrow> 'w \<Rightarrow> ((l4_error, unit) result \<times> 'b \<times> 'w) option) \<Rightarrow> ('b \<Rightarrow> buf_access)
    \<Rightarrow> 's iface \<Rightarrow> 's ipc_op \<Rightarrow> sval list \<Rightarrow> 'b \<Rightarrow> utcb \<Rightarrow> 'w
    \<Rightarrow> ((l4_error, sval) result \<times> 'b \<times> utcb \<times> 'w) option" where
  "client_stub oc A E kcall ensure access I o1 args b u w = do {
     (r, b, w) \<leftarrow> ensure (CAP_DEMAND I) b w;
     case r of
       Inl e \<Rightarrow> Some (Inl e, b, u, w)
     | Inr _ \<Rightarrow>
       (case regs_write (mr_bytes A) I32 (op_code o1) (open_mr u) of
          (Inl e, m) \<Rightarrow> Some (Inl e, b, close_mr m u, w)
        | (Inr _, m) \<Rightarrow> do {
            (r, m) \<leftarrow> ser_writes oc A (mr_bytes A) (zip (op_args o1) args) m;
            case r of
              Inl e \<Rightarrow> Some (Inl e, b, close_mr m u, w)
            | Inr _ \<Rightarrow> do {
                wd \<leftarrow> mr_words oc m;
                let tag = tag_new (PROTOCOL_ID I) wd (mr_items m) 0;
                let (restag, u, w) = kcall (raw tag) (close_mr m u) w;
                res \<leftarrow> tag_result oc A E u \<lparr>raw = restag\<rparr>;
                case res of
                  Inl e \<Rightarrow> Some (Inl e, b, u, w)
                | Inr _ \<Rightarrow> do {
                    (r, m, ba) \<leftarrow> ser_read A (mr_bytes A) (op_ret o1) (open_mr u) (access b);
                    Some (r, b, u, w)
                  }
              }
          })
   }"

section \<open>The server loop\<close>

datatype loop_action = ReplyAndWait msg_tag | LoopBreak

text \<open>The default hooks: an IPC error is answered with its negated code, an error of the application
  with its label.\<close>

definition default_ipc_error :: "bool \<Rightarrow> abi \<Rightarrow> err_env \<Rightarrow> utcb \<Rightarrow> msg_tag \<Rightarrow> loop_action option" where
  "default_ipc_error oc A E u tag = do {
     r \<leftarrow> tag_result oc A E u tag;
     case r of
       Inr _ \<Rightarrow> None
     | Inl e \<Rightarrow> do {
         code \<leftarrow> (case e of
             Generic g \<Rightarrow> Some (code_of (generic_codes E) g)
           | Tcr t \<Rightarrow> Some (code_of (tcr_codes E) t)
           | Unknown n \<Rightarrow> Some n
           | _ \<Rightarrow> None);
         n \<leftarrow> op_neg oc code;
         Some (ReplyAndWait (tag_new n 0 0 0))
       }
   }"

definition default_application_error :: "bool \<Rightarrow> err_env \<Rightarrow> l4_error \<Rightarrow> loop_action option" where
  "default_application_error oc E e = do { l \<leftarrow> into_ipc_err oc E e; Some (ReplyAndWait (tag_new l 0 0 0)) }"

text \<open>\<open>Loop::dispatch\<close>: the label of a message is the address of the server object; \<open>objs\<close> maps the
  labels that were bound to the interfaces of the objects.\<close>

definition loop_dispatch :: "bool \<Rightarrow> abi \<Rightarrow> err_env \<Rightarrow> (u64 \<Rightarrow> 's iface option) \<Rightarrow> buf_access
    \<Rightarrow> msg_tag \<Rightarrow> u64 \<Rightarrow> utcb \<Rightarrow> 's \<Rightarrow> (loop_action \<times> utcb \<times> 's) option" where
  "loop_dispatch oc A E objs bufs tag ipc_label u s = do {
     I \<leftarrow> objs ipc_label;
     (r, m, s) \<leftarrow> op_dispatch oc A I tag (open_mr u) bufs s;
     case r of
       Inl e \<Rightarrow> do { act \<leftarrow> default_application_error oc E e; Some (act, close_mr m u, s) }
     | Inr t \<Rightarrow> Some (ReplyAndWait t, close_mr m u, s)
   }"

text \<open>One turn of the loop in \<open>start\<close>.\<close>

definition loop_turn :: "bool \<Rightarrow> abi \<Rightarrow> err_env \<Rightarrow> (u64 \<Rightarrow> 's iface option) \<Rightarrow> buf_access
    \<Rightarrow> msg_tag \<Rightarrow> u64 \<Rightarrow> utcb \<Rightarrow> 's \<Rightarrow> (loop_action \<times> utcb \<times> 's) option" where
  "loop_turn oc A E objs bufs tag ipc_label u s =
     (if has_error A tag then do { act \<leftarrow> default_ipc_error oc A E u tag; Some (act, u, s) }
      else loop_dispatch oc A E objs bufs tag ipc_label u s)"

text \<open>The loop over what the kernel delivers: \<open>reply_and_wait\<close> takes the next message, or the one
  after it when the wait itself failed before any message came in. The replies are collected with the
  registers they are sent from; the loop ends at a break or when nothing more comes in.\<close>

type_synonym event = "u64 \<times> msg_tag \<times> utcb"

fun next_event :: "abi \<Rightarrow> event list \<Rightarrow> (event \<times> event list) option" where
  "next_event A [] = None"
| "next_event A ((l, t, u) # evs) =
     (if l = 0 \<and> has_error A t then (case evs of [] \<Rightarrow> None | ev # evs \<Rightarrow> Some (ev, evs))
      else Some ((l, t, u), evs))"

lemma next_event_shorter: "next_event A evs = Some (ev, evs') \<Longrightarrow> length evs' < length evs"
  by (cases "(A, evs)" rule: next_event.cases) (auto split: if_splits list.splits)

function loop_start :: "bool \<Rightarrow> abi \<Rightarrow> err_env \<Rightarrow> (u64 \<Rightarrow> 's iface option) \<Rightarrow> buf_mgr \<Rightarrow> event \<Rightarrow> event list \<Rightarrow> 's
    \<Rightarrow> ((msg_tag \<times> utcb) list \<times> 's) option" where
  "loop_start oc A E objs bm (ipc_label, tag, u) evs s = do {
     (act, u, s) \<leftarrow> loop_turn oc A E objs (bm_access_buffers bm) tag ipc_label u s;
     case act of
       LoopBreak \<Rightarrow> Some ([], s)
     | ReplyAndWait t \<Rightarrow> do {
         u \<leftarrow> bm_setup_wait bm u;
         case next_event A evs of
           None \<Rightarrow> Some ([(t, u)], s)
         | Some (ev, evs) \<Rightarrow>
             do { (replies, s) \<leftarrow> loop_start oc A E objs bm ev evs s; Some ((t, u) # replies, s) }
       }
   }"
  by pat_completeness auto
termination
  by (relation "measure (\<lambda>(oc, A, E, objs, bm, ev, evs, s). length evs)") (auto dest: next_event_shorter)

section \<open>Registers as bytes and as words\<close>

definition utcb_fits :: "abi \<Rightarrow> utcb \<Rightarrow> bool" where
  "utcb_fits A u \<longleftrightarrow> length (utcb_mr u) = GENERIC_DATA_SIZE A"

lemma open_mr_ok: "abi_ok A \<Longrightarrow> utcb_fits A u \<Longrightarrow> regs_ok (mr_bytes A) (open_mr u)"
  by (simp add: regs_ok_def open_mr_def from_mr_def mr_bytes_def utcb_fits_def abi_ok_def)

lemma bytes_close_mr:
  assumes "utcb_fits A u" and "regs_ok (mr_bytes A) m"
  shows "bytes_of_words (utcb_mr (close_mr m u)) = reg_mem m"
  using assms by (simp add: close_mr_def utcb_fits_def regs_ok_def mr_bytes_def)

lemma utcb_fits_close_mr [simp]: "utcb_fits A (close_mr m u) = utcb_fits A u"
  by (simp add: utcb_fits_def close_mr_def)

lemma take_bytes_of_words: "take (8 * n) (bytes_of_words ws) = bytes_of_words (take n ws)"
proof (induction n arbitrary: ws)
  case 0
  then show ?case by simp
next
  case (Suc n)
  show ?case
    by (cases ws) (simp_all add: Suc)
qed

lemma agree_bytes:
  assumes "take n (utcb_mr us) = take n (utcb_mr u)" and "off \<le> 8 * n"
  shows "agree 0 off (bytes_of_words (utcb_mr us)) (bytes_of_words (utcb_mr u))"
proof -
  have "take (8 * n) (bytes_of_words (utcb_mr us)) = take (8 * n) (bytes_of_words (utcb_mr u))"
    by (simp only: take_bytes_of_words assms(1))
  then have "bytes_of_words (utcb_mr us) ! i = bytes_of_words (utcb_mr u) ! i" if "i < off" for i
    using that assms(2) by (metis nth_take order_less_le_trans)
  then show ?thesis
    by (simp add: agree_def)
qed

text \<open>The number of words of a message without items: the bytes written, rounded up, which the tag
  can count.\<close>

lemma round_up_words:
  fixes n :: nat
  shows "n \<le> 8 * (n div 8 + (if n mod 8 = 0 then 0 else 1))"
    and "n \<le> 8 * d \<Longrightarrow> n div 8 + (if n mod 8 = 0 then 0 else 1) \<le> d"
proof -
  define q r where "q = n div 8" and "r = n mod 8"
  have n: "n = 8 * q + r" "r < 8"
    by (simp_all add: q_def r_def)
  then show "n \<le> 8 * (n div 8 + (if n mod 8 = 0 then 0 else 1))"
    unfolding q_def [symmetric] r_def [symmetric] by simp
  assume "n \<le> 8 * d"
  with n show "n div 8 + (if n mod 8 = 0 then 0 else 1) \<le> d"
    unfolding q_def [symmetric] r_def [symmetric] by simp
qed

lemma mr_words_data:
  assumes "abi_ok A" and "regs_ok (mr_bytes A) m" and "mr_items m = 0"
  shows "\<exists>wd. mr_words oc m = Some wd \<and> reg_offset m \<le> 8 * unat wd \<and> unat wd \<le> GENERIC_DATA_SIZE A"
proof -
  define k where "k = reg_offset m div 8 + (if reg_offset m mod 8 = 0 then 0 else 1)"
  have off: "reg_offset m \<le> GENERIC_DATA_SIZE A * 8" and size: "GENERIC_DATA_SIZE A \<le> 63"
    using assms(1,2) by (simp_all add: regs_ok_def mr_bytes_def abi_ok_def)
  have k: "reg_offset m \<le> 8 * k" "k \<le> GENERIC_DATA_SIZE A"
    using off round_up_words [of "reg_offset m"] by (simp_all add: k_def mult.commute)
  have "unat (word_of_nat k :: u32) = k"
    using k(2) size by (simp add: unat_of_nat)
  moreover have "mr_words oc m = Some (word_of_nat k)"
    using assms(3) by (simp add: mr_words_def op_mul_def op_sub_def regs_words_def k_def)
  ultimately show ?thesis
    using k by auto
qed

section \<open>From the arguments to the handler\<close>

text \<open>A message built by a stub: the operation code and the arguments.\<close>

definition stub_message :: "bool \<Rightarrow> abi \<Rightarrow> 's ipc_op \<Rightarrow> sval list \<Rightarrow> utcb \<Rightarrow> utcb_mrs \<Rightarrow> bool" where
  "stub_message oc A o1 args u m \<longleftrightarrow>
     (\<exists>m1. regs_write (mr_bytes A) I32 (op_code o1) (open_mr u) = (Inr (), m1) \<and>
           ser_writes oc A (mr_bytes A) (zip (op_args o1) args) m1 = Some (Inr (), m))"

definition args_ok :: "'s ipc_op \<Rightarrow> sval list \<Rightarrow> bool" where
  "args_ok o1 args \<longleftrightarrow> length args = length (op_args o1) \<and> op_code o1 < 2 ^ 32 \<and>
     (\<forall>(T, v)\<in>set (zip (op_args o1) args). data_ok T v)"

lemma stub_message_extends:
  assumes "abi_ok A" and "utcb_fits A u" and "args_ok o1 args" and "stub_message oc A o1 args u m"
  shows "regs_ok (mr_bytes A) m" and "mr_items m = 0"
proof -
  obtain m1 where w: "regs_write (mr_bytes A) I32 (op_code o1) (open_mr u) = (Inr (), m1)"
    and ws: "ser_writes oc A (mr_bytes A) (zip (op_args o1) args) m1 = Some (Inr (), m)"
    using assms(4) by (auto simp: stub_message_def)
  have "extends (mr_bytes A) (open_mr u) m1"
    by (rule regs_write_extends [OF open_mr_ok [OF assms(1,2)] w])
  then have "regs_ok (mr_bytes A) m1"
    by (simp add: extends_def)
  from ser_writes_extends [OF this ws] assms(3)
  have "extends (mr_bytes A) m1 m" and "mr_items m = mr_items m1"
    by (simp_all add: args_ok_def)
  then show "regs_ok (mr_bytes A) m" and "mr_items m = 0"
    using regs_write_items [OF w] by (simp_all add: extends_def open_mr_def from_mr_def)
qed

lemma stub_message_read:
  assumes "abi_ok A" and "utcb_fits A u" and "utcb_fits A us" and "args_ok o1 args"
    and "stub_message oc A o1 args u m"
    and "agree 0 (reg_offset m) (bytes_of_words (utcb_mr us)) (reg_mem m)"
  obtains q where "regs_read (mr_bytes A) I32 (open_mr us) = (Inr (op_code o1), q)"
    and "ser_reads A (mr_bytes A) (op_args o1) q ba = Some (Inr args, q\<lparr>reg_offset := reg_offset m\<rparr>, ba)"
    and "reg_mem q = reg_mem (open_mr us)" and "mr_items q = 0"
proof -
  let ?B = "mr_bytes A"
  obtain m1 where w: "regs_write ?B I32 (op_code o1) (open_mr u) = (Inr (), m1)"
    and ws: "ser_writes oc A ?B (zip (op_args o1) args) m1 = Some (Inr (), m)"
    using assms(5) by (auto simp: stub_message_def)
  have ok: "regs_ok ?B (open_mr u)"
    by (rule open_mr_ok [OF assms(1,2)])
  have e1: "extends ?B (open_mr u) m1"
    by (rule regs_write_extends [OF ok w])
  then have ok1: "regs_ok ?B m1"
    by (simp add: extends_def)
  have data: "\<forall>(T, v)\<in>set (zip (op_args o1) args). data_ok T v"
    using assms(4) by (simp add: args_ok_def)
  have e2: "extends ?B m1 m"
    using ser_writes_extends [OF ok1 ws data] by blast
  have "sees ?B (open_mr u) m (open_mr us)"
    using open_mr_ok [OF assms(1,3)] assms(6) by (simp add: sees_def open_mr_def from_mr_def)
  note split = sees_split [OF this e1 e2]
  have code: "op_code o1 < 256 ^ size_of I32"
    using assms(4) by (simp add: args_ok_def)
  show thesis
    using regs_read_back [OF ok w split(1) code] ser_reads_back [OF ok1 ws data split(2), of ba] assms(4)
    by (intro that [of "(open_mr us)\<lparr>reg_offset := reg_offset m1\<rparr>"])
      (simp_all add: args_ok_def open_mr_def from_mr_def)
qed

text \<open>The dispatcher runs the operation the stub named, on the arguments it was given.\<close>

definition ops_ok :: "'s iface \<Rightarrow> bool" where
  "ops_ok I \<longleftrightarrow> distinct (map op_code (iface_ops I))"

lemma find_op:
  assumes "ops_ok I" and "o1 \<in> set (iface_ops I)"
  shows "find (\<lambda>o2. op_code o2 = op_code o1) (iface_ops I) = Some o1"
proof -
  obtain o2 where f: "find (\<lambda>o2. op_code o2 = op_code o1) (iface_ops I) = Some o2"
    using assms(2) by (cases "find (\<lambda>o2. op_code o2 = op_code o1) (iface_ops I)") (auto simp: find_None_iff)
  then have "o2 \<in> set (iface_ops I)" "op_code o2 = op_code o1"
    by (auto simp: find_Some_iff)
  then have "o2 = o1"
    using assms by (simp add: ops_ok_def distinct_map inj_on_def)
  with f show ?thesis by simp
qed

lemma op_dispatch_runs:
  assumes "abi_ok A" and "utcb_fits A u" and "utcb_fits A us" and "args_ok o1 args"
    and "stub_message oc A o1 args u m"
    and "agree 0 (reg_offset m) (bytes_of_words (utcb_mr us)) (reg_mem m)"
    and "ops_ok I" and "o1 \<in> set (iface_ops I)" and "OpType I = I32" and "label_fits (PROTOCOL_ID I)"
    and "unat wd \<le> GENERIC_DATA_SIZE A" and "op_fun o1 s args = (res, s')"
  obtains q where "reg_mem q = reg_mem (open_mr us)" and "mr_items q = 0"
    and "op_dispatch oc A I (tag_new (PROTOCOL_ID I) wd 0 0) (open_mr us) ba s =
      (case res of
         Inl e \<Rightarrow> Some (Inl e, q, s')
       | Inr user_ret \<Rightarrow>
           (case ser_write oc A (mr_bytes A) (op_ret o1) user_ret (mr_reset q) of
              None \<Rightarrow> None
            | Some (Inl e, m) \<Rightarrow> Some (Inl e, m, s')
            | Some (Inr _, m) \<Rightarrow>
                do { wd \<leftarrow> mr_words oc m; Some (Inr (tag_new 0 wd (mr_items m) 0), m, s') }))"
proof -
  obtain q where q: "regs_read (mr_bytes A) I32 (open_mr us) = (Inr (op_code o1), q)"
    "ser_reads A (mr_bytes A) (op_args o1) q ba = Some (Inr args, q\<lparr>reg_offset := reg_offset m\<rparr>, ba)"
    "reg_mem q = reg_mem (open_mr us)" "mr_items q = 0"
    by (rule stub_message_read [OF assms(1-6), of ba])
  have "GENERIC_DATA_SIZE A \<le> 63"
    using assms(1) by (simp add: abi_ok_def)
  then have tag: "tag_words (tag_new (PROTOCOL_ID I) wd 0 0) = unat wd"
    "tag_items (tag_new (PROTOCOL_ID I) wd 0 0) = 0"
    using assms(11) by simp_all
  have "op_dispatch oc A I (tag_new (PROTOCOL_ID I) wd 0 0) (open_mr us) ba s = op_call oc A o1 q ba s"
    using assms(9-11) tag q(1) find_op [OF assms(7,8)] by (simp add: op_dispatch_def)
  then show thesis
    using q assms(12)
    by (intro that [of "q\<lparr>reg_offset := reg_offset m\<rparr>"])
      (auto simp: op_call_def split: sum.splits option.splits)
qed

section \<open>The kernel between client and server\<close>

text \<open>A turn of the server loop that answers.\<close>

definition serve_turn :: "bool \<Rightarrow> abi \<Rightarrow> err_env \<Rightarrow> (u64 \<Rightarrow> 's iface option) \<Rightarrow> buf_access \<Rightarrow> u64
    \<Rightarrow> msg_tag \<Rightarrow> utcb \<Rightarrow> 's \<Rightarrow> (msg_tag \<times> utcb \<times> 's) option" where
  "serve_turn oc A E objs bufs ipc_label tag us s =
     (case loop_turn oc A E objs bufs tag ipc_label us s of
        Some (ReplyAndWait t, us, s) \<Rightarrow> Some (t, us, s) | _ \<Rightarrow> None)"

text \<open>What the kernel does with a call to a waiting server: the untyped words that the tag counts
  arrive in the server's registers (whose other contents are left open), the server answers, and the
  words of the answer and its tag arrive at the client.\<close>

locale ipc_kernel =
  fixes A :: abi
    and kcall :: "i64 \<Rightarrow> utcb \<Rightarrow> utcb \<times> 's \<Rightarrow> i64 \<times> utcb \<times> utcb \<times> 's"
    and serve :: "msg_tag \<Rightarrow> utcb \<Rightarrow> 's \<Rightarrow> (msg_tag \<times> utcb \<times> 's) option"
  assumes transfer: "utcb_fits A u \<Longrightarrow> utcb_fits A us \<Longrightarrow>
    \<exists>us1. utcb_fits A us1 \<and> take (tag_words tag) (utcb_mr us1) = take (tag_words tag) (utcb_mr u) \<and>
      (\<forall>t us2 s2. serve tag us1 s = Some (t, us2, s2) \<and> utcb_fits A us2 \<longrightarrow>
        (\<exists>u2. kcall (raw tag) u (us, s) = (raw t, u2, us2, s2) \<and> utcb_fits A u2 \<and>
          take (tag_words t) (utcb_mr u2) = take (tag_words t) (utcb_mr us2)))"

text \<open>The copying kernel.\<close>

definition copy_words :: "nat \<Rightarrow> utcb \<Rightarrow> utcb \<Rightarrow> utcb" where
  "copy_words n src dst = dst\<lparr>utcb_mr := take n (utcb_mr src) @ drop n (utcb_mr dst)\<rparr>"

definition copy_call :: "(msg_tag \<Rightarrow> utcb \<Rightarrow> 's \<Rightarrow> (msg_tag \<times> utcb \<times> 's) option)
    \<Rightarrow> i64 \<Rightarrow> utcb \<Rightarrow> utcb \<times> 's \<Rightarrow> i64 \<times> utcb \<times> utcb \<times> 's" where
  "copy_call serve tag u w =
     (case w of (us, s) \<Rightarrow>
        (case serve \<lparr>raw = tag\<rparr> (copy_words (tag_words \<lparr>raw = tag\<rparr>) u us) s of
           Some (t, us, s) \<Rightarrow> (raw t, copy_words (tag_words t) us u, us, s)
         | None \<Rightarrow> (0, u, us, s)))"

lemma copy_words_fits: "utcb_fits A u \<Longrightarrow> utcb_fits A us \<Longrightarrow> utcb_fits A (copy_words n u us)"
  by (auto simp: copy_words_def utcb_fits_def min_def)

lemma take_copy_words:
  "utcb_fits A u \<Longrightarrow> utcb_fits A us \<Longrightarrow> take n (utcb_mr (copy_words n u us)) = take n (utcb_mr u)"
  by (auto simp: copy_words_def utcb_fits_def min_def)

interpretation copying: ipc_kernel A "copy_call serve" serve for A serve
proof
  fix u us :: utcb and tag :: msg_tag and s
  assume fits: "utcb_fits A u" "utcb_fits A us"
  obtain x where tag: "tag = \<lparr>raw = x\<rparr>"
    by (cases tag)
  show "\<exists>us1. utcb_fits A us1 \<and> take (tag_words tag) (utcb_mr us1) = take (tag_words tag) (utcb_mr u) \<and>
      (\<forall>t us2 s2. serve tag us1 s = Some (t, us2, s2) \<and> utcb_fits A us2 \<longrightarrow>
        (\<exists>u2. copy_call serve (raw tag) u (us, s) = (raw t, u2, us2, s2) \<and> utcb_fits A u2 \<and>
          take (tag_words t) (utcb_mr u2) = take (tag_words t) (utcb_mr us2)))"
  proof (rule exI [of _ "copy_words (tag_words tag) u us"], intro conjI allI impI)
    show "utcb_fits A (copy_words (tag_words tag) u us)"
      by (rule copy_words_fits [OF fits])
    show "take (tag_words tag) (utcb_mr (copy_words (tag_words tag) u us)) = take (tag_words tag) (utcb_mr u)"
      by (rule take_copy_words [OF fits])
    fix t us2 s2
    assume res: "serve tag (copy_words (tag_words tag) u us) s = Some (t, us2, s2) \<and> utcb_fits A us2"
    then have "take (tag_words t) (utcb_mr (copy_words (tag_words t) us2 u)) = take (tag_words t) (utcb_mr us2)"
      using take_copy_words fits(1) by blast
    with res show "\<exists>u2. copy_call serve (raw tag) u (us, s) = (raw t, u2, us2, s2) \<and> utcb_fits A u2 \<and>
          take (tag_words t) (utcb_mr u2) = take (tag_words t) (utcb_mr us2)"
      using fits
      by (intro exI [of _ "copy_words (tag_words t) us2 u"])
        (simp add: copy_call_def copy_words_fits tag)
  qed
qed

section \<open>Calls from end to end\<close>

text \<open>The setting of a call: a client with registers \<open>u\<close> and a server with registers \<open>us\<close>, an
  interface bound under a label, an operation of it and arguments that fit into a message.\<close>

definition rpc_setting :: "bool \<Rightarrow> abi \<Rightarrow> (u64 \<Rightarrow> 's iface option) \<Rightarrow> u64 \<Rightarrow> 's iface \<Rightarrow> 's ipc_op
    \<Rightarrow> sval list \<Rightarrow> utcb \<Rightarrow> utcb \<Rightarrow> bool" where
  "rpc_setting oc A objs ipc_label I o1 args u us \<longleftrightarrow> abi_ok A \<and> utcb_fits A u \<and> utcb_fits A us \<and>
     objs ipc_label = Some I \<and> ops_ok I \<and> o1 \<in> set (iface_ops I) \<and> OpType I = I32 \<and>
     label_fits (PROTOCOL_ID I) \<and> args_ok o1 args \<and> (\<exists>m. stub_message oc A o1 args u m)"

text \<open>The result of an operation fits into a message.\<close>

definition reply_fits :: "bool \<Rightarrow> abi \<Rightarrow> 's ipc_op \<Rightarrow> sval \<Rightarrow> bool" where
  "reply_fits oc A o1 ret \<longleftrightarrow> data_ok (op_ret o1) ret \<and>
     (\<forall>mem. length mem = mr_bytes A \<longrightarrow>
        (\<exists>m. ser_write oc A (mr_bytes A) (op_ret o1) ret (from_mr mem) = Some (Inr (), m)))"

text \<open>Marshalling and the kernel: the server's turn runs the operation on the arguments.\<close>

lemma stub_to_kernel:
  assumes "rpc_setting oc A objs ipc_label I o1 args u us"
    and "ensure (CAP_DEMAND I) b (us, s) = Some (Inr (), b', (us, s))"
  obtains m wd where "stub_message oc A o1 args u m" and "unat wd \<le> GENERIC_DATA_SIZE A"
    and "reg_offset m \<le> 8 * unat wd" and "utcb_fits A (close_mr m u)"
    and "bytes_of_words (utcb_mr (close_mr m u)) = reg_mem m"
    and "client_stub oc A E kcall ensure access I o1 args b u (us, s) = (
      case kcall (raw (tag_new (PROTOCOL_ID I) wd 0 0)) (close_mr m u) (us, s) of (restag, u, w) \<Rightarrow> do {
        res \<leftarrow> tag_result oc A E u \<lparr>raw = restag\<rparr>;
        case res of
          Inl e \<Rightarrow> Some (Inl e, b', u, w)
        | Inr _ \<Rightarrow> do {
            (r, m, ba) \<leftarrow> ser_read A (mr_bytes A) (op_ret o1) (open_mr u) (access b');
            Some (r, b', u, w)
          }
      })"
proof -
  obtain m where msg: "stub_message oc A o1 args u m"
    using assms(1) by (auto simp: rpc_setting_def)
  have set: "abi_ok A" "utcb_fits A u" "args_ok o1 args"
    using assms(1) by (simp_all add: rpc_setting_def)
  note m = stub_message_extends [OF set msg]
  obtain wd where wd: "mr_words oc m = Some wd" "reg_offset m \<le> 8 * unat wd" "unat wd \<le> GENERIC_DATA_SIZE A"
    using mr_words_data [OF set(1) m] by blast
  obtain m1 where "regs_write (mr_bytes A) I32 (op_code o1) (open_mr u) = (Inr (), m1)"
    and "ser_writes oc A (mr_bytes A) (zip (op_args o1) args) m1 = Some (Inr (), m)"
    using msg by (auto simp: stub_message_def)
  then show thesis
    using wd m set assms(2) bytes_close_mr [OF set(2) m(1)]
    by (intro that [OF msg wd(3,2)])
      (auto simp: client_stub_def Let_def split: prod.splits)
qed

lemma mr_reset_from: "mr_reset q = from_mr (reg_mem q)"
  by (cases q) (simp add: mr_reset_def from_mr_def)

lemma length_open_mr: "utcb_fits A us \<Longrightarrow> length (reg_mem (open_mr us)) = mr_bytes A"
  by (simp add: open_mr_def from_mr_def utcb_fits_def mr_bytes_def)

text \<open>The server's turn on a message whose words arrived.\<close>

lemma dispatch_of_setting:
  assumes "rpc_setting oc A objs ipc_label I o1 args u us" and "stub_message oc A o1 args u m"
    and "utcb_fits A us1" and "unat wd \<le> GENERIC_DATA_SIZE A"
    and "agree 0 (reg_offset m) (bytes_of_words (utcb_mr us1)) (reg_mem m)"
    and "op_fun o1 s args = (res, s')"
  obtains q where "reg_mem q = reg_mem (open_mr us1)"
    and "op_dispatch oc A I (tag_new (PROTOCOL_ID I) wd 0 0) (open_mr us1) bufs s =
      (case res of
         Inl e \<Rightarrow> Some (Inl e, q, s')
       | Inr user_ret \<Rightarrow>
           (case ser_write oc A (mr_bytes A) (op_ret o1) user_ret (mr_reset q) of
              None \<Rightarrow> None
            | Some (Inl e, m) \<Rightarrow> Some (Inl e, m, s')
            | Some (Inr _, m) \<Rightarrow>
                do { wd \<leftarrow> mr_words oc m; Some (Inr (tag_new 0 wd (mr_items m) 0), m, s') }))"
proof -
  have s: "abi_ok A" "utcb_fits A u" "args_ok o1 args" "ops_ok I" "o1 \<in> set (iface_ops I)"
    "OpType I = I32" "label_fits (PROTOCOL_ID I)"
    using assms(1) by (simp_all add: rpc_setting_def)
  show thesis
    by (rule op_dispatch_runs [OF s(1,2) assms(3) s(3) assms(2,5) s(4-7) assms(4,6), of bufs]) (rule that)
qed

lemma serve_turn_err:
  assumes "rpc_setting oc A objs ipc_label I o1 args u us" and "stub_message oc A o1 args u m"
    and "utcb_fits A us1" and "unat wd \<le> GENERIC_DATA_SIZE A"
    and "agree 0 (reg_offset m) (bytes_of_words (utcb_mr us1)) (reg_mem m)"
    and "op_fun o1 s args = (Inl e, s')" and "into_ipc_err oc E e = Some l"
  shows "\<exists>us2. serve_turn oc A E objs bufs ipc_label (tag_new (PROTOCOL_ID I) wd 0 0) us1 s =
    Some (tag_new l 0 0 0, us2, s') \<and> utcb_fits A us2"
proof (rule dispatch_of_setting [OF assms(1-6), of bufs])
  fix q
  assume "op_dispatch oc A I (tag_new (PROTOCOL_ID I) wd 0 0) (open_mr us1) bufs s =
      (case Inl e of
         Inl e \<Rightarrow> Some (Inl e, q, s')
       | Inr user_ret \<Rightarrow>
           (case ser_write oc A (mr_bytes A) (op_ret o1) user_ret (mr_reset q) of
              None \<Rightarrow> None
            | Some (Inl e, m) \<Rightarrow> Some (Inl e, m, s')
            | Some (Inr _, m) \<Rightarrow>
                do { wd \<leftarrow> mr_words oc m; Some (Inr (tag_new 0 wd (mr_items m) 0), m, s') }))"
  moreover have "\<not> has_error A (tag_new (PROTOCOL_ID I) wd 0 0)" and "objs ipc_label = Some I"
    using assms(1) by (simp_all add: rpc_setting_def has_error_new_0)
  ultimately show ?thesis
    using assms(3,7)
    by (simp add: serve_turn_def loop_turn_def loop_dispatch_def default_application_error_def)
qed

lemma serve_turn_ok:
  assumes "rpc_setting oc A objs ipc_label I o1 args u us" and "stub_message oc A o1 args u m"
    and "utcb_fits A us1" and "unat wd \<le> GENERIC_DATA_SIZE A"
    and "agree 0 (reg_offset m) (bytes_of_words (utcb_mr us1)) (reg_mem m)"
    and "op_fun o1 s args = (Inr ret, s')" and "reply_fits oc A o1 ret"
  obtains wd' us2 mem m' where "serve_turn oc A E objs bufs ipc_label (tag_new (PROTOCOL_ID I) wd 0 0) us1 s =
      Some (tag_new 0 wd' 0 0, us2, s')"
    and "utcb_fits A us2" and "regs_ok (mr_bytes A) (from_mr mem)"
    and "ser_write oc A (mr_bytes A) (op_ret o1) ret (from_mr mem) = Some (Inr (), m')"
    and "bytes_of_words (utcb_mr us2) = reg_mem m'" and "reg_offset m' \<le> 8 * unat wd'"
    and "unat wd' \<le> GENERIC_DATA_SIZE A"
proof (rule dispatch_of_setting [OF assms(1-6), of bufs])
  fix q
  assume mem: "reg_mem q = reg_mem (open_mr us1)"
    and d: "op_dispatch oc A I (tag_new (PROTOCOL_ID I) wd 0 0) (open_mr us1) bufs s =
      (case Inr ret of
         Inl e \<Rightarrow> Some (Inl e, q, s')
       | Inr user_ret \<Rightarrow>
           (case ser_write oc A (mr_bytes A) (op_ret o1) user_ret (mr_reset q) of
              None \<Rightarrow> None
            | Some (Inl e, m) \<Rightarrow> Some (Inl e, m, s')
            | Some (Inr _, m) \<Rightarrow>
                do { wd \<leftarrow> mr_words oc m; Some (Inr (tag_new 0 wd (mr_items m) 0), m, s') }))"
  have abi: "abi_ok A"
    using assms(1) by (simp add: rpc_setting_def)
  have ok: "regs_ok (mr_bytes A) (from_mr (reg_mem q))"
    using open_mr_ok [OF abi assms(3)] mem by (simp add: open_mr_def from_mr_def)
  have "length (reg_mem q) = mr_bytes A"
    using mem length_open_mr [OF assms(3)] by simp
  then obtain m' where w: "ser_write oc A (mr_bytes A) (op_ret o1) ret (from_mr (reg_mem q)) = Some (Inr (), m')"
    using assms(7) by (auto simp: reply_fits_def)
  have data: "data_ok (op_ret o1) ret"
    using assms(7) by (simp add: reply_fits_def)
  have m': "regs_ok (mr_bytes A) m'" "mr_items m' = 0"
    using ser_write_extends [OF ok w data] by (simp_all add: extends_def from_mr_def)
  obtain wd' where wd': "mr_words oc m' = Some wd'" "reg_offset m' \<le> 8 * unat wd'" "unat wd' \<le> GENERIC_DATA_SIZE A"
    using mr_words_data [OF abi m'] by blast
  have "\<not> has_error A (tag_new (PROTOCOL_ID I) wd 0 0)" and "objs ipc_label = Some I"
    using assms(1) by (simp_all add: rpc_setting_def has_error_new_0)
  then have "serve_turn oc A E objs bufs ipc_label (tag_new (PROTOCOL_ID I) wd 0 0) us1 s =
      Some (tag_new 0 wd' 0 0, close_mr m' us1, s')"
    using d w wd'(1) m'(2)
    by (simp add: serve_turn_def loop_turn_def loop_dispatch_def mr_reset_from)
  then show thesis
    using assms(3) ok w wd' bytes_close_mr [OF assms(3) m'(1)] by (intro that) simp_all
qed

lemma label_fits_0 [simp]: "label_fits 0"
  by (simp add: label_fits_def)

text \<open>A call up to the point where the client looks at the answer.\<close>

definition stub_answer :: "bool \<Rightarrow> abi \<Rightarrow> err_env \<Rightarrow> ('b \<Rightarrow> buf_access) \<Rightarrow> 's ipc_op \<Rightarrow> 'b \<Rightarrow> msg_tag \<Rightarrow> utcb \<Rightarrow> 'w
    \<Rightarrow> ((l4_error, sval) result \<times> 'b \<times> utcb \<times> 'w) option" where
  "stub_answer oc A E access o1 b t u w = do {
     res \<leftarrow> tag_result oc A E u t;
     case res of
       Inl e \<Rightarrow> Some (Inl e, b, u, w)
     | Inr _ \<Rightarrow> do {
         (r, m, ba) \<leftarrow> ser_read A (mr_bytes A) (op_ret o1) (open_mr u) (access b);
         Some (r, b, u, w)
       }
   }"

lemma raw_eta [simp]: "\<lparr>raw = raw t\<rparr> = t"
  by (cases t) simp

lemma stub_served:
  assumes "rpc_setting oc A objs ipc_label I o1 args u us"
    and "ensure (CAP_DEMAND I) b (us, s) = Some (Inr (), b', (us, s))"
    and "ipc_kernel A kcall serve"
  obtains m wd us1 where "stub_message oc A o1 args u m" and "unat wd \<le> GENERIC_DATA_SIZE A"
    and "utcb_fits A us1" and "agree 0 (reg_offset m) (bytes_of_words (utcb_mr us1)) (reg_mem m)"
    and "\<And>t us2 s2. serve (tag_new (PROTOCOL_ID I) wd 0 0) us1 s = Some (t, us2, s2) \<Longrightarrow> utcb_fits A us2 \<Longrightarrow>
      \<exists>u2. client_stub oc A E kcall ensure access I o1 args b u (us, s) =
             stub_answer oc A E access o1 b' t u2 (us2, s2) \<and>
           utcb_fits A u2 \<and> take (tag_words t) (utcb_mr u2) = take (tag_words t) (utcb_mr us2)"
proof (rule stub_to_kernel [where ensure = ensure and E = E and kcall = kcall and access = access, OF assms(1,2)])
  fix m wd
  assume msg: "stub_message oc A o1 args u m" and wd: "unat wd \<le> GENERIC_DATA_SIZE A"
    and off: "reg_offset m \<le> 8 * unat wd" and fits: "utcb_fits A (close_mr m u)"
    and bytes: "bytes_of_words (utcb_mr (close_mr m u)) = reg_mem m"
    and stub: "client_stub oc A E kcall ensure access I o1 args b u (us, s) = (
      case kcall (raw (tag_new (PROTOCOL_ID I) wd 0 0)) (close_mr m u) (us, s) of (restag, u, w) \<Rightarrow> do {
        res \<leftarrow> tag_result oc A E u \<lparr>raw = restag\<rparr>;
        case res of
          Inl e \<Rightarrow> Some (Inl e, b', u, w)
        | Inr _ \<Rightarrow> do {
            (r, m, ba) \<leftarrow> ser_read A (mr_bytes A) (op_ret o1) (open_mr u) (access b');
            Some (r, b', u, w)
          }
      })"
  have us: "utcb_fits A us" and size: "GENERIC_DATA_SIZE A \<le> 63"
    using assms(1) by (simp_all add: rpc_setting_def abi_ok_def)
  let ?tag = "tag_new (PROTOCOL_ID I) wd 0 0"
  have words: "tag_words ?tag = unat wd"
    using wd size by simp
  obtain us1 where us1: "utcb_fits A us1" "take (unat wd) (utcb_mr us1) = take (unat wd) (utcb_mr (close_mr m u))"
    and kernel: "\<And>t us2 s2. serve ?tag us1 s = Some (t, us2, s2) \<Longrightarrow> utcb_fits A us2 \<Longrightarrow>
        (\<exists>u2. kcall (raw ?tag) (close_mr m u) (us, s) = (raw t, u2, us2, s2) \<and> utcb_fits A u2 \<and>
          take (tag_words t) (utcb_mr u2) = take (tag_words t) (utcb_mr us2))"
    using ipc_kernel.transfer [OF assms(3) fits us, of ?tag s] words by auto
  have "agree 0 (reg_offset m) (bytes_of_words (utcb_mr us1)) (reg_mem m)"
    using agree_bytes [OF us1(2) off] bytes by simp
  moreover have "\<exists>u2. client_stub oc A E kcall ensure access I o1 args b u (us, s) =
             stub_answer oc A E access o1 b' t u2 (us2, s2) \<and>
           utcb_fits A u2 \<and> take (tag_words t) (utcb_mr u2) = take (tag_words t) (utcb_mr us2)"
    if "serve ?tag us1 s = Some (t, us2, s2)" "utcb_fits A us2" for t us2 s2
    using kernel [OF that] stub by (auto simp: stub_answer_def)
  ultimately show thesis
    using that [OF msg wd us1(1)] by blast
qed

text \<open>A value that the implementation returns comes back through the stub.\<close>

lemma rpc_call_value:
  assumes "rpc_setting oc A objs ipc_label I o1 args u us"
    and "ensure (CAP_DEMAND I) b (us, s) = Some (Inr (), b', (us, s))"
    and "op_fun o1 s args = (Inr ret, s')" and "reply_fits oc A o1 ret"
    and "ipc_kernel A kcall (serve_turn oc A E objs bufs ipc_label)"
  shows "\<exists>u' us'. client_stub oc A E kcall ensure access I o1 args b u (us, s) =
    Some (Inr ret, b', u', us', s')"
proof (rule stub_served [where ensure = ensure and E = E and access = access, OF assms(1,2,5)])
  fix m wd us1
  assume msg: "stub_message oc A o1 args u m" and wd: "unat wd \<le> GENERIC_DATA_SIZE A"
    and us1: "utcb_fits A us1" and agree: "agree 0 (reg_offset m) (bytes_of_words (utcb_mr us1)) (reg_mem m)"
    and answer: "\<And>t us2 s2. serve_turn oc A E objs bufs ipc_label (tag_new (PROTOCOL_ID I) wd 0 0) us1 s =
        Some (t, us2, s2) \<Longrightarrow> utcb_fits A us2 \<Longrightarrow>
      \<exists>u2. client_stub oc A E kcall ensure access I o1 args b u (us, s) =
             stub_answer oc A E access o1 b' t u2 (us2, s2) \<and>
           utcb_fits A u2 \<and> take (tag_words t) (utcb_mr u2) = take (tag_words t) (utcb_mr us2)"
  have abi: "abi_ok A" and size: "GENERIC_DATA_SIZE A \<le> 63"
    using assms(1) by (simp_all add: rpc_setting_def abi_ok_def)
  obtain wd' us2 mem m' where
    turn: "serve_turn oc A E objs bufs ipc_label (tag_new (PROTOCOL_ID I) wd 0 0) us1 s =
      Some (tag_new 0 wd' 0 0, us2, s')"
    and us2: "utcb_fits A us2" and ok: "regs_ok (mr_bytes A) (from_mr mem)"
    and w: "ser_write oc A (mr_bytes A) (op_ret o1) ret (from_mr mem) = Some (Inr (), m')"
    and b2: "bytes_of_words (utcb_mr us2) = reg_mem m'" and off': "reg_offset m' \<le> 8 * unat wd'"
    and wd': "unat wd' \<le> GENERIC_DATA_SIZE A"
    by (rule serve_turn_ok [OF assms(1) msg us1 wd agree assms(3,4), of E bufs])
  have "tag_words (tag_new 0 wd' 0 0) = unat wd'"
    using wd' size by simp
  then obtain u2 where stub: "client_stub oc A E kcall ensure access I o1 args b u (us, s) =
      stub_answer oc A E access o1 b' (tag_new 0 wd' 0 0) u2 (us2, s')"
    and u2: "utcb_fits A u2" "take (unat wd') (utcb_mr u2) = take (unat wd') (utcb_mr us2)"
    using answer [OF turn us2] by auto
  have "agree 0 (reg_offset m') (bytes_of_words (utcb_mr u2)) (reg_mem m')"
    using agree_bytes [OF u2(2) off'] b2 by simp
  then have "sees (mr_bytes A) (from_mr mem) m' (open_mr u2)"
    using open_mr_ok [OF abi u2(1)] by (simp add: sees_def open_mr_def from_mr_def)
  moreover have "data_ok (op_ret o1) ret"
    using assms(4) by (simp add: reply_fits_def)
  ultimately have "ser_read A (mr_bytes A) (op_ret o1) (open_mr u2) (access b') =
      Some (Inr ret, (open_mr u2)\<lparr>reg_offset := reg_offset m'\<rparr>, access b')"
    using ser_read_back [OF ok w] by blast
  moreover have "tag_result oc A E u2 (tag_new 0 wd' 0 0) = Some (Inr (tag_new 0 wd' 0 0))"
    using has_error_new_0 [OF abi] by (simp add: tag_result_def)
  ultimately show ?thesis
    using stub by (simp add: stub_answer_def)
qed


text \<open>
  C29. Errors cross the boundary. When the server's implementation fails with a generic error, the
  stub fails with the same generic error, and with an invalid argument or state it fails with the
  generic \<open>InvalidArg\<close>; the server keeps the state the implementation left. The codes of the errors
  are those of the C headers, non-negative and below the codes that \<open>Error\<close> adds.
\<close>
theorem rpc_error_returns:
  assumes "rpc_setting oc A objs ipc_label I o1 args u us" and "error_codes E"
    and "ensure (CAP_DEMAND I) b (us, s) = Some (Inr (), b', (us, s))"
    and "op_fun o1 s args = (Inl e, s')"
    and "e = Generic g \<and> g \<noteq> GeOk \<or> g = GeInvalidArg \<and> (\<exists>r x. e = InvalidArg r x \<or> e = InvalidState r)"
    and "ipc_kernel A kcall (serve_turn oc A E objs bufs ipc_label)"
  shows "\<exists>u' us'. client_stub oc A E kcall ensure access I o1 args b u (us, s) =
    Some (Inl (Generic g), b', u', us', s')"
proof (rule stub_served [where ensure = ensure and E = E and access = access, OF assms(1,3,6)])
  fix m wd us1
  assume msg: "stub_message oc A o1 args u m" and wd: "unat wd \<le> GENERIC_DATA_SIZE A"
    and us1: "utcb_fits A us1" and agree: "agree 0 (reg_offset m) (bytes_of_words (utcb_mr us1)) (reg_mem m)"
    and answer: "\<And>t us2 s2. serve_turn oc A E objs bufs ipc_label (tag_new (PROTOCOL_ID I) wd 0 0) us1 s =
        Some (t, us2, s2) \<Longrightarrow> utcb_fits A us2 \<Longrightarrow>
      \<exists>u2. client_stub oc A E kcall ensure access I o1 args b u (us, s) =
             stub_answer oc A E access o1 b' t u2 (us2, s2) \<and>
           utcb_fits A u2 \<and> take (tag_words t) (utcb_mr u2) = take (tag_words t) (utcb_mr us2)"
  have abi: "abi_ok A"
    using assms(1) by (simp add: rpc_setting_def)
  let ?l = "- code_of (generic_codes E) g"
  note codes = error_codes.into_ipc_err_generic [OF assms(2)]
  have "into_ipc_err oc E e = into_ipc_err oc E (Generic g)"
    using assms(5) by (auto simp: into_ipc_err_def)
  then have l: "into_ipc_err oc E e = Some ?l"
    by (simp add: codes)
  obtain us2 where turn: "serve_turn oc A E objs bufs ipc_label (tag_new (PROTOCOL_ID I) wd 0 0) us1 s =
      Some (tag_new ?l 0 0 0, us2, s')" and us2: "utcb_fits A us2"
    using serve_turn_err [OF assms(1) msg us1 wd agree assms(4) l, of bufs] by blast
  obtain u2 where stub: "client_stub oc A E kcall ensure access I o1 args b u (us, s) =
      stub_answer oc A E access o1 b' (tag_new ?l 0 0 0) u2 (us2, s')"
    using answer [OF turn us2] by blast
  have "sint ?l < 0"
    using error_codes.sint_neg_generic [OF assms(2)] error_codes.generic_code_pos [OF assms(2)] assms(5)
    by auto
  then have "tag_result oc A E u2 (tag_new ?l 0 0 0) = Some (Inl (Generic g))"
    using has_error_new_0 [OF abi] error_codes.generic_neg_fits [OF assms(2), of g]
      error_codes.from_ipc_generic [OF assms(2)]
    by (simp add: tag_result_def)
  then show ?thesis
    using stub by (simp add: stub_answer_def)
qed

text \<open>
  Two errors arrive as success. When the implementation of an operation without a result fails
  with an invalid capability or an invalid encoding, the label of the reply is positive (the two
  codes are negative already and are negated once more), and the stub of the client returns
  successfully.
\<close>
theorem rpc_invalid_cap_lost:
  assumes "rpc_setting oc A objs ipc_label I o1 args u us" and "op_ret o1 = SUnit"
    and "ensure (CAP_DEMAND I) b (us, s) = Some (Inr (), b', (us, s))"
    and "op_fun o1 s args = (Inl e, s')" and "e = InvalidCap \<or> e = InvalidEncoding x"
    and "ipc_kernel A kcall (serve_turn oc A E objs bufs ipc_label)"
  shows "\<exists>u' us'. client_stub oc A E kcall ensure access I o1 args b u (us, s) =
    Some (Inr VUnit, b', u', us', s')"
proof (rule stub_served [where ensure = ensure and E = E and access = access, OF assms(1,3,6)])
  fix m wd us1
  assume msg: "stub_message oc A o1 args u m" and wd: "unat wd \<le> GENERIC_DATA_SIZE A"
    and us1: "utcb_fits A us1" and agree: "agree 0 (reg_offset m) (bytes_of_words (utcb_mr us1)) (reg_mem m)"
    and answer: "\<And>t us2 s2. serve_turn oc A E objs bufs ipc_label (tag_new (PROTOCOL_ID I) wd 0 0) us1 s =
        Some (t, us2, s2) \<Longrightarrow> utcb_fits A us2 \<Longrightarrow>
      \<exists>u2. client_stub oc A E kcall ensure access I o1 args b u (us, s) =
             stub_answer oc A E access o1 b' t u2 (us2, s2) \<and>
           utcb_fits A u2 \<and> take (tag_words t) (utcb_mr u2) = take (tag_words t) (utcb_mr us2)"
  have abi: "abi_ok A"
    using assms(1) by (simp add: rpc_setting_def)
  obtain l where l: "into_ipc_err oc E e = Some l" "l = 65540 \<or> l = 65541"
    using assms(5) by (auto simp: into_ipc_err_def op_neg_def INVALID_CAP_CODE_def INVALID_ENCODING_def)
  then have fits: "label_fits l" and pos: "0 \<le> sint l"
    by (auto simp: label_fits_def)
  obtain us2 where turn: "serve_turn oc A E objs bufs ipc_label (tag_new (PROTOCOL_ID I) wd 0 0) us1 s =
      Some (tag_new l 0 0 0, us2, s')" and us2: "utcb_fits A us2"
    using serve_turn_err [OF assms(1) msg us1 wd agree assms(4) l(1), of bufs] by blast
  obtain u2 where stub: "client_stub oc A E kcall ensure access I o1 args b u (us, s) =
      stub_answer oc A E access o1 b' (tag_new l 0 0 0) u2 (us2, s')"
    using answer [OF turn us2] by blast
  have "tag_result oc A E u2 (tag_new l 0 0 0) = Some (Inr (tag_new l 0 0 0))"
    using has_error_new_0 [OF abi] fits pos by (simp add: tag_result_def)
  then show ?thesis
    using stub assms(2) by (simp add: stub_answer_def)
qed

section \<open>A small interface\<close>

text \<open>A counter service: adding a number, labelled with a text, and a failing operation.\<close>

definition demo_add :: "nat ipc_op" where
  "demo_add = \<lparr>op_code = 0, op_args = [STy U32, SString], op_ret = STy U32,
     op_fun = (\<lambda>s vs. case vs of [VVal n, VStr t] \<Rightarrow>
       if t = [] then (Inl (Generic NoEntity), s) else (Inr (VVal (n + length t)), s + n)
       | _ \<Rightarrow> (Inl (Generic GeInvalidArg), s))\<rparr>"

definition demo_drop :: "nat ipc_op" where
  "demo_drop = \<lparr>op_code = 1, op_args = [], op_ret = SUnit, op_fun = (\<lambda>s vs. (Inl InvalidCap, s))\<rparr>"

definition demo_iface :: "nat iface" where
  "demo_iface = \<lparr>PROTOCOL_ID = 0x44, CAP_DEMAND = 0, OpType = I32, iface_ops = [demo_add, demo_drop]\<rparr>"

definition demo_objs :: "u64 \<Rightarrow> nat iface option" where
  "demo_objs l = (if l = 0x1000 then Some demo_iface else None)"

definition demo_serve :: "msg_tag \<Rightarrow> utcb \<Rightarrow> nat \<Rightarrow> (msg_tag \<times> utcb \<times> nat) option" where
  "demo_serve = serve_turn True demo_abi demo_errors demo_objs \<lparr>ba_ptr = None\<rparr> 0x1000"

definition demo_stub :: "nat ipc_op \<Rightarrow> sval list \<Rightarrow> nat
    \<Rightarrow> ((l4_error, sval) result \<times> unit \<times> utcb \<times> utcb \<times> nat) option" where
  "demo_stub o1 args s = client_stub True demo_abi demo_errors (copy_call demo_serve)
     (\<lambda>d b w. bl_alloc_capslots d w) (\<lambda>b. \<lparr>ba_ptr = None\<rparr>) demo_iface o1 args ()
     (demo_utcb [1, 2, 3]) (demo_utcb [9, 9, 9], s)"

lemmas demo_rpc_defs = demo_iface_def demo_add_def demo_drop_def demo_objs_def

lemma utf8_ok_demo: "utf8_ok [104, 105]" "utf8_ok []"
  by (simp_all add: utf8_ok.simps [of "[104, 105]"] utf8_ok.simps [of "[105]"] utf8_ok.simps [of "[]"]
      utf8_char_def)

lemma demo_fits: "utcb_fits demo_abi (demo_utcb [a, b, c])" "mr_bytes demo_abi = 504"
  by (simp_all add: utcb_fits_def demo_abi_def demo_utcb_def mr_bytes_def)

lemma demo_message:
  "\<exists>m. stub_message True demo_abi demo_add [VVal n, VStr t] (demo_utcb [a, b, c]) m" if "length t \<le> 2"
  using that
  by (auto simp: stub_message_def demo_fits demo_add_def open_mr_def write_str_def write_slice_def slot_eval)

lemma demo_drop_message: "\<exists>m. stub_message True demo_abi demo_drop [] (demo_utcb [a, b, c]) m"
  by (auto simp: stub_message_def demo_fits demo_drop_def open_mr_def slot_eval)

lemma demo_setting:
  assumes "n < 256" and "t = [] \<or> t = [104, 105]"
  shows "rpc_setting True demo_abi demo_objs 0x1000 demo_iface demo_add [VVal n, VStr t]
    (demo_utcb [1, 2, 3]) (demo_utcb [9, 9, 9])"
  using assms demo_message [of t n 1 2 3] demo_abi_ok
  by (auto simp: rpc_setting_def demo_fits ops_ok_def args_ok_def label_fits_def utf8_ok_demo demo_rpc_defs)

lemma demo_reply: "reply_fits True demo_abi demo_add (VVal 7)"
  by (simp add: reply_fits_def demo_fits demo_add_def slot_eval)

lemma demo_kernel: "ipc_kernel demo_abi (copy_call demo_serve)
    (serve_turn True demo_abi demo_errors demo_objs \<lparr>ba_ptr = None\<rparr> 0x1000)"
  using copying.ipc_kernel_axioms [of demo_abi demo_serve] by (simp add: demo_serve_def)


theorem rpc_error_returns_witness:
  "\<exists>u' us'. demo_stub demo_add [VVal 5, VStr []] 30 = Some (Inl (Generic NoEntity), (), u', us', 30)"
  unfolding demo_stub_def
  by (rule rpc_error_returns [OF demo_setting demo_errs.error_codes_axioms _ _ _ demo_kernel])
    (simp_all add: bl_alloc_capslots_def demo_rpc_defs)

theorem rpc_invalid_cap_lost_witness:
  "\<exists>u' us'. demo_stub demo_drop [] 30 = Some (Inr VUnit, (), u', us', 30)"
proof -
  have set: "rpc_setting True demo_abi demo_objs 0x1000 demo_iface demo_drop []
    (demo_utcb [1, 2, 3]) (demo_utcb [9, 9, 9])"
    using demo_drop_message [of 1 2 3] demo_abi_ok
    by (auto simp: rpc_setting_def demo_fits ops_ok_def args_ok_def label_fits_def demo_rpc_defs)
  show ?thesis
    unfolding demo_stub_def
    by (rule rpc_invalid_cap_lost [OF set _ _ _ _ demo_kernel, where e = InvalidCap and x = None])
      (simp_all add: bl_alloc_capslots_def demo_rpc_defs)
qed

section \<open>Operation codes of another width\<close>

text \<open>Stubs write the operation code as four bytes, whatever the operation type of the interface; a
  dispatcher that reads two bytes takes the argument from the upper half of the code. The byte
  argument of the first operation of an interface with 16-bit codes is read as 0 whatever was
  passed.\<close>

lemma optype_u16_argument_lost:
  assumes "abi_ok A" and "utcb_fits A u" and "utcb_fits A us" and "op_code o1 = 0"
    and "op_args o1 = [STy U8]" and "n < 256" and "stub_message oc A o1 [VVal n] u m"
    and "agree 0 (reg_offset m) (bytes_of_words (utcb_mr us)) (reg_mem m)"
  shows "\<exists>q q'. regs_read (mr_bytes A) U16 (open_mr us) = (Inr (op_code o1), q) \<and>
    ser_reads A (mr_bytes A) [STy U8] q ba = Some (Inr [VVal 0], q', ba)"
proof -
  have B: "16 \<le> mr_bytes A"
    using assms(1) by (simp add: abi_ok_def mr_bytes_def)
  let ?mem = "bytes_of_words (utcb_mr us)" and ?mu = "bytes_of_words (utcb_mr u)"
  have len: "length ?mem = mr_bytes A" "length ?mu = mr_bytes A"
    using assms(2,3) by (simp_all add: utcb_fits_def mr_bytes_def)
  have slots: "next_slot (mr_bytes A) I32 0 = Inr (0, 4)" "next_slot (mr_bytes A) U8 4 = Inr (4, 5)"
    "next_slot (mr_bytes A) U16 0 = Inr (0, 2)" "next_slot (mr_bytes A) U8 2 = Inr (2, 3)"
    using B by (simp_all add: slot_eval)
  have "le_bytes (Suc (Suc (Suc (Suc 0)))) 0 = [0, 0, 0, 0]"
    by simp
  then have "le_bytes 4 0 = [0, 0, 0, 0]"
    by (simp only: eval_nat_numeral BitM.simps One_nat_def)
  then have m: "reg_mem m = overwrite (overwrite ?mu 0 [0, 0, 0, 0]) 4 [word_of_nat n]" "reg_offset m = 5"
    using assms(4,5,7) slots
    by (auto simp: stub_message_def regs_write_def open_mr_def from_mr_def)
  have "slice ?mem 0 3 = slice (reg_mem m) 0 3"
    using assms(8) len B m by (intro agree_slice [of 0 5]) simp_all
  also have "\<dots> = [0, 0, 0]"
    using len B by (simp add: m(1) slice_def overwrite_def numeral_3_eq_3)
  finally have mem: "take 3 ?mem = [0, 0, 0]"
    by (simp add: slice_def)
  have "take 2 ?mem = take 2 (take 3 ?mem)" "take 1 (drop 2 ?mem) = drop 2 (take 3 ?mem)"
    by (simp_all add: drop_take)
  then have "take 2 ?mem = [0, 0]" "take 1 (drop 2 ?mem) = [0]"
    by (simp_all add: mem)
  then show ?thesis
    using slots assms(4) by (simp add: regs_read_def open_mr_def from_mr_def slice_def)
qed

end
