(* ===== verification/Server_Loop.thy ===== *)
theory Server_Loop
  imports Rpc
begin

text \<open>
  Setting up and running a server, \<open>crates/l4/ipc/server.rs\<close>: the loop builder, the registration
  of server objects, and the loop itself with hooks and a provider of receive buffers of any kind.
  A provider (the trait \<open>CapProvider\<close>) and hooks (the trait \<open>LoopHook\<close>) are records of their
  operations. Theory \<open>Rpc\<close> has the loop with the default hooks and a \<open>BufferManager\<close>; the two are
  shown to agree. The kernel call that binds a gate is a parameter. \<open>None\<close> is a panic.
\<close>

section \<open>Providers of receive buffers\<close>

record ('b, 'w) cap_ops =
  p_alloc_capslots :: "u8 \<Rightarrow> 'b \<Rightarrow> 'w \<Rightarrow> ((l4_error, unit) result \<times> 'b \<times> 'w) option"
  p_rcv_cap :: "'b \<Rightarrow> nat \<Rightarrow> (l4_error, u64) result option"
  p_caps_used :: "'b \<Rightarrow> u8"
  p_max_slots :: "'b \<Rightarrow> u32"
  p_set_rcv_cap_flags :: "u64 \<Rightarrow> 'b \<Rightarrow> (l4_error, unit) result \<times> 'b"
  p_setup_wait :: "'b \<Rightarrow> utcb \<Rightarrow> utcb option"
  p_access_buffers :: "'b \<Rightarrow> buf_access"

definition bm_rcv_cap_unchecked :: "abi \<Rightarrow> buf_mgr \<Rightarrow> nat \<Rightarrow> u64 option" where
  "bm_rcv_cap_unchecked A bm i = (if i < length (bm_br bm) then Some (bm_br bm ! i AND CAP_MASK A) else None)"

definition bm_max_slots :: "nat \<Rightarrow> buf_mgr \<Rightarrow> u32" where
  "bm_max_slots N bm = word_of_nat N"

text \<open>\<open>invalid\<close> is the constant \<open>L4_INVALID_CAP\<close>.\<close>

definition bl_rcv_cap_unchecked :: "u64 \<Rightarrow> unit \<Rightarrow> nat \<Rightarrow> u64" where
  "bl_rcv_cap_unchecked invalid b i = invalid"

definition bl_set_rcv_cap_flags :: "u64 \<Rightarrow> unit \<Rightarrow> (l4_error, unit) result \<times> unit" where
  "bl_set_rcv_cap_flags flags b = (Inr (), b)"

definition bl_max_slots :: "unit \<Rightarrow> u32" where
  "bl_max_slots b = 0"

definition bl_setup_wait :: "unit \<Rightarrow> utcb \<Rightarrow> utcb option" where
  "bl_setup_wait b u = Some u"

definition bl_access_buffers :: "unit \<Rightarrow> buf_access" where
  "bl_access_buffers b = \<lparr>ba_ptr = None\<rparr>"

definition bm_ops :: "bool \<Rightarrow> abi \<Rightarrow> 'w cap_alloc \<Rightarrow> nat \<Rightarrow> (buf_mgr, 'w) cap_ops" where
  "bm_ops oc A alloc N = \<lparr>p_alloc_capslots = bm_alloc_capslots oc A alloc N, p_rcv_cap = bm_rcv_cap A,
     p_caps_used = bm_caps, p_max_slots = bm_max_slots N, p_set_rcv_cap_flags = bm_set_rcv_cap_flags,
     p_setup_wait = bm_setup_wait, p_access_buffers = bm_access_buffers\<rparr>"

definition bl_ops :: "(unit, 'w) cap_ops" where
  "bl_ops = \<lparr>p_alloc_capslots = (\<lambda>d b. bl_alloc_capslots d), p_rcv_cap = bl_rcv_cap,
     p_caps_used = bl_caps_used, p_max_slots = bl_max_slots, p_set_rcv_cap_flags = bl_set_rcv_cap_flags,
     p_setup_wait = bl_setup_wait, p_access_buffers = bl_access_buffers\<rparr>"

lemma bm_ops_sel [simp]:
  "p_alloc_capslots (bm_ops oc A alloc N) = bm_alloc_capslots oc A alloc N"
  "p_caps_used (bm_ops oc A alloc N) = bm_caps"
  "p_setup_wait (bm_ops oc A alloc N) = bm_setup_wait"
  "p_access_buffers (bm_ops oc A alloc N) = bm_access_buffers"
  by (simp_all add: bm_ops_def)

text \<open>The unchecked access agrees with the checked one on the slots in use.\<close>

lemma bm_rcv_cap_unchecked_used:
  "bm_ok N bm \<Longrightarrow> i < unat (bm_caps bm) \<Longrightarrow> bm_rcv_cap A bm i = map_option Inr (bm_rcv_cap_unchecked A bm i)"
  by (simp add: bm_rcv_cap_def bm_rcv_cap_unchecked_def bm_ok_def)

section \<open>The loop and its builder\<close>

text \<open>The UTCB is the one the pointer of the loop refers to, which is that of the thread the loop
  runs in. While a hook runs, the hooks are taken out of the loop.\<close>

record ('h, 'b) ipc_loop =
  lp_thread :: u64
  lp_utcb :: utcb
  lp_hooks :: "'h option"
  lp_bufs :: 'b

record ('h, 'b) loop_hook =
  ipc_error_hook :: "'h \<Rightarrow> ('h, 'b) ipc_loop \<Rightarrow> msg_tag \<Rightarrow> (loop_action \<times> 'h \<times> ('h, 'b) ipc_loop) option"
  application_error_hook :: "'h \<Rightarrow> ('h, 'b) ipc_loop \<Rightarrow> l4_error \<Rightarrow> (loop_action \<times> 'h \<times> ('h, 'b) ipc_loop) option"

text \<open>The provided methods of \<open>LoopHook\<close>, which \<open>DefaultHooks\<close> uses as they are.\<close>

definition default_hooks :: "bool \<Rightarrow> abi \<Rightarrow> err_env \<Rightarrow> ('h, 'b) loop_hook" where
  "default_hooks oc A E =
     \<lparr>ipc_error_hook = (\<lambda>h L tag. do { act \<leftarrow> default_ipc_error oc A E (lp_utcb L) tag; Some (act, h, L) }),
      application_error_hook = (\<lambda>h L e. do { act \<leftarrow> default_application_error oc E e; Some (act, h, L) })\<rparr>"

record ('h, 'b) loop_builder =
  lb_thread :: u64
  lb_utcb :: utcb
  lb_bufs :: 'b
  lb_hooks :: 'h

definition new_at :: "abi \<Rightarrow> u64 \<Rightarrow> utcb \<Rightarrow> (unit, buf_mgr) loop_builder" where
  "new_at A thcap u = \<lparr>lb_thread = thcap, lb_utcb = u, lb_bufs = bm_new A (GENERIC_BUFFERS_SIZE A), lb_hooks = ()\<rparr>"

definition custom_hooks :: "'i \<Rightarrow> ('h, 'b) loop_builder \<Rightarrow> ('i, 'b) loop_builder" where
  "custom_hooks h B = \<lparr>lb_thread = lb_thread B, lb_utcb = lb_utcb B, lb_bufs = lb_bufs B, lb_hooks = h\<rparr>"

definition no_buffers :: "('h, 'b) loop_builder \<Rightarrow> ('h, unit) loop_builder" where
  "no_buffers B = \<lparr>lb_thread = lb_thread B, lb_utcb = lb_utcb B, lb_bufs = (), lb_hooks = lb_hooks B\<rparr>"

definition new_at_bufferless :: "u64 \<Rightarrow> utcb \<Rightarrow> (unit, unit) loop_builder" where
  "new_at_bufferless thread u = \<lparr>lb_thread = thread, lb_utcb = u, lb_bufs = (), lb_hooks = ()\<rparr>"

definition loop_new :: "u64 \<Rightarrow> utcb \<Rightarrow> 'h \<Rightarrow> 'b \<Rightarrow> ('h, 'b) ipc_loop" where
  "loop_new thread u h b = \<lparr>lp_thread = thread, lp_utcb = u, lp_hooks = Some h, lp_bufs = b\<rparr>"

definition build :: "('h, 'b) loop_builder \<Rightarrow> ('h, 'b) ipc_loop" where
  "build B = loop_new (lb_thread B) (lb_utcb B) (lb_hooks B) (lb_bufs B)"

lemma bufferless_builder: "no_buffers (new_at A th u) = new_at_bufferless th u"
  by (simp add: no_buffers_def new_at_def new_at_bufferless_def)

section \<open>Registration\<close>

text \<open>A server object: its address, which becomes the label of its gate, its capability and the
  interface it implements. \<open>ep_bind\<close> is \<open>l4_rcv_ep_bind_thread\<close>.\<close>

record 's srv_obj =
  so_addr :: u64
  so_raw :: u64
  so_iface :: "'s iface"

type_synonym 'w gate_bind = "u64 \<Rightarrow> u64 \<Rightarrow> u64 \<Rightarrow> utcb \<Rightarrow> 'w \<Rightarrow> i64 \<times> utcb \<times> 'w"

definition register :: "bool \<Rightarrow> abi \<Rightarrow> err_env \<Rightarrow> ('b, 'w) cap_ops \<Rightarrow> 'w gate_bind \<Rightarrow> 's srv_obj
    \<Rightarrow> ('h, 'b) ipc_loop \<Rightarrow> 'w \<Rightarrow> ((l4_error, unit) result \<times> ('h, 'b) ipc_loop \<times> 'w) option" where
  "register oc A E P ep_bind inst L w = do {
     (r, b, w) \<leftarrow> p_alloc_capslots P (CAP_DEMAND (so_iface inst)) (lp_bufs L) w;
     let L = L\<lparr>lp_bufs := b\<rparr>;
     case r of
       Inl e \<Rightarrow> Some (Inl e, L, w)
     | Inr _ \<Rightarrow>
         (case ep_bind (so_raw inst) (lp_thread L) (so_addr inst) (lp_utcb L) w of
            (t, u, w) \<Rightarrow> do {
              r \<leftarrow> tag_result oc A E u \<lparr>raw = t\<rparr>;
              let L = L\<lparr>lp_utcb := u\<rparr>;
              case r of
                Inl e \<Rightarrow> Some (Inl e, L, w)
              | Inr _ \<Rightarrow> Some (Inr (), L, w)
            })
   }"

text \<open>The registrations of a server, one after the other; the first error ends them.\<close>

fun register_all :: "bool \<Rightarrow> abi \<Rightarrow> err_env \<Rightarrow> ('b, 'w) cap_ops \<Rightarrow> 'w gate_bind \<Rightarrow> 's srv_obj list
    \<Rightarrow> ('h, 'b) ipc_loop \<Rightarrow> 'w \<Rightarrow> ((l4_error, unit) result \<times> ('h, 'b) ipc_loop \<times> 'w) option" where
  "register_all oc A E P ep_bind [] L w = Some (Inr (), L, w)"
| "register_all oc A E P ep_bind (inst # insts) L w =
     (case register oc A E P ep_bind inst L w of
        None \<Rightarrow> None
      | Some (Inl e, L, w) \<Rightarrow> Some (Inl e, L, w)
      | Some (Inr _, L, w) \<Rightarrow> register_all oc A E P ep_bind insts L w)"

section \<open>Dispatch and the loop\<close>

text \<open>The address of an object holds its callback, \<open>server_impl_callback\<close>, which calls the
  dispatcher of the interface; any other label points to no callback.\<close>

type_synonym 's callback = "msg_tag \<Rightarrow> utcb_mrs \<Rightarrow> buf_access \<Rightarrow> 's
    \<Rightarrow> ((l4_error, msg_tag) result \<times> utcb_mrs \<times> 's) option"

definition server_impl_callback :: "bool \<Rightarrow> abi \<Rightarrow> 's iface \<Rightarrow> 's callback" where
  "server_impl_callback oc A I = (\<lambda>tag m bufs s. op_dispatch oc A I tag m bufs s)"

definition obj_at :: "'s srv_obj list \<Rightarrow> u64 \<Rightarrow> 's iface option" where
  "obj_at insts l = map_option so_iface (find (\<lambda>inst. so_addr inst = l) insts)"

definition callback_at :: "bool \<Rightarrow> abi \<Rightarrow> 's srv_obj list \<Rightarrow> u64 \<Rightarrow> 's callback option" where
  "callback_at oc A insts l = map_option (server_impl_callback oc A) (obj_at insts l)"

text \<open>The macro \<open>borrow!\<close>.\<close>

definition borrow_hooks :: "('h \<Rightarrow> ('h, 'b) ipc_loop \<Rightarrow> 'a \<Rightarrow> (loop_action \<times> 'h \<times> ('h, 'b) ipc_loop) option)
    \<Rightarrow> 'a \<Rightarrow> ('h, 'b) ipc_loop \<Rightarrow> (loop_action \<times> ('h, 'b) ipc_loop) option" where
  "borrow_hooks func arg L = do {
     hooks \<leftarrow> lp_hooks L;
     (res, hooks, L) \<leftarrow> func hooks (L\<lparr>lp_hooks := None\<rparr>) arg;
     Some (res, L\<lparr>lp_hooks := Some hooks\<rparr>)
   }"

definition srv_dispatch :: "('h, 'b) loop_hook \<Rightarrow> ('b, 'w) cap_ops \<Rightarrow> (u64 \<Rightarrow> 's callback option)
    \<Rightarrow> msg_tag \<Rightarrow> u64 \<Rightarrow> ('h, 'b) ipc_loop \<Rightarrow> 's \<Rightarrow> (loop_action \<times> ('h, 'b) ipc_loop \<times> 's) option" where
  "srv_dispatch H P cbs tag ipc_label L s = do {
     callable \<leftarrow> cbs ipc_label;
     (result, m, s) \<leftarrow> callable tag (open_mr (lp_utcb L)) (p_access_buffers P (lp_bufs L)) s;
     let L = L\<lparr>lp_utcb := close_mr m (lp_utcb L)\<rparr>;
     case result of
       Inl e \<Rightarrow> do { (act, L) \<leftarrow> borrow_hooks (application_error_hook H) e L; Some (act, L, s) }
     | Inr t \<Rightarrow> Some (ReplyAndWait t, L, s)
   }"

definition srv_turn :: "abi \<Rightarrow> ('h, 'b) loop_hook \<Rightarrow> ('b, 'w) cap_ops \<Rightarrow> (u64 \<Rightarrow> 's callback option)
    \<Rightarrow> msg_tag \<Rightarrow> u64 \<Rightarrow> ('h, 'b) ipc_loop \<Rightarrow> 's \<Rightarrow> (loop_action \<times> ('h, 'b) ipc_loop \<times> 's) option" where
  "srv_turn A H P cbs tag ipc_label L s =
     (if has_error A tag
      then do { (act, L) \<leftarrow> borrow_hooks (ipc_error_hook H) tag L; Some (act, L, s) }
      else srv_dispatch H P cbs tag ipc_label L s)"

text \<open>The loop over what the kernel delivers, as in theory \<open>Rpc\<close>: an event is the label, the tag and
  the UTCB after a wait.\<close>

function srv_loop :: "abi \<Rightarrow> ('h, 'b) loop_hook \<Rightarrow> ('b, 'w) cap_ops \<Rightarrow> (u64 \<Rightarrow> 's callback option)
    \<Rightarrow> event \<Rightarrow> event list \<Rightarrow> ('h, 'b) ipc_loop \<Rightarrow> 's \<Rightarrow> ((msg_tag \<times> utcb) list \<times> ('h, 'b) ipc_loop \<times> 's) option" where
  "srv_loop A H P cbs (ipc_label, tag, u) evs L s = do {
     (act, L, s) \<leftarrow> srv_turn A H P cbs tag ipc_label (L\<lparr>lp_utcb := u\<rparr>) s;
     case act of
       LoopBreak \<Rightarrow> Some ([], L, s)
     | ReplyAndWait t \<Rightarrow> do {
         u \<leftarrow> p_setup_wait P (lp_bufs L) (lp_utcb L);
         case next_event A evs of
           None \<Rightarrow> Some ([(t, u)], L\<lparr>lp_utcb := u\<rparr>, s)
         | Some (ev, evs) \<Rightarrow> do {
             (replies, L, s) \<leftarrow> srv_loop A H P cbs ev evs (L\<lparr>lp_utcb := u\<rparr>) s;
             Some ((t, u) # replies, L, s)
           }
       }
   }"
  by pat_completeness auto
termination
  by (relation "measure (\<lambda>(A, H, P, cbs, ev, evs, L, s). length evs)") (auto dest: next_event_shorter)

declare srv_loop.simps [simp del] loop_start.simps [simp del]

definition srv_start :: "abi \<Rightarrow> ('h, 'b) loop_hook \<Rightarrow> ('b, 'w) cap_ops \<Rightarrow> (u64 \<Rightarrow> 's callback option)
    \<Rightarrow> event list \<Rightarrow> ('h, 'b) ipc_loop \<Rightarrow> 's \<Rightarrow> ((msg_tag \<times> utcb) list \<times> ('h, 'b) ipc_loop \<times> 's) option" where
  "srv_start A H P cbs evs L s = do {
     u \<leftarrow> p_setup_wait P (lp_bufs L) (lp_utcb L);
     case evs of
       [] \<Rightarrow> Some ([], L\<lparr>lp_utcb := u\<rparr>, s)
     | ev # evs \<Rightarrow> srv_loop A H P cbs ev evs (L\<lparr>lp_utcb := u\<rparr>) s
   }"

text \<open>Starting a loop without objects does not panic; it waits.\<close>

lemma start_unregistered:
  "srv_start A H bl_ops (callback_at oc A []) [] L s = Some ([], L, s)"
  by (simp add: srv_start_def bl_ops_def bl_setup_wait_def)

section \<open>The default loop\<close>

lemma srv_turn_default:
  assumes "lp_hooks L = Some h"
  shows "srv_turn A (default_hooks oc A E) (bm_ops oc A alloc N) (\<lambda>l. map_option (server_impl_callback oc A) (objs l))
       tag ipc_label L s =
     map_option (\<lambda>(act, u, s). (act, L\<lparr>lp_utcb := u\<rparr>, s))
       (loop_turn oc A E objs (bm_access_buffers (lp_bufs L)) tag ipc_label (lp_utcb L) s)"
  using assms
  by (cases L) (auto simp: srv_turn_def loop_turn_def srv_dispatch_def loop_dispatch_def borrow_hooks_def default_hooks_def
      server_impl_callback_def split: bind_splits sum.splits)

lemma srv_loop_default:
  assumes "lp_hooks L = Some h"
  shows "map_option (\<lambda>(replies, L', s). (replies, L'\<lparr>lp_utcb := v\<rparr>, s))
      (srv_loop A (default_hooks oc A E) (bm_ops oc A alloc N)
        (\<lambda>l. map_option (server_impl_callback oc A) (objs l)) ev evs L s) =
    map_option (\<lambda>(replies, s). (replies, L\<lparr>lp_utcb := v\<rparr>, s)) (loop_start oc A E objs (lp_bufs L) ev evs s)"
  using assms
proof (induction evs arbitrary: ev L s rule: length_induct)
  case (1 evs)
  obtain ipc_label tag u where ev: "ev = (ipc_label, tag, u)"
    by (metis prod_cases3)
  let ?turn = "loop_turn oc A E objs (bm_access_buffers (lp_bufs L)) tag ipc_label u s"
  have turn: "srv_turn A (default_hooks oc A E) (bm_ops oc A alloc N) (\<lambda>l. map_option (server_impl_callback oc A) (objs l))
      tag ipc_label (L\<lparr>lp_utcb := u\<rparr>) s = map_option (\<lambda>(act, u, s). (act, L\<lparr>lp_utcb := u\<rparr>, s)) ?turn"
    using srv_turn_default [of "L\<lparr>lp_utcb := u\<rparr>" h] "1.prems" by simp
  note step = ev turn loop_start.simps [of oc A E objs "lp_bufs L" ipc_label tag u evs s]
    srv_loop.simps [of A "default_hooks oc A E" "bm_ops oc A alloc N"
      "\<lambda>l. map_option (server_impl_callback oc A) (objs l)" ipc_label tag u evs L s]
  show ?case
  proof (cases ?turn)
    case None
    then show ?thesis by (simp add: step)
  next
    case (Some res)
    obtain act u1 s1 where res: "res = (act, u1, s1)"
      by (metis prod_cases3)
    show ?thesis
    proof (cases "act = LoopBreak \<or> bm_setup_wait (lp_bufs L) u1 = None \<or> next_event A evs = None")
      case True
      then show ?thesis
        using Some res by (auto simp: step split: loop_action.splits bind_splits option.splits)
    next
      case False
      then obtain t u2 ev' evs' where act: "act = ReplyAndWait t" and u2: "bm_setup_wait (lp_bufs L) u1 = Some u2"
        and ev': "next_event A evs = Some (ev', evs')"
        by (cases act) auto
      have IH: "map_option (\<lambda>(replies, L', s). (replies, L'\<lparr>lp_utcb := v\<rparr>, s))
          (srv_loop A (default_hooks oc A E) (bm_ops oc A alloc N)
            (\<lambda>l. map_option (server_impl_callback oc A) (objs l)) ev' evs' (L\<lparr>lp_utcb := u2\<rparr>) s1) =
        map_option (\<lambda>(replies, s). (replies, L\<lparr>lp_utcb := v\<rparr>, s)) (loop_start oc A E objs (lp_bufs L) ev' evs' s1)"
        using "1.IH" [rule_format, OF next_event_shorter [OF ev'], of "L\<lparr>lp_utcb := u2\<rparr>"] "1.prems" by simp
      show ?thesis
        using Some res act u2 ev' IH
        by (cases "loop_start oc A E objs (lp_bufs L) ev' evs' s1") (auto simp: step split: bind_splits)
    qed
  qed
qed

lemma bm_setup_wait_total:
  assumes "bm_ok N bm" and "N \<le> length (utcb_br u)"
  shows "\<exists>u'. bm_setup_wait bm u = Some u'"
  using assms by (simp add: bm_setup_wait_def bm_ok_def Let_def)

text \<open>
  C26. The loop of a server with its hooks and its provider of receive buffers, run with the default
  hooks and a buffer manager, sends the same replies in the same order and leaves the server objects
  in the same state as the plain loop that answers errors itself; it panics on the same messages; and
  it leaves the thread, the hooks and the receive buffers of the loop as they were. In particular the
  hooks, which are taken out of the loop for every error, are always back when they are needed.
\<close>
theorem default_loop_refines:
  assumes "lp_hooks L = Some h" and "bm_ok N (lp_bufs L)" and "N \<le> length (utcb_br (lp_utcb L))"
  shows "map_option (\<lambda>(replies, L', s). (replies, L'\<lparr>lp_utcb := v\<rparr>, s))
      (srv_start A (default_hooks oc A E) (bm_ops oc A alloc N) (callback_at oc A insts) (ev # evs) L s) =
    map_option (\<lambda>(replies, s). (replies, L\<lparr>lp_utcb := v\<rparr>, s))
      (loop_start oc A E (obj_at insts) (lp_bufs L) ev evs s)"
proof -
  obtain u where u: "bm_setup_wait (lp_bufs L) (lp_utcb L) = Some u"
    using bm_setup_wait_total [OF assms(2,3)] by blast
  have cbs: "callback_at oc A insts = (\<lambda>l. map_option (server_impl_callback oc A) (obj_at insts l))"
    by (simp add: callback_at_def fun_eq_iff)
  show ?thesis
    using srv_loop_default [of "L\<lparr>lp_utcb := u\<rparr>" h v A oc E alloc N "obj_at insts" ev evs s] assms(1) u
    by (simp add: srv_start_def cbs)
qed

section \<open>Interfaces that can be served\<close>

text \<open>The types of results, which the Rust compiler checks, and the one demand it does not: fewer
  flex pages among the arguments of an operation than there are receive slots.\<close>

fun has_sty :: "sty \<Rightarrow> sval \<Rightarrow> bool" where
  "has_sty (STy T) (VVal n) = True"
| "has_sty SUnit VUnit = True"
| "has_sty SFlex (VFlex fp) = True"
| "has_sty (SOpt T) (VOpt x) = True"
| "has_sty SCap (VCap c) = True"
| "has_sty SString (VStr s) = True"
| "has_sty (SArray Len T) (VVec vs) = True"
| "has_sty (SVec T) (VVec vs) = True"
| "has_sty _ _ = False"

definition servable :: "nat \<Rightarrow> 's iface \<Rightarrow> bool" where
  "servable N I \<longleftrightarrow> (\<forall>o1 \<in> set (iface_ops I). count_list (op_args o1) SFlex < N \<and>
     (\<forall>s vs r s'. op_fun o1 s vs = (Inr r, s') \<longrightarrow> has_sty (op_ret o1) r))"

lemma ser_write_total: "has_sty T v \<Longrightarrow> \<exists>r m'. ser_write False A B T v m = Some (r, m')"
proof (induction T v rule: has_sty.induct)
  case (4 T x)
  then show ?case
    by (cases x) (auto split: prod.splits sum.splits)
qed (auto simp: write_item_def op_add_def split: prod.splits sum.splits intro: prod.exhaust_sel)

text \<open>Reading an argument moves the position in the receive buffers only for a flex page.\<close>

lemma ser_read_total:
  assumes "i < length mem"
  shows "\<exists>r m' j. ser_read A B T m \<lparr>ba_ptr = Some (mem, i)\<rparr> = Some (r, m', \<lparr>ba_ptr = Some (mem, j)\<rparr>) \<and>
    j \<le> i + (if T = SFlex then 1 else 0)"
  using assms
  by (cases T) (auto simp: flex_read_def rcv_cap_unchecked_def Let_def split: prod.splits sum.splits)

lemma ser_reads_total:
  assumes "i + count_list Ts SFlex < length mem"
  shows "\<exists>r m' ba'. ser_reads A B Ts m \<lparr>ba_ptr = Some (mem, i)\<rparr> = Some (r, m', ba')"
  using assms
proof (induction Ts arbitrary: m i)
  case Nil
  then show ?case by simp
next
  case (Cons T Ts)
  obtain r m1 j where rd: "ser_read A B T m \<lparr>ba_ptr = Some (mem, i)\<rparr> = Some (r, m1, \<lparr>ba_ptr = Some (mem, j)\<rparr>)"
    and j: "j \<le> i + (if T = SFlex then 1 else 0)"
    using ser_read_total [of i mem A B T m] Cons.prems by (auto split: if_splits)
  have "j + count_list Ts SFlex < length mem"
    using j Cons.prems by (auto split: if_splits)
  from Cons.IH [OF this, of m1] obtain r' m2 ba2
    where "ser_reads A B Ts m1 \<lparr>ba_ptr = Some (mem, j)\<rparr> = Some (r', m2, ba2)"
    by auto
  with rd show ?case
    by (cases r; cases r') auto
qed

lemma op_call_total:
  assumes "ba = \<lparr>ba_ptr = Some (mem, 0)\<rparr>" and "count_list (op_args o1) SFlex < length mem"
    and "\<And>s vs r s'. op_fun o1 s vs = (Inr r, s') \<Longrightarrow> has_sty (op_ret o1) r"
  shows "\<exists>r m' s'. op_call False A o1 m ba s = Some (r, m', s')"
proof -
  obtain r m1 ba1 where rd: "ser_reads A (mr_bytes A) (op_args o1) m ba = Some (r, m1, ba1)"
    using ser_reads_total [of 0 "op_args o1" mem A "mr_bytes A" m] assms(1,2) by auto
  show ?thesis
  proof (cases r)
    case (Inl e)
    with rd show ?thesis by (simp add: op_call_def)
  next
    case (Inr vs)
    obtain ur s1 where fn: "op_fun o1 s vs = (ur, s1)"
      by (cases "op_fun o1 s vs")
    show ?thesis
    proof (cases ur)
      case (Inl e)
      with rd Inr fn show ?thesis by (simp add: op_call_def)
    next
      case ur: (Inr v)
      obtain wr m2 where "ser_write False A (mr_bytes A) (op_ret o1) v (mr_reset m1) = Some (wr, m2)"
        using ser_write_total [OF assms(3)] fn ur by blast
      with rd Inr fn ur show ?thesis
        by (cases wr) (auto simp: op_call_def mr_words_def op_mul_def op_sub_def)
    qed
  qed
qed

lemma op_dispatch_total:
  assumes "servable (length mem) I"
  shows "\<exists>r m' s'. op_dispatch False A I tag m \<lparr>ba_ptr = Some (mem, 0)\<rparr> s = Some (r, m', s')"
proof -
  have "\<exists>r m' s'. op_call False A o1 m1 \<lparr>ba_ptr = Some (mem, 0)\<rparr> s = Some (r, m', s')"
    if "find (\<lambda>o1. op_code o1 = opcode) (iface_ops I) = Some o1" for o1 opcode m1
  proof -
    have "o1 \<in> set (iface_ops I)"
      using that by (auto simp: find_Some_iff)
    with assms show ?thesis
      unfolding servable_def by (intro op_call_total [OF refl]) blast+
  qed
  then show ?thesis
    by (auto simp: op_dispatch_def split: prod.splits sum.splits option.splits)
qed

section \<open>Hooks that keep the loop going\<close>

text \<open>What the loop relies on: hooks return with a reply whatever the error, and neither they nor
  the dispatch spoil what the provider needs to set up the next wait.\<close>

locale persistent_hooks =
  fixes A :: abi and H :: "('h, 'b) loop_hook" and P :: "('b, 'w) cap_ops"
    and ok :: "'b \<Rightarrow> bool" and fits :: "utcb \<Rightarrow> bool"
  assumes ipc_hook: "has_error A tag \<Longrightarrow> ok (lp_bufs L) \<Longrightarrow> fits (lp_utcb L) \<Longrightarrow>
      \<exists>t h' L'. ipc_error_hook H h L tag = Some (ReplyAndWait t, h', L') \<and> ok (lp_bufs L') \<and> fits (lp_utcb L')"
    and app_hook: "ok (lp_bufs L) \<Longrightarrow> fits (lp_utcb L) \<Longrightarrow>
      \<exists>t h' L'. application_error_hook H h L e = Some (ReplyAndWait t, h', L') \<and> ok (lp_bufs L') \<and> fits (lp_utcb L')"
    and wait_ready: "ok b \<Longrightarrow> fits u \<Longrightarrow> \<exists>u'. p_setup_wait P b u = Some u'"
    and fits_close: "fits u \<Longrightarrow> fits (close_mr m u)"
begin

definition running :: "('h, 'b) ipc_loop \<Rightarrow> bool" where
  "running L \<longleftrightarrow> lp_hooks L \<noteq> None \<and> ok (lp_bufs L)"

lemma borrow_ipc:
  assumes "running L" and "fits (lp_utcb L)" and "has_error A tag"
  shows "\<exists>t L'. borrow_hooks (ipc_error_hook H) tag L = Some (ReplyAndWait t, L') \<and> running L' \<and> fits (lp_utcb L')"
proof -
  obtain h where h: "lp_hooks L = Some h" and ok: "ok (lp_bufs L)"
    using assms(1) by (auto simp: running_def)
  from ipc_hook [OF assms(3), of "L\<lparr>lp_hooks := None\<rparr>" h] ok assms(2) h show ?thesis
    by (auto simp: borrow_hooks_def running_def)
qed

lemma borrow_app:
  assumes "running L" and "fits (lp_utcb L)"
  shows "\<exists>t L'. borrow_hooks (application_error_hook H) e L = Some (ReplyAndWait t, L') \<and> running L' \<and> fits (lp_utcb L')"
proof -
  obtain h where h: "lp_hooks L = Some h" and ok: "ok (lp_bufs L)"
    using assms(1) by (auto simp: running_def)
  from app_hook [of "L\<lparr>lp_hooks := None\<rparr>" h e] ok assms(2) h show ?thesis
    by (auto simp: borrow_hooks_def running_def)
qed

text \<open>A message that can be served: an error, or one for an object whose dispatcher returns.\<close>

definition served :: "(u64 \<Rightarrow> 's callback option) \<Rightarrow> event \<Rightarrow> bool" where
  "served cbs ev \<longleftrightarrow> (case ev of (l, tag, u) \<Rightarrow> fits u \<and> (has_error A tag \<or>
     (\<exists>cb. cbs l = Some cb \<and> (\<forall>m b s. ok b \<longrightarrow> (\<exists>r m' s'. cb tag m (p_access_buffers P b) s = Some (r, m', s'))))))"

lemma turn_answers:
  assumes "running L" and "served cbs (l, tag, u)"
  shows "\<exists>t L' s'. srv_turn A H P cbs tag l (L\<lparr>lp_utcb := u\<rparr>) s = Some (ReplyAndWait t, L', s') \<and>
    running L' \<and> fits (lp_utcb L')"
proof (cases "has_error A tag")
  case True
  with assms borrow_ipc [of "L\<lparr>lp_utcb := u\<rparr>" tag] show ?thesis
    by (auto simp: srv_turn_def served_def running_def)
next
  case False
  with assms obtain cb r m s1 where cb: "cbs l = Some cb"
      "cb tag (open_mr u) (p_access_buffers P (lp_bufs L)) s = Some (r, m, s1)" and u: "fits u"
    by (fastforce simp: served_def running_def)
  let ?L = "L\<lparr>lp_utcb := close_mr m u\<rparr>"
  have run: "running ?L" "fits (lp_utcb ?L)"
    using assms(1) fits_close [OF u] by (simp_all add: running_def)
  show ?thesis
  proof (cases r)
    case (Inl e)
    with borrow_app [OF run, of e] False cb show ?thesis
      by (auto simp: srv_turn_def srv_dispatch_def)
  next
    case (Inr t)
    with run False cb show ?thesis
      by (auto simp: srv_turn_def srv_dispatch_def)
  qed
qed

lemma loop_answers:
  assumes "running L" and "served cbs ev" and "\<forall>ev\<in>set evs. served cbs ev"
    and "\<forall>(l, tag, u)\<in>set evs. l \<noteq> 0 \<or> \<not> has_error A tag"
  shows "\<exists>replies L' s'. srv_loop A H P cbs ev evs L s = Some (replies, L', s') \<and>
    length replies = Suc (length evs) \<and> running L'"
  using assms
proof (induction evs arbitrary: ev L s)
  case Nil
  obtain l tag u where ev: "ev = (l, tag, u)"
    by (metis prod_cases3)
  obtain t L1 s1 where turn: "srv_turn A H P cbs tag l (L\<lparr>lp_utcb := u\<rparr>) s = Some (ReplyAndWait t, L1, s1)"
    and run: "running L1" "fits (lp_utcb L1)"
    using turn_answers [of L cbs l tag u s] Nil.prems ev by blast
  obtain u1 where "p_setup_wait P (lp_bufs L1) (lp_utcb L1) = Some u1"
    using wait_ready run by (auto simp: running_def)
  with turn run show ?case
    by (auto simp: ev srv_loop.simps running_def)
next
  case (Cons ev' evs)
  obtain l tag u where ev: "ev = (l, tag, u)"
    by (metis prod_cases3)
  obtain t L1 s1 where turn: "srv_turn A H P cbs tag l (L\<lparr>lp_utcb := u\<rparr>) s = Some (ReplyAndWait t, L1, s1)"
    and run: "running L1" "fits (lp_utcb L1)"
    using turn_answers [of L cbs l tag u s] Cons.prems(1,2) ev by blast
  obtain u1 where u1: "p_setup_wait P (lp_bufs L1) (lp_utcb L1) = Some u1"
    using wait_ready run by (auto simp: running_def)
  have "running (L1\<lparr>lp_utcb := u1\<rparr>)"
    using run by (simp add: running_def)
  from Cons.IH [OF this, of ev' s1] Cons.prems(3,4) obtain replies L2 s2 where
    "srv_loop A H P cbs ev' evs (L1\<lparr>lp_utcb := u1\<rparr>) s1 = Some (replies, L2, s2)"
    and "length replies = Suc (length evs)" and "running L2"
    by auto
  moreover have "next_event A (ev' # evs) = Some (ev', evs)"
    using Cons.prems(4) by (cases ev') auto
  ultimately show ?case
    using turn u1 srv_loop.simps [of A H P cbs l tag u "ev' # evs" L s] by (simp add: ev)
qed

end

text \<open>The default hooks in a build without overflow checks, over a buffer manager and without
  buffers.\<close>

lemma default_ipc_error_replies:
  assumes "has_error A tag"
  shows "\<exists>t. default_ipc_error False A E u tag = Some (ReplyAndWait t)"
  using assms
  by (auto simp: default_ipc_error_def tag_result_def from_tag_u_def tcr_from_tag_u_def op_neg_def
      split: sum.splits option.splits)

lemma default_application_error_replies: "\<exists>t. default_application_error False E e = Some (ReplyAndWait t)"
  by (cases e) (simp_all add: default_application_error_def into_ipc_err_def op_neg_def)

lemma br_close_mr [simp]: "utcb_br (close_mr m u) = utcb_br u"
  by (simp add: close_mr_def)

interpretation bm_hooks: persistent_hooks A "default_hooks False A E" "bm_ops oc A alloc N" "bm_ok N"
  "\<lambda>u. N \<le> length (utcb_br u)"
  for A E oc alloc N
proof
  fix tag :: msg_tag and L :: "('h, buf_mgr) ipc_loop" and h e b u m
  assume ok: "bm_ok N (lp_bufs L)" "N \<le> length (utcb_br (lp_utcb L))"
  show "\<exists>t h' L'. ipc_error_hook (default_hooks False A E) h L tag = Some (ReplyAndWait t, h', L') \<and>
      bm_ok N (lp_bufs L') \<and> N \<le> length (utcb_br (lp_utcb L'))" if "has_error A tag"
    using default_ipc_error_replies [OF that, of E "lp_utcb L"] ok by (auto simp: default_hooks_def)
  show "\<exists>t h' L'. application_error_hook (default_hooks False A E) h L e = Some (ReplyAndWait t, h', L') \<and>
      bm_ok N (lp_bufs L') \<and> N \<le> length (utcb_br (lp_utcb L'))"
    using default_application_error_replies [of E e] ok by (auto simp: default_hooks_def)
next
  fix b and u :: utcb
  assume "bm_ok N b" and "N \<le> length (utcb_br u)"
  then show "\<exists>u'. p_setup_wait (bm_ops oc A alloc N) b u = Some u'"
    by (auto dest: bm_setup_wait_total)
qed simp

interpretation bl_hooks: persistent_hooks A "default_hooks False A E" bl_ops "\<lambda>b. True" "\<lambda>u. True"
  for A E
proof
  fix tag :: msg_tag and L :: "('h, unit) ipc_loop" and h e
  show "\<exists>t h' L'. ipc_error_hook (default_hooks False A E) h L tag = Some (ReplyAndWait t, h', L') \<and> True \<and> True"
    if "has_error A tag"
    using default_ipc_error_replies [OF that, of E "lp_utcb L"] by (auto simp: default_hooks_def)
  show "\<exists>t h' L'. application_error_hook (default_hooks False A E) h L e = Some (ReplyAndWait t, h', L') \<and> True \<and> True"
    using default_application_error_replies [of E e] by (auto simp: default_hooks_def)
qed (simp_all add: bl_ops_def bl_setup_wait_def)

lemma callback_returns:
  assumes "\<forall>inst\<in>set insts. servable N (so_iface inst)" and "l \<in> so_addr ` set insts"
  shows "\<exists>cb. callback_at False A insts l = Some cb \<and>
    (\<forall>m b s. bm_ok N b \<longrightarrow> (\<exists>r m' s'. cb tag m (bm_access_buffers b) s = Some (r, m', s')))"
proof -
  have "find (\<lambda>inst. so_addr inst = l) insts \<noteq> None"
    using assms(2) by (auto simp: find_None_iff)
  then obtain inst where inst: "find (\<lambda>inst. so_addr inst = l) insts = Some inst"
    by blast
  then have "servable N (so_iface inst)"
    using assms(1) by (auto simp: find_Some_iff)
  with inst show ?thesis
    by (auto simp: callback_at_def obj_at_def server_impl_callback_def bm_access_buffers_def bm_ok_def
        intro: op_dispatch_total)
qed

text \<open>
  C3. The server loop stays alive. A loop with the default hooks, a buffer manager and at least one
  registered object, in a build without overflow checks, answers every message for a registered
  object and every IPC error with a label other than 0 by exactly one reply and never panics or ends:
  whatever errors the kernel reports, whatever the messages contain (wrong protocols, unknown
  operation codes, lengths that do not fit, text that is not UTF-8), and whatever errors the
  implementations return. The registered interfaces must take fewer flex pages per call than the
  manager has slots. Left out are errors with the label 0, for which the loop waits again without a
  reply, messages with a label that is no registered object, and builds that check overflow, in which
  the conversion of some error codes panics.
\<close>
theorem server_answers_all:
  assumes "insts \<noteq> []" and "lp_hooks L \<noteq> None" and "bm_ok N (lp_bufs L)" and "N \<le> length (utcb_br (lp_utcb L))"
    and "\<forall>inst\<in>set insts. servable N (so_iface inst)"
    and "\<forall>(l, tag, u)\<in>set evs. N \<le> length (utcb_br u) \<and>
      (if has_error A tag then l \<noteq> 0 else l \<in> so_addr ` set insts)"
  shows "\<exists>replies L' s'. srv_start A (default_hooks False A E) (bm_ops False A alloc N) (callback_at False A insts)
      evs L s = Some (replies, L', s') \<and> length replies = length evs \<and> lp_hooks L' \<noteq> None \<and> bm_ok N (lp_bufs L')"
proof -
  let ?run = "persistent_hooks.running (bm_ok N)"
    and ?served = "persistent_hooks.served A (bm_ops False A alloc N) (bm_ok N) (\<lambda>u. N \<le> length (utcb_br u)) (callback_at False A insts)"
  obtain u0 where u0: "bm_setup_wait (lp_bufs L) (lp_utcb L) = Some u0"
    using bm_setup_wait_total [OF assms(3,4)] by blast
  have run: "?run (L\<lparr>lp_utcb := u0\<rparr>)"
    using assms(2,3) by (simp add: bm_hooks.running_def)
  have served: "\<forall>ev\<in>set evs. ?served ev"
  proof
    fix ev
    assume mem: "ev \<in> set evs"
    obtain l tag u where ev: "ev = (l, tag, u)"
      by (metis prod_cases3)
    have "N \<le> length (utcb_br u)" "has_error A tag \<or> l \<in> so_addr ` set insts"
      using assms(6) mem ev by (auto split: if_splits)
    with callback_returns [OF assms(5), of l A tag] show "?served ev"
      unfolding ev bm_hooks.served_def by simp blast
  qed
  have live: "\<forall>(l, tag, u)\<in>set evs. l \<noteq> 0 \<or> \<not> has_error A tag"
    using assms(6) by (auto split: if_splits)
  show ?thesis
  proof (cases evs)
    case Nil
    with u0 assms(2,3) show ?thesis by (simp add: srv_start_def)
  next
    case (Cons ev evs')
    with bm_hooks.loop_answers [OF run, of A False alloc "callback_at False A insts" ev evs' E s] served live
    show ?thesis
      using u0 by (auto simp: srv_start_def bm_hooks.running_def)
  qed
qed

section \<open>Registration binds gates\<close>

text \<open>What the kernel does with a request to bind a gate: it binds it, or reports an error and
  changes no gate.\<close>

locale gate_kernel =
  fixes oc :: bool and A :: abi and E :: err_env and ep_bind :: "'w gate_bind"
    and bound :: "'w \<Rightarrow> u64 \<rightharpoonup> u64 \<times> u64"
  assumes bind_success: "ep_bind g th l u w = (t, u', w') \<Longrightarrow> tag_result oc A E u' \<lparr>raw = t\<rparr> = Some (Inr r) \<Longrightarrow>
      bound w' = (bound w)(g \<mapsto> (th, l))"
    and bind_failure: "ep_bind g th l u w = (t, u', w') \<Longrightarrow> tag_result oc A E u' \<lparr>raw = t\<rparr> = Some (Inl e) \<Longrightarrow>
      bound w' = bound w"
    and bind_regs: "ep_bind g th l u w = (t, u', w') \<Longrightarrow> length (utcb_br u') = length (utcb_br u)"

text \<open>A provider whose allocations do not touch gates, with such a kernel.\<close>

locale loop_registration =
  cap_provider "p_alloc_capslots P" "p_caps_used P" "p_rcv_cap P" ok acceptable +
  gate_kernel oc A E ep_bind bound
  for P :: "('b, 'w) cap_ops" and ok acceptable oc A E and ep_bind :: "'w gate_bind" and bound +
  assumes alloc_bound: "p_alloc_capslots P d b w = Some (r, b', w') \<Longrightarrow> bound w' = bound w"
begin

definition kept :: "('h, 'b) ipc_loop \<Rightarrow> ('h, 'b) ipc_loop \<Rightarrow> bool" where
  "kept L L' \<longleftrightarrow> lp_thread L' = lp_thread L \<and> lp_hooks L' = lp_hooks L \<and> ok (lp_bufs L') \<and>
     length (utcb_br (lp_utcb L')) = length (utcb_br (lp_utcb L)) \<and>
     p_caps_used P (lp_bufs L) \<le> p_caps_used P (lp_bufs L')"

lemma register_spec:
  assumes "ok (lp_bufs L)" and "acceptable (CAP_DEMAND (so_iface inst))"
  shows "\<exists>r L' w'. register oc A E P ep_bind inst L w = Some (r, L', w') \<and> kept L L' \<and>
    (case r of
       Inl e \<Rightarrow> bound w' = bound w
     | Inr _ \<Rightarrow> bound w' = (bound w)(so_raw inst \<mapsto> (lp_thread L, so_addr inst)) \<and>
         CAP_DEMAND (so_iface inst) \<le> p_caps_used P (lp_bufs L'))"
proof -
  obtain r b w1 where al: "p_alloc_capslots P (CAP_DEMAND (so_iface inst)) (lp_bufs L) w = Some (r, b, w1)"
    using alloc_returns [OF assms] by blast
  note b = alloc_ok [OF assms al] and w1 = alloc_bound [OF al]
  show ?thesis
  proof (cases r)
    case (Inl e)
    with al b w1 show ?thesis by (simp add: register_def kept_def)
  next
    case (Inr x)
    then have met: "CAP_DEMAND (so_iface inst) \<le> p_caps_used P b"
      using alloc_met [OF assms, of w b w1] al by simp
    obtain t u w2 where bd: "ep_bind (so_raw inst) (lp_thread L) (so_addr inst) (lp_utcb L) w1 = (t, u, w2)"
      by (metis prod_cases3)
    obtain tr where tr: "tag_result oc A E u \<lparr>raw = t\<rparr> = Some tr"
      using tag_result_total by blast
    show ?thesis
      using al Inr bd tr b met w1 bind_regs [OF bd] bind_success [OF bd] bind_failure [OF bd]
      by (cases tr) (simp_all add: register_def kept_def)
  qed
qed

text \<open>The gates bound by the first \<open>k\<close> registrations.\<close>

definition bindings :: "u64 \<Rightarrow> 's srv_obj list \<Rightarrow> (u64 \<times> u64 \<times> u64) list" where
  "bindings th insts = map (\<lambda>inst. (so_raw inst, th, so_addr inst)) insts"

lemma register_all_spec:
  assumes "ok (lp_bufs L)" and "\<forall>inst\<in>set insts. acceptable (CAP_DEMAND (so_iface inst))"
  shows "\<exists>k r L' w'. register_all oc A E P ep_bind insts L w = Some (r, L', w') \<and> kept L L' \<and>
    k \<le> length insts \<and> (r = Inr () \<longleftrightarrow> k = length insts) \<and>
    bound w' = bound w ++ map_of (rev (bindings (lp_thread L) (take k insts))) \<and>
    (\<forall>inst\<in>set (take k insts). CAP_DEMAND (so_iface inst) \<le> p_caps_used P (lp_bufs L'))"
  using assms
proof (induction insts arbitrary: L w)
  case Nil
  then show ?case by (simp add: kept_def bindings_def)
next
  case (Cons inst insts)
  obtain r L1 w1 where reg: "register oc A E P ep_bind inst L w = Some (r, L1, w1)" and kept: "kept L L1"
    and res: "case r of
       Inl e \<Rightarrow> bound w1 = bound w
     | Inr _ \<Rightarrow> bound w1 = (bound w)(so_raw inst \<mapsto> (lp_thread L, so_addr inst)) \<and>
         CAP_DEMAND (so_iface inst) \<le> p_caps_used P (lp_bufs L1)"
    using register_spec [OF Cons.prems(1), of inst w] Cons.prems(2) by auto
  show ?case
  proof (cases r)
    case (Inl e)
    with reg kept res show ?thesis
      by (intro exI [of _ 0]) (simp add: bindings_def)
  next
    case (Inr x)
    have ok1: "ok (lp_bufs L1)"
      using kept by (simp add: kept_def)
    from Cons.IH [OF ok1, of w1] Cons.prems(2) obtain k r2 L2 w2 where
      all: "register_all oc A E P ep_bind insts L1 w1 = Some (r2, L2, w2)" and kept2: "kept L1 L2"
      and k: "k \<le> length insts" "r2 = Inr () \<longleftrightarrow> k = length insts"
      and bd: "bound w2 = bound w1 ++ map_of (rev (bindings (lp_thread L1) (take k insts)))"
      and met: "\<forall>inst\<in>set (take k insts). CAP_DEMAND (so_iface inst) \<le> p_caps_used P (lp_bufs L2)"
      by auto
    have "kept L L2" "CAP_DEMAND (so_iface inst) \<le> p_caps_used P (lp_bufs L2)"
      using kept kept2 res Inr by (auto simp: kept_def intro: order_trans)
    then show ?thesis
      using reg Inr all k bd met res kept
      by (intro exI [of _ "Suc k"]) (auto simp: bindings_def kept_def map_add_def fun_eq_iff split: option.splits)
  qed
qed

end

text \<open>A kernel that keeps its gates in a table beside the next free capability slot and refuses to
  bind the gate 0.\<close>

definition table_bind :: "((u64 \<rightharpoonup> u64 \<times> u64) \<times> u64) gate_bind" where
  "table_bind g th l u w = (if g = 0 then (raw (tag_new (-1) 0 0 0), u, w)
     else (0, u, ((fst w)(g \<mapsto> (th, l)), snd w)))"

definition table_alloc :: "((u64 \<rightharpoonup> u64 \<times> u64) \<times> u64) cap_alloc" where
  "table_alloc w = (snd w, (fst w, snd w + 0x1000))"

lemma table_bind_result:
  "tag_result oc A E u \<lparr>raw = 0\<rparr> = Some (Inr \<lparr>raw = 0\<rparr>)"
  "tag_result oc A E u (tag_new (-1) 0 0 0) \<noteq> Some (Inr r)"
proof -
  show "tag_result oc A E u \<lparr>raw = 0\<rparr> = Some (Inr \<lparr>raw = 0\<rparr>)"
    by (simp add: tag_result_def has_error_def tag_label_def)
  show "tag_result oc A E u (tag_new (-1) 0 0 0) \<noteq> Some (Inr r)"
    by (simp add: tag_result_def label_fits_def)
qed

interpretation gate_table: gate_kernel oc A E table_bind fst
  for oc A E
  by unfold_locales (auto simp: table_bind_def table_bind_result split: if_splits)

lemma bm_fill_bound:
  assumes "\<forall>w. bound (snd (alloc w)) = bound w" and "bm_fill A alloc d bm w = Some (r, bm', w')"
  shows "bound w' = bound w"
  using assms
proof (induction A alloc d bm w rule: bm_fill.induct)
  case (1 A alloc d bm w)
  obtain cap w1 where al: "alloc w = (cap, w1)"
    by (cases "alloc w")
  then have "bound w1 = bound w"
    using "1.prems"(1) by (metis snd_conv)
  with 1 al show ?case
    by (auto simp: bm_fill.simps [of A alloc d bm w] split: if_splits)
qed

lemma bm_alloc_bound:
  assumes "\<forall>w. bound (snd (alloc w)) = bound w" and "bm_alloc_capslots oc A alloc N d bm w = Some (r, bm', w')"
  shows "bound w' = bound w"
  using assms(2) bm_fill_bound [OF assms(1)]
  by (fastforce simp: bm_alloc_capslots_def split: bind_splits if_splits sum.splits)

lemma bm_registration:
  assumes "gate_kernel oc A E ep_bind bound" and "\<forall>w. bound (snd (alloc w)) = bound w"
  shows "loop_registration (bm_ops oc A alloc N) (bm_ok N) (\<lambda>d. unat d + 3 < 256) oc A E ep_bind bound"
proof -
  have "cap_provider (p_alloc_capslots (bm_ops oc A alloc N)) (p_caps_used (bm_ops oc A alloc N))
      (p_rcv_cap (bm_ops oc A alloc N)) (bm_ok N) (\<lambda>d. unat d + 3 < 256)"
    using bm.cap_provider_axioms [of oc A alloc N] by (simp add: bm_ops_def)
  then show ?thesis
    using assms bm_alloc_bound [OF assms(2)]
    by (simp add: loop_registration_def loop_registration_axioms_def)
qed

interpretation bm_reg: loop_registration "bm_ops oc A table_alloc N" "bm_ok N" "\<lambda>d. unat d + 3 < 256" oc A E table_bind fst
  for oc A E N
  by (rule bm_registration [OF gate_table.gate_kernel_axioms]) (simp add: table_alloc_def)

interpretation bl_reg: loop_registration bl_ops "\<lambda>b. True" "\<lambda>d. True" oc A E table_bind fst
  for oc A E
  using bl.cap_provider_axioms gate_table.gate_kernel_axioms
  by (auto simp: loop_registration_def loop_registration_axioms_def bl_ops_def bl_alloc_capslots_def split: if_splits)

lemma obj_at_distinct:
  assumes "distinct (map so_addr insts)" and "inst \<in> set insts"
  shows "obj_at insts (so_addr inst) = Some (so_iface inst)"
  using assms by (induction insts) (auto simp: obj_at_def)

lemma bindings_lookup:
  fixes insts :: "'s srv_obj list"
  assumes "distinct (map so_raw insts)" and "inst \<in> set insts"
  shows "map_of (rev (map (\<lambda>inst. (so_raw inst, th, so_addr inst)) insts)) (so_raw inst) = Some (th, so_addr inst)"
proof (rule map_of_is_SomeI)
  show "distinct (map fst (rev (map (\<lambda>inst. (so_raw inst, th, so_addr inst)) insts)))"
    using assms(1) by (simp add: rev_map [symmetric] comp_def)
  show "(so_raw inst, th, so_addr inst) \<in> set (rev (map (\<lambda>inst. (so_raw inst, th, so_addr inst)) insts))"
    using assms(2) by auto
qed

lemma bindings_other:
  "g \<notin> so_raw ` set insts \<Longrightarrow> map_of (rev (map (\<lambda>inst. (so_raw inst, th, so_addr inst)) insts)) g = None"
  by (force simp: map_of_eq_None_iff)


section \<open>A server with one object\<close>

definition demo_obj :: "nat srv_obj" where
  "demo_obj = \<lparr>so_addr = 0x1000, so_raw = 0x5000, so_iface = demo_iface\<rparr>"

lemma demo_servable: "servable 58 (so_iface demo_obj)"
  by (auto simp: servable_def demo_obj_def demo_iface_def demo_add_def demo_drop_def
      split: list.splits sval.splits if_splits)

lemma demo_loop:
  "lp_hooks (build (new_at demo_abi 7 (demo_utcb [1, 2, 3]))) = Some ()"
  "bm_ok 58 (lp_bufs (build (new_at demo_abi 7 (demo_utcb [1, 2, 3]))))"
  "length (utcb_br (lp_utcb (build (new_at demo_abi 7 (demo_utcb [1, 2, 3]))))) = 58"
  by (simp_all add: build_def loop_new_def new_at_def bm_ok_def bm_new_def demo_abi_def demo_utcb_def)


theorem default_loop_refines_witness:
  "map_option (\<lambda>(replies, L', s). (replies, L'\<lparr>lp_utcb := demo_utcb []\<rparr>, s))
     (srv_start demo_abi (default_hooks True demo_abi demo_errors) (bm_ops True demo_abi table_alloc 58)
       (callback_at True demo_abi [demo_obj]) [(0x1000, tag_new 0x44 2 0 0, demo_utcb [0, 0, 0])]
       (build (new_at demo_abi 7 (demo_utcb [1, 2, 3]))) 30) =
   map_option (\<lambda>(replies, s). (replies, (build (new_at demo_abi 7 (demo_utcb [1, 2, 3])))\<lparr>lp_utcb := demo_utcb []\<rparr>, s))
     (loop_start True demo_abi demo_errors (obj_at [demo_obj])
       (lp_bufs (build (new_at demo_abi 7 (demo_utcb [1, 2, 3])))) (0x1000, tag_new 0x44 2 0 0, demo_utcb [0, 0, 0]) [] 30)"
  by (rule default_loop_refines [OF demo_loop(1,2)]) (simp add: demo_loop(3))

theorem server_answers_all_witness:
  "\<exists>replies L' s'. srv_start demo_abi (default_hooks False demo_abi demo_errors)
      (bm_ops False demo_abi table_alloc 58) (callback_at False demo_abi [demo_obj])
      [(0x1000, tag_new 0x44 2 0 0, demo_utcb [0, 0, 0]), (0x1000, tag_new 5 1 0 0, demo_utcb [9, 9, 9]),
       (0x1000, tag_new 0 0 0 0x8000, demo_utcb [0, 0, 0])]
      (build (new_at demo_abi 7 (demo_utcb [1, 2, 3]))) 30 = Some (replies, L', s') \<and> length replies = 3"
proof -
  let ?evs = "[(0x1000, tag_new 0x44 2 0 0, demo_utcb [0, 0, 0]), (0x1000, tag_new 5 1 0 0, demo_utcb [9, 9, 9]),
       (0x1000 :: u64, tag_new 0 0 0 0x8000, demo_utcb [0, 0, 0])]"
  have evs: "\<forall>(l, tag, u)\<in>set ?evs. 58 \<le> length (utcb_br u) \<and>
      (if has_error demo_abi tag then l \<noteq> 0 else l \<in> so_addr ` set [demo_obj])"
    by (simp add: demo_utcb_def demo_obj_def)
  show ?thesis
    using server_answers_all [OF _ _ demo_loop(2) _ _ evs, of demo_errors table_alloc 30] demo_loop(1,3) demo_servable
    by auto
qed

end
