(* ===== verification/Ipc_Types.thy ===== *)
theory Ipc_Types
  imports Serialise
begin

text \<open>
  The value types of \<open>crates/l4/ipc/types.rs\<close>: \<open>Array\<close>, a reference to elements with a length of
  a chosen integer type, and \<open>BufStr\<close>, a copy of a string in a buffer of its owner. The elements an
  array refers to are bit patterns, as in theory \<open>Utcb_Regs\<close>. \<open>None\<close> is a panic.
\<close>

section \<open>Array\<close>

text \<open>The length as its type has it, and the memory from \<open>start\<close> on.\<close>

record ipc_array =
  arr_len :: nat
  arr_start :: "nat list"

definition array_from :: "mty \<Rightarrow> nat list \<Rightarrow> ipc_array option" where
  "array_from Len sl = (case num_cast Len (length sl) of
      None \<Rightarrow> None
    | Some n \<Rightarrow> Some \<lparr>arr_len = n, arr_start = sl\<rparr>)"

definition array_write :: "nat \<Rightarrow> mty \<Rightarrow> mty \<Rightarrow> ipc_array \<Rightarrow> utcb_mrs \<Rightarrow> (l4_error, unit) result \<times> utcb_mrs" where
  "array_write B Len T a m = write_slice B Len T (take (arr_len a) (arr_start a)) m"

definition array_into_vec :: "ipc_array \<Rightarrow> nat list" where
  "array_into_vec a = take (arr_len a) (arr_start a)"

text \<open>The conversion of a slice panics exactly when its length does not fit the length type; then
  the array stands for the slice, and writing it is writing the slice.\<close>

lemma array_from_slice:
  "array_from Len sl = None \<longleftrightarrow> num_max Len \<le> length sl"
  "array_from Len sl = Some a \<Longrightarrow> array_into_vec a = sl"
  "array_from Len sl = Some a \<Longrightarrow> Some (array_write B Len T a m) = ser_write oc A B (SArray Len T) (VVec sl) m"
  by (auto simp: array_from_def array_into_vec_def array_write_def num_cast_def split: option.splits if_splits)

text \<open>What an array carries through the registers is what its slice held.\<close>

lemma array_roundtrip:
  assumes "array_from Len sl = Some a" and "regs_ok B r" and "array_write B Len T a r = (Inr (), r')"
    and "sees B r r' q" and "\<forall>v\<in>set sl. v < 256 ^ size_of T"
  shows "array_read B Len T q = (Inr (array_into_vec a), q\<lparr>reg_offset := reg_offset r'\<rparr>)"
  using assms array_from_slice(2) [OF assms(1)]
  by (intro array_read_back) (simp_all add: array_write_def array_into_vec_def)

section \<open>BufStr\<close>

record buf_str =
  bs_buf :: "u8 list"
  bs_len :: nat

definition bufstr_new :: "u8 list \<Rightarrow> u8 list \<Rightarrow> (l4_error, buf_str) result" where
  "bufstr_new target input =
     (if length input > length target then Inl (Generic MsgTooLong)
      else Inr \<lparr>bs_buf = overwrite target 0 input, bs_len = length input\<rparr>)"

definition bufstr_get :: "buf_str \<Rightarrow> nat \<Rightarrow> u8 option" where
  "bufstr_get b i = (if i < length (bs_buf b) then Some (bs_buf b ! i) else None)"

definition bufstr_set :: "nat \<Rightarrow> u8 \<Rightarrow> buf_str \<Rightarrow> unit option \<times> buf_str" where
  "bufstr_set i v b =
     (if i < length (bs_buf b) then (Some (), b\<lparr>bs_buf := (bs_buf b)[i := v]\<rparr>) else (None, b))"

text \<open>\<open>as_ref\<close>, which does not check the encoding.\<close>

definition bufstr_as_ref :: "buf_str \<Rightarrow> u8 list" where
  "bufstr_as_ref b = take (bs_len b) (bs_buf b)"

definition bufstr_ok :: "buf_str \<Rightarrow> bool" where
  "bufstr_ok b \<longleftrightarrow> bs_len b \<le> length (bs_buf b)"

text \<open>A copied string is read back; the rest of the buffer stays; the reference stays inside the
  buffer whatever is set.\<close>

lemma bufstr_new_as_ref:
  assumes "bufstr_new target input = Inr b"
  shows "bufstr_as_ref b = input" and "drop (bs_len b) (bs_buf b) = drop (length input) target" and "bufstr_ok b"
  using assms
  by (auto simp: bufstr_new_def bufstr_as_ref_def bufstr_ok_def overwrite_def split: if_splits)

lemma bufstr_set_ok: "bufstr_ok b \<Longrightarrow> bufstr_ok (snd (bufstr_set i v b))"
  by (simp add: bufstr_ok_def bufstr_set_def)

lemma bufstr_set_get:
  "bufstr_get (snd (bufstr_set i v b)) j =
     (if i = j \<and> i < length (bs_buf b) then Some v else bufstr_get b j)"
  by (auto simp: bufstr_get_def bufstr_set_def)

lemma bufstr_set_as_ref:
  "bufstr_as_ref (snd (bufstr_set i v b)) = (if i < length (bs_buf b) then (bufstr_as_ref b)[i := v] else bufstr_as_ref b)"
  by (simp add: bufstr_as_ref_def bufstr_set_def take_update_swap)

text \<open>The safe \<open>set\<close> can leave bytes that are not UTF-8, which \<open>as_ref\<close> then hands out as a string.\<close>

lemma bufstr_set_breaks_utf8:
  assumes "bufstr_new target [104, 105] = Inr b"
  shows "utf8_ok (bufstr_as_ref b)" and "\<not> utf8_ok (bufstr_as_ref (snd (bufstr_set 0 0xFF b)))"
proof -
  note new = bufstr_new_as_ref [OF assms]
  show "utf8_ok (bufstr_as_ref b)"
    by (simp add: new utf8_ok.simps [of "[104, 105]"] utf8_ok.simps [of "[105]"] utf8_ok.simps [of "[]"] utf8_char_def)
  have "0 < length (bs_buf b)"
    using new(1) by (auto simp: bufstr_as_ref_def)
  then show "\<not> utf8_ok (bufstr_as_ref (snd (bufstr_set 0 0xFF b)))"
    by (simp add: bufstr_set_as_ref new utf8_ok.simps [of "[255, 105]"] utf8_char_def)
qed

end
