(* ===== verification/Factory.thy ===== *)
theory Factory
  imports Msgtag
begin

text \<open>
  Requests to a kernel factory, \<open>crates/l4-sys/factory.rs\<close>, with \<open>strlen\<close> of
  \<open>crates/core-ffi-helpers/lib.rs\<close>. A request is built in the message registers: the protocol of
  the new object, then arguments, each a header word (type and length in bytes) and its data. The
  functions that take the current thread's UTCB are the \<open>_u\<close> functions on that UTCB.

  String arguments are copied through a byte pointer into the register array. The outcome
  \<open>Overruns\<close> stands for a write or read outside the array behind such a pointer, \<open>Panics\<close> for a
  failed index check.
\<close>

section \<open>Constants, outcomes, strings\<close>

record kobj_abi = abi +
  PROTO_TASK :: i64
  PROTO_THREAD :: i64
  PROTO_FACTORY :: i64
  PROTO_IRQ_SENDER :: i64
  PROTO_VM :: i64
  VARG_NIL :: u64
  VARG_UMWORD :: u64
  VARG_MWORD :: u64
  VARG_STRING :: u64
  VARG_FPAGE :: u64

text \<open>What the headers say of them: the registers can be counted by a tag, argument types take the
  lower half-word of a header, and the protocol is a label.\<close>

definition varg_types :: "'z kobj_abi_scheme \<Rightarrow> u64 list" where
  "varg_types K = [VARG_NIL K, VARG_UMWORD K, VARG_MWORD K, VARG_STRING K, VARG_FPAGE K]"

definition kobj_ok :: "'z kobj_abi_scheme \<Rightarrow> bool" where
  "kobj_ok K \<longleftrightarrow> 5 \<le> GENERIC_DATA_SIZE K \<and> GENERIC_DATA_SIZE K \<le> 63 \<and>
     list_all (\<lambda>v. unat v < 2 ^ 16) (varg_types K) \<and> label_fits (PROTO_FACTORY K)"

datatype 'a outcome = Returns 'a | Panics | Overruns

primrec strlen :: "u8 list \<Rightarrow> nat option" where
  "strlen [] = None"
| "strlen (b # mem) = (if b \<noteq> 0 then map_option Suc (strlen mem) else Some 0)"

text \<open>A copy of bytes to the byte address \<open>i\<close> of the message registers.\<close>

definition mr_poke :: "nat \<Rightarrow> u8 list \<Rightarrow> utcb \<Rightarrow> utcb outcome" where
  "mr_poke i bs u =
     (if i + length bs \<le> 8 * length (utcb_mr u)
      then Returns (u\<lparr>utcb_mr := words_of_bytes (length (utcb_mr u))
                             (overwrite (bytes_of_words (utcb_mr u)) i bs)\<rparr>)
      else Overruns)"

section \<open>Arguments\<close>

definition with_words :: "i64 \<Rightarrow> nat \<Rightarrow> i64" where
  "with_words t w = (t AND NOT 0x3f) OR (word_of_nat w AND 0x3f)"

definition l4_factory_create_add_int_u :: "'z kobj_abi_scheme \<Rightarrow> i64 \<Rightarrow> i64 \<Rightarrow> utcb \<Rightarrow> bool \<times> i64 \<times> utcb" where
  "l4_factory_create_add_int_u K d tag u =
     (let w = unat (l4_msgtag_words tag)
      in if w + 2 > GENERIC_DATA_SIZE K then (False, tag, u)
         else let u = set_mr u w (VARG_MWORD K OR push_bit 16 8);
                  u = set_mr u (w + 1) d
              in (True, with_words tag (w + 2), u))"

definition l4_factory_create_add_uint_u :: "'z kobj_abi_scheme \<Rightarrow> u64 \<Rightarrow> i64 \<Rightarrow> utcb \<Rightarrow> bool \<times> i64 \<times> utcb" where
  "l4_factory_create_add_uint_u K d tag u =
     (let w = unat (l4_msgtag_words tag)
      in if w + 2 > GENERIC_DATA_SIZE K then (False, tag, u)
         else let u = set_mr u w (VARG_UMWORD K OR push_bit 16 8);
                  u = set_mr u (w + 1) d
              in (True, with_words tag (w + 2), u))"

definition l4_factory_create_add_fpage_u :: "'z kobj_abi_scheme \<Rightarrow> u64 \<Rightarrow> i64 \<Rightarrow> utcb \<Rightarrow> bool \<times> i64 \<times> utcb" where
  "l4_factory_create_add_fpage_u K d tag u =
     (let w = unat (l4_msgtag_words tag)
      in if w + 2 > GENERIC_DATA_SIZE K then (False, tag, u)
         else let u = set_mr u w (VARG_FPAGE K OR push_bit 16 8);
                  u = set_mr u (w + 1) d
              in (True, with_words tag (w + 2), u))"

definition l4_factory_create_add_nil_u :: "'z kobj_abi_scheme \<Rightarrow> i64 \<Rightarrow> utcb \<Rightarrow> bool \<times> i64 \<times> utcb" where
  "l4_factory_create_add_nil_u K tag u =
     (let w = unat (l4_msgtag_words tag)
      in if w + 1 > GENERIC_DATA_SIZE K then (False, tag, u)
         else (True, with_words tag (w + 1), set_mr u w (VARG_NIL K)))"

definition l4_factory_create_add_cstr_u :: "'z kobj_abi_scheme \<Rightarrow> u8 list \<Rightarrow> i64 \<Rightarrow> utcb
    \<Rightarrow> (bool \<times> i64 \<times> utcb) outcome" where
  "l4_factory_create_add_cstr_u K s tag u =
     (let w = unat (l4_msgtag_words tag)
      in case strlen s of
           None \<Rightarrow> Overruns
         | Some len \<Rightarrow>
             if w + 1 + (len + 8 - 1) div 8 > GENERIC_DATA_SIZE K then Returns (False, tag, u)
             else let u = set_mr u w (VARG_STRING K OR push_bit 16 (word_of_nat len))
                  in if w + 1 < length (utcb_mr u)
                     then (case mr_poke (8 * (w + 1)) (take (len + 1) s) u of
                             Returns u \<Rightarrow> Returns (True, with_words tag (w + 1 + (len + 8 - 1) div 8), u)
                           | Panics \<Rightarrow> Panics
                           | Overruns \<Rightarrow> Overruns)
                     else Panics)"

definition l4_factory_create_add_str_u :: "'z kobj_abi_scheme \<Rightarrow> u8 list \<Rightarrow> i64 \<Rightarrow> utcb
    \<Rightarrow> (bool \<times> i64 \<times> utcb) outcome" where
  "l4_factory_create_add_str_u K s tag u =
     (let w = unat (l4_msgtag_words tag); len = length s
      in if w + 1 + (len + 8 - 1) div 8 > GENERIC_DATA_SIZE K then Returns (False, tag, u)
         else let u = set_mr u w (VARG_STRING K OR push_bit 16 (word_of_nat len))
              in if w + 1 < length (utcb_mr u)
                 then (case mr_poke (8 * (w + 1)) s u of
                         Returns u \<Rightarrow>
                           (case mr_poke (8 * (w + 1) + len) [0] u of
                              Returns u \<Rightarrow> Returns (True, with_words tag (w + 1 + (len + 8 - 1) div 8), u)
                            | Panics \<Rightarrow> Panics
                            | Overruns \<Rightarrow> Overruns)
                       | Panics \<Rightarrow> Panics
                       | Overruns \<Rightarrow> Overruns)
                 else Panics)"

section \<open>Creation requests\<close>

text \<open>The kernel's side of a call is the parameter \<open>ipc\<close>: destination, tag, registers and the state
  of everything else.\<close>

type_synonym 'w ipc_call = "u64 \<Rightarrow> i64 \<Rightarrow> utcb \<Rightarrow> 'w \<Rightarrow> i64 \<times> utcb \<times> 'w"

definition l4_factory_create_start_u :: "'z kobj_abi_scheme \<Rightarrow> i32 \<Rightarrow> u64 \<Rightarrow> utcb \<Rightarrow> i64 \<times> utcb" where
  "l4_factory_create_start_u K protocol target_cap u =
     (let u = set_mr u 0 (scast protocol);
          u = u\<lparr>utcb_bdr := 0\<rparr>;
          u = set_br0 u (target_cap OR RCV_ITEM_SINGLE_CAP K)
      in (l4_msgtag (PROTO_FACTORY K) 1 0 0, u))"

definition l4_factory_create_commit_u :: "'w ipc_call \<Rightarrow> u64 \<Rightarrow> i64 \<Rightarrow> utcb \<Rightarrow> 'w \<Rightarrow> i64 \<times> utcb \<times> 'w" where
  "l4_factory_create_commit_u ipc factory tag u w = ipc factory tag u w"

definition l4_factory_create_u :: "'z kobj_abi_scheme \<Rightarrow> 'w ipc_call \<Rightarrow> u64 \<Rightarrow> i32 \<Rightarrow> u64 \<Rightarrow> utcb \<Rightarrow> 'w
    \<Rightarrow> i64 \<times> utcb \<times> 'w" where
  "l4_factory_create_u K ipc factory protocol target u w =
     (case l4_factory_create_start_u K protocol target u of
        (t, u) \<Rightarrow> l4_factory_create_commit_u ipc factory t u w)"

definition l4_factory_create_task_u :: "'z kobj_abi_scheme \<Rightarrow> 'w ipc_call \<Rightarrow> u64 \<Rightarrow> u64 \<Rightarrow> u64 \<Rightarrow> utcb \<Rightarrow> 'w
    \<Rightarrow> i64 \<times> utcb \<times> 'w" where
  "l4_factory_create_task_u K ipc factory target_cap utcb_area u w =
     (case l4_factory_create_start_u K (ucast (PROTO_TASK K)) target_cap u of
        (tag, u) \<Rightarrow>
          (case l4_factory_create_add_fpage_u K utcb_area tag u of
             (_, tag, u) \<Rightarrow> l4_factory_create_commit_u ipc factory tag u w))"

definition l4_factory_create_thread_u :: "'z kobj_abi_scheme \<Rightarrow> 'w ipc_call \<Rightarrow> u64 \<Rightarrow> u64 \<Rightarrow> utcb \<Rightarrow> 'w
    \<Rightarrow> i64 \<times> utcb \<times> 'w" where
  "l4_factory_create_thread_u K ipc factory target_cap u w =
     l4_factory_create_u K ipc factory (ucast (PROTO_THREAD K)) target_cap u w"

definition l4_factory_create_factory_u :: "'z kobj_abi_scheme \<Rightarrow> 'w ipc_call \<Rightarrow> u64 \<Rightarrow> u64 \<Rightarrow> u64 \<Rightarrow> utcb \<Rightarrow> 'w
    \<Rightarrow> i64 \<times> utcb \<times> 'w" where
  "l4_factory_create_factory_u K ipc factory target_cap limit u w =
     (case l4_factory_create_start_u K (ucast (PROTO_FACTORY K)) target_cap u of
        (tag, u) \<Rightarrow>
          (case l4_factory_create_add_uint_u K limit tag u of
             (_, tag, u) \<Rightarrow> l4_factory_create_commit_u ipc factory tag u w))"

definition l4_factory_create_gate_u :: "kobj_abi \<Rightarrow> 'w ipc_call \<Rightarrow> u64 \<Rightarrow> u64 \<Rightarrow> u64 \<Rightarrow> u64 \<Rightarrow> utcb \<Rightarrow> 'w
    \<Rightarrow> i64 \<times> utcb \<times> 'w" where
  "l4_factory_create_gate_u K ipc factory target_cap thread_cap label u w =
     (case l4_factory_create_start_u K 0 target_cap u of
        (tag, u) \<Rightarrow>
          (case l4_factory_create_add_uint_u K label tag u of
             (_, tag, u) \<Rightarrow>
               let (items, u) =
                     (if thread_cap AND INVALID_CAP_BIT K = 0
                      then (1, set_mr (set_mr u 3 (l4_map_obj_control (abi.truncate K) 0 0)) 4
                                 (obj_fpage K thread_cap 0 (FPAGE_RWX K)))
                      else (0, u));
                   tag = l4_msgtag (l4_msgtag_label tag) (l4_msgtag_words tag) items (msgtag_flags tag)
               in l4_factory_create_commit_u ipc factory tag u w))"

definition l4_factory_create_irq_u :: "'z kobj_abi_scheme \<Rightarrow> 'w ipc_call \<Rightarrow> u64 \<Rightarrow> u64 \<Rightarrow> utcb \<Rightarrow> 'w
    \<Rightarrow> i64 \<times> utcb \<times> 'w" where
  "l4_factory_create_irq_u K ipc factory target_cap u w =
     l4_factory_create_u K ipc factory (ucast (PROTO_IRQ_SENDER K)) target_cap u w"

definition l4_factory_create_vm_u :: "'z kobj_abi_scheme \<Rightarrow> 'w ipc_call \<Rightarrow> u64 \<Rightarrow> u64 \<Rightarrow> utcb \<Rightarrow> 'w
    \<Rightarrow> i64 \<times> utcb \<times> 'w" where
  "l4_factory_create_vm_u K ipc factory target_cap u w =
     l4_factory_create_u K ipc factory (ucast (PROTO_VM K)) target_cap u w"

section \<open>The request as a list of arguments\<close>

text \<open>The abstract view of the words behind the protocol: arguments of a type and some bytes, read
  off header by header.\<close>

function vargs :: "u64 list \<Rightarrow> (u64 \<times> u8 list) list option" where
  "vargs [] = Some []"
| "vargs (h # ws) =
     (let n = unat (drop_bit 16 h); k = (n + 7) div 8
      in if k \<le> length ws
         then map_option (Cons (take_bit 16 h, take n (bytes_of_words (take k ws)))) (vargs (drop k ws))
         else None)"
  by pat_completeness auto
termination
  by (relation "measure length") auto

definition create_args :: "i64 \<Rightarrow> utcb \<Rightarrow> (u64 \<times> u8 list) list option" where
  "create_args t u = vargs (tl (untyped_words t u))"

text \<open>The arguments a caller can add, the calls that add them, and what they stand for.\<close>

datatype create_arg = ArgInt i64 | ArgUint u64 | ArgFpage u64 | ArgNil | ArgStr "u8 list"

fun add_arg :: "'z kobj_abi_scheme \<Rightarrow> create_arg \<Rightarrow> i64 \<Rightarrow> utcb \<Rightarrow> (bool \<times> i64 \<times> utcb) outcome" where
  "add_arg K (ArgInt d) t u = Returns (l4_factory_create_add_int_u K d t u)"
| "add_arg K (ArgUint d) t u = Returns (l4_factory_create_add_uint_u K d t u)"
| "add_arg K (ArgFpage d) t u = Returns (l4_factory_create_add_fpage_u K d t u)"
| "add_arg K ArgNil t u = Returns (l4_factory_create_add_nil_u K t u)"
| "add_arg K (ArgStr s) t u = l4_factory_create_add_str_u K s t u"

fun arg_value :: "'z kobj_abi_scheme \<Rightarrow> create_arg \<Rightarrow> u64 \<times> u8 list" where
  "arg_value K (ArgInt d) = (VARG_MWORD K, le_bytes 8 (unat d))"
| "arg_value K (ArgUint d) = (VARG_UMWORD K, le_bytes 8 (unat d))"
| "arg_value K (ArgFpage d) = (VARG_FPAGE K, le_bytes 8 (unat d))"
| "arg_value K ArgNil = (VARG_NIL K, [])"
| "arg_value K (ArgStr s) = (VARG_STRING K, s)"

text \<open>Adding a sequence of arguments, with the flags the calls return.\<close>

fun add_args :: "'z kobj_abi_scheme \<Rightarrow> create_arg list \<Rightarrow> i64 \<Rightarrow> utcb \<Rightarrow> (bool list \<times> i64 \<times> utcb) outcome" where
  "add_args K [] t u = Returns ([], t, u)"
| "add_args K (a # as) t u =
     (case add_arg K a t u of
        Returns (ok, t, u) \<Rightarrow>
          (case add_args K as t u of
             Returns (oks, t, u) \<Rightarrow> Returns (ok # oks, t, u)
           | Panics \<Rightarrow> Panics
           | Overruns \<Rightarrow> Overruns)
      | Panics \<Rightarrow> Panics
      | Overruns \<Rightarrow> Overruns)"

definition accepted :: "create_arg list \<Rightarrow> bool list \<Rightarrow> create_arg list" where
  "accepted as oks = map fst (filter snd (zip as oks))"

section \<open>Headers and tags\<close>

lemma vargs_append:
  "vargs xs = Some as \<Longrightarrow> vargs (xs @ ys) = map_option ((@) as) (vargs ys)"
proof (induction xs arbitrary: as rule: vargs.induct)
  case 1
  then show ?case by (simp add: option.map_id0 [unfolded id_def])
next
  case (2 h ws)
  define k where "k = (unat (drop_bit 16 h) + 7) div 8"
  have k: "k \<le> length ws"
    using "2.prems" by (auto simp: Let_def k_def split: if_splits)
  obtain bs where bs: "vargs (drop k ws) = Some bs"
      "as = (take_bit 16 h, take (unat (drop_bit 16 h)) (bytes_of_words (take k ws))) # bs"
    using "2.prems" k by (auto simp: Let_def k_def)
  have "vargs (drop k ws @ ys) = map_option ((@) bs) (vargs ys)"
    using "2.IH" [OF refl k_def] k bs(1) by (simp add: k_def)
  then show ?case
    using k bs(2) by (simp add: Let_def k_def [symmetric] option.map_comp comp_def)
qed

lemma header_fields:
  assumes "unat ty < 2 ^ 16" and "n < 2 ^ 16"
  defines "h \<equiv> ty OR push_bit 16 (word_of_nat n) :: u64"
  shows "take_bit 16 h = ty" and "unat (drop_bit 16 h) = n"
proof -
  have ty: "take_bit 16 ty = ty"
  proof (rule word_unat_eq_iff [THEN iffD2])
    show "unat (take_bit 16 ty) = unat ty"
      using assms(1) by (simp add: unsigned_take_bit_eq take_bit_nat_eq_self)
  qed
  show "take_bit 16 h = ty"
    unfolding h_def take_bit_or ty by (simp add: take_bit_push_bit)
  have "drop_bit 16 ty = 0"
    using ty drop_bit_take_bit [of 16 16 ty] by simp
  moreover have "drop_bit 16 (push_bit 16 (word_of_nat n :: u64)) = word_of_nat n"
  proof (rule bit_word_eqI)
    fix i assume i: "i < LENGTH(64)"
    have "take_bit 16 n = n"
      using assms(2) by (simp add: take_bit_nat_eq_self)
    then have "bit n i \<Longrightarrow> i < 16"
      by (metis bit_take_bit_iff)
    then show "bit (drop_bit 16 (push_bit 16 (word_of_nat n :: u64))) i = bit (word_of_nat n :: u64) i"
      using i by (auto simp: tag_bits bit_of_nat_iff)
  qed
  moreover have "unat (word_of_nat n :: u64) = n"
    using assms(2) by (simp add: unat_of_nat)
  ultimately show "unat (drop_bit 16 h) = n"
    unfolding h_def drop_bit_or by simp
qed

lemma with_words_fields:
  assumes "w < 64"
  shows "unat (l4_msgtag_words (with_words t w)) = w"
    and "l4_msgtag_label (with_words t w) = l4_msgtag_label t"
    and "l4_msgtag_items (with_words t w) = l4_msgtag_items t"
    and "msgtag_flags (with_words t w) = msgtag_flags t"
proof -
  have mask: "(0x3f :: i64) = mask 6"
    by (simp add: mask_eq_exp_minus_1)
  have keep: "bit (with_words t w) n = bit t n" if "6 \<le> n" "n < 64" for n
    unfolding with_words_def mask bit_or_iff bit_and_iff bit_not_iff bit_mask_iff
    using that by simp
  have "with_words t w AND 0x3f = word_of_nat w AND 0x3f"
    unfolding with_words_def mask
    by (rule bit_word_eqI, unfold bit_or_iff bit_and_iff bit_not_iff bit_mask_iff) auto
  then have "unat (with_words t w AND 0x3f) = w"
    using assms by (simp add: unat_and_0x3f unat_of_nat)
  then show "unat (l4_msgtag_words (with_words t w)) = w"
    using assms by (simp add: l4_msgtag_words_def unsigned_ucast_eq take_bit_nat_eq_self)
  show "l4_msgtag_label (with_words t w) = l4_msgtag_label t"
    unfolding l4_msgtag_label_def
    by (rule bit_word_eqI) (simp add: bit_signed_drop_bit_iff keep min_def)
  have "signed_drop_bit 6 (with_words t w) AND 0x3f = signed_drop_bit 6 t AND 0x3f"
    by (rule bit_word_eqI) (auto simp: bit_and_iff bit_signed_drop_bit_iff keep min_def)
  then show "l4_msgtag_items (with_words t w) = l4_msgtag_items t"
    by (simp add: l4_msgtag_items_def)
  have "with_words t w AND 0xf000 = t AND 0xf000"
    unfolding tag_masks by (rule bit_word_eqI) (auto simp: tag_bits keep)
  then show "msgtag_flags (with_words t w) = msgtag_flags t"
    by (simp add: msgtag_flags_def)
qed

section \<open>Every addition appends one argument\<close>

lemma bytes_of_words_take: "bytes_of_words (take k ws) = take (8 * k) (bytes_of_words ws)"
proof (induction ws arbitrary: k)
  case Nil
  then show ?case by simp
next
  case (Cons w ws)
  then show ?case by (cases k) simp_all
qed

lemma bytes_of_words_drop: "bytes_of_words (drop k ws) = drop (8 * k) (bytes_of_words ws)"
proof (induction ws arbitrary: k)
  case Nil
  then show ?case by simp
next
  case (Cons w ws)
  then show ?case by (cases k) simp_all
qed

text \<open>A request under construction: the tag counts the protocol and what follows it, all inside the
  registers.\<close>

definition request_ok :: "'z kobj_abi_scheme \<Rightarrow> i64 \<Rightarrow> utcb \<Rightarrow> bool" where
  "request_ok K t u \<longleftrightarrow> length (utcb_mr u) = GENERIC_DATA_SIZE K \<and>
     1 \<le> unat (l4_msgtag_words t) \<and> unat (l4_msgtag_words t) \<le> GENERIC_DATA_SIZE K"

text \<open>What the additions keep: the words counted so far, the other fields of the tag and the buffer
  registers.\<close>

definition keeps :: "i64 \<Rightarrow> utcb \<Rightarrow> i64 \<Rightarrow> utcb \<Rightarrow> bool" where
  "keeps t u t' u' \<longleftrightarrow> take (unat (l4_msgtag_words t)) (utcb_mr u') = untyped_words t u \<and>
     l4_msgtag_label t' = l4_msgtag_label t \<and> l4_msgtag_items t' = l4_msgtag_items t \<and>
     msgtag_flags t' = msgtag_flags t \<and> utcb_br u' = utcb_br u \<and> utcb_bdr u' = utcb_bdr u \<and>
     unat (l4_msgtag_words t) \<le> unat (l4_msgtag_words t')"

lemma vargs_single:
  assumes "unat ty < 2 ^ 16" and "length bs < 2 ^ 16" and "take (length bs) (bytes_of_words ws) = bs"
    and "length ws = (length bs + 7) div 8"
  shows "vargs ((ty OR push_bit 16 (word_of_nat (length bs))) # ws) = Some [(ty, bs)]"
  using header_fields [OF assms(1,2)] assms(3,4) by (simp add: Let_def)

lemma arg_appended:
  fixes t u u' w bs
  defines "w \<equiv> unat (l4_msgtag_words t)"
  defines "w' \<equiv> w + 1 + (length bs + 7) div 8"
  assumes ok: "kobj_ok K" "request_ok K t u"
    and len: "length (utcb_mr u') = GENERIC_DATA_SIZE K"
    and old: "take w (utcb_mr u') = take w (utcb_mr u)"
    and header: "utcb_mr u' ! w = ty OR push_bit 16 (word_of_nat (length bs))" "unat ty < 2 ^ 16"
    and data: "take (length bs) (bytes_of_words (drop (w + 1) (utcb_mr u'))) = bs"
    and room: "w' \<le> GENERIC_DATA_SIZE K"
    and args: "create_args t u = Some as"
  shows "create_args (with_words t w') u' = Some (as @ [(ty, bs)])"
    and "request_ok K (with_words t w') u'"
proof -
  define k where "k = (length bs + 7) div 8"
  define ws where "ws = take k (drop (w + 1) (utcb_mr u'))"
  have w': "w' = w + 1 + k" and w64: "w' < 64"
    using room ok(1) by (simp_all add: w'_def k_def kobj_ok_def)
  have bs: "length bs \<le> 8 * k" and "length bs < 2 ^ 16"
    using w64 w' by (simp_all add: k_def)
  have ws: "length ws = k" "take (length bs) (bytes_of_words ws) = bs"
    using room len data bs by (simp_all add: ws_def w' bytes_of_words_take)
  have "take w' (utcb_mr u') = take w (utcb_mr u) @ utcb_mr u' ! w # ws"
  proof -
    have "take w' (utcb_mr u') = take w (utcb_mr u') @ take (1 + k) (drop w (utcb_mr u'))"
      using take_add [of w "1 + k" "utcb_mr u'"] by (simp add: w')
    also have "drop w (utcb_mr u') = utcb_mr u' ! w # drop (w + 1) (utcb_mr u')"
      using room len by (simp add: w' Cons_nth_drop_Suc)
    finally show ?thesis
      by (simp add: ws_def old)
  qed
  moreover have "take w (utcb_mr u) \<noteq> []"
    using ok(2) by (auto simp: request_ok_def w_def)
  ultimately have "tl (untyped_words (with_words t w') u')
      = tl (untyped_words t u) @ utcb_mr u' ! w # ws"
    using w64 by (simp add: untyped_words_def with_words_fields w_def)
  then show "create_args (with_words t w') u' = Some (as @ [(ty, bs)])"
    using args vargs_append vargs_single [OF header(2) \<open>length bs < 2 ^ 16\<close> ws(2)] ws(1)
    by (simp add: create_args_def header(1) k_def)
  show "request_ok K (with_words t w') u'"
    using w64 room len by (simp add: request_ok_def with_words_fields w')
qed

text \<open>The four additions of fixed size write a header and at most one word.\<close>

lemmas add_word_defs = l4_factory_create_add_int_u_def l4_factory_create_add_uint_u_def
  l4_factory_create_add_fpage_u_def l4_factory_create_add_nil_u_def

lemma word_data:
  fixes w :: nat
  assumes "w + 1 < length mr" and "mr ! (w + 1) = d"
  shows "take 8 (bytes_of_words (drop (w + 1) mr)) = le_bytes 8 (unat d)"
proof -
  have "drop (w + 1) mr = d # drop (w + 2) mr"
    using assms Cons_nth_drop_Suc [of "w + 1" mr] by simp
  then show ?thesis by simp
qed

lemma varg_type_small: "kobj_ok K \<Longrightarrow> unat (fst (arg_value K a)) < 2 ^ 16"
  by (cases a) (simp_all add: kobj_ok_def varg_types_def)

text \<open>One argument was added: the request keeps what it had and carries one argument more.\<close>

definition adds :: "'z kobj_abi_scheme \<Rightarrow> (u64 \<times> u8 list) \<Rightarrow> i64 \<Rightarrow> utcb \<Rightarrow> i64 \<Rightarrow> utcb \<Rightarrow> bool" where
  "adds K v t u t' u' \<longleftrightarrow> request_ok K t' u' \<and> keeps t u t' u' \<and>
     (\<forall>as. create_args t u = Some as \<longrightarrow> create_args t' u' = Some (as @ [v]))"

lemma addsI:
  fixes t u u' bs
  defines "w \<equiv> unat (l4_msgtag_words t)"
  defines "w' \<equiv> w + 1 + (length bs + 7) div 8"
  assumes "kobj_ok K" and "request_ok K t u"
    and "length (utcb_mr u') = GENERIC_DATA_SIZE K"
    and "take w (utcb_mr u') = take w (utcb_mr u)"
    and "utcb_mr u' ! w = ty OR push_bit 16 (word_of_nat (length bs))" and "unat ty < 2 ^ 16"
    and "take (length bs) (bytes_of_words (drop (w + 1) (utcb_mr u'))) = bs"
    and "w' \<le> GENERIC_DATA_SIZE K"
    and br: "utcb_br u' = utcb_br u" "utcb_bdr u' = utcb_bdr u"
  shows "adds K (ty, bs) t u (with_words t w') u'"
proof -
  note appended = arg_appended [of K t u u' ty bs, folded w_def, folded w'_def, OF assms(3-10)]
  have w': "w \<le> w'" "w' < 64"
    using assms(3,10) by (simp_all add: w'_def kobj_ok_def)
  have "request_ok K (with_words t w') u'"
    using w' assms(3-10) by (simp add: request_ok_def with_words_fields) (simp add: w'_def)
  moreover have "keeps t u (with_words t w') u'"
    using w' assms(6) br by (simp add: keeps_def with_words_fields untyped_words_def w_def)
  ultimately show ?thesis
    using appended(1) by (simp add: adds_def)
qed

lemma word_added:
  fixes t u
  defines "w \<equiv> unat (l4_msgtag_words t)"
  assumes "kobj_ok K" and "request_ok K t u" and "w + 2 \<le> GENERIC_DATA_SIZE K" and "unat ty < 2 ^ 16"
  shows "adds K (ty, le_bytes 8 (unat d)) t u (with_words t (w + 2))
    (set_mr (set_mr u w (ty OR push_bit 16 8)) (w + 1) d)"
proof -
  define u' where "u' = set_mr (set_mr u w (ty OR push_bit 16 8)) (w + 1) d"
  have w: "w + 1 < length (utcb_mr u)"
    using assms(3,4) by (simp add: request_ok_def)
  have "take (length (le_bytes 8 (unat d))) (bytes_of_words (drop (w + 1) (utcb_mr u'))) = le_bytes 8 (unat d)"
    using word_data [of w "utcb_mr u'" d] w by (simp add: u'_def set_mr_def)
  then have "adds K (ty, le_bytes 8 (unat d)) t u
      (with_words t (w + 1 + (length (le_bytes 8 (unat d)) + 7) div 8)) u'"
    using assms(2-5) w
    by (intro addsI [of K t u u' ty, folded w_def]) (simp_all add: u'_def set_mr_def request_ok_def)
  then show ?thesis
    by (simp add: u'_def numeral_2_eq_2)
qed

lemma nil_added:
  fixes t u
  defines "w \<equiv> unat (l4_msgtag_words t)"
  assumes "kobj_ok K" and "request_ok K t u" and "w + 1 \<le> GENERIC_DATA_SIZE K" and "unat ty < 2 ^ 16"
  shows "adds K (ty, []) t u (with_words t (w + 1)) (set_mr u w ty)"
proof -
  have "adds K (ty, []) t u (with_words t (w + 1 + (length ([] :: u8 list) + 7) div 8)) (set_mr u w ty)"
    using assms(2-5)
    by (intro addsI [of K t u "set_mr u w ty" ty "[]", folded w_def]) (simp_all add: set_mr_def request_ok_def)
  then show ?thesis
    by simp
qed

text \<open>A poke leaves the words before its address alone and makes its bytes readable there.\<close>

lemma bytes_of_words_inject:
  "length xs = length ys \<Longrightarrow> bytes_of_words xs = bytes_of_words ys \<Longrightarrow> xs = ys"
  by (metis words_of_bytes_of_words)

lemma mr_poke_Returns:
  assumes "mr_poke (8 * i) bs u = Returns u'"
  shows "take i (utcb_mr u') = take i (utcb_mr u)" and "length (utcb_mr u') = length (utcb_mr u)"
    and "take (length bs) (bytes_of_words (drop i (utcb_mr u'))) = bs"
    and "utcb_br u' = utcb_br u" and "utcb_bdr u' = utcb_bdr u"
proof -
  have room: "8 * i + length bs \<le> 8 * length (utcb_mr u)"
    and u': "u' = u\<lparr>utcb_mr := words_of_bytes (length (utcb_mr u))
               (overwrite (bytes_of_words (utcb_mr u)) (8 * i) bs)\<rparr>"
    using assms by (simp_all add: mr_poke_def split: if_splits)
  then show len: "length (utcb_mr u') = length (utcb_mr u)"
    and "utcb_br u' = utcb_br u" and "utcb_bdr u' = utcb_bdr u"
    by simp_all
  have bytes: "bytes_of_words (utcb_mr u') = overwrite (bytes_of_words (utcb_mr u)) (8 * i) bs"
    using room u' by simp
  show "take i (utcb_mr u') = take i (utcb_mr u)"
  proof (rule bytes_of_words_inject)
    show "bytes_of_words (take i (utcb_mr u')) = bytes_of_words (take i (utcb_mr u))"
      using room by (simp add: bytes_of_words_take bytes overwrite_def)
  qed (simp add: len)
  show "take (length bs) (bytes_of_words (drop i (utcb_mr u'))) = bs"
    using room by (simp add: bytes_of_words_drop bytes overwrite_def)
qed

lemma overwrite_snoc:
  "i + length xs < length zs \<Longrightarrow> overwrite (overwrite zs i xs) (i + length xs) [x] = overwrite zs i (xs @ [x])"
  by (simp add: overwrite_def)

lemma mr_poke_snoc:
  "(case mr_poke i bs u of Returns u \<Rightarrow> mr_poke (i + length bs) [b] u | Panics \<Rightarrow> Panics | Overruns \<Rightarrow> Overruns)
   = mr_poke i (bs @ [b]) u"
  by (auto simp: mr_poke_def overwrite_snoc)

lemma mr_poke_not_Panics: "mr_poke i bs u \<noteq> Panics"
  by (simp add: mr_poke_def)

text \<open>\<open>add_str\<close> with its two copies joined.\<close>

lemma add_str_alt:
  "l4_factory_create_add_str_u K s tag u =
     (let w = unat (l4_msgtag_words tag); len = length s
      in if w + 1 + (len + 8 - 1) div 8 > GENERIC_DATA_SIZE K then Returns (False, tag, u)
         else let u = set_mr u w (VARG_STRING K OR push_bit 16 (word_of_nat len))
              in if w + 1 < length (utcb_mr u)
                 then (case mr_poke (8 * (w + 1)) (s @ [0]) u of
                         Returns u \<Rightarrow> Returns (True, with_words tag (w + 1 + (len + 8 - 1) div 8), u)
                       | Panics \<Rightarrow> Panics
                       | Overruns \<Rightarrow> Overruns)
                 else Panics)"
  unfolding l4_factory_create_add_str_u_def Let_def mr_poke_snoc [symmetric]
  by (simp split: outcome.split)

lemma str_added:
  assumes K: "kobj_ok K" "request_ok K t u"
    and res: "l4_factory_create_add_str_u K s t u = Returns (True, t', u')"
  shows "adds K (VARG_STRING K, s) t u t' u'"
proof -
  define w where "w = unat (l4_msgtag_words t)"
  define u1 where "u1 = set_mr u w (VARG_STRING K OR push_bit 16 (word_of_nat (length s)))"
  have room: "w + 1 + (length s + 7) div 8 \<le> GENERIC_DATA_SIZE K" "w + 1 < length (utcb_mr u)"
    and poke: "mr_poke (8 * (w + 1)) (s @ [0]) u1 = Returns u'"
    and t': "t' = with_words t (w + 1 + (length s + 7) div 8)"
    using res
    by (auto simp: add_str_alt Let_def w_def [symmetric] u1_def [symmetric] split: if_splits outcome.splits)
      (simp_all add: u1_def add.commute)
  note poked = mr_poke_Returns [OF poke]
  have words: "take w (utcb_mr u') = take w (utcb_mr u)"
    and header: "utcb_mr u' ! w = VARG_STRING K OR push_bit 16 (word_of_nat (length s))"
  proof -
    have "take w (take (w + 1) (utcb_mr u')) = take w (take (w + 1) (utcb_mr u1))"
      using poked(1) by (rule arg_cong)
    then show "take w (utcb_mr u') = take w (utcb_mr u)"
      by (simp add: u1_def set_mr_def min_def)
    have "take (w + 1) (utcb_mr u') ! w = take (w + 1) (utcb_mr u1) ! w"
      using poked(1) by (rule arg_cong)
    then show "utcb_mr u' ! w = VARG_STRING K OR push_bit 16 (word_of_nat (length s))"
      using room by (simp add: u1_def set_mr_def)
  qed
  have "take (length s) (take (length (s @ [0])) (bytes_of_words (drop (w + 1) (utcb_mr u')))) = s"
    unfolding poked(3) by simp
  then have data: "take (length s) (bytes_of_words (drop (w + 1) (utcb_mr u'))) = s"
    by (simp add: min_def)
  have "unat (VARG_STRING K) < 2 ^ 16"
    using varg_type_small [OF K(1), of "ArgStr s"] by simp
  then show ?thesis
    unfolding t' w_def
    using K words header data room poked(2,4,5)
    by (intro addsI) (simp_all add: w_def u1_def set_mr_def request_ok_def)
qed

lemma add_arg_step:
  assumes "kobj_ok K" and "request_ok K t u" and "add_arg K a t u = Returns (ok, t', u')"
  shows "if ok then adds K (arg_value K a) t u t' u' else t' = t \<and> u' = u"
proof (cases a)
  case (ArgStr s)
  then have res: "l4_factory_create_add_str_u K s t u = Returns (ok, t', u')"
    using assms(3) by simp
  show ?thesis
  proof (cases ok)
    case True
    then show ?thesis
      using str_added [OF assms(1,2)] res ArgStr by simp
  next
    case False
    then show ?thesis
      using res by (auto simp: add_str_alt Let_def split: if_splits outcome.splits)
  qed
next
  case ArgNil
  then show ?thesis
    using assms nil_added [OF assms(1,2)] varg_type_small [OF assms(1), of a]
    by (auto simp: add_word_defs Let_def split: if_splits)
qed (use assms word_added [OF assms(1,2)] varg_type_small [OF assms(1), of a] in
    \<open>auto simp: add_word_defs Let_def split: if_splits\<close>)

lemma keeps_refl: "keeps t u t u"
  by (simp add: keeps_def untyped_words_def)

lemma keeps_trans:
  assumes "keeps t u t' u'" and "keeps t' u' t'' u''"
  shows "keeps t u t'' u''"
proof -
  have "take (unat (l4_msgtag_words t)) (take (unat (l4_msgtag_words t')) (utcb_mr u''))
      = take (unat (l4_msgtag_words t)) (take (unat (l4_msgtag_words t')) (utcb_mr u'))"
    using assms(2) by (simp add: keeps_def untyped_words_def)
  then show ?thesis
    using assms by (simp add: keeps_def untyped_words_def min_def split: if_splits)
qed

lemma accepted_Cons:
  "accepted (a # as) (ok # oks) = (if ok then a # accepted as oks else accepted as oks)"
  by (simp add: accepted_def)

lemma add_args_appends:
  assumes "kobj_ok K" and "request_ok K t u" and "add_args K as t u = Returns (oks, t', u')"
  shows "request_ok K t' u' \<and> keeps t u t' u' \<and> (\<forall>vs. create_args t u = Some vs \<longrightarrow>
    create_args t' u' = Some (vs @ map (arg_value K) (accepted as oks)))"
  using assms(2,3)
proof (induction as arbitrary: t u oks)
  case Nil
  then show ?case
    by (simp add: keeps_refl accepted_def)
next
  case (Cons a as)
  obtain ok t1 u1 oks' where step: "add_arg K a t u = Returns (ok, t1, u1)"
    and rest: "add_args K as t1 u1 = Returns (oks', t', u')" and oks: "oks = ok # oks'"
    using Cons.prems(2) by (auto split: outcome.splits)
  have one: "request_ok K t1 u1" "keeps t u t1 u1"
    using add_arg_step [OF assms(1) Cons.prems(1) step] Cons.prems(1)
    by (auto simp: adds_def keeps_refl split: if_splits)
  then have IH: "request_ok K t' u'" "keeps t u t' u'" "\<And>vs. create_args t1 u1 = Some vs \<Longrightarrow>
      create_args t' u' = Some (vs @ map (arg_value K) (accepted as oks'))"
    using Cons.IH [OF one(1) rest] keeps_trans by blast+
  then show ?case
    using add_arg_step [OF assms(1) Cons.prems(1) step]
    by (auto simp: adds_def oks accepted_Cons split: if_splits)
qed

section \<open>When additions succeed\<close>

definition arg_words :: "create_arg \<Rightarrow> nat" where
  "arg_words a = 1 + (case a of ArgNil \<Rightarrow> 0 | ArgStr s \<Rightarrow> (length s + 7) div 8 | _ \<Rightarrow> 1)"

lemma add_str_outcome:
  assumes "request_ok K t u"
  defines "w \<equiv> unat (l4_msgtag_words t)" and "n \<equiv> GENERIC_DATA_SIZE K"
  shows "l4_factory_create_add_str_u K s t u = Overruns
      \<longleftrightarrow> s \<noteq> [] \<and> length s mod 8 = 0 \<and> w + 1 + length s div 8 = n"
    and "l4_factory_create_add_str_u K s t u = Panics \<longleftrightarrow> s = [] \<and> w + 1 = n"
    and "(\<exists>u'. l4_factory_create_add_str_u K s t u = Returns (True, with_words t (w + arg_words (ArgStr s)), u'))
      \<longleftrightarrow> w + 1 + length s div 8 < n"
proof -
  define q r where "q = length s div 8" and "r = length s mod 8"
  have s: "length s = 8 * q + r" "r < 8"
    by (simp_all add: q_def r_def)
  have up: "(7 + (8 * q + r)) div 8 = (if r = 0 then q else q + 1)"
    using s by auto
  then have up': "(8 * q + r + 7) div 8 = (if r = 0 then q else q + 1)"
    by (simp add: add.commute)
  have ne: "s = [] \<longleftrightarrow> q = 0 \<and> r = 0"
    using s by auto
  have len: "length (utcb_mr u) = n"
    using assms by (simp add: request_ok_def n_def)
  have div: "length s div 8 = q" "length s mod 8 = r"
    by (simp_all add: q_def r_def)
  show "l4_factory_create_add_str_u K s t u = Overruns
      \<longleftrightarrow> s \<noteq> [] \<and> length s mod 8 = 0 \<and> w + 1 + length s div 8 = n"
    unfolding div ne using s len
    by (auto simp: add_str_alt Let_def up mr_poke_def w_def [symmetric] n_def [symmetric]
        split: outcome.splits if_splits)
  show "l4_factory_create_add_str_u K s t u = Panics \<longleftrightarrow> s = [] \<and> w + 1 = n"
    unfolding ne using s len
    by (auto simp: add_str_alt Let_def up mr_poke_def w_def [symmetric] n_def [symmetric]
        split: outcome.splits if_splits)
  show "(\<exists>u'. l4_factory_create_add_str_u K s t u = Returns (True, with_words t (w + arg_words (ArgStr s)), u'))
      \<longleftrightarrow> w + 1 + length s div 8 < n"
    unfolding div ne using s len
    by (auto simp: add_str_alt Let_def up up' mr_poke_def arg_words_def w_def [symmetric] n_def [symmetric]
        split: outcome.splits if_splits)
qed

lemma add_arg_returns:
  assumes "kobj_ok K" and "request_ok K t u"
    and "unat (l4_msgtag_words t) + arg_words a < GENERIC_DATA_SIZE K"
  shows "\<exists>u'. add_arg K a t u = Returns (True, with_words t (unat (l4_msgtag_words t) + arg_words a), u')"
proof (cases a)
  case (ArgStr s)
  then show ?thesis
    using assms(3) add_str_outcome(3) [OF assms(2), of s] by (simp add: arg_words_def)
qed (use assms(3) in \<open>simp_all add: add_word_defs Let_def arg_words_def numeral_2_eq_2\<close>)

lemma add_args_returns:
  assumes "kobj_ok K" and "request_ok K t u"
    and "unat (l4_msgtag_words t) + sum_list (map arg_words as) < GENERIC_DATA_SIZE K"
  shows "\<exists>t' u'. add_args K as t u = Returns (replicate (length as) True, t', u')"
  using assms(2,3)
proof (induction as arbitrary: t u)
  case Nil
  then show ?case by simp
next
  case (Cons a as)
  define w where "w = unat (l4_msgtag_words t) + arg_words a"
  have w: "w < GENERIC_DATA_SIZE K" "w + sum_list (map arg_words as) < GENERIC_DATA_SIZE K"
    using Cons.prems(2) by (simp_all add: w_def)
  obtain u1 where step: "add_arg K a t u = Returns (True, with_words t w, u1)"
    using add_arg_returns [OF assms(1) Cons.prems(1)] w(1) by (auto simp: w_def)
  have "request_ok K (with_words t w) u1"
    using add_arg_step [OF assms(1) Cons.prems(1) step] by (simp add: adds_def)
  moreover have "unat (l4_msgtag_words (with_words t w)) = w"
    using w(1) assms(1) by (intro with_words_fields(1)) (simp add: kobj_ok_def)
  ultimately show ?case
    using Cons.IH [of "with_words t w" u1] w(2) step by auto
qed

lemma start_request:
  assumes "kobj_ok K" and "length (utcb_mr u) = GENERIC_DATA_SIZE K"
    and "l4_factory_create_start_u K protocol target u = (t, u')"
  shows "request_ok K t u'" and "create_args t u' = Some []" and "unat (l4_msgtag_words t) = 1"
    and "l4_msgtag_label t = PROTO_FACTORY K" and "l4_msgtag_items t = 0" and "msgtag_flags t = 0"
    and "untyped_words t u' = [scast protocol]"
    and "utcb_br u' = (utcb_br u)[0 := target OR RCV_ITEM_SINGLE_CAP K]" and "utcb_bdr u' = 0"
proof -
  have t: "t = l4_msgtag (PROTO_FACTORY K) 1 0 0"
    and u': "u' = set_br0 (set_mr u 0 (scast protocol)\<lparr>utcb_bdr := 0\<rparr>) (target OR RCV_ITEM_SINGLE_CAP K)"
    using assms(3) by (simp_all add: l4_factory_create_start_u_def)
  have K: "label_fits (PROTO_FACTORY K)" "0 < length (utcb_mr u)"
    using assms(1,2) by (auto simp: kobj_ok_def)
  then show "l4_msgtag_label t = PROTO_FACTORY K" and "l4_msgtag_items t = 0"
    and "msgtag_flags t = 0" and w: "unat (l4_msgtag_words t) = 1"
    by (simp_all add: t l4_msgtag_label_fits l4_msgtag_items_new msgtag_flags_new l4_msgtag_words_new)
  show words: "untyped_words t u' = [scast protocol]"
    using K(2) by (cases "utcb_mr u") (simp_all add: untyped_words_def w u' set_br0_def set_mr_def)
  then show "create_args t u' = Some []"
    by (simp add: create_args_def)
  show "request_ok K t u'"
    using assms(1,2) by (simp add: request_ok_def kobj_ok_def w) (simp add: u' set_br0_def)
  show "utcb_br u' = (utcb_br u)[0 := target OR RCV_ITEM_SINGLE_CAP K]" and "utcb_bdr u' = 0"
    by (simp_all add: u' set_br0_def set_mr_def)
qed

text \<open>
  C13. A creation request carries the arguments that were added to it. Whatever arguments a caller
  adds to a freshly started request, if the calls return, the registers the tag counts hold the
  protocol followed by exactly the arguments whose addition returned true, in order, each with its
  type and its bytes; the tag still addresses the factory protocol, has no items and counts words
  inside the registers; and the first buffer register still names the target capability. Arguments
  that leave one register free are all accepted, and the calls return.
\<close>
theorem create_request_args:
  assumes "kobj_ok K" and "length (utcb_mr u) = GENERIC_DATA_SIZE K"
    and "l4_factory_create_start_u K protocol target u = (t0, u0)"
  shows "(\<forall>oks t u'. add_args K as t0 u0 = Returns (oks, t, u') \<longrightarrow>
      create_args t u' = Some (map (arg_value K) (accepted as oks)) \<and> hd (untyped_words t u') = scast protocol \<and>
      unat (l4_msgtag_words t) \<le> GENERIC_DATA_SIZE K \<and> l4_msgtag_label t = PROTO_FACTORY K \<and>
      l4_msgtag_items t = 0 \<and> utcb_br u' = (utcb_br u)[0 := target OR RCV_ITEM_SINGLE_CAP K]) \<and>
    (1 + sum_list (map arg_words as) < GENERIC_DATA_SIZE K \<longrightarrow>
      (\<exists>t u'. add_args K as t0 u0 = Returns (replicate (length as) True, t, u')))"
proof (intro conjI allI impI)
  note start = start_request [OF assms]
  fix oks t u' assume "add_args K as t0 u0 = Returns (oks, t, u')"
  from add_args_appends [OF assms(1) start(1) this]
  have added: "request_ok K t u'" "keeps t0 u0 t u'"
      "create_args t u' = Some (map (arg_value K) (accepted as oks))"
    using start(2) by auto
  then show "create_args t u' = Some (map (arg_value K) (accepted as oks))"
    by simp
  have "take 1 (utcb_mr u') = [scast protocol]"
    using added(2) start(3,7) by (simp add: keeps_def)
  then show "hd (untyped_words t u') = scast protocol"
    using added(1) by (cases "utcb_mr u'") (auto simp: untyped_words_def request_ok_def take_Cons')
  show "unat (l4_msgtag_words t) \<le> GENERIC_DATA_SIZE K" and "l4_msgtag_label t = PROTO_FACTORY K"
    and "l4_msgtag_items t = 0" and "utcb_br u' = (utcb_br u)[0 := target OR RCV_ITEM_SINGLE_CAP K]"
    using added(1,2) start by (simp_all add: request_ok_def keeps_def)
next
  assume "1 + sum_list (map arg_words as) < GENERIC_DATA_SIZE K"
  then show "\<exists>t u'. add_args K as t0 u0 = Returns (replicate (length as) True, t, u')"
    using add_args_returns [OF assms(1) start_request(1) [OF assms]] start_request(3) [OF assms] by simp
qed

definition demo_kobj :: kobj_abi where
  "demo_kobj = abi.extend demo_abi \<lparr>PROTO_TASK = -11, PROTO_THREAD = -12, PROTO_FACTORY = -15,
     PROTO_IRQ_SENDER = -1, PROTO_VM = -16, VARG_NIL = 0, VARG_UMWORD = 1, VARG_MWORD = 0x81,
     VARG_STRING = 2, VARG_FPAGE = 3\<rparr>"

lemma demo_kobj_ok: "kobj_ok demo_kobj"
  by (simp add: kobj_ok_def varg_types_def label_fits_def demo_kobj_def demo_abi_def abi.defs)

lemma demo_kobj_size: "GENERIC_DATA_SIZE demo_kobj = 63"
  by (simp add: demo_kobj_def demo_abi_def abi.defs)

lemma length_demo_utcb: "length (utcb_mr (demo_utcb [a, b, c])) = GENERIC_DATA_SIZE demo_kobj"
  by (simp add: demo_kobj_size demo_utcb_def)

theorem create_request_args_witness:
  "case l4_factory_create_start_u demo_kobj (-12) 0x5000 (demo_utcb [0, 0, 0]) of (t0, u0) \<Rightarrow>
     (\<exists>t u'. add_args demo_kobj [ArgStr [104, 105], ArgUint 5, ArgNil] t0 u0 = Returns ([True, True, True], t, u') \<and>
        create_args t u' = Some [(2, [104, 105]), (1, [5, 0, 0, 0, 0, 0, 0, 0]), (0, [])])"
proof -
  obtain t0 u0 where start: "l4_factory_create_start_u demo_kobj (-12) 0x5000 (demo_utcb [0, 0, 0]) = (t0, u0)"
    by (rule prod.exhaust)
  note args = create_request_args [OF demo_kobj_ok length_demo_utcb start, where as = "[ArgStr [104, 105], ArgUint 5, ArgNil]"]
  obtain t u' where res: "add_args demo_kobj [ArgStr [104, 105], ArgUint 5, ArgNil] t0 u0 = Returns ([True, True, True], t, u')"
    using args by (auto simp: demo_kobj_size arg_words_def simp del: add_args.simps)
  have "8 = Suc (Suc (Suc (Suc (Suc (Suc (Suc (Suc 0)))))))"
    by simp
  then have "le_bytes 8 5 = [5, 0, 0, 0, 0, 0, 0, 0]"
    by (simp only: le_bytes.simps) simp
  then have "create_args t u' = Some [(2, [104, 105]), (1, [5, 0, 0, 0, 0, 0, 0, 0]), (0, [])]"
    using args res by (simp add: accepted_def del: add_args.simps) (simp add: demo_kobj_def abi.defs)
  then show ?thesis
    using res by (simp add: start del: add_args.simps)
qed

text \<open>
  C34. C strings and Rust strings are added alike. For a string without zero bytes in memory,
  terminated by a zero byte and followed by anything, \<open>l4_factory_create_add_cstr_u\<close> does exactly
  what \<open>l4_factory_create_add_str_u\<close> does on the string: the same answer, tag and registers, or the
  same failure.
\<close>
theorem add_cstr_eq_add_str:
  assumes "0 \<notin> set s"
  shows "l4_factory_create_add_cstr_u K (s @ 0 # rest) t u = l4_factory_create_add_str_u K s t u"
proof -
  have "strlen (s @ 0 # rest) = Some (length s)"
    using assms by (induction s) auto
  then show ?thesis
    by (simp add: l4_factory_create_add_cstr_u_def add_str_alt Let_def)
qed

theorem add_cstr_eq_add_str_witness:
  "l4_factory_create_add_cstr_u demo_kobj [104, 105, 0, 99] (l4_msgtag 0 1 0 0) (demo_utcb [0, 0, 0])
     = l4_factory_create_add_str_u demo_kobj [104, 105] (l4_msgtag 0 1 0 0) (demo_utcb [0, 0, 0])"
  using add_cstr_eq_add_str [of "[104, 105]" demo_kobj "[99]"] by simp

text \<open>
  The terminating zero byte of a string argument is not counted. On a request inside the
  registers, adding a string writes outside the register array exactly when the string is not empty,
  its length is a multiple of eight and it ends at the end of the registers; it panics exactly when
  the string is empty and only its header fits; it succeeds exactly when the zero byte fits as well.
\<close>
theorem add_str_terminator:
  assumes "request_ok K t u"
  shows "(l4_factory_create_add_str_u K s t u = Overruns \<longleftrightarrow> s \<noteq> [] \<and> length s mod 8 = 0 \<and>
      unat (l4_msgtag_words t) + 1 + length s div 8 = GENERIC_DATA_SIZE K) \<and>
    (l4_factory_create_add_str_u K s t u = Panics \<longleftrightarrow> s = [] \<and>
      unat (l4_msgtag_words t) + 1 = GENERIC_DATA_SIZE K) \<and>
    ((\<exists>t' u'. l4_factory_create_add_str_u K s t u = Returns (True, t', u')) \<longleftrightarrow>
      unat (l4_msgtag_words t) + 1 + length s div 8 < GENERIC_DATA_SIZE K)"
proof -
  have "t' = with_words t (unat (l4_msgtag_words t) + arg_words (ArgStr s))"
    if "l4_factory_create_add_str_u K s t u = Returns (True, t', u')" for t' u'
    using that by (auto simp: add_str_alt Let_def arg_words_def add.assoc add.commute
        split: if_splits outcome.splits)
  then show ?thesis
    using add_str_outcome [OF assms, of s] by blast
qed

theorem add_str_terminator_witness:
  "l4_factory_create_add_str_u demo_kobj (replicate 488 65) (l4_msgtag 0 1 0 0) (demo_utcb [0, 0, 0]) = Overruns \<and>
   request_ok demo_kobj (l4_msgtag 0 1 0 0) (demo_utcb [0, 0, 0])"
proof -
  have ok: "request_ok demo_kobj (l4_msgtag 0 1 0 0) (demo_utcb [0, 0, 0])"
    using length_demo_utcb [of 0 0 0] by (simp add: request_ok_def l4_msgtag_words_new demo_kobj_size)
  then show ?thesis
    using add_str_terminator [OF ok, of "replicate 488 65"]
    by (simp add: l4_msgtag_words_new demo_kobj_size)
qed

section \<open>The messages the kernel gets\<close>

text \<open>The creation functions ignore the answers of the additions: with at least five message
  registers they cannot be false.\<close>

lemma create_task_message:
  assumes "kobj_ok K" and "length (utcb_mr u) = GENERIC_DATA_SIZE K"
  shows "\<exists>t u'. l4_factory_create_task_u K ipc factory target area u w = ipc factory t u' w \<and>
    hd (untyped_words t u') = scast (ucast (PROTO_TASK K) :: i32) \<and>
    create_args t u' = Some [(VARG_FPAGE K, le_bytes 8 (unat area))] \<and> l4_msgtag_items t = 0"
proof -
  obtain t0 u0 where start: "l4_factory_create_start_u K (ucast (PROTO_TASK K)) target u = (t0, u0)"
    by (rule prod.exhaust)
  obtain t u' where add: "l4_factory_create_add_fpage_u K area t0 u0 = (True, t, u')"
    using add_arg_returns [OF assms(1) start_request(1) [OF assms start], of "ArgFpage area"] assms(1)
    by (auto simp: arg_words_def start_request(3) [OF assms start] kobj_ok_def)
  have "add_args K [ArgFpage area] t0 u0 = Returns ([True], t, u')"
    by (simp add: add)
  from add_args_appends [OF assms(1) start_request(1) [OF assms start] this]
  have added: "request_ok K t u'" "keeps t0 u0 t u'" "create_args t u' = Some [arg_value K (ArgFpage area)]"
    using start_request(2) [OF assms start] by (auto simp: accepted_def)
  have "take 1 (utcb_mr u') = [scast (ucast (PROTO_TASK K) :: i32)]"
    using added(2) start_request(3,7) [OF assms start] by (simp add: keeps_def)
  then have "hd (untyped_words t u') = scast (ucast (PROTO_TASK K) :: i32)"
    using added(1) by (cases "utcb_mr u'") (auto simp: untyped_words_def request_ok_def take_Cons')
  then show ?thesis
    using added start_request(5) [OF assms start]
    by (auto simp: l4_factory_create_task_u_def l4_factory_create_commit_u_def start add keeps_def)
qed

end
