(* ===== verification/Task_Api.thy ===== *)
theory Task_Api
  imports Factory L4_Error
begin

text \<open>
  Tasks and capabilities: the task and platform calls of \<open>crates/l4-sys/task.rs\<close> and
  \<open>platform.rs\<close>, the \<open>Task\<close> interface of \<open>crates/l4/task.rs\<close>, capability selectors and their
  transfer (\<open>crates/l4/cap.rs\<close>), owned capability slots and the lookup of initial capabilities
  (\<open>crates/l4re/cap.rs\<close>, \<open>sys.rs\<close>, \<open>env.rs\<close>, with \<open>eq_str_cstr\<close> of \<open>crates/l4-sys/helpers.rs\<close>).

  Functions on the current UTCB are the \<open>_u\<close> functions on it. The registers have at least five
  message registers (\<open>kobj_ok\<close>), so no index check of the fixed-size messages fails.
\<close>

section \<open>Constants\<close>

record task_abi = kobj_abi +
  TASK_MAP_OP :: u64
  TASK_UNMAP_OP :: u64
  TASK_CAP_INFO_OP :: u64
  TASK_ADD_KU_MEM_OP :: u64
  CAP_FPAGE_RWSD :: u8
  FP_DELETE_OBJ :: u64
  FP_ALL_SPACES :: u64
  MAP_ITEM_GRANT :: u32
  MAP_ITEM_MAP :: u32
  BASE_TASK_CAP :: u64
  CAP_SHIFT :: nat

definition obj_control :: "'z abi_scheme \<Rightarrow> u64 \<Rightarrow> u32 \<Rightarrow> u64" where
  "obj_control A snd_base grant = l4_map_obj_control (abi.truncate A) snd_base grant"

section \<open>Calls of l4-sys on tasks\<close>

definition l4_task_map_u :: "'z task_abi_scheme \<Rightarrow> 'w ipc_call \<Rightarrow> u64 \<Rightarrow> u64 \<Rightarrow> u64 \<Rightarrow> u64 \<Rightarrow> utcb \<Rightarrow> 'w
    \<Rightarrow> i64 \<times> utcb \<times> 'w" where
  "l4_task_map_u K ipc dst_task src_task snd_fpage snd_base u w =
     (let u = set_mr u 0 (TASK_MAP_OP K);
          u = set_mr u 3 (obj_control K 0 0);
          u = set_mr u 4 (obj_fpage K src_task 0 (FPAGE_RWX K));
          u = set_mr u 1 snd_base;
          u = set_mr u 2 snd_fpage
      in ipc dst_task (l4_msgtag (PROTO_TASK K) 3 1 0) u w)"

definition l4_task_unmap_u :: "'z task_abi_scheme \<Rightarrow> 'w ipc_call \<Rightarrow> u64 \<Rightarrow> u64 \<Rightarrow> u64 \<Rightarrow> utcb \<Rightarrow> 'w
    \<Rightarrow> i64 \<times> utcb \<times> 'w" where
  "l4_task_unmap_u K ipc task fpage map_mask u w =
     (let u = set_mr u 0 (TASK_UNMAP_OP K);
          u = set_mr u 1 map_mask;
          u = set_mr u 2 fpage
      in ipc task (l4_msgtag (PROTO_TASK K) 3 0 0) u w)"

text \<open>The flex pages are read from memory and copied behind the second register; neither count is
  checked. The sum \<open>2 + num_fpages\<close> is computed in \<open>u32\<close>.\<close>

definition l4_task_unmap_batch_u :: "bool \<Rightarrow> 'z task_abi_scheme \<Rightarrow> 'w ipc_call \<Rightarrow> u64 \<Rightarrow> u64 list \<Rightarrow> u32 \<Rightarrow> u64
    \<Rightarrow> utcb \<Rightarrow> 'w \<Rightarrow> (i64 \<times> utcb \<times> 'w) outcome" where
  "l4_task_unmap_batch_u oc K ipc task fpages num_fpages map_mask u w =
     (let u = set_mr u 0 (TASK_UNMAP_OP K);
          u = set_mr u 1 map_mask;
          n = unat num_fpages
      in if length fpages < n \<or> length (utcb_mr u) < 2 + n then Overruns
         else let u = u\<lparr>utcb_mr := overwrite (utcb_mr u) 2 (take n fpages)\<rparr>
              in case op_add oc 2 num_fpages of
                   None \<Rightarrow> Panics
                 | Some words \<Rightarrow> Returns (ipc task (l4_msgtag (PROTO_TASK K) words 0 0) u w))"

definition l4_task_delete_obj_u :: "'z task_abi_scheme \<Rightarrow> 'w ipc_call \<Rightarrow> u64 \<Rightarrow> u64 \<Rightarrow> utcb \<Rightarrow> 'w
    \<Rightarrow> i64 \<times> utcb \<times> 'w" where
  "l4_task_delete_obj_u K ipc task obj u w =
     l4_task_unmap_u K ipc task (obj_fpage K obj 0 (CAP_FPAGE_RWSD K)) (FP_DELETE_OBJ K) u w"

definition l4_task_release_cap_u :: "'z task_abi_scheme \<Rightarrow> 'w ipc_call \<Rightarrow> u64 \<Rightarrow> u64 \<Rightarrow> utcb \<Rightarrow> 'w
    \<Rightarrow> i64 \<times> utcb \<times> 'w" where
  "l4_task_release_cap_u K ipc task cap u w =
     l4_task_unmap_u K ipc task (obj_fpage K cap 0 (CAP_FPAGE_RWSD K)) (FP_ALL_SPACES K) u w"

definition l4_task_cap_valid_u :: "'z task_abi_scheme \<Rightarrow> 'w ipc_call \<Rightarrow> u64 \<Rightarrow> u64 \<Rightarrow> utcb \<Rightarrow> 'w
    \<Rightarrow> i64 \<times> utcb \<times> 'w" where
  "l4_task_cap_valid_u K ipc task cap u w =
     (let u = set_mr u 0 (TASK_CAP_INFO_OP K);
          u = set_mr u 1 (cap AND NOT 1)
      in ipc task (l4_msgtag (PROTO_TASK K) 2 0 0) u w)"

definition l4_task_cap_equal_u :: "'z task_abi_scheme \<Rightarrow> 'w ipc_call \<Rightarrow> u64 \<Rightarrow> u64 \<Rightarrow> u64 \<Rightarrow> utcb \<Rightarrow> 'w
    \<Rightarrow> i64 \<times> utcb \<times> 'w" where
  "l4_task_cap_equal_u K ipc task cap_a cap_b u w =
     (let u = set_mr u 0 (TASK_CAP_INFO_OP K);
          u = set_mr u 1 cap_a;
          u = set_mr u 2 cap_b
      in ipc task (l4_msgtag (PROTO_TASK K) 3 0 0) u w)"

definition l4_task_add_ku_mem_u :: "'z task_abi_scheme \<Rightarrow> 'w ipc_call \<Rightarrow> u64 \<Rightarrow> u64 \<Rightarrow> utcb \<Rightarrow> 'w
    \<Rightarrow> i64 \<times> utcb \<times> 'w" where
  "l4_task_add_ku_mem_u K ipc task ku_mem u w =
     (let u = set_mr u 0 (TASK_ADD_KU_MEM_OP K);
          u = set_mr u 1 ku_mem
      in ipc task (l4_msgtag (PROTO_TASK K) 2 0 0) u w)"

section \<open>Platform control\<close>

definition l4_platform_ctl_system_suspend_u :: "'w ipc_call \<Rightarrow> u64 \<Rightarrow> u64 \<Rightarrow> utcb \<Rightarrow> 'w \<Rightarrow> i64 \<times> utcb \<times> 'w" where
  "l4_platform_ctl_system_suspend_u ipc pfc extras u w =
     (let u = set_mr u 0 0; u = set_mr u 1 extras in ipc pfc (l4_msgtag 0 2 0 0) u w)"

definition l4_platform_ctl_system_shutdown_u :: "'w ipc_call \<Rightarrow> u64 \<Rightarrow> u64 \<Rightarrow> utcb \<Rightarrow> 'w \<Rightarrow> i64 \<times> utcb \<times> 'w" where
  "l4_platform_ctl_system_shutdown_u ipc pfc reboot u w =
     (let u = set_mr u 0 1; u = set_mr u 1 reboot in ipc pfc (l4_msgtag 0 2 0 0) u w)"

definition l4_platform_ctl_cpu_enable_u :: "'w ipc_call \<Rightarrow> u64 \<Rightarrow> u64 \<Rightarrow> utcb \<Rightarrow> 'w \<Rightarrow> i64 \<times> utcb \<times> 'w" where
  "l4_platform_ctl_cpu_enable_u ipc pfc phys_id u w =
     (let u = set_mr u 0 3; u = set_mr u 1 phys_id in ipc pfc (l4_msgtag 0 2 0 0) u w)"

section \<open>Capability selectors\<close>

text \<open>A \<open>Cap<T>\<close> is its selector.\<close>

definition cap_eq :: "'z task_abi_scheme \<Rightarrow> u64 \<Rightarrow> u64 \<Rightarrow> bool" where
  "cap_eq K a b \<longleftrightarrow> drop_bit (CAP_SHIFT K) a = drop_bit (CAP_SHIFT K) b"

definition is_valid :: "'z abi_scheme \<Rightarrow> u64 \<Rightarrow> bool" where
  "is_valid A c \<longleftrightarrow> c AND INVALID_CAP_BIT A = 0"

definition is_invalid :: "'z abi_scheme \<Rightarrow> u64 \<Rightarrow> bool" where
  "is_invalid A c \<longleftrightarrow> c AND INVALID_CAP_BIT A \<noteq> 0"

definition send_base :: "'z abi_scheme \<Rightarrow> u64 \<Rightarrow> u32 \<Rightarrow> u64 option \<Rightarrow> u64" where
  "send_base A self grant base_cap =
     obj_control A (case base_cap of None \<Rightarrow> self | Some b \<Rightarrow> b) grant"

definition cap_transfer :: "'z task_abi_scheme \<Rightarrow> 'w ipc_call \<Rightarrow> u64 \<Rightarrow> u64 \<Rightarrow> utcb \<Rightarrow> 'w
    \<Rightarrow> (l4_error, unit) result \<times> utcb \<times> 'w" where
  "cap_transfer K ipc self source u w =
     (if \<not> is_valid K self \<or> \<not> is_valid K source then (Inl InvalidCap, u, w)
      else case l4_task_map_u K ipc (BASE_TASK_CAP K) (BASE_TASK_CAP K)
             (obj_fpage K source 0 (CAP_FPAGE_RWSD K))
             (send_base K self (MAP_ITEM_GRANT K) None OR 0xe0) u w of
             (_, u, w) \<Rightarrow> (Inr (), u, w))"

section \<open>The Task interface\<close>

text \<open>The pattern \<open>MsgTag::from(call).result()\<close>; the error register is read in the UTCB the kernel
  leaves.\<close>

definition call_result :: "bool \<Rightarrow> 'z abi_scheme \<Rightarrow> err_env \<Rightarrow> i64 \<times> utcb \<times> 'w
    \<Rightarrow> (l4_error, msg_tag) result option \<times> utcb \<times> 'w" where
  "call_result oc A E answer =
     (case answer of (t, u, w) \<Rightarrow> (tag_result oc (abi.truncate A) E u \<lparr>raw = t\<rparr>, u, w))"

definition task_map_u :: "bool \<Rightarrow> 'z task_abi_scheme \<Rightarrow> err_env \<Rightarrow> 'w ipc_call \<Rightarrow> u64 \<Rightarrow> u64 \<Rightarrow> u64 \<Rightarrow> u64
    \<Rightarrow> utcb \<Rightarrow> 'w \<Rightarrow> (l4_error, msg_tag) result option \<times> utcb \<times> 'w" where
  "task_map_u oc K E ipc self dst_task snd_fpage snd_base u w =
     call_result oc K E (l4_task_map_u K ipc dst_task self snd_fpage snd_base u w)"

definition task_unmap_u :: "bool \<Rightarrow> 'z task_abi_scheme \<Rightarrow> err_env \<Rightarrow> 'w ipc_call \<Rightarrow> u64 \<Rightarrow> u64 \<Rightarrow> u64
    \<Rightarrow> utcb \<Rightarrow> 'w \<Rightarrow> (l4_error, msg_tag) result option \<times> utcb \<times> 'w" where
  "task_unmap_u oc K E ipc self fpage map_mask u w =
     call_result oc K E (l4_task_unmap_u K ipc self fpage map_mask u w)"

definition task_unmap_batch :: "bool \<Rightarrow> 'z task_abi_scheme \<Rightarrow> err_env \<Rightarrow> 'w ipc_call \<Rightarrow> u64 \<Rightarrow> u64 list \<Rightarrow> u64
    \<Rightarrow> u64 \<Rightarrow> utcb \<Rightarrow> 'w \<Rightarrow> ((l4_error, msg_tag) result option \<times> utcb \<times> 'w) outcome" where
  "task_unmap_batch oc K E ipc self fpages num_fpages map_mask u w =
     (case l4_task_unmap_batch_u oc K ipc self fpages (ucast num_fpages) map_mask u w of
        Returns answer \<Rightarrow> Returns (call_result oc K E answer)
      | Panics \<Rightarrow> Panics
      | Overruns \<Rightarrow> Overruns)"

definition task_delete_obj :: "bool \<Rightarrow> 'z task_abi_scheme \<Rightarrow> err_env \<Rightarrow> 'w ipc_call \<Rightarrow> u64 \<Rightarrow> u64
    \<Rightarrow> utcb \<Rightarrow> 'w \<Rightarrow> (l4_error, msg_tag) result option \<times> utcb \<times> 'w" where
  "task_delete_obj oc K E ipc self obj u w = call_result oc K E (l4_task_delete_obj_u K ipc self obj u w)"

definition task_release_cap :: "bool \<Rightarrow> 'z task_abi_scheme \<Rightarrow> err_env \<Rightarrow> 'w ipc_call \<Rightarrow> u64 \<Rightarrow> u64
    \<Rightarrow> utcb \<Rightarrow> 'w \<Rightarrow> (l4_error, msg_tag) result option \<times> utcb \<times> 'w" where
  "task_release_cap oc K E ipc self cap u w = call_result oc K E (l4_task_release_cap_u K ipc self cap u w)"

definition task_add_ku_mem :: "bool \<Rightarrow> 'z task_abi_scheme \<Rightarrow> err_env \<Rightarrow> 'w ipc_call \<Rightarrow> u64 \<Rightarrow> u64
    \<Rightarrow> utcb \<Rightarrow> 'w \<Rightarrow> (l4_error, msg_tag) result option \<times> utcb \<times> 'w" where
  "task_add_ku_mem oc K E ipc self fpage u w = call_result oc K E (l4_task_add_ku_mem_u K ipc self fpage u w)"

text \<open>The two queries answer by the label.\<close>

definition task_cap_valid :: "bool \<Rightarrow> 'z task_abi_scheme \<Rightarrow> err_env \<Rightarrow> 'w ipc_call \<Rightarrow> u64 \<Rightarrow> u64
    \<Rightarrow> utcb \<Rightarrow> 'w \<Rightarrow> (l4_error, bool) result option \<times> utcb \<times> 'w" where
  "task_cap_valid oc K E ipc self cap u w =
     (case call_result oc K E (l4_task_cap_valid_u K ipc self cap u w) of
        (None, u, w) \<Rightarrow> (None, u, w)
      | (Some (Inl e), u, w) \<Rightarrow> (Some (Inl e), u, w)
      | (Some (Inr tag), u, w) \<Rightarrow> (Some (Inr (sint (tag_label tag) > 0)), u, w))"

definition task_cap_equal :: "bool \<Rightarrow> 'z task_abi_scheme \<Rightarrow> err_env \<Rightarrow> 'w ipc_call \<Rightarrow> u64 \<Rightarrow> u64 \<Rightarrow> u64
    \<Rightarrow> utcb \<Rightarrow> 'w \<Rightarrow> (l4_error, bool) result option \<times> utcb \<times> 'w" where
  "task_cap_equal oc K E ipc self cap_a cap_b u w =
     (case call_result oc K E (l4_task_cap_equal_u K ipc self cap_a cap_b u w) of
        (None, u, w) \<Rightarrow> (None, u, w)
      | (Some (Inl e), u, w) \<Rightarrow> (Some (Inl e), u, w)
      | (Some (Inr tag), u, w) \<Rightarrow> (Some (Inr (tag_label tag = 1)), u, w))"

text \<open>\<open>Task::create_from\<close>, with the task and factory selectors of the environment.\<close>

record l4re_env =
  env_task :: u64
  env_factory :: u64

definition create_from :: "bool \<Rightarrow> 'z task_abi_scheme \<Rightarrow> err_env \<Rightarrow> l4re_env \<Rightarrow> 'w ipc_call \<Rightarrow> u64 \<Rightarrow> u64
    \<Rightarrow> utcb \<Rightarrow> 'w \<Rightarrow> (l4_error, u64) result option \<times> utcb \<times> 'w" where
  "create_from oc K E env ipc task_cap utcb_area u w =
     (case call_result oc K E (l4_factory_create_task_u K ipc (env_factory env) task_cap utcb_area u w) of
        (None, u, w) \<Rightarrow> (None, u, w)
      | (Some (Inl e), u, w) \<Rightarrow> (Some (Inl e), u, w)
      | (Some (Inr _), u, w) \<Rightarrow>
         (let current = env_task env
          in case call_result oc K E (l4_task_map_u K ipc task_cap current
                    (obj_fpage K task_cap 0 (CAP_FPAGE_RWSD K)) (obj_control K task_cap (MAP_ITEM_MAP K)) u w) of
               (None, u, w) \<Rightarrow> (None, u, w)
             | (Some (Inl e), u, w) \<Rightarrow> (Some (Inl e), u, w)
             | (Some (Inr _), u, w) \<Rightarrow>
                 (case call_result oc K E (l4_task_map_u K ipc task_cap current
                         (obj_fpage K current 0 (CAP_FPAGE_RWSD K)) (obj_control K current (MAP_ITEM_MAP K)) u w) of
                    (None, u, w) \<Rightarrow> (None, u, w)
                  | (Some (Inl e), u, w) \<Rightarrow> (Some (Inl e), u, w)
                  | (Some (Inr _), u, w) \<Rightarrow> (Some (Inr task_cap), u, w))))"

section \<open>Owned capability slots\<close>

text \<open>The slot allocator of the L4Re library is a parameter: its state and two functions.\<close>

record 'a slot_alloc =
  cap_alloc :: "'a \<Rightarrow> u64 \<times> 'a"
  cap_free :: "u64 \<Rightarrow> 'a \<Rightarrow> 'a"

definition owned_alloc :: "'a slot_alloc \<Rightarrow> 'a \<Rightarrow> u64 \<times> 'a" where
  "owned_alloc S a = cap_alloc S a"

definition owned_drop :: "'a slot_alloc \<Rightarrow> u64 \<Rightarrow> 'a \<Rightarrow> 'a" where
  "owned_drop S cap a = cap_free S cap a"

text \<open>On an early return the freshly allocated slot goes out of scope and is dropped.\<close>

definition owned_from :: "'z task_abi_scheme \<Rightarrow> 'w ipc_call \<Rightarrow> 'a slot_alloc \<Rightarrow> u64 \<Rightarrow> utcb \<Rightarrow> 'w \<Rightarrow> 'a
    \<Rightarrow> (l4_error, u64) result \<times> utcb \<times> 'w \<times> 'a" where
  "owned_from K ipc S src u w a =
     (case owned_alloc S a of
        (cap, a) \<Rightarrow>
          (case cap_transfer K ipc cap src u w of
             (Inl e, u, w) \<Rightarrow> (Inl e, u, w, owned_drop S cap a)
           | (Inr _, u, w) \<Rightarrow>
               if is_valid K cap then (Inr cap, u, w, a)
               else (Inl InvalidCap, u, w, owned_drop S cap a)))"

section \<open>Initial capabilities\<close>

fun eq_str_cstr :: "u8 list \<Rightarrow> u8 list \<Rightarrow> bool outcome" where
  "eq_str_cstr (byte # bytes) (n # mem) =
     (if n = 0 then Returns False else if n \<noteq> byte then Returns False else eq_str_cstr bytes mem)"
| "eq_str_cstr [] (n # mem) = Returns (n = 0)"
| "eq_str_cstr bytes [] = Overruns"

text \<open>An entry of the environment's table: selector, flags, and the memory from its name on.\<close>

record env_entry =
  entry_cap :: u64
  entry_flags :: u64
  entry_name :: "u8 list"

fun l4re_env_get_cap_l :: "u8 list \<Rightarrow> env_entry list \<Rightarrow> env_entry option outcome" where
  "l4re_env_get_cap_l name [] = Overruns"
| "l4re_env_get_cap_l name (c # cs) =
     (if entry_flags c = NOT 0 then Returns None
      else case eq_str_cstr name (entry_name c) of
             Returns True \<Rightarrow> Returns (Some c)
           | Returns False \<Rightarrow> l4re_env_get_cap_l name cs
           | Panics \<Rightarrow> Panics
           | Overruns \<Rightarrow> Overruns)"

text \<open>A null environment and a null table hold nothing.\<close>

definition l4re_env_get_cap :: "u8 list \<Rightarrow> env_entry list option option \<Rightarrow> u64 option outcome" where
  "l4re_env_get_cap name env =
     (case env of
        None \<Rightarrow> Returns None
      | Some None \<Rightarrow> Returns None
      | Some (Some caps) \<Rightarrow>
          (case l4re_env_get_cap_l name caps of
             Returns r \<Rightarrow> Returns (map_option entry_cap r)
           | Panics \<Rightarrow> Panics
           | Overruns \<Rightarrow> Overruns))"

section \<open>Lookup of initial capabilities\<close>

lemma eq_str_cstr_eq:
  "0 \<in> set mem \<Longrightarrow> eq_str_cstr name mem = Returns (takeWhile (\<lambda>b. b \<noteq> 0) mem = name)"
  by (induction name mem rule: eq_str_cstr.induct) (auto simp: eq_commute)

text \<open>
  Initial capabilities are found by name. In a table whose names are terminated and which ends
  with the terminating entry, the lookup returns, and its result is the selector of the first entry
  before the terminator whose name, up to its zero byte, is the requested one; entries behind the
  terminator are never looked at, and without such an entry the answer is \<open>None\<close>.
\<close>
theorem env_get_cap_finds:
  assumes "\<forall>c\<in>set entries. entry_flags c \<noteq> NOT 0 \<and> 0 \<in> set (entry_name c)" and "entry_flags sentinel = NOT 0"
  shows "l4re_env_get_cap name (Some (Some (entries @ sentinel # rest))) =
    Returns (map_option entry_cap (find (\<lambda>c. takeWhile (\<lambda>b. b \<noteq> 0) (entry_name c) = name) entries))"
proof -
  have "l4re_env_get_cap_l name (entries @ sentinel # rest) =
      Returns (find (\<lambda>c. takeWhile (\<lambda>b. b \<noteq> 0) (entry_name c) = name) entries)"
    using assms by (induction entries) (auto simp: eq_str_cstr_eq)
  then show ?thesis
    by (simp add: l4re_env_get_cap_def)
qed

theorem env_get_cap_finds_witness:
  "l4re_env_get_cap [104, 105] (Some (Some
     [\<lparr>entry_cap = 0x3000, entry_flags = 0, entry_name = [104, 0, 7]\<rparr>,
      \<lparr>entry_cap = 0x4000, entry_flags = 0, entry_name = [104, 105, 0]\<rparr>,
      \<lparr>entry_cap = 0, entry_flags = NOT 0, entry_name = []\<rparr>])) = Returns (Some 0x4000)"
proof -
  define entries where "entries = [\<lparr>entry_cap = 0x3000, entry_flags = 0, entry_name = [104, 0, 7]\<rparr>,
      \<lparr>entry_cap = 0x4000, entry_flags = 0, entry_name = [104, 105, 0 :: u8]\<rparr>]"
  have "\<forall>c\<in>set entries. entry_flags c \<noteq> NOT 0 \<and> 0 \<in> set (entry_name c)"
    by (simp add: entries_def)
  from env_get_cap_finds [OF this, where name = "[104, 105]" and rest = "[]"
      and sentinel = "\<lparr>entry_cap = 0, entry_flags = NOT 0, entry_name = []\<rparr>"]
  show ?thesis
    by (simp add: entries_def)
qed

section \<open>Messages to tasks\<close>

text \<open>What a message delivers, destination, label, words and items, and the tag and registers of the
  answer, as recorded in front of a kernel.\<close>

type_synonym sent = "u64 \<times> i64 \<times> u64 list \<times> (u64 \<times> u64) list"
type_synonym exchange = "sent \<times> i64 \<times> utcb"

definition logged :: "'w ipc_call \<Rightarrow> (exchange list \<times> 'w) ipc_call" where
  "logged ipc d t u lw =
     (case lw of (log, w) \<Rightarrow>
        (case ipc d t u w of (t', u', w') \<Rightarrow>
           (t', u', log @ [((d, l4_msgtag_label t, untyped_words t u, typed_items t u), t', u')], w')))"

definition answer :: "bool \<Rightarrow> 'z abi_scheme \<Rightarrow> err_env \<Rightarrow> exchange \<Rightarrow> (l4_error, msg_tag) result option" where
  "answer oc A E x = (case x of (_, t, u) \<Rightarrow> tag_result oc (abi.truncate A) E u \<lparr>raw = t\<rparr>)"

text \<open>A call leaves the thread its register array.\<close>

definition keeps_regs :: "'w ipc_call \<Rightarrow> bool" where
  "keeps_regs ipc \<longleftrightarrow> (\<forall>d t u w. length (utcb_mr (fst (snd (ipc d t u w)))) = length (utcb_mr u))"

lemma keeps_regsD: "keeps_regs ipc \<Longrightarrow> ipc d t u w = (t', u', w') \<Longrightarrow> length (utcb_mr u') = length (utcb_mr u)"
  unfolding keeps_regs_def by (metis fst_conv snd_conv)

definition map_message :: "'z task_abi_scheme \<Rightarrow> u64 \<Rightarrow> u64 \<Rightarrow> u64 \<Rightarrow> u64 \<Rightarrow> sent" where
  "map_message K dst src fpage base =
     (dst, PROTO_TASK K, [TASK_MAP_OP K, base, fpage], [(obj_control K 0 0, obj_fpage K src 0 (FPAGE_RWX K))])"

definition create_message :: "'z task_abi_scheme \<Rightarrow> u64 \<Rightarrow> u64 \<Rightarrow> sent" where
  "create_message K factory area = (factory, PROTO_FACTORY K,
     [scast (ucast (PROTO_TASK K) :: i32), VARG_FPAGE K OR push_bit 16 8, area], [])"

definition task_ok :: "'z task_abi_scheme \<Rightarrow> bool" where
  "task_ok K \<longleftrightarrow> kobj_ok K \<and> label_fits (PROTO_TASK K)"

lemma five_registers:
  assumes "5 \<le> length mr"
  obtains a b c d e rest where "mr = a # b # c # d # e # rest"
  using assms by (auto simp: eval_nat_numeral Suc_le_length_iff)

lemma new_tag_fields:
  "label_fits l \<Longrightarrow> l4_msgtag_label (l4_msgtag l w i 0) = l"
  "unat (l4_msgtag_words (l4_msgtag l 3 i 0)) = 3"
  "l4_msgtag_items (l4_msgtag l w 1 0) = 1" "l4_msgtag_items (l4_msgtag l w 0 0) = 0"
  by (simp_all add: l4_msgtag_label_fits l4_msgtag_words_new l4_msgtag_items_new)

lemma task_map_sends:
  assumes "task_ok K" and "5 \<le> length (utcb_mr u)" and "keeps_regs ipc"
  shows "\<exists>t' u' w'. l4_task_map_u K (logged ipc) dst src fpage base u (log, w) =
    (t', u', log @ [(map_message K dst src fpage base, t', u')], w') \<and> length (utcb_mr u') = length (utcb_mr u)"
proof -
  define tag where "tag = l4_msgtag (PROTO_TASK K) 3 1 0"
  define u1 where "u1 = set_mr (set_mr (set_mr (set_mr (set_mr u 0 (TASK_MAP_OP K)) 3 (obj_control K 0 0)) 4
      (obj_fpage K src 0 (FPAGE_RWX K))) 1 base) 2 fpage"
  obtain t' u' w' where ipc: "ipc dst tag u1 w = (t', u', w')"
    by (metis prod_cases3)
  obtain a b c d e rest where "utcb_mr u = a # b # c # d # e # rest"
    using five_registers [OF assms(2)] .
  then have mr: "utcb_mr u1 = TASK_MAP_OP K # base # fpage # obj_control K 0 0 #
      obj_fpage K src 0 (FPAGE_RWX K) # rest"
    by (simp add: u1_def set_mr_def)
  have "l4_msgtag_label tag = PROTO_TASK K" "unat (l4_msgtag_words tag) = 3" "l4_msgtag_items tag = 1"
    using assms(1) by (simp_all add: tag_def new_tag_fields task_ok_def)
  then have "(dst, l4_msgtag_label tag, untyped_words tag u1, typed_items tag u1) = map_message K dst src fpage base"
    by (simp add: map_message_def untyped_words_def typed_items_def get_mr_def mr)
  moreover have "l4_task_map_u K (logged ipc) dst src fpage base u (log, w) = logged ipc dst tag u1 (log, w)"
    by (simp only: l4_task_map_u_def Let_def u1_def tag_def)
  ultimately have "l4_task_map_u K (logged ipc) dst src fpage base u (log, w) =
      (t', u', log @ [(map_message K dst src fpage base, t', u')], w')"
    by (simp add: logged_def ipc)
  moreover have "length (utcb_mr u') = length (utcb_mr u)"
    using keeps_regsD [OF assms(3) ipc] by (simp add: u1_def)
  ultimately show ?thesis
    by blast
qed

lemma create_task_sends:
  assumes "task_ok K" and "length (utcb_mr u) = GENERIC_DATA_SIZE K" and "keeps_regs ipc"
  shows "\<exists>t' u' w'. l4_factory_create_task_u K (logged ipc) factory target area u (log, w) =
    (t', u', log @ [(create_message K factory area, t', u')], w') \<and> length (utcb_mr u') = length (utcb_mr u)"
proof -
  define u1 where "u1 = set_mr (set_mr (set_br0 (set_mr u 0 (scast (ucast (PROTO_TASK K) :: i32))\<lparr>utcb_bdr := 0\<rparr>)
      (target OR RCV_ITEM_SINGLE_CAP K)) 1 (VARG_FPAGE K OR push_bit 16 8)) 2 area"
  define t0 where "t0 = l4_msgtag (PROTO_FACTORY K) 1 0 0"
  have K: "5 \<le> length (utcb_mr u)" "label_fits (PROTO_FACTORY K)"
    using assms(1,2) by (simp_all add: task_ok_def kobj_ok_def)
  have t0: "unat (l4_msgtag_words t0) = 1" "l4_msgtag_label t0 = PROTO_FACTORY K" "l4_msgtag_items t0 = 0"
    using K(2) by (simp_all add: t0_def l4_msgtag_words_new new_tag_fields)
  then have add: "l4_factory_create_add_fpage_u K area t0
      (set_br0 (set_mr u 0 (scast (ucast (PROTO_TASK K) :: i32))\<lparr>utcb_bdr := 0\<rparr>) (target OR RCV_ITEM_SINGLE_CAP K))
      = (True, with_words t0 3, u1)"
    using assms(1) by (simp add: l4_factory_create_add_fpage_u_def Let_def u1_def task_ok_def kobj_ok_def
        numeral_2_eq_2 numeral_3_eq_3)
  obtain t' u' w' where ipc: "ipc factory (with_words t0 3) u1 w = (t', u', w')"
    by (metis prod_cases3)
  obtain a b c d e rest where "utcb_mr u = a # b # c # d # e # rest"
    using five_registers [OF K(1)] .
  then have mr: "utcb_mr u1 = scast (ucast (PROTO_TASK K) :: i32) # (VARG_FPAGE K OR push_bit 16 8) # area # d # e # rest"
    by (simp add: u1_def set_mr_def set_br0_def)
  have "(factory, l4_msgtag_label (with_words t0 3), untyped_words (with_words t0 3) u1,
      typed_items (with_words t0 3) u1) = create_message K factory area"
    by (simp add: create_message_def untyped_words_def typed_items_def with_words_fields t0 mr)
  then have "l4_factory_create_task_u K (logged ipc) factory target area u (log, w) =
      (t', u', log @ [(create_message K factory area, t', u')], w')"
    by (simp add: l4_factory_create_task_u_def l4_factory_create_start_u_def l4_factory_create_commit_u_def
        Let_def t0_def [symmetric] add logged_def ipc)
  moreover have "length (utcb_mr u') = length (utcb_mr u)"
    using keeps_regsD [OF assms(3) ipc] by (simp add: u1_def)
  ultimately show ?thesis
    by blast
qed

lemma answer_total: "\<exists>r. answer oc A E x = Some r"
  using tag_result_total by (auto simp: answer_def split: prod.splits)

text \<open>One step of \<open>create_from\<close>: a call whose exchange is recorded, and its result.\<close>

lemma call_result_sends:
  assumes "\<exists>t' u' w'. call = (t', u', log @ [(m, t', u')], w') \<and> length (utcb_mr u') = n"
  obtains r t' u' w' where "call_result oc A E call = (Some r, u', log @ [(m, t', u')], w')"
    and "answer oc A E (m, t', u') = Some r" and "length (utcb_mr u') = n"
proof -
  obtain t' u' w' where call: "call = (t', u', log @ [(m, t', u')], w')" and n: "length (utcb_mr u') = n"
    using assms by blast
  obtain r where "answer oc A E (m, t', u') = Some r"
    using answer_total by blast
  then show thesis
    using that [of r u' t' w'] call n by (simp add: call_result_def answer_def)
qed

text \<open>
  C14. \<open>Task::create_from\<close> asks for a task, maps the new task into itself and the creator into it,
  in this order, and stops at the first refusal. The messages that reach the kernel are a non-empty
  beginning of these three, each as its protocol demands; every answer but the last was a success;
  the result is the error of the last answer, or the new task when all three were sent and answered
  by success. The call never panics.
\<close>
theorem create_from_sends:
  assumes "task_ok K" and "length (utcb_mr u) = GENERIC_DATA_SIZE K" and "keeps_regs ipc"
    and "create_from oc K E env (logged ipc) cap area u ([], w) = (r, u', log, w')"
  shows "map fst log = take (length log)
      [create_message K (env_factory env) area,
       map_message K cap (env_task env) (obj_fpage K cap 0 (CAP_FPAGE_RWSD K))
         (obj_control K cap (MAP_ITEM_MAP K)),
       map_message K cap (env_task env) (obj_fpage K (env_task env) 0 (CAP_FPAGE_RWSD K))
         (obj_control K (env_task env) (MAP_ITEM_MAP K))] \<and>
    log \<noteq> [] \<and> (\<forall>x\<in>set (butlast log). \<exists>t. answer oc K E x = Some (Inr t)) \<and>
    (case answer oc K E (last log) of
       Some (Inl e) \<Rightarrow> r = Some (Inl e)
     | Some (Inr t) \<Rightarrow> r = Some (Inr cap) \<and> length log = 3
     | None \<Rightarrow> False)"
proof -
  let ?env = "env_task env"
  let ?map = "\<lambda>c. map_message K cap ?env (obj_fpage K c 0 (CAP_FPAGE_RWSD K)) (obj_control K c (MAP_ITEM_MAP K))"
  let ?call = "\<lambda>c v l. l4_task_map_u K (logged ipc) cap ?env (obj_fpage K c 0 (CAP_FPAGE_RWSD K))
      (obj_control K c (MAP_ITEM_MAP K)) v l"
  let ?m1 = "create_message K (env_factory env) area"
  have five: "5 \<le> length (utcb_mr u)"
    using assms(1,2) by (simp add: task_ok_def kobj_ok_def)
  have maps: "\<exists>t' u' w'. ?call c v (l, w) = (t', u', l @ [(?map c, t', u')], w') \<and>
      length (utcb_mr u') = length (utcb_mr u)" if "length (utcb_mr v) = length (utcb_mr u)" for c v l w
    using task_map_sends [OF assms(1) _ assms(3), of v] that five by (simp only:)
  obtain r1 t1 u1 w1 where
    one: "call_result oc K E (l4_factory_create_task_u K (logged ipc) (env_factory env) cap area u ([], w))
      = (Some r1, u1, [] @ [(?m1, t1, u1)], w1)"
      "answer oc K E (?m1, t1, u1) = Some r1" "length (utcb_mr u1) = length (utcb_mr u)"
    using call_result_sends [OF create_task_sends [OF assms(1-3)]] .
  obtain r2 t2 u2 w2 where
    two: "call_result oc K E (?call cap u1 ([(?m1, t1, u1)], w1))
      = (Some r2, u2, [(?m1, t1, u1)] @ [(?map cap, t2, u2)], w2)"
      "answer oc K E (?map cap, t2, u2) = Some r2" "length (utcb_mr u2) = length (utcb_mr u)"
    using call_result_sends [OF maps [OF one(3)]] .
  obtain r3 t3 u3 w3 where
    three: "call_result oc K E (?call ?env u2 ([(?m1, t1, u1), (?map cap, t2, u2)], w2))
      = (Some r3, u3, [(?m1, t1, u1), (?map cap, t2, u2)] @ [(?map ?env, t3, u3)], w3)"
      "answer oc K E (?map ?env, t3, u3) = Some r3" "length (utcb_mr u3) = length (utcb_mr u)"
    using call_result_sends [OF maps [OF two(3)]] .
  consider e where "r1 = Inl e" | a e where "r1 = Inr a" "r2 = Inl e"
    | a b e where "r1 = Inr a" "r2 = Inr b" "r3 = Inl e" | a b c where "r1 = Inr a" "r2 = Inr b" "r3 = Inr c"
    by (meson sum.exhaust)
  then show ?thesis
    using assms(4) one(1,2) two(1,2) three(1,2) by cases (auto simp: create_from_def Let_def)
qed

definition demo_task :: task_abi where
  "demo_task = kobj_abi.extend demo_kobj \<lparr>TASK_MAP_OP = 0, TASK_UNMAP_OP = 1, TASK_CAP_INFO_OP = 2,
     TASK_ADD_KU_MEM_OP = 3, CAP_FPAGE_RWSD = 15, FP_DELETE_OBJ = 0xc0000000, FP_ALL_SPACES = 0x80000000,
     MAP_ITEM_GRANT = 2, MAP_ITEM_MAP = 0, BASE_TASK_CAP = 0x1000, CAP_SHIFT = 12\<rparr>"

lemmas demo_task_defs = demo_task_def demo_kobj_def demo_abi_def kobj_abi.defs abi.defs

lemma demo_task_consts: "CAP_FPAGE_RWSD demo_task = 15" "MAP_ITEM_MAP demo_task = 0"
  by (simp_all add: demo_task_def kobj_abi.defs)

definition demo_l4re_env :: l4re_env where
  "demo_l4re_env = \<lparr>env_task = 0x1000, env_factory = 0x2000\<rparr>"

definition agreeing :: "unit ipc_call" where
  "agreeing d t u w = (0, u, w)"

lemma demo_task_ok: "task_ok demo_task"
  using demo_kobj_ok
  by (simp add: task_ok_def kobj_ok_def varg_types_def label_fits_def demo_task_defs)

lemma agreeing_regs: "keeps_regs agreeing"
  by (simp add: keeps_regs_def agreeing_def)

lemma agreeing_result: "tag_result oc (abi.truncate demo_task) E u \<lparr>raw = 0\<rparr> = Some (Inr \<lparr>raw = 0\<rparr>)"
  by (simp add: tag_result_def has_error_def tag_label_def)

theorem create_from_sends_witness:
  "\<exists>u' log. create_from True demo_task demo_errors demo_l4re_env (logged agreeing) 0x9000 0x5000 (demo_utcb [0, 0, 0]) ([], ())
     = (Some (Inr 0x9000), u', log, ()) \<and>
     map fst log = [create_message demo_task 0x2000 0x5000,
       map_message demo_task 0x9000 0x1000 (obj_fpage demo_task 0x9000 0 15) (obj_control demo_task 0x9000 0),
       map_message demo_task 0x9000 0x1000 (obj_fpage demo_task 0x1000 0 15) (obj_control demo_task 0x1000 0)]"
proof -
  obtain r u' log v where "create_from True demo_task demo_errors demo_l4re_env (logged agreeing) 0x9000 0x5000
      (demo_utcb [0, 0, 0]) ([], ()) = (r, u', log, v)"
    by (rule prod_cases4)
  then have res: "create_from True demo_task demo_errors demo_l4re_env (logged agreeing) 0x9000 0x5000
      (demo_utcb [0, 0, 0]) ([], ()) = (r, u', log, ())"
    by simp
  then have "r = Some (Inr 0x9000)"
    by (auto simp: create_from_def call_result_def l4_factory_create_task_u_def l4_factory_create_commit_u_def
        l4_task_map_u_def Let_def logged_def agreeing_def agreeing_result split: prod.splits)
  moreover have size: "length (utcb_mr (demo_utcb [0, 0, 0])) = GENERIC_DATA_SIZE demo_task"
    by (simp add: demo_task_defs demo_utcb_def)
  note sends = create_from_sends [OF demo_task_ok size agreeing_regs res]
  ultimately have "length log = 3"
    by (auto split: option.splits sum.splits)
  then have "map fst log = [create_message demo_task 0x2000 0x5000,
       map_message demo_task 0x9000 0x1000 (obj_fpage demo_task 0x9000 0 15) (obj_control demo_task 0x9000 0),
       map_message demo_task 0x9000 0x1000 (obj_fpage demo_task 0x1000 0 15) (obj_control demo_task 0x1000 0)]"
    using sends by (simp add: demo_l4re_env_def demo_task_consts)
  then show ?thesis
    using res \<open>r = Some (Inr 0x9000)\<close> by auto
qed

text \<open>
  \<open>OwnedCap::from\<close> either moves the source into a fresh slot or gives the slot back. When the
  allocated slot and the source are valid selectors, the result is the slot, which stays allocated,
  and exactly one message was sent, the request to the own task to grant the source to the slot;
  whatever the kernel answers to it. Otherwise the result is \<open>InvalidCap\<close>, the slot is freed and
  nothing was sent.
\<close>
theorem owned_from_slot:
  assumes "task_ok K" and "length (utcb_mr u) = GENERIC_DATA_SIZE K" and "keeps_regs ipc"
    and "cap_alloc S a = (cap, a1)"
    and "owned_from K (logged ipc) S src u (log, w) a = (r, u', (log', w'), a')"
  shows "if is_valid K cap \<and> is_valid K src
    then r = Inr cap \<and> a' = a1 \<and> (\<exists>t. log' = log @ [(map_message K (BASE_TASK_CAP K) (BASE_TASK_CAP K)
        (obj_fpage K src 0 (CAP_FPAGE_RWSD K)) (obj_control K cap (MAP_ITEM_GRANT K) OR 0xe0), t, u')])
    else r = Inl InvalidCap \<and> a' = cap_free S cap a1 \<and> u' = u \<and> log' = log \<and> w' = w"
proof -
  have "5 \<le> length (utcb_mr u)"
    using assms(1,2) by (simp add: task_ok_def kobj_ok_def)
  from task_map_sends [OF assms(1) this assms(3), of "BASE_TASK_CAP K" "BASE_TASK_CAP K"
      "obj_fpage K src 0 (CAP_FPAGE_RWSD K)" "obj_control K cap (MAP_ITEM_GRANT K) OR 0xe0" log w]
  show ?thesis
    using assms(4,5) by (auto simp: owned_from_def owned_alloc_def owned_drop_def cap_transfer_def send_base_def)
qed

text \<open>A stack of free slots as the allocator.\<close>

definition demo_slots :: "u64 list slot_alloc" where
  "demo_slots = \<lparr>cap_alloc = (\<lambda>s. case s of [] \<Rightarrow> (0x800, []) | c # cs \<Rightarrow> (c, cs)),
     cap_free = (\<lambda>c s. if c = 0x800 then s else c # s)\<rparr>"

theorem owned_from_slot_witness:
  "(\<exists>u' log. owned_from demo_task (logged agreeing) demo_slots 0x7000 (demo_utcb [0, 0, 0]) ([], ()) [0x9000]
     = (Inr 0x9000, u', (log, ()), []) \<and> length log = 1) \<and>
   (\<exists>u'. owned_from demo_task (logged agreeing) demo_slots 0x7800 (demo_utcb [0, 0, 0]) ([], ()) [0x9000]
     = (Inl InvalidCap, u', ([], ()), [0x9000]))"
proof -
  have size: "length (utcb_mr (demo_utcb [0, 0, 0])) = GENERIC_DATA_SIZE demo_task"
    by (simp add: demo_task_defs demo_utcb_def)
  have alloc: "cap_alloc demo_slots [0x9000] = (0x9000, [])"
    by (simp add: demo_slots_def)
  have valid: "is_valid demo_task 0x9000" "is_valid demo_task 0x7000" "\<not> is_valid demo_task 0x7800"
    by (simp_all add: is_valid_def demo_task_defs)
  have free: "cap_free demo_slots 0x9000 [] = [0x9000]"
    by (simp add: demo_slots_def)
  have shape: "\<exists>r u' log a'. x = (r, u', (log, ()), a')" for x :: "(l4_error, u64) result \<times> utcb \<times> (exchange list \<times> unit) \<times> u64 list"
    by (cases x) auto
  obtain r u' log a' where one: "owned_from demo_task (logged agreeing) demo_slots 0x7000 (demo_utcb [0, 0, 0]) ([], ()) [0x9000]
      = (r, u', (log, ()), a')"
    using shape by blast
  obtain r2 u2 log2 a2 where two: "owned_from demo_task (logged agreeing) demo_slots 0x7800 (demo_utcb [0, 0, 0]) ([], ()) [0x9000]
      = (r2, u2, (log2, ()), a2)"
    using shape by blast
  show ?thesis
    using owned_from_slot [OF demo_task_ok size agreeing_regs alloc one]
      owned_from_slot [OF demo_task_ok size agreeing_regs alloc two] one two
    by (auto simp: valid free)
qed

section \<open>Further facts\<close>

text \<open>Unmapping a batch: up to the documented number of pages, and within the memory given, the pages
  are the words behind the mask; beyond it the copy leaves the registers.\<close>

lemma unmap_batch_sends:
  assumes "task_ok K" and "length (utcb_mr u) = GENERIC_DATA_SIZE K" and "unat n \<le> length fpages"
  shows "if unat n \<le> GENERIC_DATA_SIZE K - 2
    then \<exists>t u'. l4_task_unmap_batch_u oc K ipc task fpages n mmask u w = Returns (ipc task t u' w) \<and>
      untyped_words t u' = TASK_UNMAP_OP K # mmask # take (unat n) fpages \<and> l4_msgtag_items t = 0
    else l4_task_unmap_batch_u oc K ipc task fpages n mmask u w = Overruns"
proof -
  have K: "5 \<le> length (utcb_mr u)" "length (utcb_mr u) \<le> 63"
    using assms(1,2) by (simp_all add: task_ok_def kobj_ok_def)
  show ?thesis
  proof (cases "unat n \<le> GENERIC_DATA_SIZE K - 2")
    case False
    then have "length (utcb_mr u) < 2 + unat n"
      using assms(2) by linarith
    then show ?thesis
      using False by (simp add: l4_task_unmap_batch_u_def Let_def)
  next
    case True
    then have n: "2 + unat n \<le> length (utcb_mr u)"
      using K assms(2) by simp
    then have "unat (2 :: u32) + unat n < 2 ^ LENGTH(32)"
      using K by simp
    then have add: "op_add oc 2 n = Some (2 + n)" "unat (2 + n) = 2 + unat n"
      by (simp_all add: op_add_no_overflow unat_word_ariths)
    define t where "t = l4_msgtag (PROTO_TASK K) (2 + n) 0 0"
    define u1 where "u1 = set_mr (set_mr u 0 (TASK_UNMAP_OP K)) 1 mmask"
    define u' where "u' = u1\<lparr>utcb_mr := overwrite (utcb_mr u1) 2 (take (unat n) fpages)\<rparr>"
    have "l4_task_unmap_batch_u oc K ipc task fpages n mmask u w = Returns (ipc task t u' w)"
      using n assms(3) add(1)
      by (simp add: l4_task_unmap_batch_u_def Let_def u1_def t_def u'_def)
    moreover have "unat (l4_msgtag_words t) = 2 + unat n" "l4_msgtag_items t = 0"
      using n K add(2) by (simp_all add: t_def l4_msgtag_words_new unat_and_0x3f new_tag_fields)
    moreover have "take (2 + unat n) (utcb_mr u') = TASK_UNMAP_OP K # mmask # take (unat n) fpages"
    proof -
      obtain a b rest where "utcb_mr u = a # b # rest"
        using K by (auto simp: eval_nat_numeral Suc_le_length_iff)
      then show ?thesis
        using n assms(3) by (simp add: u'_def u1_def set_mr_def overwrite_def min_def)
    qed
    ultimately have "l4_task_unmap_batch_u oc K ipc task fpages n mmask u w = Returns (ipc task t u' w) \<and>
        untyped_words t u' = TASK_UNMAP_OP K # mmask # take (unat n) fpages \<and> l4_msgtag_items t = 0"
      by (simp add: untyped_words_def)
    then show ?thesis
      unfolding if_P [OF True] by blast
  qed
qed

text \<open>Selectors that differ only below the shift are equal, and a selector is valid or invalid.\<close>

lemma cap_eq_equiv: "equivp (cap_eq K)"
  by (rule equivpI) (auto simp: cap_eq_def reflp_def symp_def transp_def)

lemma cap_valid_or_invalid: "is_invalid A c \<longleftrightarrow> \<not> is_valid A c"
  by (simp add: is_invalid_def is_valid_def)

end
