(* ===== verification/Cap_Api.thy ===== *)
theory Cap_Api
  imports Task_Api Buffer_Manager
begin

text \<open>
  Typed capabilities: \<open>Cap<T>\<close>, the traits \<open>Interface\<close> and \<open>IfaceInit\<close> and the untyped capability of
  \<open>crates/l4/cap.rs\<close>, the client structures \<open>crates/l4_derive/clntsrv.rs\<close> generates, \<open>Task\<close> as an
  interface (\<open>crates/l4/task.rs\<close>), copies of owned capabilities (\<open>crates/l4re/cap.rs\<close>) and typed
  lookups in the environment (\<open>crates/l4re/env.rs\<close>). Theory \<open>Task_Api\<close> works on the selectors
  themselves; the locale \<open>iface_init\<close> shows that the types on top of them do not change them.
\<close>

section \<open>Interfaces and capabilities\<close>

text \<open>An implementation of \<open>Interface\<close> and \<open>IfaceInit\<close>.\<close>

record 't iface_impl =
  if_raw :: "'t \<Rightarrow> u64"
  if_new :: "u64 \<Rightarrow> 't"

datatype untyped = Untyped u64

fun untyped_raw :: "untyped \<Rightarrow> u64" where
  "untyped_raw (Untyped c) = c"

definition untyped_new :: "u64 \<Rightarrow> untyped" where
  "untyped_new parent = Untyped parent"

definition untyped_impl :: "untyped iface_impl" where
  "untyped_impl = \<lparr>if_raw = untyped_raw, if_new = untyped_new\<rparr>"

record 't cap =
  interface :: 't

definition cap_new :: "'t iface_impl \<Rightarrow> u64 \<Rightarrow> 't cap" where
  "cap_new T c = \<lparr>interface = if_new T c\<rparr>"

definition cap_raw :: "'t iface_impl \<Rightarrow> 't cap \<Rightarrow> u64" where
  "cap_raw T self = if_raw T (interface self)"

definition cap_cast :: "'t iface_impl \<Rightarrow> 'u iface_impl \<Rightarrow> 't cap \<Rightarrow> 'u cap" where
  "cap_cast T U self = \<lparr>interface = if_new U (cap_raw T self)\<rparr>"

definition cap_from :: "u64 \<Rightarrow> untyped cap" where
  "cap_from c = \<lparr>interface = Untyped c\<rparr>"

definition invalid_cap :: "u64 \<Rightarrow> untyped cap" where
  "invalid_cap INVALID_CAP = \<lparr>interface = Untyped INVALID_CAP\<rparr>"

section \<open>Implementations\<close>

text \<open>A generated client structure: the selector and the receive buffers, fresh in a new value.\<close>

record 'p client_struct =
  cl_cap :: u64
  cl_slots :: 'p

definition client_raw :: "'p client_struct \<Rightarrow> u64" where
  "client_raw self = cl_cap self"

definition client_struct_new :: "'p \<Rightarrow> u64 \<Rightarrow> 'p client_struct" where
  "client_struct_new slots c = \<lparr>cl_cap = c, cl_slots = slots\<rparr>"

definition client_impl :: "'p \<Rightarrow> 'p client_struct iface_impl" where
  "client_impl slots = \<lparr>if_raw = client_raw, if_new = client_struct_new slots\<rparr>"

record task_iface =
  task_cap_idx :: u64

definition task_new :: "u64 \<Rightarrow> task_iface" where
  "task_new c = \<lparr>task_cap_idx = c\<rparr>"

definition task_raw :: "task_iface \<Rightarrow> u64" where
  "task_raw self = task_cap_idx self"

definition task_current :: "'z l4re_env_scheme \<Rightarrow> task_iface cap" where
  "task_current env = \<lparr>interface = task_new (env_task env)\<rparr>"

section \<open>Owned capabilities and the environment\<close>

record 't owned_cap =
  owned_inner :: "'t cap"

definition owned_copy :: "'t iface_impl \<Rightarrow> 't owned_cap \<Rightarrow> 't cap" where
  "owned_copy T self = cap_new T (cap_raw T (owned_inner self))"

record mem_env = l4re_env +
  env_mem_alloc :: u64

definition env_get_cap :: "'t iface_impl \<Rightarrow> u8 list \<Rightarrow> env_entry list option option \<Rightarrow> 't cap option outcome" where
  "env_get_cap T name env =
     (case l4re_env_get_cap name env of
        Returns r \<Rightarrow> Returns (map_option (cap_new T) r)
      | Panics \<Rightarrow> Panics
      | Overruns \<Rightarrow> Overruns)"

definition env_mem_alloc_cap :: "'t iface_impl \<Rightarrow> mem_env \<Rightarrow> 't cap" where
  "env_mem_alloc_cap T env = cap_new T (env_mem_alloc env)"

section \<open>The contract of an interface\<close>

text \<open>A value made from a selector has this selector.\<close>

locale iface_init =
  fixes T :: "'t iface_impl"
  assumes raw_new: "if_raw T (if_new T c) = c"
begin

lemma cap_raw_new: "cap_raw T (cap_new T c) = c"
  by (simp add: cap_raw_def cap_new_def raw_new)

lemma owned_copy_raw: "cap_raw T (owned_copy T self) = cap_raw T (owned_inner self)"
  by (simp add: owned_copy_def cap_raw_new)

lemma cast_raw: "cap_raw T (cap_cast U T c) = cap_raw U c"
  by (simp add: cap_raw_def cap_cast_def raw_new)

lemma env_get_cap_raw:
  assumes "env_get_cap T name env = Returns (Some c)"
  shows "l4re_env_get_cap name env = Returns (Some (cap_raw T c))"
  using assms by (auto simp: env_get_cap_def cap_raw_new split: outcome.splits)

lemma env_mem_alloc_raw: "cap_raw T (env_mem_alloc_cap T env) = env_mem_alloc env"
  by (simp add: env_mem_alloc_cap_def cap_raw_new)

end

text \<open>Two interfaces: casting there and back gives an equal capability, whatever the interface keeps
  besides the selector.\<close>

locale iface_pair = T: iface_init T + U: iface_init U
  for T :: "'t iface_impl" and U :: "'u iface_impl"
begin

lemma cast_back: "cap_raw T (cap_cast U T (cap_cast T U c)) = cap_raw T c"
  by (simp add: T.cast_raw U.cast_raw)

end

interpretation untyped: iface_init untyped_impl
  by unfold_locales (simp add: untyped_impl_def untyped_new_def)

interpretation client: iface_init "client_impl slots" for slots
  by unfold_locales (simp add: client_impl_def client_raw_def client_struct_new_def)

interpretation client_untyped: iface_pair "client_impl slots" untyped_impl for slots
  by unfold_locales

section \<open>Selectors through the types\<close>

lemma cap_from_new: "cap_from c = cap_new untyped_impl c"
  by (simp add: cap_from_def cap_new_def untyped_impl_def untyped_new_def)

lemma task_current_raw: "task_raw (interface (task_current env)) = env_task env"
  by (simp add: task_raw_def task_current_def task_new_def)

text \<open>
  A client from the environment. The capability found under a name and wrapped as a generated client
  has the selector of the table, and casting it to an untyped capability and back to a client loses
  what the client had in its receive buffers but nothing of the selector.
\<close>

theorem client_selector:
  assumes "env_get_cap (client_impl slots) name env = Returns (Some c)"
  shows "l4re_env_get_cap name env = Returns (Some (cap_raw (client_impl slots) c)) \<and>
    cap_cast untyped_impl (client_impl slots) (cap_cast (client_impl slots) untyped_impl (c\<lparr>interface := (interface c)\<lparr>cl_slots := s\<rparr>\<rparr>)) = c"
proof -
  obtain x where "c = cap_new (client_impl slots) x"
    using assms by (auto simp: env_get_cap_def split: outcome.splits)
  then show ?thesis
    using client.env_get_cap_raw [OF assms]
    by (simp add: cap_new_def cap_cast_def cap_raw_def client_impl_def client_struct_new_def client_raw_def untyped_impl_def untyped_new_def)
qed

text \<open>
  A copy of an owned capability outlives it: after the owner is dropped its slot is given out again,
  and the copy is equal to the new owner's capability.
\<close>

lemma owned_copy_dangles:
  "case owned_alloc demo_slots [0x9000] of (c, a) \<Rightarrow>
     let copy = owned_copy untyped_impl \<lparr>owned_inner = cap_new untyped_impl c\<rparr>; a = owned_drop demo_slots c a
     in fst (owned_alloc demo_slots a) = cap_raw untyped_impl copy"
  by (simp add: owned_alloc_def owned_drop_def demo_slots_def untyped.owned_copy_raw untyped.cap_raw_new)

end
