(* ===== verification/Syscalls.thy ===== *)
theory Syscalls
  imports Cap_Api
begin

text \<open>
  The way from Rust to the kernel: the wrappers of \<open>crates/l4-sys/ipc_basic.rs\<close>, \<open>ipc_ext.rs\<close> and
  \<open>scheduler.rs\<close>, the typed calls of \<open>crates/l4/ipc/syscall.rs\<close>, and the C functions between them and
  the kernel's headers (\<open>crates/l4/ipc/syscall.c\<close>, \<open>src/l4rust/libl4re-wrapper/lib/ipc.c\<close>,
  \<open>lib/scheduler.c\<close>). The functions of the headers are a parameter. Pointers are addresses; a UTCB is
  part of the state the kernel acts on.
\<close>

section \<open>The kernel's headers\<close>

text \<open>Functions of \<open>l4/sys/ipc.h\<close>, \<open>l4/sys/rcv_endpoint.h\<close> and \<open>l4/sys/scheduler.h\<close>. Where C stores a
  label through a pointer, the label is a result.\<close>

record 'k kernel_headers =
  h_ipc_call :: "u64 \<Rightarrow> u64 \<Rightarrow> i64 \<Rightarrow> u32 \<Rightarrow> 'k \<Rightarrow> i64 \<times> 'k"
  h_ipc_send :: "u64 \<Rightarrow> u64 \<Rightarrow> i64 \<Rightarrow> u32 \<Rightarrow> 'k \<Rightarrow> i64 \<times> 'k"
  h_ipc_error :: "i64 \<Rightarrow> u64 \<Rightarrow> 'k \<Rightarrow> u64"
  h_ipc_receive :: "u64 \<Rightarrow> u64 \<Rightarrow> u32 \<Rightarrow> 'k \<Rightarrow> i64 \<times> 'k"
  h_ipc_reply_and_wait :: "u64 \<Rightarrow> i64 \<Rightarrow> u32 \<Rightarrow> 'k \<Rightarrow> (i64 \<times> u64) \<times> 'k"
  h_ipc_wait :: "u64 \<Rightarrow> u32 \<Rightarrow> 'k \<Rightarrow> (i64 \<times> u64) \<times> 'k"
  h_ipc_sleep :: "u32 \<Rightarrow> 'k \<Rightarrow> i64 \<times> 'k"
  h_rcv_ep_bind_thread :: "u64 \<Rightarrow> u64 \<Rightarrow> u64 \<Rightarrow> 'k \<Rightarrow> i64 \<times> 'k"
  h_scheduler_run_thread :: "u64 \<Rightarrow> u64 \<Rightarrow> u64 \<Rightarrow> 'k \<Rightarrow> i64 \<times> 'k"
  h_sched_cpu_set :: "u64 \<Rightarrow> u8 \<Rightarrow> u64 \<Rightarrow> u64 \<times> u64"
  h_utcb :: "'k \<Rightarrow> u64"

section \<open>The C wrappers\<close>

definition l4_ipc_call_w :: "'k kernel_headers \<Rightarrow> u64 \<Rightarrow> u64 \<Rightarrow> i64 \<Rightarrow> u32 \<Rightarrow> 'k \<Rightarrow> i64 \<times> 'k" where
  "l4_ipc_call_w H object utcb tag timeout = h_ipc_call H object utcb tag timeout"

definition l4_ipc_send_w :: "'k kernel_headers \<Rightarrow> u64 \<Rightarrow> u64 \<Rightarrow> i64 \<Rightarrow> u32 \<Rightarrow> 'k \<Rightarrow> i64 \<times> 'k" where
  "l4_ipc_send_w H object utcb tag timeout = h_ipc_send H object utcb tag timeout"

definition l4_ipc_error_w :: "'k kernel_headers \<Rightarrow> i64 \<Rightarrow> u64 \<Rightarrow> 'k \<Rightarrow> u64" where
  "l4_ipc_error_w H tag utcb = h_ipc_error H tag utcb"

definition l4_ipc_receive_w :: "'k kernel_headers \<Rightarrow> u64 \<Rightarrow> u64 \<Rightarrow> u32 \<Rightarrow> 'k \<Rightarrow> i64 \<times> 'k" where
  "l4_ipc_receive_w H object utcb timeout = h_ipc_receive H object utcb timeout"

definition l4_ipc_reply_and_wait_w :: "'k kernel_headers \<Rightarrow> u64 \<Rightarrow> i64 \<Rightarrow> u32 \<Rightarrow> 'k \<Rightarrow> (i64 \<times> u64) \<times> 'k" where
  "l4_ipc_reply_and_wait_w H utcb tag timeout = h_ipc_reply_and_wait H utcb tag timeout"

definition l4_ipc_wait_w :: "'k kernel_headers \<Rightarrow> u64 \<Rightarrow> u32 \<Rightarrow> 'k \<Rightarrow> (i64 \<times> u64) \<times> 'k" where
  "l4_ipc_wait_w H utcb timeout = h_ipc_wait H utcb timeout"

definition l4_utcb_w :: "'k kernel_headers \<Rightarrow> 'k \<Rightarrow> u64" where
  "l4_utcb_w H = h_utcb H"

definition l4_rcv_ep_bind_thread_w :: "'k kernel_headers \<Rightarrow> u64 \<Rightarrow> u64 \<Rightarrow> u64 \<Rightarrow> 'k \<Rightarrow> i64 \<times> 'k" where
  "l4_rcv_ep_bind_thread_w H ep thread label = h_rcv_ep_bind_thread H ep thread label"

definition l4_scheduler_run_thread_w :: "'k kernel_headers \<Rightarrow> u64 \<Rightarrow> u64 \<Rightarrow> u64 \<Rightarrow> 'k \<Rightarrow> i64 \<times> 'k" where
  "l4_scheduler_run_thread_w H scheduler thread sp = h_scheduler_run_thread H scheduler thread sp"

definition l4_sched_cpu_set_w :: "'k kernel_headers \<Rightarrow> u64 \<Rightarrow> u8 \<Rightarrow> u64 \<Rightarrow> u64 \<times> u64" where
  "l4_sched_cpu_set_w H offset granularity cpus = h_sched_cpu_set H offset granularity cpus"

definition l4_ipc_call_wrapper :: "'k kernel_headers \<Rightarrow> u64 \<Rightarrow> u64 \<Rightarrow> i64 \<Rightarrow> u32 \<Rightarrow> 'k \<Rightarrow> i64 \<times> 'k" where
  "l4_ipc_call_wrapper H dest utcb tag timeout = h_ipc_call H dest utcb tag timeout"

definition l4_ipc_receive_wrapper :: "'k kernel_headers \<Rightarrow> u64 \<Rightarrow> u64 \<Rightarrow> u32 \<Rightarrow> 'k \<Rightarrow> i64 \<times> 'k" where
  "l4_ipc_receive_wrapper H object utcb timeout = h_ipc_receive H object utcb timeout"

definition l4_ipc_sleep_wrapper :: "'k kernel_headers \<Rightarrow> u32 \<Rightarrow> 'k \<Rightarrow> i64 \<times> 'k" where
  "l4_ipc_sleep_wrapper H timeout = h_ipc_sleep H timeout"

section \<open>The wrappers of l4-sys\<close>

definition l4_ipc_call :: "'k kernel_headers \<Rightarrow> u64 \<Rightarrow> u64 \<Rightarrow> i64 \<Rightarrow> u32 \<Rightarrow> 'k \<Rightarrow> i64 \<times> 'k" where
  "l4_ipc_call H dest utcb tag timeout = l4_ipc_call_w H dest utcb tag timeout"

definition l4_ipc_send :: "'k kernel_headers \<Rightarrow> u64 \<Rightarrow> u64 \<Rightarrow> i64 \<Rightarrow> u32 \<Rightarrow> 'k \<Rightarrow> i64 \<times> 'k" where
  "l4_ipc_send H dest utcb tag timeout = l4_ipc_send_w H dest utcb tag timeout"

definition l4_ipc_error :: "'k kernel_headers \<Rightarrow> i64 \<Rightarrow> u64 \<Rightarrow> 'k \<Rightarrow> u64" where
  "l4_ipc_error H tag utcb = l4_ipc_error_w H tag utcb"

definition l4_ipc_receive :: "'k kernel_headers \<Rightarrow> u64 \<Rightarrow> u64 \<Rightarrow> u32 \<Rightarrow> 'k \<Rightarrow> i64 \<times> 'k" where
  "l4_ipc_receive H object utcb timeout = l4_ipc_receive_w H object utcb timeout"

definition l4_ipc_reply_and_wait :: "'k kernel_headers \<Rightarrow> u64 \<Rightarrow> i64 \<Rightarrow> u32 \<Rightarrow> 'k \<Rightarrow> (i64 \<times> u64) \<times> 'k" where
  "l4_ipc_reply_and_wait H utcb tag timeout = l4_ipc_reply_and_wait_w H utcb tag timeout"

definition l4_ipc_wait :: "'k kernel_headers \<Rightarrow> u64 \<Rightarrow> u32 \<Rightarrow> 'k \<Rightarrow> (i64 \<times> u64) \<times> 'k" where
  "l4_ipc_wait H utcb timeout = l4_ipc_wait_w H utcb timeout"

definition l4_rcv_ep_bind_thread :: "'k kernel_headers \<Rightarrow> u64 \<Rightarrow> u64 \<Rightarrow> u64 \<Rightarrow> 'k \<Rightarrow> i64 \<times> 'k" where
  "l4_rcv_ep_bind_thread H gate thread label = l4_rcv_ep_bind_thread_w H gate thread label"

definition l4_utcb :: "'k kernel_headers \<Rightarrow> 'k \<Rightarrow> u64" where
  "l4_utcb H = l4_utcb_w H"

definition timeout_never :: u32 where
  "timeout_never = 0"

definition msgtag :: "i64 \<Rightarrow> u32 \<Rightarrow> u32 \<Rightarrow> u32 \<Rightarrow> i64" where
  "msgtag label words items flags = l4_msgtag label words items flags"

definition msgtag_has_error :: "abi \<Rightarrow> i64 \<Rightarrow> bool" where
  "msgtag_has_error A t \<longleftrightarrow> t AND MSGTAG_ERROR A \<noteq> 0"

definition msgtag_items :: "i64 \<Rightarrow> nat" where
  "msgtag_items t = l4_msgtag_items t"

definition msgtag_label :: "i64 \<Rightarrow> i64" where
  "msgtag_label t = l4_msgtag_label t"

definition msgtag_words :: "i64 \<Rightarrow> u32" where
  "msgtag_words t = l4_msgtag_words t"

definition sndfpage_add_u :: "abi \<Rightarrow> u64 \<Rightarrow> u64 \<Rightarrow> i64 \<Rightarrow> utcb \<Rightarrow> i32 \<times> i64 \<times> utcb" where
  "sndfpage_add_u A snd_fpage snd_base tag u = l4_sndfpage_add_u A snd_fpage snd_base tag u"

definition map_control :: "abi \<Rightarrow> u64 \<Rightarrow> u8 \<Rightarrow> u32 \<Rightarrow> u64" where
  "map_control A snd_base cache grant = l4_map_control A snd_base cache grant"

definition run_thread :: "'k kernel_headers \<Rightarrow> u64 \<Rightarrow> u64 \<Rightarrow> u64 \<Rightarrow> 'k \<Rightarrow> i64 \<times> 'k" where
  "run_thread H scheduler thread sp = l4_scheduler_run_thread_w H scheduler thread sp"

definition preempt_thread :: "'k kernel_headers \<Rightarrow> u64 \<Rightarrow> u64 \<Rightarrow> u64 \<Rightarrow> 'k \<Rightarrow> i64 \<times> 'k" where
  "preempt_thread H scheduler thread sp = l4_scheduler_run_thread_w H scheduler thread sp"

definition l4_sched_cpu_set :: "'k kernel_headers \<Rightarrow> u64 \<Rightarrow> u8 \<Rightarrow> u64 \<Rightarrow> u64 \<times> u64" where
  "l4_sched_cpu_set H offset granularity cpus = l4_sched_cpu_set_w H offset granularity cpus"

section \<open>Typed calls\<close>

definition sys_call :: "'k kernel_headers \<Rightarrow> 't iface_impl \<Rightarrow> 't cap \<Rightarrow> u64 \<Rightarrow> msg_tag \<Rightarrow> u32 \<Rightarrow> 'k \<Rightarrow> msg_tag \<times> 'k" where
  "sys_call H T dest utcb tag timeout k =
     (case l4_ipc_call_wrapper H (cap_raw T dest) utcb (raw tag) timeout k of (t, k) \<Rightarrow> (\<lparr>raw = t\<rparr>, k))"

definition sys_receive :: "'k kernel_headers \<Rightarrow> 't iface_impl \<Rightarrow> 't cap \<Rightarrow> u64 \<Rightarrow> u32 \<Rightarrow> 'k \<Rightarrow> msg_tag \<times> 'k" where
  "sys_receive H T object utcb timeout k =
     (case l4_ipc_receive_wrapper H (cap_raw T object) utcb timeout k of (t, k) \<Rightarrow> (\<lparr>raw = t\<rparr>, k))"

definition sys_sleep :: "'k kernel_headers \<Rightarrow> u32 \<Rightarrow> 'k \<Rightarrow> msg_tag \<times> 'k" where
  "sys_sleep H timeout k = (case l4_ipc_sleep_wrapper H timeout k of (t, k) \<Rightarrow> (\<lparr>raw = t\<rparr>, k))"

section \<open>What reaches the kernel\<close>

text \<open>The untyped calls of \<open>l4-sys\<close> and the typed ones give the kernel the same requests.\<close>

lemma typed_untyped:
  "sys_call H T dest utcb tag timeout k = map_prod msg_tag.make id (l4_ipc_call H (cap_raw T dest) utcb (raw tag) timeout k)"
  "sys_receive H T dest utcb timeout k = map_prod msg_tag.make id (l4_ipc_receive H (cap_raw T dest) utcb timeout k)"
  by (simp_all add: sys_call_def sys_receive_def l4_ipc_call_wrapper_def l4_ipc_receive_wrapper_def l4_ipc_call_def
      l4_ipc_receive_def l4_ipc_call_w_def l4_ipc_receive_w_def msg_tag.defs split: prod.splits)

text \<open>
  A call depends on the selector of its capability only: the same client found in the environment,
  cast to an untyped capability, or copied from an owner makes the same request.
\<close>

lemma call_by_selector:
  assumes "cap_raw T c = cap_raw U d"
  shows "sys_call H T c utcb tag timeout = sys_call H U d utcb tag timeout"
    and "sys_receive H T c utcb timeout = sys_receive H U d utcb timeout"
  using assms by (auto simp: fun_eq_iff sys_call_def sys_receive_def)

lemma call_after_cast:
  "sys_call H untyped_impl (cap_cast (client_impl slots) untyped_impl c) utcb tag timeout = sys_call H (client_impl slots) c utcb tag timeout"
  by (rule call_by_selector(1)) (rule untyped.cast_raw)

end
