(* ===== verification/Driver_Server.thy ===== *)
theory Driver_Server
  imports Virtio Task_Api
begin

text \<open>
  The driver server, \<open>src/src/driver_server/src/main.rs\<close>, the virtio front end it serves,
  \<open>src/src/virtio_frontend/src\<close> with its C interface, and the module entry points for wrapped
  Linux drivers, \<open>src/src/linux_shims/src/lib.rs\<close>. The virtqueue has the structures of theory
  \<open>Virtio\<close>. The kernel, the naming service and the wrapped driver are parameters.

  A transport operation is \<open>None\<close> where the source panics; the server and the C interface have an
  \<open>outcome\<close>.
\<close>

section \<open>The virtio front end\<close>

definition frontend_queue_new :: virt_queue where
  "frontend_queue_new = \<lparr>
     vq_desc = replicate QUEUE_SIZE \<lparr>desc_addr = 0, desc_len = 0, desc_flags = 0, desc_next = 0\<rparr>,
     vq_avail = \<lparr>avail_flags = 0, avail_idx = 0, avail_ring = replicate QUEUE_SIZE 0, used_event = 0\<rparr>,
     vq_used = \<lparr>used_flags = 0, used_idx = 0,
       used_ring = replicate QUEUE_SIZE \<lparr>used_id = 0, used_len = 0\<rparr>, avail_event = 0\<rparr>\<rparr>"

text \<open>The loop of \<open>add\<close> copies descriptor \<open>i\<close> of the chain to slot \<open>i\<close>; an error is \<open>Inl ()\<close>.\<close>

definition copy_chain :: "virtq_desc list \<Rightarrow> virt_queue \<Rightarrow> virt_queue" where
  "copy_chain chain q = fold (\<lambda>(i, d). set_desc i d) (enumerate 0 chain) q"

definition queue_add :: "virtq_desc list \<Rightarrow> virt_queue \<Rightarrow> (unit, u16) result \<times> virt_queue" where
  "queue_add chain q =
     (if length chain > QUEUE_SIZE then (Inl (), q)
      else let q = copy_chain chain q;
               idx = unat (avail_idx (vq_avail q)) mod QUEUE_SIZE
           in (Inr (word_of_nat idx), push_avail q))"

record virtio_transport =
  device_features :: u64
  driver_features :: u64
  config :: "u8 list"
  vt_queue :: virt_queue

definition transport_new :: "u64 \<Rightarrow> nat \<Rightarrow> virtio_transport" where
  "transport_new feats config_len =
     \<lparr>device_features = feats, driver_features = 0, config = replicate config_len 0, vt_queue = frontend_queue_new\<rparr>"

definition negotiate_features :: "u64 \<Rightarrow> virtio_transport \<Rightarrow> u64 \<times> virtio_transport" where
  "negotiate_features driver_supported t =
     (let negotiated = device_features t AND driver_supported
      in (negotiated, t\<lparr>driver_features := negotiated\<rparr>))"

text \<open>The range check of the configuration space: the sum \<open>offset + len\<close> of two \<open>usize\<close>, the
  assertion, and the checks of the slice \<open>config[offset..offset + len]\<close>.\<close>

definition config_range :: "bool \<Rightarrow> nat \<Rightarrow> nat \<Rightarrow> virtio_transport \<Rightarrow> nat option" where
  "config_range oc offset len t =
     (if oc \<and> 2 ^ 64 \<le> offset + len then None
      else let e = (offset + len) mod 2 ^ 64
           in if \<not> e \<le> length (config t) then None
              else if offset > e then None
              else Some e)"

definition read_config :: "bool \<Rightarrow> nat \<Rightarrow> nat \<Rightarrow> virtio_transport \<Rightarrow> u8 list option" where
  "read_config oc offset len t =
     (case config_range oc offset len t of
        None \<Rightarrow> None
      | Some e \<Rightarrow> if e - offset = len then Some (slice (config t) offset len) else None)"

definition write_config :: "bool \<Rightarrow> nat \<Rightarrow> u8 list \<Rightarrow> virtio_transport \<Rightarrow> virtio_transport option" where
  "write_config oc offset data t =
     (case config_range oc offset (length data) t of
        None \<Rightarrow> None
      | Some e \<Rightarrow> if e - offset = length data
                  then Some (t\<lparr>config := overwrite (config t) offset data\<rparr>) else None)"

section \<open>The C interface of the front end\<close>

text \<open>Transports handed to C live in a store of boxes. The allocator names an unused address; a null
  pointer is address 0; a pointer to no box is undefined behaviour, \<open>Overruns\<close>.\<close>

type_synonym boxes = "nat \<Rightarrow> virtio_transport option"

definition virtio_transport_create :: "(boxes \<Rightarrow> nat) \<Rightarrow> u64 \<Rightarrow> nat \<Rightarrow> boxes \<Rightarrow> nat \<times> boxes" where
  "virtio_transport_create fresh feats config_len h =
     (let p = fresh h in (p, h(p \<mapsto> transport_new feats config_len)))"

definition virtio_transport_destroy :: "nat \<Rightarrow> boxes \<Rightarrow> boxes outcome" where
  "virtio_transport_destroy p h =
     (if p \<noteq> 0 then (case h p of None \<Rightarrow> Overruns | Some _ \<Rightarrow> Returns (h(p := None))) else Returns h)"

definition virtio_negotiate_features :: "nat \<Rightarrow> u64 \<Rightarrow> boxes \<Rightarrow> (u64 \<times> boxes) outcome" where
  "virtio_negotiate_features p driver_supported h =
     (case h p of
        None \<Rightarrow> Overruns
      | Some t \<Rightarrow> (case negotiate_features driver_supported t of (n, t) \<Rightarrow> Returns (n, h(p \<mapsto> t))))"

text \<open>The buffer of a C caller is memory of which the first \<open>len\<close> bytes are read or written.\<close>

definition virtio_config_read :: "bool \<Rightarrow> nat \<Rightarrow> nat \<Rightarrow> u8 list \<Rightarrow> nat \<Rightarrow> boxes \<Rightarrow> u8 list outcome" where
  "virtio_config_read oc p offset buf len h =
     (case h p of
        None \<Rightarrow> Overruns
      | Some t \<Rightarrow>
          if length buf < len then Overruns
          else case read_config oc offset len t of
                 None \<Rightarrow> Panics
               | Some bs \<Rightarrow> Returns (overwrite buf 0 bs))"

definition virtio_config_write :: "bool \<Rightarrow> nat \<Rightarrow> nat \<Rightarrow> u8 list \<Rightarrow> nat \<Rightarrow> boxes \<Rightarrow> boxes outcome" where
  "virtio_config_write oc p offset buf len h =
     (case h p of
        None \<Rightarrow> Overruns
      | Some t \<Rightarrow>
          if length buf < len then Overruns
          else case write_config oc offset (take len buf) t of
                 None \<Rightarrow> Panics
               | Some t \<Rightarrow> Returns (h(p \<mapsto> t)))"

definition virtio_queue_add :: "nat \<Rightarrow> virtq_desc list \<Rightarrow> nat \<Rightarrow> boxes \<Rightarrow> (i32 \<times> boxes) outcome" where
  "virtio_queue_add p descs count h =
     (case h p of
        None \<Rightarrow> Overruns
      | Some t \<Rightarrow>
          if length descs < count then Overruns
          else case queue_add (take count descs) (vt_queue t) of
                 (Inr _, q) \<Rightarrow> Returns (0, h(p \<mapsto> t\<lparr>vt_queue := q\<rparr>))
               | (Inl _, q) \<Rightarrow> Returns (-1, h(p \<mapsto> t\<lparr>vt_queue := q\<rparr>)))"

section \<open>The driver server\<close>

definition drv_dispatch :: "bool \<Rightarrow> utcb \<Rightarrow> virtio_transport \<Rightarrow> (utcb \<times> virtio_transport) option" where
  "drv_dispatch oc u t =
     (let op = get_mr u 0
      in if op = 0 then Some (set_mr u 0 (device_features t), t)
         else if op = 1 then
           (case negotiate_features (get_mr u 1) t of (negotiated, t) \<Rightarrow> Some (set_mr u 0 negotiated, t))
         else if op = 2 then
           let off = unat (get_mr u 1); val = le_bytes 8 (unat (get_mr u 2))
           in (case write_config oc off (take 4 val) t of
                 None \<Rightarrow> None
               | Some t \<Rightarrow> Some (set_mr u 0 0, t))
         else if op = 3 then
           let off = unat (get_mr u 1)
           in (case read_config oc off 4 t of
                 None \<Rightarrow> None
               | Some buf \<Rightarrow> Some (set_mr u 0 (word_of_nat (le_nat buf)), t))
         else Some (set_mr u 0 (- 1), t))"

text \<open>The loop over the incoming messages, with the error code of each tag; \<open>None\<close> is a panic. The
  answers are the registers at the reply calls.\<close>

fun drv_loop :: "bool \<Rightarrow> (u64 \<times> utcb) list \<Rightarrow> virtio_transport \<Rightarrow> (utcb list \<times> virtio_transport) option" where
  "drv_loop oc [] t = Some ([], t)"
| "drv_loop oc ((err, u) # ms) t =
     (if err \<noteq> 0 then drv_loop oc ms t
      else case drv_dispatch oc u t of
             None \<Rightarrow> None
           | Some (u', t') \<Rightarrow>
               (case drv_loop oc ms t' of
                  None \<Rightarrow> None
                | Some (rs, t'') \<Rightarrow> Some (u' # rs, t'')))"

text \<open>Start-up: the gate from the environment, its binding, the registration with the naming
  service, the wrapped driver. The kernel's bind returns the IPC error of its tag.\<close>

record 'w drv_env =
  drv_caps :: "env_entry list option option"
  main_thread :: u64
  bind_thread :: "u64 \<Rightarrow> u64 \<Rightarrow> u64 \<Rightarrow> 'w \<Rightarrow> u64 \<times> 'w"
  ns_register_obj :: "u64 \<Rightarrow> u64 \<Rightarrow> u8 list \<Rightarrow> 'w \<Rightarrow> i32 \<times> 'w"
  start_driver :: "'w \<Rightarrow> 'w"

definition ascii :: "string \<Rightarrow> u8 list" where
  "ascii s = map of_char s"

text \<open>\<open>Option::expect\<close> on a lookup, and \<open>CString::new(..).unwrap()\<close>.\<close>

definition expect_cap :: "u8 list \<Rightarrow> 'w drv_env \<Rightarrow> u64 outcome" where
  "expect_cap name D =
     (case l4re_env_get_cap name (drv_caps D) of
        Returns (Some c) \<Rightarrow> Returns c
      | Returns None \<Rightarrow> Panics
      | Panics \<Rightarrow> Panics
      | Overruns \<Rightarrow> Overruns)"

definition register_with_ns :: "'w drv_env \<Rightarrow> u8 list \<Rightarrow> u64 \<Rightarrow> 'w \<Rightarrow> 'w outcome" where
  "register_with_ns D name gate w =
     (case expect_cap (ascii ''names'') D of
        Returns ns \<Rightarrow>
          if 0 \<in> set name then Panics
          else (case ns_register_obj D ns gate (name @ [0]) w of
                  (ret, w) \<Rightarrow> if ret \<noteq> 0 then Panics else Returns w)
      | Panics \<Rightarrow> Panics
      | Overruns \<Rightarrow> Overruns)"

definition drv_start :: "'w drv_env \<Rightarrow> 'w \<Rightarrow> (virtio_transport \<times> 'w) outcome" where
  "drv_start D w =
     (case expect_cap (ascii ''driver_srv'') D of
        Returns gate \<Rightarrow>
          (case bind_thread D gate (main_thread D) 0xf0 w of
             (err, w) \<Rightarrow>
               if err \<noteq> 0 then Panics
               else (case register_with_ns D (ascii ''driver_service'') gate w of
                       Returns w \<Rightarrow> Returns (transport_new 0 8, start_driver D w)
                     | Panics \<Rightarrow> Panics
                     | Overruns \<Rightarrow> Overruns))
      | Panics \<Rightarrow> Panics
      | Overruns \<Rightarrow> Overruns)"

definition drv_run :: "bool \<Rightarrow> 'w drv_env \<Rightarrow> (u64 \<times> utcb) list \<Rightarrow> 'w \<Rightarrow> (utcb list \<times> virtio_transport) outcome" where
  "drv_run oc D ms w =
     (case drv_start D w of
        Returns (t, w) \<Rightarrow> (case drv_loop oc ms t of None \<Rightarrow> Panics | Some r \<Rightarrow> Returns r)
      | Panics \<Rightarrow> Panics
      | Overruns \<Rightarrow> Overruns)"

section \<open>Module entry points\<close>

text \<open>The two statics. A call of \<open>module_init\<close> is \<open>ModuleInit\<close>: an initialiser is the calls it makes itself and its result; exit handlers are
  opaque, and what runs is recorded in order.\<close>

datatype 'h module_call =
    ModuleInit "'h module_call list" i32
  | ModuleExit 'h
  | ModuleShutdown

datatype 'h module_event = InitEntered | HandlerRan 'h

record 'h shims =
  init_done :: bool
  exit_handler :: "'h option"
  shim_log :: "'h module_event list"

definition module_exit :: "'h \<Rightarrow> 'h shims \<Rightarrow> 'h shims" where
  "module_exit h s = (if init_done s then s\<lparr>exit_handler := Some h\<rparr> else s)"

definition module_shutdown :: "'h shims \<Rightarrow> 'h shims" where
  "module_shutdown s =
     (if init_done s
      then let s = s\<lparr>init_done := False\<rparr>
           in case exit_handler s of
                Some h \<Rightarrow> s\<lparr>shim_log := shim_log s @ [HandlerRan h], exit_handler := None\<rparr>
              | None \<Rightarrow> s
      else s)"

fun run_module_call :: "'h module_call \<Rightarrow> 'h shims \<Rightarrow> 'h shims" where
  "run_module_call (ModuleInit body r) s =
     (if init_done s then s
      else let s = s\<lparr>init_done := True, shim_log := shim_log s @ [InitEntered]\<rparr>;
               s = fold run_module_call body s
           in if r \<noteq> 0 then s\<lparr>init_done := False\<rparr> else s)"
| "run_module_call (ModuleExit h) s = module_exit h s"
| "run_module_call ModuleShutdown s = module_shutdown s"

section \<open>Configuration space\<close>

text \<open>Both build profiles accept the same ranges: a sum that wraps lies below its offset.\<close>

lemma config_range_eq:
  assumes "offset < 2 ^ 64" and "len < 2 ^ 64" and "length (config t) < 2 ^ 64"
  shows "config_range oc offset len t = (if offset + len \<le> length (config t) then Some (offset + len) else None)"
proof (cases "offset + len < 2 ^ 64")
  case True
  then show ?thesis
    by (simp add: config_range_def Let_def)
next
  case False
  then have "(offset + len) mod 2 ^ 64 = offset + len - 2 ^ 64"
    using assms(1,2) by (simp add: mod_if)
  moreover have "offset + len - 2 ^ 64 < offset"
    using assms(1,2) False by linarith
  ultimately show ?thesis
    using assms(3) False by (simp add: config_range_def Let_def)
qed

lemma read_config_eq:
  "offset < 2 ^ 64 \<Longrightarrow> len < 2 ^ 64 \<Longrightarrow> length (config t) < 2 ^ 64 \<Longrightarrow>
   read_config oc offset len t =
     (if offset + len \<le> length (config t) then Some (slice (config t) offset len) else None)"
  by (simp add: read_config_def config_range_eq)

lemma write_config_eq:
  "offset < 2 ^ 64 \<Longrightarrow> length data < 2 ^ 64 \<Longrightarrow> length (config t) < 2 ^ 64 \<Longrightarrow>
   write_config oc offset data t =
     (if offset + length data \<le> length (config t)
      then Some (t\<lparr>config := overwrite (config t) offset data\<rparr>) else None)"
  by (simp add: write_config_def config_range_eq)

text \<open>
  C35. The configuration space is memory. A write either panics, exactly when its range leaves the
  space (in both build profiles, also where the end of the range overflows), or stores the data:
  reading the same range gives the data back, reading any range apart from it gives what was there
  before, and neither the size of the space nor the features nor the queue change.
\<close>
theorem config_write_read:
  assumes "length (config t) < 2 ^ 64" and "offset < 2 ^ 64" and "length data < 2 ^ 64"
  shows "case write_config oc offset data t of
      None \<Rightarrow> length (config t) < offset + length data
    | Some t' \<Rightarrow> read_config oc offset (length data) t' = Some data \<and>
        (\<forall>pos n. pos < 2 ^ 64 \<and> n < 2 ^ 64 \<and> (pos + n \<le> offset \<or> offset + length data \<le> pos) \<longrightarrow>
           read_config oc pos n t' = read_config oc pos n t) \<and>
        length (config t') = length (config t) \<and> t' = t\<lparr>config := config t'\<rparr>"
proof (cases "offset + length data \<le> length (config t)")
  case False
  then show ?thesis
    using assms by (simp add: write_config_eq)
next
  case True
  define t' where "t' = t\<lparr>config := overwrite (config t) offset data\<rparr>"
  have len: "length (config t') = length (config t)"
    using True by (simp add: t'_def)
  have stored: "write_config oc offset data t = Some t'"
    using True assms by (simp add: write_config_eq t'_def)
  have "read_config oc offset (length data) t' = Some data"
    using True assms len by (simp add: read_config_eq) (simp add: t'_def buf_simps)
  moreover have "read_config oc pos n t' = read_config oc pos n t"
    if "pos < 2 ^ 64" "n < 2 ^ 64" "pos + n \<le> offset \<or> offset + length data \<le> pos" for pos n
    using that True assms len by (auto simp: read_config_eq) (auto simp: t'_def buf_simps)
  ultimately show ?thesis
    using len by (simp add: stored) (simp add: t'_def)
qed

theorem config_write_read_witness:
  "(\<exists>t'. write_config True 2 [1, 2, 3, 4] (transport_new 0 8) = Some t' \<and>
      read_config True 2 (length [1, 2, 3, 4 :: u8]) t' = Some [1, 2, 3, 4]) \<and>
   write_config False (2 ^ 64 - 1) [1, 2, 3, 4] (transport_new 0 8) = None"
proof -
  have len: "length (config (transport_new 0 8)) = 8"
    by (simp add: transport_new_def)
  show ?thesis
    using config_write_read [of "transport_new 0 8" 2 "[1, 2, 3, 4]" True]
      config_write_read [of "transport_new 0 8" "2 ^ 64 - 1" "[1, 2, 3, 4]" False]
    by (simp add: len write_config_eq split: option.splits)
qed

section \<open>The server loop\<close>

text \<open>The requests the server does not survive: an access to the eight bytes of configuration space
  that does not fit.\<close>

definition bad_request :: "u64 \<times> utcb \<Rightarrow> bool" where
  "bad_request m \<longleftrightarrow> fst m = 0 \<and> (get_mr (snd m) 0 = 2 \<or> get_mr (snd m) 0 = 3) \<and> 4 < unat (get_mr (snd m) 1)"

definition transport_ok :: "virtio_transport \<Rightarrow> bool" where
  "transport_ok t \<longleftrightarrow> length (config t) = 8 \<and> driver_features t AND NOT (device_features t) = 0"

lemma unat_64: "unat (x :: u64) < 18446744073709551616"
  using unat_word_less [of x] by simp

lemma negotiate_keeps:
  "negotiate_features f t = (n, t') \<Longrightarrow> transport_ok t \<Longrightarrow> transport_ok t' \<and> n = device_features t AND f"
  by (auto simp: negotiate_features_def transport_ok_def Let_def and.assoc and.left_commute)

lemma drv_dispatch_None: "transport_ok t \<Longrightarrow> drv_dispatch oc u t = None \<longleftrightarrow> bad_request (0, u)"
  by (auto simp: drv_dispatch_def bad_request_def transport_ok_def Let_def write_config_eq read_config_eq
      unat_64 split: prod.splits)

lemma drv_dispatch_ok: "transport_ok t \<Longrightarrow> drv_dispatch oc u t = Some (u', t') \<Longrightarrow> transport_ok t'"
  by (auto simp: drv_dispatch_def Let_def dest: negotiate_keeps split: if_splits prod.splits option.splits)
    (auto simp: transport_ok_def write_config_eq unat_64 split: if_splits)

lemma drv_dispatch_features:
  "drv_dispatch oc u t = Some (u', t') \<Longrightarrow> device_features t' = device_features t"
  by (auto simp: drv_dispatch_def Let_def negotiate_features_def write_config_def
      split: if_splits prod.splits option.splits)

lemma drv_loop_serves:
  "transport_ok t \<Longrightarrow>
   (case drv_loop oc ms t of
      None \<Rightarrow> \<exists>m\<in>set ms. bad_request m
    | Some (rs, t') \<Rightarrow> (\<forall>m\<in>set ms. \<not> bad_request m) \<and> length rs = length (filter (\<lambda>m. fst m = 0) ms) \<and>
        transport_ok t' \<and> device_features t' = device_features t)"
proof (induction oc ms t rule: drv_loop.induct)
  case (1 oc t)
  then show ?case by simp
next
  case (2 oc err u ms t)
  show ?case
  proof (cases "err = 0")
    case False
    then show ?thesis
      using "2.IH"(1) [OF False "2.prems"]
      by (auto simp: bad_request_def split: option.splits)
  next
    case True
    show ?thesis
    proof (cases "drv_dispatch oc u t")
      case None
      then show ?thesis
        using True drv_dispatch_None [OF "2.prems", of oc u] by simp
    next
      case (Some r)
      then obtain u' t' where r: "drv_dispatch oc u t = Some (u', t')"
        by (cases r) simp
      then have "\<not> bad_request (err, u)"
        using True drv_dispatch_None [OF "2.prems", of oc u] by auto
      then show ?thesis
        using "2.IH"(2) [of "(u', t')" u' t'] True r drv_dispatch_ok [OF "2.prems" r]
          drv_dispatch_features [OF r]
        by (auto split: option.splits)
    qed
  qed
qed

lemma drv_start_ok: "drv_start D w = Returns (t, w') \<Longrightarrow> t = transport_new 0 8"
  by (auto simp: drv_start_def split: outcome.splits prod.splits if_splits)

lemma transport_new_ok: "transport_ok (transport_new f 8)"
  by (simp add: transport_ok_def transport_new_def)

text \<open>
  C25. A started driver server answers every message without an error, in order, until a client
  accesses configuration space outside its eight bytes: the run panics if and only if there is such
  a request, in both build profiles; otherwise the number of answers is the number of messages
  without an IPC error, and negotiated features never exceed those of the device.
\<close>
theorem driver_run_serves:
  assumes "drv_start D w = Returns (t, w')"
  shows "case drv_run oc D ms w of
      Returns (rs, t') \<Rightarrow> (\<forall>m\<in>set ms. \<not> bad_request m) \<and> length rs = length (filter (\<lambda>m. fst m = 0) ms) \<and>
        driver_features t' AND NOT (device_features t') = 0 \<and> device_features t' = device_features t
    | Panics \<Rightarrow> (\<exists>m\<in>set ms. bad_request m)
    | Overruns \<Rightarrow> False"
proof -
  have "transport_ok t"
    using drv_start_ok [OF assms] transport_new_ok by simp
  from drv_loop_serves [OF this, where oc = oc and ms = ms] show ?thesis
    by (auto simp: drv_run_def assms transport_ok_def split: option.splits)
qed

definition demo_drv :: "nat drv_env" where
  "demo_drv = \<lparr>drv_caps = Some (Some
       [\<lparr>entry_cap = 0x3000, entry_flags = 0, entry_name = ascii ''names'' @ [0]\<rparr>,
        \<lparr>entry_cap = 0x4000, entry_flags = 0, entry_name = ascii ''driver_srv'' @ [0]\<rparr>,
        \<lparr>entry_cap = 0, entry_flags = NOT 0, entry_name = []\<rparr>]),
     main_thread = 0x2000, bind_thread = (\<lambda>gate thread label n. (0, n + 1)),
     ns_register_obj = (\<lambda>ns gate name n. (0, n + 1)), start_driver = Suc\<rparr>"

lemma demo_drv_start: "drv_start demo_drv 0 = Returns (transport_new 0 8, 3)"
  by (simp add: drv_start_def demo_drv_def expect_cap_def register_with_ns_def l4re_env_get_cap_def ascii_def)

theorem driver_run_serves_witness:
  "drv_run True demo_drv [(0, demo_utcb [2, 4, 7, 0]), (0, demo_utcb [3, 5, 0, 0])] 0 = Panics \<and>
   (\<exists>rs t'. drv_run False demo_drv [(0, demo_utcb [2, 4, 7, 0]), (1, demo_utcb []), (0, demo_utcb [1, 3, 0, 0])] 0
     = Returns (rs, t') \<and> length rs = 2)"
proof -
  have "get_mr (demo_utcb (a # b # ms)) 0 = a" "get_mr (demo_utcb (a # b # ms)) 1 = b" for a b ms
    by (simp_all add: demo_utcb_def get_mr_def)
  then have bad: "bad_request (0, demo_utcb [3, 5, 0, 0])" "\<not> bad_request (0, demo_utcb [2, 4, 7, 0])"
      "\<not> bad_request (1, demo_utcb [])" "\<not> bad_request (0, demo_utcb [1, 3, 0, 0])"
    by (simp_all add: bad_request_def)
  show ?thesis
    using driver_run_serves [OF demo_drv_start, where oc = True and ms = "[(0, demo_utcb [2, 4, 7, 0]), (0, demo_utcb [3, 5, 0, 0])]"]
      driver_run_serves [OF demo_drv_start, where oc = False and ms =
        "[(0, demo_utcb [2, 4, 7, 0]), (1, demo_utcb []), (0, demo_utcb [1, 3, 0, 0])]"] bad
    by (auto split: outcome.splits)
qed

section \<open>Queue and module lifecycle\<close>

text \<open>A chain that fits is the beginning of the descriptor table afterwards, and the slot it entered
  is the old index modulo the size of the ring. Chains always enter at descriptor 0: a second chain
  replaces the first, whether or not the device has taken it.\<close>

lemma copy_chain_desc:
  assumes "length (vq_desc q) = QUEUE_SIZE" and "length chain \<le> QUEUE_SIZE"
  shows "vq_desc (copy_chain chain q) = chain @ drop (length chain) (vq_desc q)"
    and "vq_avail (copy_chain chain q) = vq_avail q"
proof -
  have "vq_desc (fold (\<lambda>(i, d). set_desc i d) (enumerate k ds) q') = take k (vq_desc q') @ ds @ drop (k + length ds) (vq_desc q')"
    if "k + length ds \<le> length (vq_desc q')" for k ds q'
    using that
  proof (induction ds arbitrary: k q')
    case Nil
    then show ?case by simp
  next
    case (Cons d ds)
    from Cons.IH [of "Suc k" "set_desc k d q'"] Cons.prems show ?case
      by (simp add: set_desc_def take_Suc_conv_app_nth)
  qed
  from this [of 0 chain q] show "vq_desc (copy_chain chain q) = chain @ drop (length chain) (vq_desc q)"
    using assms by (simp add: copy_chain_def)
  have "vq_avail (fold (\<lambda>(i, d). set_desc i d) ids q') = vq_avail q'" for ids q'
    by (induction ids arbitrary: q') (auto simp: set_desc_def)
  then show "vq_avail (copy_chain chain q) = vq_avail q"
    by (simp add: copy_chain_def)
qed

lemma queue_add_enters:
  assumes "length (vq_desc q) = QUEUE_SIZE" and "queue_add chain q = (r, q')"
  shows "if length chain \<le> QUEUE_SIZE
    then r = Inr (word_of_nat (unat (avail_idx (vq_avail q)) mod QUEUE_SIZE)) \<and>
      take (length chain) (vq_desc q') = chain \<and> avail_idx (vq_avail q') = avail_idx (vq_avail q) + 1
    else r = Inl () \<and> q' = q"
  using assms copy_chain_desc [OF assms(1)]
  by (auto simp: queue_add_def Let_def push_avail_def split: if_splits)

text \<open>A box is usable from its creation to its destruction.\<close>

lemma transport_create_destroy:
  assumes "virtio_transport_create fresh f n h = (p, h')" and "h (fresh h) = None" and "fresh h \<noteq> 0"
  shows "virtio_transport_destroy p h' = Returns h"
    and "virtio_negotiate_features p g h' = Returns (f AND g, h'(p \<mapsto> (transport_new f n)\<lparr>driver_features := f AND g\<rparr>))"
  using assms
  by (auto simp: virtio_transport_create_def virtio_transport_destroy_def virtio_negotiate_features_def
      negotiate_features_def Let_def transport_new_def fun_upd_idem_iff)

text \<open>Exit handlers never run more often than initialisers were entered, however the calls are
  nested: each run takes back one entry.\<close>

definition handler_runs :: "'h module_event list \<Rightarrow> nat" where
  "handler_runs es = length (filter (\<lambda>e. e \<noteq> InitEntered) es)"

definition init_entries :: "'h module_event list \<Rightarrow> nat" where
  "init_entries es = length (filter (\<lambda>e. e = InitEntered) es)"

definition shims_ok :: "'h shims \<Rightarrow> bool" where
  "shims_ok s \<longleftrightarrow> handler_runs (shim_log s) + (if init_done s then 1 else 0) \<le> init_entries (shim_log s)"

lemma run_module_call_ok: "shims_ok s \<Longrightarrow> shims_ok (run_module_call c s)"
proof (induction c s rule: run_module_call.induct)
  case (1 body r s)
  define s1 where "s1 = s\<lparr>init_done := True, shim_log := shim_log s @ [InitEntered]\<rparr>"
  show ?case
  proof (cases "init_done s")
    case True
    then show ?thesis
      using "1.prems" by simp
  next
    case False
    have "shims_ok s1"
      using "1.prems" False by (simp add: s1_def shims_ok_def handler_runs_def init_entries_def)
    moreover have "\<And>c s. c \<in> set body \<Longrightarrow> shims_ok s \<Longrightarrow> shims_ok (run_module_call c s)"
      using "1.IH" [OF False refl] by blast
    ultimately have "shims_ok (fold run_module_call body s1)"
      by (induction body arbitrary: s1) auto
    then show ?thesis
      using False by (auto simp: s1_def [symmetric] Let_def shims_ok_def)
  qed
next
  case (2 h s)
  then show ?case
    by (auto simp: module_exit_def shims_ok_def)
next
  case (3 s)
  then show ?case
    by (auto simp: module_shutdown_def Let_def shims_ok_def handler_runs_def init_entries_def split: option.splits)
qed

text \<open>An initialiser that registers a handler and then fails leaves the handler behind: the next
  module, which registered none, is shut down with it.\<close>

lemma stale_exit_handler:
  "shim_log (fold run_module_call [ModuleInit [ModuleExit h] 1, ModuleInit [] 0, ModuleShutdown]
     \<lparr>init_done = False, exit_handler = None, shim_log = []\<rparr>) = [InitEntered, InitEntered, HandlerRan h]"
  by (simp add: module_exit_def module_shutdown_def)

end
