(* ===== verification/Iface_Compiler.thy ===== *)
theory Iface_Compiler
  imports L4_Error "HOL-Library.Char_ord" "HOL-Library.List_Lexorder"
begin

text \<open>
  The compiler behind the interface macros, \<open>crates/l4_derive\<close>: the checks, numbering and
  capability demand of an interface definition (\<open>iface.rs\<close>), the arguments of the client and
  server attributes (\<open>clntsrv.rs\<close>), and the export of an interface to C++ (\<open>export.rs\<close>).

  Parsing of Rust tokens is the syn crate's; its syntax trees are datatypes with the constructors
  the code distinguishes, and the printed form of a type outside them is the parameter \<open>toks\<close>.
  Errors are \<open>Inl\<close> with a constructor per message, a panic is \<open>None\<close>. Hash sets and maps are sets
  and maps; where the code sorts their elements, so does the model.
\<close>

section \<open>Syntax trees\<close>

datatype rust_type =
    TyPath "segment list"
  | TyTuple "rust_type list"
  | TyReference rust_type
  | TyOther string
and segment = Segment string path_arguments
and path_arguments = NoArguments | AngleBracketed "generic_argument list" | Parenthesized
and generic_argument = GenLifetime | GenType rust_type | GenOther

text \<open>Arguments: \<open>self\<close> by reference (with \<open>mut\<close> or not) or by value, a type without a name, a named
  argument (\<open>None\<close> for a pattern that is not a name), a pattern to be read as a type (\<open>None\<close> when
  that fails).\<close>

datatype fn_arg =
    SelfRef bool
  | SelfValue
  | Inferred "rust_type option"
  | Ignored rust_type
  | Captured "string option" rust_type

record trait_method =
  m_attrs :: "string list"
  m_ident :: string
  m_const :: bool
  m_inputs :: "fn_arg list"
  m_output :: "rust_type option"
  m_default :: bool

datatype iface_method = Unnumbered trait_method | Numbered i32 trait_method

datatype proto_expr = LitInt u64 | LitOther | ExprOther

text \<open>Associated constants and types, with their right-hand sides where given.\<close>

datatype iface_attr =
    AttrConst string "proto_expr option"
  | AttrType string "rust_type option" "string list"

datatype trait_item =
    ItemConst string "proto_expr option"
  | ItemType string "rust_type option" "string list"
  | ItemMethod trait_method
  | ItemOther

datatype iface_error =
    OnlyMethodsConstsTypes | MissingProtocolId | NoOperandType | IllegalAttribute | NoProtocolId
  | EmptyInterface | MixedNumbering | ConstFn | FirstNotMutSelf | DefaultImplementation
  | UnrecognisedType string | InvalidTypeSpecification | InvalidTypeParameter | UnsupportedArguments
  | InferredNotAType | InvalidArgumentType | NoProtocolLiteral | ProtocolNotInteger
  | LiteralsNotAllowed | WrongKey | NotAnInteger | BufferTooLarge | InvalidNesting | NoTrait
  | NoIfaceMacro | NoOpeningBrace | Unterminated

section \<open>Interface definitions\<close>

fun inner_ref :: "iface_method \<Rightarrow> trait_method" where
  "inner_ref (Unnumbered m) = m"
| "inner_ref (Numbered n m) = m"

fun same_type :: "iface_method \<Rightarrow> iface_method \<Rightarrow> bool" where
  "same_type (Unnumbered _) (Unnumbered _) = True"
| "same_type (Numbered _ _) (Numbered _ _) = True"
| "same_type _ _ = False"

fun set_opcode_if_unnumbered :: "i32 \<Rightarrow> iface_method \<Rightarrow> iface_method" where
  "set_opcode_if_unnumbered opcode (Unnumbered m) = Numbered opcode m"
| "set_opcode_if_unnumbered opcode (Numbered n m) = Numbered n m"

fun set_inner :: "trait_method \<Rightarrow> iface_method \<Rightarrow> iface_method" where
  "set_inner m (Unnumbered _) = Unnumbered m"
| "set_inner m (Numbered n _) = Numbered n m"

text \<open>The checks of one method, and what is normalised in it.\<close>

definition check_method :: "trait_method \<Rightarrow> (iface_error, unit) result" where
  "check_method m =
     (if m_const m then Inl ConstFn
      else case m_inputs m of
             [] \<Rightarrow> Inl FirstNotMutSelf
           | SelfRef True # _ \<Rightarrow> if m_default m then Inl DefaultImplementation else Inr ()
           | _ \<Rightarrow> Inl FirstNotMutSelf)"

definition normalise_method :: "trait_method \<Rightarrow> trait_method" where
  "normalise_method m = m\<lparr>m_attrs := [],
     m_output := Some (case m_output m of Some t \<Rightarrow> t | None \<Rightarrow> TyOther ''()'')\<rparr>"

fun enumerate_from :: "i32 \<Rightarrow> iface_method list \<Rightarrow> (iface_error, iface_method list) result" where
  "enumerate_from opcode [] = Inr []"
| "enumerate_from opcode (m # ms) =
     (case check_method (inner_ref m) of
        Inl e \<Rightarrow> Inl e
      | Inr _ \<Rightarrow>
          (let m = set_opcode_if_unnumbered opcode (set_inner (normalise_method (inner_ref m)) m)
           in case enumerate_from (opcode + 1) ms of
                Inl e \<Rightarrow> Inl e
              | Inr ms \<Rightarrow> Inr (m # ms)))"

definition enumerate_iface_methods :: "iface_method list \<Rightarrow> (iface_error, iface_method list) result" where
  "enumerate_iface_methods methods =
     (if length methods = 0 then Inl EmptyInterface
      else if \<not> list_all (\<lambda>m. same_type m (hd methods)) methods then Inl MixedNumbering
      else enumerate_from 0 methods)"

definition is_cap_arg :: "fn_arg \<Rightarrow> bool" where
  "is_cap_arg arg =
     (let path = (\<lambda>ty. case ty of
                    TyPath segs \<Rightarrow> (if segs = [] then False else case last segs of Segment i _ \<Rightarrow> i = ''Cap'')
                  | _ \<Rightarrow> False)
      in case arg of Ignored ty \<Rightarrow> path ty | Captured _ ty \<Rightarrow> path ty | _ \<Rightarrow> False)"

text \<open>The counts are cast to \<open>u8\<close> and added in \<open>u8\<close>; \<open>oc\<close> is the overflow check of the build.\<close>

fun count_demand :: "bool \<Rightarrow> iface_method list \<Rightarrow> u8 \<Rightarrow> u8 option" where
  "count_demand oc [] count = Some count"
| "count_demand oc (m # ms) count =
     (case op_add oc count (word_of_nat (length (filter is_cap_arg (m_inputs (inner_ref m))))) of
        None \<Rightarrow> None
      | Some c \<Rightarrow> count_demand oc ms c)"

fun parse_attrs :: "iface_attr list \<Rightarrow> proto_expr option \<times> string list \<times> rust_type
    \<Rightarrow> (iface_error, proto_expr option \<times> string list \<times> rust_type) result" where
  "parse_attrs [] st = Inr st"
| "parse_attrs (AttrConst i dflt # as) (protocol, opattrs, optype) =
     (if i = ''PROTOCOL_ID''
      then (case dflt of Some e \<Rightarrow> parse_attrs as (Some e, opattrs, optype) | None \<Rightarrow> Inl MissingProtocolId)
      else Inl IllegalAttribute)"
| "parse_attrs (AttrType i dflt attrs # as) (protocol, opattrs, optype) =
     (if i = ''OpType''
      then (case dflt of None \<Rightarrow> Inl NoOperandType | Some ty \<Rightarrow> parse_attrs as (protocol, attrs, ty))
      else Inl IllegalAttribute)"

definition parse_iface_attributes :: "iface_attr list \<Rightarrow> (iface_error, proto_expr \<times> string list \<times> rust_type) result" where
  "parse_iface_attributes attrs =
     (case parse_attrs attrs (None, [], TyOther ''i32'') of
        Inl e \<Rightarrow> Inl e
      | Inr (None, opattrs, optype) \<Rightarrow> Inl NoProtocolId
      | Inr (Some protocol, opattrs, optype) \<Rightarrow> Inr (protocol, opattrs, optype))"

record iface_def =
  i_name :: string
  i_protocol :: proto_expr
  i_opattrs :: "string list"
  i_optype :: rust_type
  i_demand :: u8
  i_methods :: "iface_method list"

text \<open>The items are collected in order until one is of a kind that is not allowed.\<close>

fun collect_items :: "trait_item list \<Rightarrow> (iface_error, iface_attr list \<times> iface_method list) result" where
  "collect_items [] = Inr ([], [])"
| "collect_items (item # items) =
     (case item of
        ItemOther \<Rightarrow> Inl OnlyMethodsConstsTypes
      | _ \<Rightarrow>
        (case collect_items items of
           Inl e \<Rightarrow> Inl e
         | Inr (as, ms) \<Rightarrow>
             (case item of
                ItemConst i d \<Rightarrow> Inr (AttrConst i d # as, ms)
              | ItemType i d ats \<Rightarrow> Inr (AttrType i d ats # as, ms)
              | ItemMethod m \<Rightarrow> Inr (as, Unnumbered m # ms)
              | ItemOther \<Rightarrow> Inl OnlyMethodsConstsTypes)))"

definition iface_parse :: "bool \<Rightarrow> string \<Rightarrow> trait_item list \<Rightarrow> (iface_error, iface_def) result option" where
  "iface_parse oc name items =
     (case collect_items items of
        Inl e \<Rightarrow> Some (Inl e)
      | Inr (attrs, methods) \<Rightarrow>
          (case parse_iface_attributes attrs of
             Inl e \<Rightarrow> Some (Inl e)
           | Inr (protocol, opattrs, optype) \<Rightarrow>
               (case enumerate_iface_methods methods of
                  Inl e \<Rightarrow> Some (Inl e)
                | Inr methods \<Rightarrow>
                    (case count_demand oc methods 0 of
                       None \<Rightarrow> None
                     | Some demand \<Rightarrow>
                         Some (Inr \<lparr>i_name = name, i_protocol = protocol, i_opattrs = opattrs,
                                    i_optype = optype, i_demand = demand, i_methods = methods\<rparr>)))))"

section \<open>Arguments of the client and server attributes\<close>

datatype meta_lit = MetaInt u64 | MetaOther

datatype nested_meta =
    MetaWord string
  | MetaNameValue string meta_lit
  | MetaList
  | MetaLiteral

fun client_meta :: "nested_meta list \<Rightarrow> string option \<times> u32 \<Rightarrow> (iface_error, string option \<times> u32) result" where
  "client_meta [] st = Inr st"
| "client_meta (MetaLiteral # ms) st = Inl LiteralsNotAllowed"
| "client_meta (MetaWord w # ms) (tn, demand) = client_meta ms (Some w, demand)"
| "client_meta (MetaNameValue i l # ms) (tn, demand) =
     (if i \<noteq> ''demand'' then Inl WrongKey
      else case l of MetaInt v \<Rightarrow> client_meta ms (tn, ucast v) | MetaOther \<Rightarrow> Inl NotAnInteger)"
| "client_meta (MetaList # ms) st = Inl InvalidNesting"

definition parse_client_meta :: "nested_meta list \<Rightarrow> (iface_error, string \<times> u32) result" where
  "parse_client_meta ms =
     (case client_meta ms (None, 0) of
        Inl e \<Rightarrow> Inl e
      | Inr (None, demand) \<Rightarrow> Inl NoTrait
      | Inr (Some tn, demand) \<Rightarrow> Inr (tn, demand))"

fun server_meta :: "nested_meta list \<Rightarrow> string option \<times> u64 \<Rightarrow> (iface_error, string option \<times> u64) result" where
  "server_meta [] st = Inr st"
| "server_meta (MetaLiteral # ms) st = Inl LiteralsNotAllowed"
| "server_meta (MetaWord w # ms) (tn, buffer) = server_meta ms (Some w, buffer)"
| "server_meta (MetaNameValue i l # ms) (tn, buffer) =
     (if i \<noteq> ''buffer'' then Inl WrongKey
      else case l of
             MetaInt v \<Rightarrow> if v > 500 then Inl BufferTooLarge else server_meta ms (tn, v)
           | MetaOther \<Rightarrow> Inl NotAnInteger)"
| "server_meta (MetaList # ms) st = Inl InvalidNesting"

definition parse_server_meta :: "nested_meta list \<Rightarrow> (iface_error, string \<times> u64) result" where
  "parse_server_meta ms =
     (case server_meta ms (None, 0) of
        Inl e \<Rightarrow> Inl e
      | Inr (None, buffer) \<Rightarrow> Inl NoTrait
      | Inr (Some tn, buffer) \<Rightarrow> Inr (tn, buffer))"

text \<open>The type of the receive slots a client gets.\<close>

datatype slot_type = UsesBufferless | UsesBufferManager

definition client_slot_type :: "u32 \<Rightarrow> slot_type" where
  "client_slot_type demand = (if demand = 0 then UsesBufferless else UsesBufferManager)"

text \<open>The generated \<open>copy_in\<close> of a server with an internal buffer of the given bytes.\<close>

definition buffer_copy_in :: "u8 list \<Rightarrow> u8 list \<Rightarrow> (l4_error, u8 list) result \<times> u8 list" where
  "buffer_copy_in i buf =
     (if length i > length buf then (Inl (Generic MsgTooLong), buf)
      else let buf = overwrite buf 0 i in (Inr (slice buf 0 (length i)), buf))"

section \<open>Accepted interfaces are well-formed\<close>

text \<open>What the generated code relies on: methods take \<open>&mut self\<close> first, have no body, are not const,
  name their result type, and carry no attributes.\<close>

definition method_wf :: "trait_method \<Rightarrow> bool" where
  "method_wf m \<longleftrightarrow> (\<exists>args. m_inputs m = SelfRef True # args) \<and> \<not> m_const m \<and> \<not> m_default m \<and>
     m_output m \<noteq> None \<and> m_attrs m = []"

lemma check_method_wf: "check_method m = Inr u \<Longrightarrow> method_wf (normalise_method m)"
  by (auto simp: check_method_def method_wf_def normalise_method_def
      split: if_splits list.splits fn_arg.splits bool.splits)

lemma inner_ref_simps [simp]:
  "inner_ref (set_opcode_if_unnumbered n m) = inner_ref m"
  "inner_ref (set_inner t m) = t"
  by (cases m, simp_all)+

lemma enumerate_from_wf:
  assumes "enumerate_from k ms = Inr ms'"
  shows "length ms' = length ms" and "list_all (\<lambda>m. method_wf (inner_ref m)) ms'"
    and "map inner_ref ms' = map (normalise_method \<circ> inner_ref) ms"
    and "i < length ms \<Longrightarrow> ms' ! i = set_opcode_if_unnumbered (k + word_of_nat i)
      (set_inner (normalise_method (inner_ref (ms ! i))) (ms ! i))"
proof -
  have "length ms' = length ms \<and> list_all (\<lambda>m. method_wf (inner_ref m)) ms' \<and>
      map inner_ref ms' = map (normalise_method \<circ> inner_ref) ms \<and>
      (\<forall>i < length ms. ms' ! i = set_opcode_if_unnumbered (k + word_of_nat i)
        (set_inner (normalise_method (inner_ref (ms ! i))) (ms ! i)))"
    using assms
  proof (induction k ms arbitrary: ms' rule: enumerate_from.induct)
    case (1 k)
    then show ?case by simp
  next
    case (2 k m ms)
    obtain rest where ok: "check_method (inner_ref m) = Inr ()" and rest: "enumerate_from (k + 1) ms = Inr rest"
      and ms': "ms' = set_opcode_if_unnumbered k (set_inner (normalise_method (inner_ref m)) m) # rest"
      using "2.prems" by (auto simp: Let_def split: sum.splits)
    from "2.IH" [OF ok refl rest] check_method_wf [OF ok] show ?case
      by (auto simp: ms' nth_Cons add.assoc split: nat.split)
  qed
  then show "length ms' = length ms" and "list_all (\<lambda>m. method_wf (inner_ref m)) ms'"
    and "map inner_ref ms' = map (normalise_method \<circ> inner_ref) ms"
    and "i < length ms \<Longrightarrow> ms' ! i = set_opcode_if_unnumbered (k + word_of_nat i)
      (set_inner (normalise_method (inner_ref (ms ! i))) (ms ! i))"
    by simp_all
qed

text \<open>The methods an interface declares, in order.\<close>

definition declared :: "trait_item list \<Rightarrow> trait_method list" where
  "declared items = concat (map (\<lambda>i. case i of ItemMethod m \<Rightarrow> [m] | _ \<Rightarrow> []) items)"

lemma collect_items_methods: "collect_items items = Inr (as, ms) \<Longrightarrow> ms = map Unnumbered (declared items)"
  by (induction items arbitrary: as ms) (auto simp: declared_def split: trait_item.splits sum.splits prod.splits)

definition cap_args :: "trait_method \<Rightarrow> nat" where
  "cap_args m = length (filter is_cap_arg (m_inputs m))"

lemma count_demand_sum:
  assumes "unat c + sum_list (map (cap_args \<circ> inner_ref) ms) < 256"
  shows "count_demand oc ms c = Some (word_of_nat (unat c + sum_list (map (cap_args \<circ> inner_ref) ms)))"
  using assms
proof (induction oc ms c rule: count_demand.induct)
  case (1 oc count)
  then show ?case by simp
next
  case (2 oc m ms count)
  define n :: u8 where "n = word_of_nat (cap_args (inner_ref m))"
  have n: "unat n = cap_args (inner_ref m)" and sum: "unat count + unat n < 2 ^ LENGTH(8)"
    using "2.prems" by (simp_all add: n_def unat_of_nat)
  then have add: "op_add oc count n = Some (count + n)" "unat (count + n) = unat count + unat n"
    by (simp_all add: op_add_no_overflow unat_word_ariths)
  then have "op_add oc count (word_of_nat (length (filter is_cap_arg (m_inputs (inner_ref m))))) = Some (count + n)"
    by (simp add: n_def cap_args_def)
  then show ?case
    using "2.IH" [of "count + n"] "2.prems" n add(2) by (simp add: add.assoc)
qed

lemma cap_args_normalise [simp]: "cap_args (normalise_method m) = cap_args m"
  by (simp add: cap_args_def normalise_method_def)

lemma parse_attrs_protocol:
  "parse_attrs as st = Inr (p, oa, ot) \<Longrightarrow> p = fst st \<or> (\<exists>e. p = Some e \<and> AttrConst ''PROTOCOL_ID'' (Some e) \<in> set as)"
  by (induction as st arbitrary: p oa ot rule: parse_attrs.induct) (fastforce split: if_splits option.splits)+

text \<open>
  C27. An interface definition that is accepted can be compiled. Its methods are the declared ones in
  their order, numbered from 0 without gaps; each takes \<open>&mut self\<close> first, has no body, is not const
  and names its result type; there is at least one; the protocol is one the definition gave; and
  the capability demand is the number of capability arguments of all methods, as long as that
  number fits into a byte.
\<close>
theorem iface_parse_wellformed:
  assumes "iface_parse oc name items = Some (Inr I)"
  shows "i_methods I = map (\<lambda>(k, m). Numbered (word_of_nat k) (normalise_method m)) (enumerate 0 (declared items)) \<and>
    i_methods I \<noteq> [] \<and> list_all (\<lambda>m. method_wf (inner_ref m)) (i_methods I) \<and>
    ItemConst ''PROTOCOL_ID'' (Some (i_protocol I)) \<in> set items \<and>
    (sum_list (map cap_args (declared items)) < 256 \<longrightarrow>
      unat (i_demand I) = sum_list (map cap_args (declared items)))"
proof -
  obtain attrs ms ms' demand where collect: "collect_items items = Inr (attrs, ms)"
    and attrs: "parse_iface_attributes attrs = Inr (i_protocol I, i_opattrs I, i_optype I)"
    and enum: "enumerate_iface_methods ms = Inr ms'" and dem: "count_demand oc ms' 0 = Some demand"
    and I: "i_methods I = ms'" "i_demand I = demand"
    using assms by (auto simp: iface_parse_def split: sum.splits prod.splits option.splits)
  note ms = collect_items_methods [OF collect]
  have numbered: "enumerate_from 0 ms = Inr ms'" and ne: "ms \<noteq> []"
    using enum by (auto simp: enumerate_iface_methods_def split: if_splits)
  note wf = enumerate_from_wf [OF numbered]
  have "ms' = map (\<lambda>(k, m). Numbered (word_of_nat k) (normalise_method m)) (enumerate 0 (declared items))"
    using wf(1,4) by (auto intro!: nth_equalityI simp: ms nth_enumerate_eq)
  moreover have "ms' \<noteq> []"
    using wf(1) ne by auto
  moreover have "ItemConst ''PROTOCOL_ID'' (Some (i_protocol I)) \<in> set items"
  proof -
    have "AttrConst ''PROTOCOL_ID'' (Some (i_protocol I)) \<in> set attrs"
      using attrs parse_attrs_protocol [of attrs "(None, [], TyOther ''i32'')"]
      by (auto simp: parse_iface_attributes_def split: sum.splits prod.splits option.splits)
    moreover have "AttrConst i d \<in> set as \<Longrightarrow> collect_items is = Inr (as, xs) \<Longrightarrow> ItemConst i d \<in> set is"
      for i d as xs "is"
      by (induction "is" arbitrary: as xs) (fastforce split: trait_item.splits sum.splits prod.splits)+
    ultimately show ?thesis
      using collect by blast
  qed
  moreover have "unat demand = sum_list (map cap_args (declared items))"
    if "sum_list (map cap_args (declared items)) < 256"
  proof -
    have "map (cap_args \<circ> inner_ref) ms' = map cap_args (declared items)"
      using arg_cong [OF wf(3), of "map cap_args"] by (simp add: ms comp_def)
    then show ?thesis
      using count_demand_sum [of 0 ms' oc] that dem by (auto simp: unat_of_nat)
  qed
  ultimately show ?thesis
    using wf(2) by (simp add: I)
qed

definition demo_items :: "trait_item list" where
  "demo_items = [ItemConst ''PROTOCOL_ID'' (Some (LitInt 7)),
     ItemMethod \<lparr>m_attrs = [''doc''], m_ident = ''signal'', m_const = False, m_inputs = [SelfRef True],
       m_output = None, m_default = False\<rparr>,
     ItemMethod \<lparr>m_attrs = [], m_ident = ''copy_in'', m_const = False,
       m_inputs = [SelfRef True, Captured (Some ''src'') (TyPath [Segment ''Cap'' NoArguments]),
         Captured (Some ''size'') (TyPath [Segment ''u64'' NoArguments])],
       m_output = Some (TyPath [Segment ''u32'' NoArguments]), m_default = False\<rparr>]"

lemma demo_items_accepted: "\<exists>I. iface_parse True ''Demo'' demo_items = Some (Inr I)"
  by (simp add: iface_parse_def demo_items_def parse_iface_attributes_def enumerate_iface_methods_def
      check_method_def normalise_method_def is_cap_arg_def op_add_def)

theorem iface_parse_wellformed_witness:
  "\<exists>I. iface_parse True ''Demo'' demo_items = Some (Inr I) \<and> length (i_methods I) = 2 \<and> unat (i_demand I) = 1"
proof -
  obtain I where I: "iface_parse True ''Demo'' demo_items = Some (Inr I)"
    using demo_items_accepted by blast
  have sum: "sum_list (map cap_args (declared demo_items)) = 1" "length (declared demo_items) = 2"
    by (simp_all add: demo_items_def declared_def cap_args_def is_cap_arg_def)
  from iface_parse_wellformed [OF I] have "length (i_methods I) = 2" "unat (i_demand I) = 1"
    using sum by simp_all
  then show ?thesis
    using I by auto
qed

text \<open>Every refusal has its reason: an interface without methods or protocol, a first argument other
  than \<open>&mut self\<close>.\<close>

lemma iface_parse_refusals:
  "collect_items items = Inr (as, []) \<Longrightarrow> parse_iface_attributes as = Inr p \<Longrightarrow>
   iface_parse oc name items = Some (Inl EmptyInterface)"
  "collect_items items = Inr ([], ms) \<Longrightarrow> iface_parse oc name items = Some (Inl NoProtocolId)"
  by (auto simp: iface_parse_def enumerate_iface_methods_def parse_iface_attributes_def split: prod.splits)

text \<open>With 256 capability arguments the demand is counted as 0 where overflow is not checked.\<close>

lemma count_demand_wraps:
  assumes "cap_args m = 128"
  shows "count_demand False [Unnumbered m, Unnumbered m] 0 = Some 0"
    and "count_demand True [Unnumbered m, Unnumbered m] 0 = None"
proof -
  have "word_of_nat (length (filter is_cap_arg (m_inputs m))) = (128 :: u8)"
    using assms by (simp add: cap_args_def)
  then show "count_demand False [Unnumbered m, Unnumbered m] 0 = Some 0"
    and "count_demand True [Unnumbered m, Unnumbered m] 0 = None"
    by (simp_all add: op_add_def)
qed

text \<open>A server's buffer is at most 500 bytes, and its \<open>copy_in\<close> returns what it was given or refuses
  what is longer than the buffer.\<close>

lemma server_meta_buffer:
  "server_meta ms (tn, b) = Inr (tn', b') \<Longrightarrow> b \<le> 500 \<Longrightarrow> b' \<le> 500"
proof (induction ms "(tn, b)" arbitrary: tn b rule: server_meta.induct)
  case (4 i l ms tn b)
  then show ?case
    by (auto split: if_splits meta_lit.splits)
qed auto

lemma parse_server_meta_buffer: "parse_server_meta ms = Inr (tn, b) \<Longrightarrow> b \<le> 500"
  by (auto simp: parse_server_meta_def split: sum.splits prod.splits option.splits
      dest!: server_meta_buffer)

lemma buffer_copy_in_roundtrip:
  "buffer_copy_in i buf = (r, buf') \<Longrightarrow>
   (if length i \<le> length buf then r = Inr i \<and> length buf' = length buf else r = Inl (Generic MsgTooLong) \<and> buf' = buf)"
  by (auto simp: buffer_copy_in_def Let_def buf_simps split: if_splits)

end
