(* ===== verification/Cpp_Export.thy ===== *)
theory Cpp_Export
  imports Iface_Compiler
begin

text \<open>
  The export of an interface definition to C++, \<open>crates/l4_derive/export.rs\<close>: the translation of
  types, of methods and of whole interfaces, and the search for an interface definition in a file.
  Strings are lists of characters of one byte each.
\<close>

section \<open>Tables\<close>

definition RUST2CPP_TYPE :: "(string \<times> string) list" where
  "RUST2CPP_TYPE = [(''char'', ''char''), (''i8'', ''char''), (''u8'', ''unsigned char''),
     (''i16'', ''l4_int16_t''), (''u16'', ''l4_uint16_t''), (''i32'', ''l4_int32_t''),
     (''u32'', ''l4_uint32_t''), (''i64'', ''l4_int64_t''), (''u64'', ''l4_uint64_t''),
     (''f32'', ''float''), (''f64'', ''double''), (''usize'', ''l4_umword_t''),
     (''isize'', ''l4_mword_t''), (''bool'', ''bool''), (''Option'', ''Opt''), (''Cap'', ''Cap''),
     (''String'', ''String<>''), (''str'', ''String<>'')]"

definition CPPTYPE2NAMESPACE :: "(string \<times> string \<times> string option) list" where
  "CPPTYPE2NAMESPACE = [(''Opt'', ''L4::Ipc::Opt'', Some ''l4/sys/cxx/ipc_types''),
     (''Cap'', ''L4::Ipc::Cap'', Some ''l4/sys/capability''),
     (''String'', ''L4::Ipc::String'', Some ''l4/sys/cxx/ipc_string''),
     (''Dataspace'', ''L4Re::Dataspace'', Some ''l4/re/dataspace'')]"

definition RUST2CPP_OUTPUT :: "(string \<times> string) list" where
  "RUST2CPP_OUTPUT = [(''String'', ''String<char>''), (''str'', ''String<char>'')]"

type_synonym type_mappings = "string \<rightharpoonup> string \<times> string"

text \<open>The sets a translation adds to: namespaces to use and files to include.\<close>

type_synonym usages = "string set \<times> string set"

definition or_else :: "'a option \<Rightarrow> 'a option \<Rightarrow> 'a option" where
  "or_else a b = (case a of None \<Rightarrow> b | Some x \<Rightarrow> Some x)"

definition unwrap_or :: "'a option \<Rightarrow> 'a \<Rightarrow> 'a" where
  "unwrap_or a d = (case a of None \<Rightarrow> d | Some x \<Rightarrow> x)"

section \<open>Types\<close>

text \<open>The name of a path type, before its generic arguments.\<close>

definition main_type :: "type_mappings \<Rightarrow> bool \<Rightarrow> string \<Rightarrow> string" where
  "main_type additional is_output main =
     (let translated = unwrap_or (or_else (map_option snd (additional main)) (map_of RUST2CPP_TYPE main)) main
      in if is_output then unwrap_or (map_of RUST2CPP_OUTPUT main) translated else translated)"

definition add_usages :: "type_mappings \<Rightarrow> string \<Rightarrow> usages \<Rightarrow> usages" where
  "add_usages additional main us =
     (case or_else (map_of CPPTYPE2NAMESPACE main) (map_option (\<lambda>(usg, _). (usg, None)) (additional main)) of
        None \<Rightarrow> us
      | Some (usg, incl) \<Rightarrow>
          (case us of (namespace_usg, includes) \<Rightarrow>
             (insert usg namespace_usg, case incl of Some i \<Rightarrow> insert i includes | None \<Rightarrow> includes)))"

definition is_ws :: "char \<Rightarrow> bool" where
  "is_ws c \<longleftrightarrow> c \<in> {CHR '' '', CHR 0x09, CHR 0x0A, CHR 0x0B, CHR 0x0C, CHR 0x0D}"

text \<open>\<open>String::truncate\<close> of the last two bytes.\<close>

definition strip_2 :: "string \<Rightarrow> string" where
  "strip_2 s = take (length s - 2) s"

text \<open>A generic argument of the last segment is smaller than the path.\<close>

lemma size_last_segment:
  assumes "segs \<noteq> []" and "last segs = Segment main (AngleBracketed args)"
  shows "size_list size args < size_list size segs"
proof -
  have "size (last segs) \<le> size_list size segs"
    using last_in_set [OF assms(1)] by (rule size_list_estimation') simp
  then show ?thesis
    using assms(2) by simp
qed

function (sequential) translate_type :: "(rust_type \<Rightarrow> string) \<Rightarrow> type_mappings \<Rightarrow> bool \<Rightarrow> rust_type \<Rightarrow> usages
      \<Rightarrow> (iface_error, string) result \<times> usages"
  and translate_args :: "(rust_type \<Rightarrow> string) \<Rightarrow> type_mappings \<Rightarrow> bool \<Rightarrow> generic_argument list \<Rightarrow> usages
      \<Rightarrow> (iface_error, string) result \<times> usages" where
  "translate_type toks additional is_output ty us =
     (case ty of
        TyReference r \<Rightarrow> translate_type toks additional is_output r us
      | TyPath segments \<Rightarrow>
          (if segments = [] then (Inl InvalidTypeSpecification, us)
           else case last segments of
                  Segment main arguments \<Rightarrow>
                    (let translated = main_type additional is_output main;
                         us = add_usages additional main us
                     in case arguments of
                          NoArguments \<Rightarrow> (Inr (if translated = ''()'' then [] else translated), us)
                        | AngleBracketed args \<Rightarrow>
                            (case translate_args toks additional is_output args us of
                               (Inl e, us) \<Rightarrow> (Inl e, us)
                             | (Inr generics, us) \<Rightarrow>
                                 (let translated =
                                        (if length generics > 0
                                         then translated @ ''<'' @ strip_2 generics @ ''>'' else translated)
                                  in (Inr (if translated = ''()'' then [] else translated), us)))
                        | Parenthesized \<Rightarrow> (Inl UnsupportedArguments, us)))
      | TyTuple elems \<Rightarrow>
          (if elems = [] then (Inr [], us)
           else let n = filter (\<lambda>c. \<not> is_ws c) (toks ty)
                in if n = ''()'' then (Inr [], us) else (Inl (UnrecognisedType n), us))
      | TyOther tokens \<Rightarrow>
          (let n = filter (\<lambda>c. \<not> is_ws c) tokens
           in if n = ''()'' then (Inr [], us) else (Inl (UnrecognisedType n), us)))"
| "translate_args toks additional is_output [] us = (Inr [], us)"
| "translate_args toks additional is_output (arg # args) us =
     (case (case arg of
              GenLifetime \<Rightarrow> (Inr [], us)
            | GenType t \<Rightarrow> translate_type toks additional is_output t us
            | GenOther \<Rightarrow> (Inl InvalidTypeParameter, us)) of
        (Inl e, us) \<Rightarrow> (Inl e, us)
      | (Inr s, us) \<Rightarrow>
          (case translate_args toks additional is_output args us of
             (Inl e, us) \<Rightarrow> (Inl e, us)
           | (Inr rest, us) \<Rightarrow> (Inr (s @ '', '' @ rest), us)))"
  by pat_completeness auto
termination
proof (relation "measure (case_sum (\<lambda>(_, _, _, ty, _). size ty) (\<lambda>(_, _, _, args, _). size_list size args))")
qed (auto dest: size_last_segment)

section \<open>Methods\<close>

text \<open>A variable name no argument has so far: the first letter from \<open>a\<close> on; \<open>None\<close> is the panic
  when there is none left.\<close>

definition new_var :: "string list \<Rightarrow> (string \<times> string list) option" where
  "new_var used =
     map_option (\<lambda>n. ([char_of n], used @ [[char_of n]])) (find (\<lambda>n. [char_of n] \<notin> set used) [97..<256])"

text \<open>Name and type of an argument that is not \<open>self\<close>; the name is empty where there is none.\<close>

fun arg_parts :: "fn_arg \<Rightarrow> (iface_error, string \<times> rust_type) result option" where
  "arg_parts (SelfRef _) = None"
| "arg_parts SelfValue = None"
| "arg_parts (Inferred None) = Some (Inl InferredNotAType)"
| "arg_parts (Inferred (Some ty)) = Some (Inr ([], ty))"
| "arg_parts (Ignored ty) = Some (Inr ([], ty))"
| "arg_parts (Captured (Some i) ty) = Some (Inr (i, ty))"
| "arg_parts (Captured None ty) = Some (Inl InvalidArgumentType)"

definition name_arg :: "string \<Rightarrow> string list \<Rightarrow> (string \<times> string list) option" where
  "name_arg name used = (if name = [] then new_var used else Some (name, used @ [name]))"

fun gen_args :: "(rust_type \<Rightarrow> string) \<Rightarrow> type_mappings \<Rightarrow> nat \<Rightarrow> fn_arg list \<Rightarrow> string list \<Rightarrow> usages
    \<Rightarrow> ((iface_error, string \<times> string list) result \<times> usages) option" where
  "gen_args toks tm idx [] used us = Some (Inr ([], used), us)"
| "gen_args toks tm idx (fnarg # args) used us =
     (case arg_parts fnarg of
        None \<Rightarrow> gen_args toks tm (idx + 1) args used us
      | Some (Inl e) \<Rightarrow> Some (Inl e, us)
      | Some (Inr (name, argtype)) \<Rightarrow>
          (case name_arg name used of
             None \<Rightarrow> None
           | Some (name, used) \<Rightarrow>
               (case translate_type toks tm False argtype us of
                  (Inl e, us) \<Rightarrow> Some (Inl e, us)
                | (Inr ty, us) \<Rightarrow>
                    (case gen_args toks tm (idx + 1) args used us of
                       None \<Rightarrow> None
                     | Some (Inl e, us) \<Rightarrow> Some (Inl e, us)
                     | Some (Inr (rest, used), us) \<Rightarrow>
                         Some (Inr ((if idx > 1 then '', '' else []) @ ty @ '' '' @ name @ rest, used), us)))))"

definition gen_cpp_rpc_method :: "(rust_type \<Rightarrow> string) \<Rightarrow> trait_method \<Rightarrow> type_mappings \<Rightarrow> usages
    \<Rightarrow> ((iface_error, string) result \<times> usages) option" where
  "gen_cpp_rpc_method toks m tm us =
     (let cpp = ''  L4_INLINE_RPC(int, '' @ m_ident m @ '', (''
      in case gen_args toks tm 0 (m_inputs m) [] us of
           None \<Rightarrow> None
         | Some (Inl e, us) \<Rightarrow> Some (Inl e, us)
         | Some (Inr (args, used), us) \<Rightarrow>
             (case m_output m of
                None \<Rightarrow> Some (Inr (cpp @ args @ ''));\<newline>''), us)
              | Some ty \<Rightarrow>
                  (case translate_type toks tm True ty us of
                     (Inl e, us) \<Rightarrow> Some (Inl e, us)
                   | (Inr ty, us) \<Rightarrow>
                       if ty \<noteq> []
                       then (case new_var used of
                               None \<Rightarrow> None
                             | Some (v, _) \<Rightarrow> Some (Inr (cpp @ args @ '', '' @ ty @ ''& '' @ v @ ''));\<newline>''), us))
                       else Some (Inr (cpp @ args @ ''));\<newline>''), us))))"

section \<open>Interfaces\<close>

record export_options =
  o_name :: "string option"
  o_protocol :: "u64 option"
  o_type_mappings :: type_mappings
  o_includes :: "string set"

fun gen_methods :: "(rust_type \<Rightarrow> string) \<Rightarrow> type_mappings \<Rightarrow> iface_method list \<Rightarrow> usages
    \<Rightarrow> ((iface_error, string) result \<times> usages) option" where
  "gen_methods toks tm [] us = Some (Inr [], us)"
| "gen_methods toks tm (m # ms) us =
     (case gen_cpp_rpc_method toks (inner_ref m) tm us of
        None \<Rightarrow> None
      | Some (Inl e, us) \<Rightarrow> Some (Inl e, us)
      | Some (Inr cpp, us) \<Rightarrow>
          (case gen_methods toks tm ms us of
             None \<Rightarrow> None
           | Some (Inl e, us) \<Rightarrow> Some (Inl e, us)
           | Some (Inr rest, us) \<Rightarrow> Some (Inr (cpp @ rest), us)))"

definition export_protocol :: "iface_def \<Rightarrow> export_options \<Rightarrow> (iface_error, u64) result" where
  "export_protocol iface opts =
     (case o_protocol opts of
        Some x \<Rightarrow> Inr x
      | None \<Rightarrow>
          (case i_protocol iface of
             LitInt v \<Rightarrow> Inr v
           | LitOther \<Rightarrow> Inl ProtocolNotInteger
           | ExprOther \<Rightarrow> Inl NoProtocolLiteral))"

definition preamble :: "usages \<Rightarrow> string" where
  "preamble us =
     (case us of (namespace_usg, includes) \<Rightarrow>
        concat (map (\<lambda>x. ''#include <'' @ x @ ''>\<newline>'') (sorted_list_of_set includes)) @
        (if namespace_usg \<noteq> {} then ''\<newline>'' else []) @
        concat (map (\<lambda>x. ''using '' @ x @ '';\<newline>'') (sorted_list_of_set namespace_usg)))"

definition iface_head :: "iface_def \<Rightarrow> export_options \<Rightarrow> u64 \<Rightarrow> string" where
  "iface_head iface opts protocol =
     (let name = unwrap_or (o_name opts) (i_name iface);
          demand = (if i_demand iface = 0 then []
                    else '', L4::Type_info::Demand_t<'' @ decimal (unat (i_demand iface)) @ ''>'')
      in ''struct '' @ name @ '': L4::Kobject_t<'' @ name @ '', L4::Kobject, '' @
         decimal (unat protocol) @ demand @ ''> {\<newline>'')"

text \<open>The names of all methods behind the methods, the separator of the last one stripped.\<close>

definition rpcs_list :: "iface_def \<Rightarrow> string" where
  "rpcs_list iface = ''  typedef L4::Typeid::Rpcs<'' @
     concat (map (\<lambda>m. m_ident (inner_ref m) @ ''_t, '') (i_methods iface))"

definition iface_tail :: string where
  "iface_tail = ''> Rpcs;\<newline>};\<newline>''"

definition default_includes :: "string set" where
  "default_includes = {''l4/sys/capability'', ''l4/sys/cxx/ipc_iface''}"

definition gen_cpp_interface :: "(rust_type \<Rightarrow> string) \<Rightarrow> iface_def \<Rightarrow> export_options
    \<Rightarrow> (iface_error, string) result option" where
  "gen_cpp_interface toks iface opts =
     (case export_protocol iface opts of
        Inl e \<Rightarrow> Some (Inl e)
      | Inr protocol \<Rightarrow>
          (case gen_methods toks (o_type_mappings opts) (i_methods iface) ({}, default_includes \<union> o_includes opts) of
             None \<Rightarrow> None
           | Some (Inl e, us) \<Rightarrow> Some (Inl e)
           | Some (Inr methods, us) \<Rightarrow>
               (let cpp = strip_2 (iface_head iface opts protocol @ methods @ rpcs_list iface) @ iface_tail;
                    pre = preamble us
                in if \<not> list_all is_ws pre then Some (Inr (pre @ ''\<newline>'' @ cpp)) else Some (Inr cpp))))"

section \<open>The interface definition in a file\<close>

text \<open>\<open>str::find\<close> of a string: the first position at which it is a prefix of the rest.\<close>

definition find_str :: "string \<Rightarrow> string \<Rightarrow> nat option" where
  "find_str pat s = find (\<lambda>i. take (length pat) (drop i s) = pat) [0..<Suc (length s)]"

text \<open>The scan for the closing brace, over the characters with their positions.\<close>

fun find_close :: "int \<Rightarrow> nat \<Rightarrow> string \<Rightarrow> nat option" where
  "find_close braces index [] = None"
| "find_close braces index (ch # chs) =
     (let braces = (if ch = CHR ''{'' then braces + 1 else if ch = CHR ''}'' then braces - 1 else braces)
      in if braces = 0 then Some index else find_close braces (index + 1) chs)"

text \<open>The text \<open>parse_external_iface\<close> hands to the parser; \<open>None\<close> where slicing panics.\<close>

definition parse_external_iface :: "string \<Rightarrow> (iface_error, string) result option" where
  "parse_external_iface contents =
     (case find_str ''iface!'' contents of
        None \<Rightarrow> Some (Inl NoIfaceMacro)
      | Some start \<Rightarrow>
          (case find_str ''{'' (drop start contents) of
             None \<Rightarrow> Some (Inl NoOpeningBrace)
           | Some off \<Rightarrow>
               (let start = start + off + 1
                in if length contents - 1 < start + 1 then None
                   else case find_close 1 0 (slice contents (start + 1) (length contents - 1 - (start + 1))) of
                          None \<Rightarrow> Some (Inl Unterminated)
                        | Some index \<Rightarrow> Some (Inr (slice contents start (start + index - start))))))"

section \<open>Signatures\<close>

text \<open>The reference: the parameters of a method as a list, and their list joined by commas.\<close>

fun join :: "string \<Rightarrow> string list \<Rightarrow> string" where
  "join sep [] = []"
| "join sep [x] = x"
| "join sep (x # y # xs) = x @ sep @ join sep (y # xs)"

fun arg_params :: "(rust_type \<Rightarrow> string) \<Rightarrow> type_mappings \<Rightarrow> fn_arg list \<Rightarrow> string list \<Rightarrow> usages
    \<Rightarrow> ((iface_error, string list \<times> string list) result \<times> usages) option" where
  "arg_params toks tm [] used us = Some (Inr ([], used), us)"
| "arg_params toks tm (fnarg # args) used us =
     (case arg_parts fnarg of
        None \<Rightarrow> arg_params toks tm args used us
      | Some (Inl e) \<Rightarrow> Some (Inl e, us)
      | Some (Inr (name, argtype)) \<Rightarrow>
          (case name_arg name used of
             None \<Rightarrow> None
           | Some (name, used) \<Rightarrow>
               (case translate_type toks tm False argtype us of
                  (Inl e, us) \<Rightarrow> Some (Inl e, us)
                | (Inr ty, us) \<Rightarrow>
                    (case arg_params toks tm args used us of
                       None \<Rightarrow> None
                     | Some (Inl e, us) \<Rightarrow> Some (Inl e, us)
                     | Some (Inr (rest, used), us) \<Rightarrow> Some (Inr ((ty @ '' '' @ name) # rest, used), us)))))"

definition ret_params :: "(rust_type \<Rightarrow> string) \<Rightarrow> type_mappings \<Rightarrow> rust_type option \<Rightarrow> string list \<Rightarrow> usages
    \<Rightarrow> ((iface_error, string list) result \<times> usages) option" where
  "ret_params toks tm out used us =
     (case out of
        None \<Rightarrow> Some (Inr [], us)
      | Some ty \<Rightarrow>
          (case translate_type toks tm True ty us of
             (Inl e, us) \<Rightarrow> Some (Inl e, us)
           | (Inr ty, us) \<Rightarrow>
               if ty \<noteq> []
               then (case new_var used of None \<Rightarrow> None | Some (v, _) \<Rightarrow> Some (Inr [ty @ ''& '' @ v], us))
               else Some (Inr [], us)))"

definition reference_method :: "(rust_type \<Rightarrow> string) \<Rightarrow> trait_method \<Rightarrow> type_mappings \<Rightarrow> usages
    \<Rightarrow> ((iface_error, string) result \<times> usages) option" where
  "reference_method toks m tm us =
     (case arg_params toks tm (m_inputs m) [] us of
        None \<Rightarrow> None
      | Some (Inl e, us) \<Rightarrow> Some (Inl e, us)
      | Some (Inr (args, used), us) \<Rightarrow>
          (case ret_params toks tm (m_output m) used us of
             None \<Rightarrow> None
           | Some (Inl e, us) \<Rightarrow> Some (Inl e, us)
           | Some (Inr rets, us) \<Rightarrow>
               Some (Inr (''  L4_INLINE_RPC(int, '' @ m_ident m @ '', ('' @ join '', '' (args @ rets) @ ''));\<newline>''), us)))"

text \<open>Behind \<open>self\<close> there is no other \<open>self\<close>, and every parameter but the first gets a comma.\<close>

definition plain_arg :: "fn_arg \<Rightarrow> bool" where
  "plain_arg a \<longleftrightarrow> arg_parts a \<noteq> None"

definition commas :: "string list \<Rightarrow> string" where
  "commas ps = concat (map ((@) '', '') ps)"

lemma join_commas: "join '', '' (p # ps) = p @ commas ps"
  by (induction ps arbitrary: p) (simp_all add: commas_def)

definition as_text :: "(string list \<Rightarrow> string) \<Rightarrow> ((iface_error, string list \<times> string list) result \<times> usages) option
    \<Rightarrow> ((iface_error, string \<times> string list) result \<times> usages) option" where
  "as_text f = map_option (\<lambda>(r, us). (case r of Inl e \<Rightarrow> Inl e | Inr (ps, used) \<Rightarrow> Inr (f ps, used), us))"

lemma gen_args_commas:
  assumes "list_all plain_arg args" and "1 < idx"
  shows "gen_args toks tm idx args used us = as_text commas (arg_params toks tm args used us)"
  using assms
proof (induction args arbitrary: idx used us)
  case Nil
  then show ?case by (simp add: as_text_def commas_def)
next
  case (Cons a args)
  then show ?case
    by (auto simp: as_text_def commas_def plain_arg_def split: option.splits sum.splits prod.splits)
qed

lemma gen_args_join:
  assumes "list_all plain_arg args"
  shows "gen_args toks tm 1 args used us = as_text (join '', '') (arg_params toks tm args used us)"
proof (cases args)
  case Nil
  then show ?thesis by (simp add: as_text_def)
next
  case (Cons a rest)
  then show ?thesis
    using assms gen_args_commas [of rest 2]
    by (auto simp: as_text_def plain_arg_def join_commas numeral_2_eq_2 split: option.splits sum.splits prod.splits)
qed

lemma join_snoc: "ps \<noteq> [] \<Longrightarrow> join '', '' (ps @ [r]) = join '', '' ps @ '', '' @ r"
  by (cases ps) (simp_all add: join_commas commas_def)

lemma arg_params_length:
  "list_all plain_arg args \<Longrightarrow> arg_params toks tm args used us = Some (Inr (ps, used'), us') \<Longrightarrow> length ps = length args"
  by (induction args arbitrary: used us ps)
    (auto simp: plain_arg_def split: option.splits sum.splits prod.splits)

lemma translate_unit: "translate_type toks tm o' (TyOther ''()'') us = (Inr [], us)"
  by (simp add: is_ws_def)

text \<open>
  C36. The exported signature of a method is its parameters joined by commas: for a method that takes
  \<open>self\<close> first, and besides it at least one argument or no result, the generator with its comma
  before every argument but the first and before the result produces exactly the reference: the
  translated arguments and the result as one comma-separated list, the same includes and
  namespaces, or the same error.
\<close>
theorem export_method_reference:
  assumes "m_inputs m = SelfRef b # args" and "list_all plain_arg args"
    and "args \<noteq> [] \<or> m_output m = None \<or> m_output m = Some (TyOther ''()'')"
  shows "gen_cpp_rpc_method toks m tm us = reference_method toks m tm us"
proof (cases "arg_params toks tm args [] us")
  case None
  then show ?thesis
    using gen_args_join [OF assms(2)]
    by (simp add: gen_cpp_rpc_method_def reference_method_def assms(1) as_text_def Let_def)
next
  case (Some x)
  obtain r us' where x: "x = (r, us')"
    by (cases x)
  show ?thesis
  proof (cases r)
    case (Inl e)
    then show ?thesis
      using gen_args_join [OF assms(2)] Some x
      by (simp add: gen_cpp_rpc_method_def reference_method_def assms(1) as_text_def Let_def)
  next
    case (Inr p)
    obtain ps used where p: "p = (ps, used)"
      by (cases p)
    have gen: "gen_args toks tm (Suc 0) args [] us = Some (Inr (join '', '' ps, used), us')"
      using gen_args_join [OF assms(2), of toks tm "[]" us] Some x Inr p by (simp add: as_text_def)
    have len: "length ps = length args"
      using arg_params_length [OF assms(2)] Some x Inr p by simp
    show ?thesis
    proof (cases "args = []")
      case True
      then show ?thesis
        using assms(3) gen Some x Inr p len
        by (auto simp: gen_cpp_rpc_method_def reference_method_def ret_params_def assms(1) translate_unit
            Let_def simp del: translate_type.simps)
    next
      case False
      then have "ps \<noteq> []"
        using len by auto
      then show ?thesis
        using gen Some x Inr p
        by (auto simp: gen_cpp_rpc_method_def reference_method_def ret_params_def assms(1) join_snoc Let_def
            simp del: translate_type.simps split: option.splits sum.splits prod.splits)
    qed
  qed
qed

definition demo_method :: trait_method where
  "demo_method = \<lparr>m_attrs = [], m_ident = ''sum'', m_const = False,
     m_inputs = [SelfRef True, Captured (Some ''x'') (TyPath [Segment ''u32'' NoArguments]),
       Ignored (TyPath [Segment ''i64'' NoArguments])],
     m_output = Some (TyPath [Segment ''i64'' NoArguments]), m_default = False\<rparr>"

lemmas export_tables = main_type_def add_usages_def RUST2CPP_TYPE_def CPPTYPE2NAMESPACE_def RUST2CPP_OUTPUT_def
  or_else_def unwrap_or_def

lemma new_var_letters:
  "''a'' \<notin> set used \<Longrightarrow> new_var used = Some (''a'', used @ [''a''])"
  "''a'' \<in> set used \<Longrightarrow> ''b'' \<notin> set used \<Longrightarrow> new_var used = Some (''b'', used @ [''b''])"
proof -
  have upt: "[97..<256] = 97 # 98 # [99..<256]"
    by (simp add: upt_conv_Cons)
  have chars: "char_of (97 :: nat) = CHR ''a''" "char_of (98 :: nat) = CHR ''b''"
    using char_of_char [of "CHR ''a''", where ?'a = nat] char_of_char [of "CHR ''b''", where ?'a = nat]
    by simp_all
  show "''a'' \<notin> set used \<Longrightarrow> new_var used = Some (''a'', used @ [''a''])"
    and "''a'' \<in> set used \<Longrightarrow> ''b'' \<notin> set used \<Longrightarrow> new_var used = Some (''b'', used @ [''b''])"
    unfolding new_var_def upt by (simp_all add: chars)
qed

theorem export_method_reference_witness:
  "gen_cpp_rpc_method (\<lambda>_. []) demo_method Map.empty ({}, {}) =
     Some (Inr ''  L4_INLINE_RPC(int, sum, (l4_uint32_t x, l4_int64_t a, l4_int64_t& b));\<newline>'', ({}, {}))"
proof -
  have "gen_cpp_rpc_method (\<lambda>_. []) demo_method Map.empty ({}, {}) = reference_method (\<lambda>_. []) demo_method Map.empty ({}, {})"
    by (rule export_method_reference [of _ True "tl (m_inputs demo_method)"])
      (simp_all add: demo_method_def plain_arg_def)
  also have "\<dots> = Some (Inr ''  L4_INLINE_RPC(int, sum, (l4_uint32_t x, l4_int64_t a, l4_int64_t& b));\<newline>'', ({}, {}))"
    by (simp add: reference_method_def demo_method_def name_arg_def new_var_letters ret_params_def export_tables)
  finally show ?thesis .
qed

section \<open>Names, generics, files\<close>

text \<open>A generated name is new.\<close>

lemma new_var_fresh: "new_var used = Some (v, used') \<Longrightarrow> v \<notin> set used \<and> used' = used @ [v]"
proof -
  assume "new_var used = Some (v, used')"
  then obtain n where "find (\<lambda>n. [char_of n] \<notin> set used) [97..<256] = Some n" and v: "v = [char_of n]" "used' = used @ [v]"
    unfolding new_var_def by blast
  moreover have "find P xs = Some n \<Longrightarrow> P n" for P and xs :: "nat list"
    by (induction xs) (auto split: if_splits)
  ultimately show ?thesis
    by blast
qed

text \<open>So parameters have different names when the names in the definition differ and the generated ones
  come last; a name that follows a generated one can repeat it.\<close>

lemma generated_names_distinct:
  assumes "distinct used" and "name_arg name used = Some (v, used')" and "name = [] \<or> name \<notin> set used"
  shows "distinct used'"
  using assms by (auto simp: name_arg_def split: if_splits dest: new_var_fresh)

lemma generated_name_repeated:
  "gen_args (\<lambda>_. []) Map.empty 0 [SelfRef True, Ignored (TyPath [Segment ''u32'' NoArguments]),
     Captured (Some ''a'') (TyPath [Segment ''u32'' NoArguments])] [] ({}, {})
   = Some (Inr (''l4_uint32_t a, l4_uint32_t a'', [''a'', ''a'']), ({}, {}))"
  by (simp add: name_arg_def new_var_letters export_tables)

text \<open>Without arguments, the comma before the result stands alone.\<close>

lemma result_only_malformed:
  "gen_cpp_rpc_method (\<lambda>_. []) \<lparr>m_attrs = [], m_ident = ''info'', m_const = False, m_inputs = [SelfRef True],
     m_output = Some (TyPath [Segment ''u64'' NoArguments]), m_default = False\<rparr> Map.empty ({}, {})
   = Some (Inr ''  L4_INLINE_RPC(int, info, (, l4_uint64_t& a));\<newline>'', ({}, {}))"
  by (simp add: gen_cpp_rpc_method_def new_var_letters export_tables)

text \<open>A lifetime leaves its separator behind; \<open>Option\<close> is translated without the namespace of \<open>Opt\<close>,
  because the table of namespaces is searched with the Rust name.\<close>

lemma lifetime_separator:
  "translate_type (\<lambda>_. []) Map.empty False
     (TyPath [Segment ''Foo'' (AngleBracketed [GenLifetime, GenType (TyPath [Segment ''u32'' NoArguments])])]) us
   = (Inr ''Foo<, l4_uint32_t>'', us)"
  by (simp add: export_tables strip_2_def)

lemma option_without_namespace:
  "translate_type (\<lambda>_. []) Map.empty False
     (TyPath [Segment ''Option'' (AngleBracketed [GenType (TyPath [Segment ''u32'' NoArguments])])]) us
   = (Inr ''Opt<l4_uint32_t>'', us)"
  by (simp add: export_tables strip_2_def)

text \<open>The scan for the end of an interface definition starts one character late and the end it
  reports is relative to the start: the last character of the definition is cut off, and a file that
  ends with the closing brace is unterminated.\<close>

lemma external_iface_cut:
  "parse_external_iface ''iface!{ab}c'' = Some (Inr ''a'')"
  "parse_external_iface ''iface!{ab}'' = Some (Inl Unterminated)"
  by (simp_all add: parse_external_iface_def find_str_def slice_def upt_rec)

text \<open>Laying out an interface: the head, the methods in order, and the list of their names joined by
  commas.\<close>

lemma strip_names: "ns \<noteq> [] \<Longrightarrow> strip_2 (concat (map (\<lambda>n. n @ ''_t, '') ns)) = join '', '' (map (\<lambda>n. n @ ''_t'') ns)"
proof -
  have joined: "concat (map (\<lambda>n. n @ ''_t, '') ns) = join '', '' (map (\<lambda>n. n @ ''_t'') ns) @ '', ''" if "ns \<noteq> []"
    using that
  proof (induction ns)
    case (Cons n ns)
    then show ?case
      by (cases ns) simp_all
  qed simp
  assume "ns \<noteq> []"
  from joined [OF this] show ?thesis
    by (simp add: strip_2_def)
qed

lemma strip_2_append: "2 \<le> length t \<Longrightarrow> strip_2 (s @ t) = s @ strip_2 t"
  by (simp add: strip_2_def)

lemma export_interface_layout:
  assumes "gen_cpp_interface toks iface opts = Some (Inr text)" and "i_methods iface \<noteq> []"
  shows "\<exists>protocol methods us pre. export_protocol iface opts = Inr protocol \<and>
    gen_methods toks (o_type_mappings opts) (i_methods iface) ({}, default_includes \<union> o_includes opts)
      = Some (Inr methods, us) \<and>
    text = pre @ iface_head iface opts protocol @ methods @ ''  typedef L4::Typeid::Rpcs<'' @
      join '', '' (map (\<lambda>m. m_ident (inner_ref m) @ ''_t'') (i_methods iface)) @ iface_tail"
proof -
  define ns where "ns = map (\<lambda>m. m_ident (inner_ref m)) (i_methods iface)"
  define rpcs where "rpcs = concat (map (\<lambda>n. n @ ''_t, '') ns)"
  have ns: "ns \<noteq> []" "rpcs_list iface = ''  typedef L4::Typeid::Rpcs<'' @ rpcs"
    using assms(2) by (simp_all add: ns_def rpcs_def rpcs_list_def comp_def)
  have "2 \<le> length rpcs"
    using ns(1) by (cases ns) (simp_all add: rpcs_def)
  then have strip: "strip_2 (head @ methods @ rpcs_list iface) = head @ methods @ ''  typedef L4::Typeid::Rpcs<'' @
      join '', '' (map (\<lambda>m. m_ident (inner_ref m) @ ''_t'') (i_methods iface))" for head methods
    using strip_names [OF ns(1)] strip_2_append [of rpcs "head @ methods @ ''  typedef L4::Typeid::Rpcs<''"]
    by (simp add: ns(2)) (simp add: rpcs_def ns_def comp_def)
  show ?thesis
    using assms(1) unfolding gen_cpp_interface_def Let_def strip
    by (auto split: sum.splits option.splits prod.splits if_splits)
qed

end
