(* ===== verification/Export_Options.thy ===== *)
theory Export_Options
  imports Cpp_Export "HOL-Library.Multiset"
begin

text \<open>
  The macro \<open>iface_export!\<close> as a whole: the parser of its options (\<open>ExportOptions\<close> in
  \<open>crates/l4_derive/export.rs\<close>) over token trees, and the entry point \<open>iface_export\<close> of
  \<open>crates/l4_derive/lib.rs\<close>, which reads the interface definition from one file and writes the C++
  interface to another. The parser of Rust expressions and of trait definitions (the crate syn) and
  the printer of types are parameters.
\<close>

section \<open>Token trees\<close>

datatype delim = Brace | Bracket | Paren

text \<open>Identifiers are those that are not keywords; the other literals include \<open>true\<close> and \<open>false\<close>.\<close>

datatype token =
    TIdent string
  | TKeyword string
  | TStr string
  | TInt u64
  | TLitOther
  | TPunct string
  | TGroup delim "token list"

datatype lit = LStr string | LInt u64 | LOther

datatype tok_expr = ExprLit lit | ExprAny

datatype opt_error = Unexpected | NoInputFile | InvalidInputFile | OnlyStringLiterals | InvalidName
  | OnlyIntegers | NotLiteralString | NotAPair

text \<open>\<open>Expr::parse\<close>: from the first token on, the expression and how many of the following tokens
  belong to it.\<close>

type_synonym expr_parser = "token \<Rightarrow> token list \<Rightarrow> (opt_error, tok_expr \<times> nat) result"

fun parse_lit :: "token \<Rightarrow> (opt_error, lit) result" where
  "parse_lit (TStr s) = Inr (LStr s)"
| "parse_lit (TInt n) = Inr (LInt n)"
| "parse_lit TLitOther = Inr LOther"
| "parse_lit _ = Inl Unexpected"

text \<open>\<open>parse_terminated\<close> with commas: the last comma is optional.\<close>

fun parse_terminated :: "expr_parser \<Rightarrow> token list \<Rightarrow> (opt_error, tok_expr list) result" where
  "parse_terminated ex [] = Inr []"
| "parse_terminated ex (t # ts) =
     (case ex t ts of
        Inl e \<Rightarrow> Inl e
      | Inr (x, k) \<Rightarrow>
          (case drop k ts of
             [] \<Rightarrow> Inr [x]
           | c # rest \<Rightarrow>
               if c \<noteq> TPunct '','' then Inl Unexpected
               else case parse_terminated ex (drop (Suc k) ts) of Inl e \<Rightarrow> Inl e | Inr xs \<Rightarrow> Inr (x # xs)))"

section \<open>Options\<close>

record export_config = export_options +
  o_input_file :: string
  o_output_file :: string

fun literal_string :: "tok_expr \<Rightarrow> (opt_error, string) result" where
  "literal_string (ExprLit (LStr s)) = Inr s"
| "literal_string _ = Inl NotLiteralString"

text \<open>The two strings of a mapping; the number of elements is checked first.\<close>

definition string_pair :: "tok_expr list \<Rightarrow> (opt_error, string \<times> string) result" where
  "string_pair xs =
     (case xs of
        [a, b] \<Rightarrow>
          (case literal_string a of
             Inl e \<Rightarrow> Inl e
           | Inr s \<Rightarrow> (case literal_string b of Inl e \<Rightarrow> Inl e | Inr t \<Rightarrow> Inr (s, t)))
      | _ \<Rightarrow> Inl NotAPair)"

fun ty_entries :: "expr_parser \<Rightarrow> token list \<Rightarrow> type_mappings \<Rightarrow> (opt_error, type_mappings) result" where
  "ty_entries ex [] m = Inr m"
| "ty_entries ex (TStr key # TPunct a # TGroup Paren c # rest) m =
     (if a \<noteq> ''=>'' then Inl Unexpected
      else case parse_terminated ex c of
             Inl e \<Rightarrow> Inl e
           | Inr xs \<Rightarrow>
               (case string_pair xs of
                  Inl e \<Rightarrow> Inl e
                | Inr p \<Rightarrow> ty_entries ex rest (m(key \<mapsto> p))))"
| "ty_entries ex _ m = Inl Unexpected"

definition parse_ty_mappings :: "expr_parser \<Rightarrow> token \<Rightarrow> (opt_error, type_mappings) result" where
  "parse_ty_mappings ex t = (case t of TGroup Brace content \<Rightarrow> ty_entries ex content Map.empty | _ \<Rightarrow> Inl Unexpected)"

fun include_entries :: "token list \<Rightarrow> string set \<Rightarrow> (opt_error, string set) result" where
  "include_entries [] inc = Inr inc"
| "include_entries [TStr s] inc = Inr (insert s inc)"
| "include_entries (TStr s # TPunct c # rest) inc =
     (if c \<noteq> '','' then Inl Unexpected else include_entries rest (insert s inc))"
| "include_entries _ inc = Inl Unexpected"

definition parse_includes :: "token \<Rightarrow> (opt_error, string set) result" where
  "parse_includes t = (case t of TGroup Bracket content \<Rightarrow> include_entries content {} | _ \<Rightarrow> Inl Unexpected)"

record opt_state =
  lit_opts :: "string \<rightharpoonup> lit"
  ty_map :: type_mappings
  opt_includes :: "string set"

text \<open>One option; every value is a single token tree.\<close>

definition opt_value :: "expr_parser \<Rightarrow> string \<Rightarrow> token \<Rightarrow> opt_state \<Rightarrow> (opt_error, opt_state) result" where
  "opt_value ex key v st =
     (if key = ''add_types'' then
        (case parse_ty_mappings ex v of Inl e \<Rightarrow> Inl e | Inr m \<Rightarrow> Inr (st\<lparr>ty_map := ty_map st ++ m\<rparr>))
      else if key = ''add_includes'' then
        (case parse_includes v of Inl e \<Rightarrow> Inl e | Inr i \<Rightarrow> Inr (st\<lparr>opt_includes := opt_includes st \<union> i\<rparr>))
      else
        (case parse_lit v of Inl e \<Rightarrow> Inl e | Inr l \<Rightarrow> Inr (st\<lparr>lit_opts := (lit_opts st)(key \<mapsto> l)\<rparr>)))"

fun opts_loop :: "expr_parser \<Rightarrow> token list \<Rightarrow> opt_state \<Rightarrow> (opt_error, opt_state) result" where
  "opts_loop ex [] st = Inr st"
| "opts_loop ex (TIdent key # TPunct c # v # rest) st =
     (if c \<noteq> '':'' then Inl Unexpected
      else case opt_value ex key v st of
             Inl e \<Rightarrow> Inl e
           | Inr st \<Rightarrow>
               (case rest of
                  [] \<Rightarrow> Inr st
                | d # rest' \<Rightarrow> if d \<noteq> TPunct '','' then Inl Unexpected else opts_loop ex rest' st))"
| "opts_loop ex _ st = Inl Unexpected"

text \<open>A string option: absent, or a string literal.\<close>

definition str_opt :: "opt_error \<Rightarrow> lit option \<Rightarrow> (opt_error, string option) result" where
  "str_opt e l = (case l of None \<Rightarrow> Inr None | Some (LStr s) \<Rightarrow> Inr (Some s) | Some _ \<Rightarrow> Inl e)"

definition int_opt :: "lit option \<Rightarrow> (opt_error, u64 option) result" where
  "int_opt l = (case l of None \<Rightarrow> Inr None | Some (LInt n) \<Rightarrow> Inr (Some n) | Some _ \<Rightarrow> Inl OnlyIntegers)"

text \<open>\<open>replace(".rs", ".h")\<close>: every occurrence, from left to right.\<close>

fun replace_rs :: "string \<Rightarrow> string" where
  "replace_rs [] = []"
| "replace_rs (c # cs) =
     (if take 3 (c # cs) = ''.rs'' then ''.h'' @ replace_rs (drop 2 cs) else c # replace_rs cs)"

definition export_options_parse :: "expr_parser \<Rightarrow> token list \<Rightarrow> (opt_error, export_config) result" where
  "export_options_parse ex input =
     (case opts_loop ex input \<lparr>lit_opts = Map.empty, ty_map = Map.empty, opt_includes = {}\<rparr> of
        Inl e \<Rightarrow> Inl e
      | Inr st \<Rightarrow>
          (case lit_opts st ''input_file'' of
             None \<Rightarrow> Inl NoInputFile
           | Some (LInt n) \<Rightarrow> Inl InvalidInputFile
           | Some LOther \<Rightarrow> Inl InvalidInputFile
           | Some (LStr input_file) \<Rightarrow>
               (case str_opt OnlyStringLiterals (lit_opts st ''output_file'') of
                  Inl e \<Rightarrow> Inl e
                | Inr out \<Rightarrow>
                    (case str_opt InvalidName (lit_opts st ''name'') of
                       Inl e \<Rightarrow> Inl e
                     | Inr name \<Rightarrow>
                         (case int_opt (lit_opts st ''protocol'') of
                            Inl e \<Rightarrow> Inl e
                          | Inr protocol \<Rightarrow>
                              Inr \<lparr>o_name = name, o_protocol = protocol, o_type_mappings = ty_map st,
                                   o_includes = opt_includes st, o_input_file = input_file,
                                   o_output_file = unwrap_or out (replace_rs input_file)\<rparr>)))))"

section \<open>The export\<close>

datatype export_error = OptionError opt_error | FileMissing | IfaceError iface_error | CreateFailed | WriteFailed

text \<open>The file system: contents by name, and whether a file can be created and written to.\<close>

record file_system =
  file_text :: "string \<rightharpoonup> string"
  can_create :: "string \<Rightarrow> bool"
  can_write :: "string \<Rightarrow> bool"

text \<open>\<open>trait_of\<close> stands for the lexer and the parser of trait definitions. \<open>File::create\<close> empties an
  existing file. \<open>None\<close> is a panic of the macro.\<close>

definition read_iface :: "bool \<Rightarrow> (string \<Rightarrow> (iface_error, string \<times> trait_item list) result) \<Rightarrow> file_system \<Rightarrow> string
    \<Rightarrow> (export_error, iface_def) result option" where
  "read_iface oc trait_of F name =
     (case file_text F name of
        None \<Rightarrow> Some (Inl FileMissing)
      | Some contents \<Rightarrow>
          (case parse_external_iface contents of
             None \<Rightarrow> None
           | Some (Inl e) \<Rightarrow> Some (Inl (IfaceError e))
           | Some (Inr txt) \<Rightarrow>
               (case trait_of txt of
                  Inl e \<Rightarrow> Some (Inl (IfaceError e))
                | Inr (tname, items) \<Rightarrow>
                    (case iface_parse oc tname items of
                       None \<Rightarrow> None
                     | Some (Inl e) \<Rightarrow> Some (Inl (IfaceError e))
                     | Some (Inr iface) \<Rightarrow> Some (Inr iface)))))"

definition write_file :: "string \<Rightarrow> string \<Rightarrow> file_system \<Rightarrow> (export_error, unit) result \<times> file_system" where
  "write_file name txt F =
     (if \<not> can_create F name then (Inl CreateFailed, F)
      else if \<not> can_write F name then (Inl WriteFailed, F\<lparr>file_text := (file_text F)(name \<mapsto> [])\<rparr>)
      else (Inr (), F\<lparr>file_text := (file_text F)(name \<mapsto> txt)\<rparr>))"

definition iface_export :: "bool \<Rightarrow> expr_parser \<Rightarrow> (string \<Rightarrow> (iface_error, string \<times> trait_item list) result)
    \<Rightarrow> (rust_type \<Rightarrow> string) \<Rightarrow> token list \<Rightarrow> file_system \<Rightarrow> ((export_error, unit) result \<times> file_system) option" where
  "iface_export oc ex trait_of toks input F =
     (case export_options_parse ex input of
        Inl e \<Rightarrow> Some (Inl (OptionError e), F)
      | Inr opts \<Rightarrow>
          (case read_iface oc trait_of F (o_input_file opts) of
             None \<Rightarrow> None
           | Some (Inl e) \<Rightarrow> Some (Inl e, F)
           | Some (Inr iface) \<Rightarrow>
               (case gen_cpp_interface toks iface (export_options.truncate opts) of
                  None \<Rightarrow> None
                | Some (Inl e) \<Rightarrow> Some (Inl (IfaceError e), F)
                | Some (Inr cpp) \<Rightarrow> Some (write_file (o_output_file opts) cpp F))))"

section \<open>Lists of options\<close>

text \<open>Options as they are written, one \<open>key: value\<close> behind the other with commas between them, and
  what the loop makes of them.\<close>

fun option_tokens :: "(string \<times> token) list \<Rightarrow> token list" where
  "option_tokens [] = []"
| "option_tokens [(k, v)] = [TIdent k, TPunct '':'', v]"
| "option_tokens ((k, v) # e # es) = TIdent k # TPunct '':'' # v # TPunct '','' # option_tokens (e # es)"

fun opt_values :: "expr_parser \<Rightarrow> (string \<times> token) list \<Rightarrow> opt_state \<Rightarrow> (opt_error, opt_state) result" where
  "opt_values ex [] st = Inr st"
| "opt_values ex ((k, v) # es) st =
     (case opt_value ex k v st of Inl e \<Rightarrow> Inl e | Inr st \<Rightarrow> opt_values ex es st)"

lemma opts_loop_values: "opts_loop ex (option_tokens es) st = opt_values ex es st"
proof (induction es arbitrary: st rule: option_tokens.induct)
  case (2 k v)
  then show ?case by (simp split: sum.splits)
next
  case (3 k v e es)
  then show ?case by (simp split: sum.splits)
qed simp

lemma opts_loop_trailing_comma:
  "es \<noteq> [] \<Longrightarrow> opts_loop ex (option_tokens es @ [TPunct '','']) st = opt_values ex es st"
proof (induction es arbitrary: st rule: option_tokens.induct)
  case (2 k v)
  then show ?case by (simp split: sum.splits)
next
  case (3 k v e es)
  then show ?case by (simp split: sum.splits)
qed simp

text \<open>What an accepted value contributes.\<close>

datatype opt_part = PTypes type_mappings | PIncludes "string set" | PLit lit

definition parse_part :: "expr_parser \<Rightarrow> string \<Rightarrow> token \<Rightarrow> (opt_error, opt_part) result" where
  "parse_part ex key v =
     (if key = ''add_types'' then (case parse_ty_mappings ex v of Inl e \<Rightarrow> Inl e | Inr m \<Rightarrow> Inr (PTypes m))
      else if key = ''add_includes'' then (case parse_includes v of Inl e \<Rightarrow> Inl e | Inr i \<Rightarrow> Inr (PIncludes i))
      else (case parse_lit v of Inl e \<Rightarrow> Inl e | Inr l \<Rightarrow> Inr (PLit l)))"

definition add_part :: "string \<Rightarrow> opt_part \<Rightarrow> opt_state \<Rightarrow> opt_state" where
  "add_part key p st = (case p of PTypes m \<Rightarrow> st\<lparr>ty_map := ty_map st ++ m\<rparr>
     | PIncludes i \<Rightarrow> st\<lparr>opt_includes := opt_includes st \<union> i\<rparr> | PLit l \<Rightarrow> st\<lparr>lit_opts := (lit_opts st)(key \<mapsto> l)\<rparr>)"

lemma opt_value_part:
  "opt_value ex key v st = (case parse_part ex key v of Inl e \<Rightarrow> Inl e | Inr p \<Rightarrow> Inr (add_part key p st))"
  by (auto simp: opt_value_def parse_part_def add_part_def split: sum.splits)

lemma opt_part_kind:
  "parse_part ex key v = Inr p \<Longrightarrow> (case p of PTypes m \<Rightarrow> key = ''add_types'' | PIncludes i \<Rightarrow> key = ''add_includes''
     | PLit l \<Rightarrow> key \<noteq> ''add_types'' \<and> key \<noteq> ''add_includes'')"
  by (auto simp: parse_part_def split: if_splits sum.splits)

text \<open>Options with different names can be written in any order.\<close>

lemma opt_values_lookup:
  assumes "distinct (map fst es)" and "\<forall>(k, v) \<in> set es. parse_part ex k v = Inr (part k)"
  shows "opt_values ex es st = Inr (fold (\<lambda>(k, v). add_part k (part k)) es st)"
  using assms by (induction es arbitrary: st) (auto simp: opt_value_part)

definition parts_state :: "(string \<Rightarrow> opt_part) \<Rightarrow> string set \<Rightarrow> opt_state" where
  "parts_state part ks =
     \<lparr>lit_opts = (\<lambda>k. if k \<in> ks then (case part k of PLit l \<Rightarrow> Some l | _ \<Rightarrow> None) else None),
      ty_map = (if ''add_types'' \<in> ks then (case part ''add_types'' of PTypes m \<Rightarrow> m | _ \<Rightarrow> Map.empty) else Map.empty),
      opt_includes = (if ''add_includes'' \<in> ks then (case part ''add_includes'' of PIncludes i \<Rightarrow> i | _ \<Rightarrow> {}) else {})\<rparr>"

lemma add_part_state:
  assumes "k \<notin> ks" and "case part k of PTypes m \<Rightarrow> k = ''add_types'' | PIncludes i \<Rightarrow> k = ''add_includes''
     | PLit l \<Rightarrow> k \<noteq> ''add_types'' \<and> k \<noteq> ''add_includes''"
  shows "add_part k (part k) (parts_state part ks) = parts_state part (insert k ks)"
  using assms by (cases "part k") (auto simp: add_part_def parts_state_def fun_eq_iff)

lemma fold_parts_state:
  assumes "distinct (map fst es)" and "ks \<inter> fst ` set es = {}" and "\<forall>(k, v) \<in> set es. parse_part ex k v = Inr (part k)"
  shows "fold (\<lambda>(k, v). add_part k (part k)) es (parts_state part ks) = parts_state part (ks \<union> fst ` set es)"
  using assms
proof (induction es arbitrary: ks)
  case (Cons e es)
  obtain k v where e: "e = (k, v)" by (cases e)
  have "add_part k (part k) (parts_state part ks) = parts_state part (insert k ks)"
    using Cons.prems e opt_part_kind [of ex k v "part k"] by (intro add_part_state) auto
  then show ?case
    using Cons.IH [of "insert k ks"] Cons.prems e by auto
qed simp

lemma parse_any_order:
  assumes "distinct (map fst es)" and "\<forall>(k, v) \<in> set es. parse_part ex k v = Inr (part k)"
  shows "opts_loop ex (option_tokens es) \<lparr>lit_opts = Map.empty, ty_map = Map.empty, opt_includes = {}\<rparr> =
    Inr (parts_state part (fst ` set es))"
  using opt_values_lookup [OF assms] fold_parts_state [OF assms(1) _ assms(2), of "{}"]
  by (simp add: opts_loop_values parts_state_def)

section \<open>Written options are read back\<close>

definition type_tokens :: "(string \<times> string \<times> string) list \<Rightarrow> token" where
  "type_tokens ts = TGroup Brace (concat (map (\<lambda>(r, n, c).
     [TStr r, TPunct ''=>'', TGroup Paren [TStr n, TPunct '','', TStr c]]) ts))"

fun comma_strings :: "string list \<Rightarrow> token list" where
  "comma_strings [] = []"
| "comma_strings [s] = [TStr s]"
| "comma_strings (s # t # ss) = TStr s # TPunct '','' # comma_strings (t # ss)"

text \<open>What is needed of \<open>Expr::parse\<close>: a string literal in front of a comma or of the end is an
  expression of one token.\<close>

definition reads_strings :: "expr_parser \<Rightarrow> bool" where
  "reads_strings ex \<longleftrightarrow> (\<forall>s ts. (ts = [] \<or> hd ts = TPunct '','') \<longrightarrow> ex (TStr s) ts = Inr (ExprLit (LStr s), 0))"

lemma ty_entries_tokens:
  assumes "reads_strings ex"
  shows "ty_entries ex (concat (map (\<lambda>(r, n, c). [TStr r, TPunct ''=>'', TGroup Paren [TStr n, TPunct '','', TStr c]]) ts)) m =
    Inr (m ++ map_of (rev ts))"
proof (induction ts arbitrary: m)
  case (Cons t ts)
  obtain r n c where t: "t = (r, n, c)" by (cases t) auto
  have "parse_terminated ex [TStr n, TPunct '','', TStr c] = Inr [ExprLit (LStr n), ExprLit (LStr c)]"
    using assms by (simp add: reads_strings_def)
  then have "ty_entries ex (concat (map (\<lambda>(r, n, c). [TStr r, TPunct ''=>'', TGroup Paren [TStr n, TPunct '','', TStr c]]) (t # ts))) m =
      Inr (m(r \<mapsto> (n, c)) ++ map_of (rev ts))"
    unfolding Cons.IH [symmetric] by (simp add: t string_pair_def del: parse_terminated.simps)
  moreover have "m(r \<mapsto> (n, c)) ++ map_of (rev ts) = m ++ map_of (rev (t # ts))"
    by (auto simp: fun_eq_iff map_add_def t split: option.splits)
  ultimately show ?case by simp
qed simp

lemma include_entries_tokens: "include_entries (comma_strings ss) inc = Inr (inc \<union> set ss)"
  by (induction ss arbitrary: inc rule: comma_strings.induct) auto

text \<open>The options of an export, as they are written.\<close>

definition config_entries :: "string \<Rightarrow> string option \<Rightarrow> string option \<Rightarrow> u64 option \<Rightarrow> (string \<times> string \<times> string) list
    \<Rightarrow> string list \<Rightarrow> (string \<times> token) list" where
  "config_entries inp out name protocol ts incs =
     [(''input_file'', TStr inp)] @ (case out of None \<Rightarrow> [] | Some f \<Rightarrow> [(''output_file'', TStr f)]) @
     (case name of None \<Rightarrow> [] | Some n \<Rightarrow> [(''name'', TStr n)]) @
     (case protocol of None \<Rightarrow> [] | Some p \<Rightarrow> [(''protocol'', TInt p)]) @
     [(''add_types'', type_tokens ts), (''add_includes'', TGroup Bracket (comma_strings incs))]"

lemma export_options_parsed:
  assumes "reads_strings ex" and "mset es = mset (config_entries inp out name protocol ts incs)"
  shows "export_options_parse ex (option_tokens es) =
    Inr \<lparr>o_name = name, o_protocol = protocol, o_type_mappings = map_of (rev ts), o_includes = set incs,
      o_input_file = inp, o_output_file = (case out of Some f \<Rightarrow> f | None \<Rightarrow> replace_rs inp)\<rparr>"
proof -
  define part where "part = (\<lambda>k. if k = ''add_types'' then PTypes (map_of (rev ts))
    else if k = ''add_includes'' then PIncludes (set incs)
    else if k = ''input_file'' then PLit (LStr inp)
    else if k = ''output_file'' then PLit (LStr (the out))
    else if k = ''name'' then PLit (LStr (the name)) else PLit (LInt (the protocol)))"
  have es: "set es = set (config_entries inp out name protocol ts incs)"
    using assms(2) by (rule mset_eq_setD)
  have "mset (map fst es) = mset (map fst (config_entries inp out name protocol ts incs))"
    using assms(2) by simp
  moreover have "distinct (map fst (config_entries inp out name protocol ts incs))"
    by (simp add: config_entries_def split: option.splits)
  ultimately have dist: "distinct (map fst es)"
    using mset_eq_imp_distinct_iff by blast
  have "parse_part ex ''add_types'' (type_tokens ts) = Inr (part ''add_types'')"
    "parse_part ex ''add_includes'' (TGroup Bracket (comma_strings incs)) = Inr (part ''add_includes'')"
    "parse_part ex ''input_file'' (TStr inp) = Inr (part ''input_file'')"
    "out = Some f \<Longrightarrow> parse_part ex ''output_file'' (TStr f) = Inr (part ''output_file'')"
    "name = Some n \<Longrightarrow> parse_part ex ''name'' (TStr n) = Inr (part ''name'')"
    "protocol = Some p \<Longrightarrow> parse_part ex ''protocol'' (TInt p) = Inr (part ''protocol'')" for f n p
    by (simp_all add: parse_part_def part_def parse_ty_mappings_def type_tokens_def parse_includes_def
        ty_entries_tokens [OF assms(1)] include_entries_tokens)
  then have "\<forall>(k, v) \<in> set es. parse_part ex k v = Inr (part k)"
    unfolding es config_entries_def by (cases out; cases name; cases protocol) simp_all
  note loop = parse_any_order [OF dist this]
  show ?thesis
    unfolding export_options_parse_def loop es
    by (cases out; cases name; cases protocol)
      (simp_all add: parts_state_def part_def config_entries_def str_opt_def int_opt_def unwrap_or_def)
qed

lemma replace_rs_extension:
  "\<forall>i < length base. take 3 (drop i (base @ ''.rs'')) \<noteq> ''.rs'' \<Longrightarrow> replace_rs (base @ ''.rs'') = base @ ''.h''"
proof (induction base)
  case (Cons c cs)
  have "take 3 (c # cs @ ''.rs'') \<noteq> ''.rs''"
    using Cons.prems by (metis append_Cons drop_0 length_Cons zero_less_Suc)
  moreover have "\<forall>i < length cs. take 3 (drop i (cs @ ''.rs'')) \<noteq> ''.rs''"
    using Cons.prems by (metis append_Cons drop_Suc_Cons length_Cons Suc_less_eq)
  ultimately show ?case
    using Cons.IH by (simp only: append_Cons replace_rs.simps if_False)
qed simp

text \<open>
  C16. The options of an export are read as they are written, in any order. For an input file whose
  name has \<open>.rs\<close> as its extension and nowhere else, an optional output file, interface name and
  protocol, at most one additional type and any list of additional include files, the parser returns exactly
  these options, for every order of the entries; without an output file it is the input file with the
  extension \<open>.h\<close>. Several additional types are left out: the comments separate them by commas, which the
  parser rejects (\<open>types_comma_rejected\<close>); and so are names with another \<open>.rs\<close> in them or without it, for which the
  default output file is not the documented one (\<open>replace_rs_all\<close>, \<open>replace_rs_id\<close>).
\<close>
theorem export_options_roundtrip:
  assumes "reads_strings ex" and "\<forall>i < length base. take 3 (drop i (base @ ''.rs'')) \<noteq> ''.rs''"
    and "mset es = mset (config_entries (base @ ''.rs'') out name protocol
      (case ty of None \<Rightarrow> [] | Some m \<Rightarrow> [m]) incs)"
  shows "export_options_parse ex (option_tokens es) =
    Inr \<lparr>o_name = name, o_protocol = protocol,
      o_type_mappings = (case ty of None \<Rightarrow> Map.empty | Some (rust, cpp) \<Rightarrow> [rust \<mapsto> cpp]),
      o_includes = set incs, o_input_file = base @ ''.rs'',
      o_output_file = (case out of Some f \<Rightarrow> f | None \<Rightarrow> base @ ''.h'')\<rparr>"
  using export_options_parsed [OF assms(1,3)] replace_rs_extension [OF assms(2)]
  by (cases ty) (auto split: option.splits)

definition demo_expr :: expr_parser where
  "demo_expr t ts = (case parse_lit t of Inl e \<Rightarrow> Inl e | Inr l \<Rightarrow> Inr (ExprLit l, 0))"

theorem export_options_roundtrip_witness:
  "export_options_parse demo_expr (option_tokens [(''add_includes'', TGroup Bracket [TStr ''l4/re/env'']),
     (''name'', TStr ''Calc''), (''input_file'', TStr ''calc.rs''),
     (''add_types'', TGroup Brace [TStr ''Ds'', TPunct ''=>'', TGroup Paren [TStr ''L4Re'', TPunct '','', TStr ''Dataspace'']])]) =
   Inr \<lparr>o_name = Some ''Calc'', o_protocol = None, o_type_mappings = map_of [(''Ds'', ''L4Re'', ''Dataspace'')],
     o_includes = {''l4/re/env''}, o_input_file = ''calc.rs'', o_output_file = ''calc.h''\<rparr>"
proof -
  have "reads_strings demo_expr"
    by (simp add: reads_strings_def demo_expr_def)
  moreover have "\<forall>i < length ''calc''. take 3 (drop i (''calc'' @ ''.rs'')) \<noteq> ''.rs''"
    by (auto simp: less_Suc_eq)
  ultimately show ?thesis
    using export_options_roundtrip [of demo_expr "''calc''"
      "[(''add_includes'', TGroup Bracket [TStr ''l4/re/env'']), (''name'', TStr ''Calc''), (''input_file'', TStr ''calc.rs''),
        (''add_types'', TGroup Brace [TStr ''Ds'', TPunct ''=>'', TGroup Paren [TStr ''L4Re'', TPunct '','', TStr ''Dataspace'']])]"
      None "Some ''Calc''" None "Some (''Ds'', ''L4Re'', ''Dataspace'')" "[''l4/re/env'']"]
    by (simp add: config_entries_def type_tokens_def)
qed

text \<open>A comma behind a mapping is an error, although the comments describe the mappings as separated
  by commas.\<close>

lemma types_comma_rejected:
  "\<exists>e. ty_entries ex (TStr k # TPunct ''=>'' # TGroup Paren c # TPunct '','' # rest) m = Inl e"
  by (auto split: sum.splits)

text \<open>Every \<open>.rs\<close> in the name is replaced, not only the extension; and a name without \<open>.rs\<close> stays as it
  is, so that without an output file the export overwrites the definition it read.\<close>

lemma replace_rs_all: "replace_rs ''src/ipc.rs/calc.rs'' = ''src/ipc.h/calc.h''"
  by simp

lemma replace_rs_id: "\<forall>i. take 3 (drop i s) \<noteq> ''.rs'' \<Longrightarrow> replace_rs s = s"
proof (induction s rule: replace_rs.induct)
  case (2 c cs)
  have "\<forall>i. take 3 (drop i cs) \<noteq> ''.rs''"
    using 2(3) by (metis drop_Suc_Cons)
  moreover have "take 3 (c # cs) \<noteq> ''.rs''"
    using 2(3) by (metis drop_0)
  ultimately have "replace_rs cs = cs" and "replace_rs (c # cs) = c # replace_rs cs"
    using 2(2) by (simp_all only: replace_rs.simps if_False simp_thms)
  then show ?case by simp
qed simp

text \<open>An export either leaves every file as it was, or changes the output file only.\<close>

lemma iface_export_output_only:
  assumes "iface_export oc ex trait_of toks input F = Some (r, F')" and "export_options_parse ex input = Inr opts"
    and "f \<noteq> o_output_file opts"
  shows "file_text F' f = file_text F f"
  using assms
  by (auto simp: iface_export_def write_file_def split: sum.splits option.splits if_splits)

lemma iface_export_overwrites_definition:
  assumes "iface_export oc ex trait_of toks (option_tokens es) F = Some (Inr (), F')" and "reads_strings ex"
    and "mset es = mset (config_entries inp None name protocol ts incs)" and "\<forall>i. take 3 (drop i inp) \<noteq> ''.rs''"
  shows "\<exists>iface cpp. read_iface oc trait_of F inp = Some (Inr iface) \<and> file_text F' inp = Some cpp \<and>
    gen_cpp_interface toks iface \<lparr>o_name = name, o_protocol = protocol, o_type_mappings = map_of (rev ts),
      o_includes = set incs\<rparr> = Some (Inr cpp)"
  using assms(1) replace_rs_id [OF assms(4)]
  by (auto simp: iface_export_def export_options_parsed [OF assms(2,3)] write_file_def export_options.truncate_def
      split: sum.splits option.splits if_splits)

end
