(* ===== verification/Driver_Picker.thy ===== *)
theory Driver_Picker
  imports L4_Prelude "HOL-Library.Char_ord" "HOL-Library.List_Lexorder" "HOL-Library.Product_Lexorder"
    "HOL-Library.Multiset"
begin

text \<open>
  The tool that catalogues and extracts Linux drivers, \<open>src/tools/driver_picker/src/main.rs\<close>. A path
  is the list of its components, a root directory being the component \<open>/\<close>. The walk over the source
  tree, the regular expression, the subprocesses, the file copies and the menus belong to other
  crates and the operating system: the walk is the list of its entries, the expression a function
  from a text to its captures, a menu a function from its items to the choice.

  A hash map is an association list with different keys; its order stands for the order of an
  iteration, which is not specified. A panic is \<open>None\<close>.
\<close>

section \<open>Data\<close>

type_synonym path = "string list"

record driver_info =
  symbol :: string
  dir :: path
  kconfig :: path

type_synonym catalog = "(string \<times> driver_info list) list"

record manifest =
  mf_driver :: string
  mf_subsystem :: string
  mf_files :: "path list"
  mf_headers :: "path list"
  mf_kconfig :: path

datatype pick_error =
    IoError | SubsystemNotFound | DriverNotInSubsystem | DriverNotFound | DriverAmbiguous

text \<open>An entry of the walk: its path, whether it is a file, and what reading it gives.\<close>

record walk_entry =
  we_path :: path
  we_is_file :: bool
  we_content :: "(pick_error, string) result"

section \<open>Collecting\<close>

definition strip_prefix :: "path \<Rightarrow> path \<Rightarrow> path option" where
  "strip_prefix base p = (if take (length base) p = base then Some (drop (length base) p) else None)"

fun entry_push :: "string \<Rightarrow> driver_info \<Rightarrow> catalog \<Rightarrow> catalog" where
  "entry_push k d [] = [(k, [d])]"
| "entry_push k d ((k', ds) # m) = (if k' = k then (k', ds @ [d]) # m else (k', ds) # entry_push k d m)"

text \<open>One symbol of a Kconfig file. The subsystem is the first component below \<open>drivers\<close>; both
  unwraps panic when there is none.\<close>

definition push_symbol :: "path \<Rightarrow> path \<Rightarrow> string \<Rightarrow> catalog \<Rightarrow> catalog option" where
  "push_symbol drivers_dir file name m =
     (let d = butlast file
      in case strip_prefix drivers_dir d of
           None \<Rightarrow> None
         | Some [] \<Rightarrow> None
         | Some (subsystem # _) \<Rightarrow> Some (entry_push subsystem \<lparr>symbol = name, dir = d, kconfig = file\<rparr> m))"

fun push_symbols :: "path \<Rightarrow> path \<Rightarrow> string list \<Rightarrow> catalog \<Rightarrow> catalog option" where
  "push_symbols drivers_dir file [] m = Some m"
| "push_symbols drivers_dir file (s # ss) m =
     (case push_symbol drivers_dir file s m of None \<Rightarrow> None | Some m \<Rightarrow> push_symbols drivers_dir file ss m)"

fun collect_entries :: "(string \<Rightarrow> string list) \<Rightarrow> path \<Rightarrow> (pick_error, walk_entry) result list \<Rightarrow> catalog
    \<Rightarrow> (pick_error, catalog) result option" where
  "collect_entries captures drivers_dir [] m = Some (Inr m)"
| "collect_entries captures drivers_dir (Inl e # es) m = Some (Inl e)"
| "collect_entries captures drivers_dir (Inr e # es) m =
     (if we_is_file e \<and> we_path e \<noteq> [] \<and> last (we_path e) = ''Kconfig''
      then (case we_content e of
              Inl err \<Rightarrow> Some (Inl err)
            | Inr content \<Rightarrow>
                (case push_symbols drivers_dir (we_path e) (captures content) m of
                   None \<Rightarrow> None
                 | Some m \<Rightarrow> collect_entries captures drivers_dir es m))
      else collect_entries captures drivers_dir es m)"

definition collect_drivers :: "(string \<Rightarrow> string list) \<Rightarrow> path \<Rightarrow> (pick_error, walk_entry) result list
    \<Rightarrow> (pick_error, catalog) result option" where
  "collect_drivers captures linux_src walk = collect_entries captures (linux_src @ [''drivers'']) walk []"

section \<open>The catalog\<close>

text \<open>Drivers of one subsystem come in the order of their symbols. The sort of the source is not
  stable; only the symbols of the sorted drivers are used.\<close>

definition sorted_drivers :: "string \<Rightarrow> catalog \<Rightarrow> driver_info list option" where
  "sorted_drivers subsystem m = map_option (sort_key symbol) (map_of m subsystem)"

definition sorted_subsystems :: "catalog \<Rightarrow> string list" where
  "sorted_subsystems m = sort (map fst m)"

datatype catalog_format = Tsv | Json

definition catalog_entries :: "catalog \<Rightarrow> (string \<times> string) list option" where
  "catalog_entries m =
     map_option concat (those (map (\<lambda>subsystem.
       map_option (map (\<lambda>d. (subsystem, symbol d))) (sorted_drivers subsystem m)) (sorted_subsystems m)))"

text \<open>The lines printed; the JSON text of a list of entries is the serialiser's.\<close>

definition emit_catalog :: "((string \<times> string) list \<Rightarrow> (pick_error, string) result) \<Rightarrow> catalog \<Rightarrow> catalog_format
    \<Rightarrow> (pick_error, string list) result option" where
  "emit_catalog to_json m format =
     (case catalog_entries m of
        None \<Rightarrow> None
      | Some entries \<Rightarrow>
          (case format of
             Tsv \<Rightarrow> Some (Inr (map (\<lambda>(s, d). s @ [CHR 0x09] @ d) entries))
           | Json \<Rightarrow> Some (case to_json entries of Inl e \<Rightarrow> Inl e | Inr t \<Rightarrow> Inr [t])))"

section \<open>Choosing a driver\<close>

definition find_driver :: "string \<Rightarrow> driver_info list \<Rightarrow> driver_info option" where
  "find_driver driver ds = find (\<lambda>d. symbol d = driver) ds"

fun driver_matches :: "string \<Rightarrow> catalog \<Rightarrow> (string \<times> driver_info) list" where
  "driver_matches driver [] = []"
| "driver_matches driver ((s, ds) # m) =
     (case find_driver driver ds of
        Some d \<Rightarrow> (s, d) # driver_matches driver m
      | None \<Rightarrow> driver_matches driver m)"

definition resolve_driver :: "catalog \<Rightarrow> string option \<Rightarrow> string \<Rightarrow> (pick_error, string \<times> driver_info) result" where
  "resolve_driver m subsystem driver =
     (case subsystem of
        Some name \<Rightarrow>
          (case map_of m name of
             None \<Rightarrow> Inl SubsystemNotFound
           | Some ds \<Rightarrow>
               (case find_driver driver ds of
                  None \<Rightarrow> Inl DriverNotInSubsystem
                | Some d \<Rightarrow> Inr (name, d)))
      | None \<Rightarrow>
          (case driver_matches driver m of
             [] \<Rightarrow> Inl DriverNotFound
           | [x] \<Rightarrow> Inr x
           | _ \<Rightarrow> Inl DriverAmbiguous))"

section \<open>Extracting\<close>

text \<open>Lines of a text, and the headers among the lines of a dependency file: those that start with a
  blank, trimmed, relative to the source tree unless they are absolute.\<close>

fun split_on :: "char \<Rightarrow> string \<Rightarrow> string \<Rightarrow> string list" where
  "split_on c acc [] = (if acc = [] then [] else [rev acc])"
| "split_on c acc (x # xs) = (if x = c then rev acc # split_on c [] xs else split_on c (x # acc) xs)"

definition blank :: "char \<Rightarrow> bool" where
  "blank c \<longleftrightarrow> c \<in> {CHR '' '', CHR 0x09, CHR 0x0A, CHR 0x0B, CHR 0x0C, CHR 0x0D}"

definition trim :: "string \<Rightarrow> string" where
  "trim s = rev (dropWhile blank (rev (dropWhile blank s)))"

definition components :: "string \<Rightarrow> path" where
  "components s = (if take 1 s = ''/'' then [''/''] else []) @
     filter (\<lambda>c. c \<noteq> [] \<and> c \<noteq> ''.'') (split_on (CHR ''/'') [] s)"

definition path_join :: "path \<Rightarrow> string \<Rightarrow> path" where
  "path_join base s = (if take 1 s = ''/'' then components s else base @ components s)"

definition fixdep_headers :: "path \<Rightarrow> string \<Rightarrow> path list" where
  "fixdep_headers linux_src text =
     map (\<lambda>line. path_join linux_src (trim line)) (filter (\<lambda>line. take 1 line = '' '') (split_on (CHR 0x0A) [] text))"

text \<open>The copies of the headers, and the manifest with the headers relative to the tree; the unwrap in
  the latter panics for a header outside it.\<close>

definition header_copies :: "path \<Rightarrow> path \<Rightarrow> path list \<Rightarrow> path list" where
  "header_copies linux_src workspace headers =
     map ((@) workspace) (List.map_filter (strip_prefix linux_src) headers)"

definition make_manifest :: "path \<Rightarrow> path \<Rightarrow> string \<Rightarrow> driver_info \<Rightarrow> path list \<Rightarrow> path list \<Rightarrow> manifest option" where
  "make_manifest linux_src workspace subsystem driver copied headers =
     (case those (map (strip_prefix linux_src) headers) of
        None \<Rightarrow> None
      | Some hs \<Rightarrow>
          Some \<lparr>mf_driver = symbol driver, mf_subsystem = subsystem,
                mf_files = copied @ header_copies linux_src workspace headers,
                mf_headers = hs, mf_kconfig = [''Kconfig'']\<rparr>)"

text \<open>The driver the tool goes on with: named on the command line, or chosen from the two menus. A
  menu returns an index or fails; an index outside the items panics.\<close>

definition pick_driver :: "(string list \<Rightarrow> (pick_error, nat) result) \<Rightarrow> catalog \<Rightarrow> string option \<Rightarrow> string option
    \<Rightarrow> (pick_error, string \<times> driver_info) result option" where
  "pick_driver menu m subsystem_arg driver_arg =
     (case driver_arg of
        Some driver \<Rightarrow> Some (resolve_driver m subsystem_arg driver)
      | None \<Rightarrow>
          (let subsystems = sorted_subsystems m
           in case menu subsystems of
                Inl e \<Rightarrow> Some (Inl e)
              | Inr i \<Rightarrow>
                  if i < length subsystems
                  then (case sorted_drivers (subsystems ! i) m of
                          None \<Rightarrow> None
                        | Some drivers \<Rightarrow>
                            (case menu (map symbol drivers) of
                               Inl e \<Rightarrow> Some (Inl e)
                             | Inr j \<Rightarrow>
                                 if j < length drivers then Some (Inr (subsystems ! i, drivers ! j)) else None))
                  else None))"

section \<open>The catalog is sorted and complete\<close>

definition catalog_ok :: "catalog \<Rightarrow> bool" where
  "catalog_ok m \<longleftrightarrow> distinct (map fst m)"

lemma entry_push_ok: "catalog_ok m \<Longrightarrow> catalog_ok (entry_push k d m)"
proof -
  have "set (map fst (entry_push k d m)) = insert k (set (map fst m))" for m
    by (induction k d m rule: entry_push.induct) auto
  then show "catalog_ok m \<Longrightarrow> catalog_ok (entry_push k d m)"
    by (induction k d m rule: entry_push.induct) (auto simp: catalog_ok_def)
qed

lemma push_symbols_ok: "push_symbols dd f ss m = Some m' \<Longrightarrow> catalog_ok m \<Longrightarrow> catalog_ok m'"
  by (induction dd f ss m rule: push_symbols.induct)
    (auto simp: push_symbol_def Let_def entry_push_ok split: option.splits list.splits)

lemma collect_entries_ok:
  "collect_entries c dd es m = Some (Inr m') \<Longrightarrow> catalog_ok m \<Longrightarrow> catalog_ok m'"
  by (induction c dd es m rule: collect_entries.induct)
    (auto split: if_splits sum.splits option.splits dest: push_symbols_ok)

definition all_entries :: "catalog \<Rightarrow> (string \<times> string) list" where
  "all_entries m = concat (map (\<lambda>(s, ds). map (\<lambda>d. (s, symbol d)) ds) m)"

lemma those_map_Some: "\<forall>x\<in>set xs. f x = Some (g x) \<Longrightarrow> those (map f xs) = Some (map g xs)"
  by (induction xs) auto

lemma catalog_entries_Some:
  "catalog_entries m = Some (concat (map (\<lambda>s. map (Pair s \<circ> symbol) (sort_key symbol (the (map_of m s))))
    (sorted_subsystems m)))"
proof -
  have "sorted_drivers s m = Some (sort_key symbol (the (map_of m s)))" if "s \<in> set (sorted_subsystems m)" for s
    using that by (auto simp: sorted_drivers_def sorted_subsystems_def dest: weak_map_of_SomeI)
  then have "those (map (\<lambda>s. map_option (map (\<lambda>d. (s, symbol d))) (sorted_drivers s m)) (sorted_subsystems m))
      = Some (map (\<lambda>s. map (Pair s \<circ> symbol) (sort_key symbol (the (map_of m s)))) (sorted_subsystems m))"
    by (intro those_map_Some) (auto simp: comp_def)
  then show ?thesis
    by (simp add: catalog_entries_def)
qed

lemma sorted_concat_pairs:
  assumes "sorted ks" and "distinct ks" and "\<forall>k\<in>set ks. sorted (f k)"
  shows "sorted (concat (map (\<lambda>k. map (Pair k) (f k)) ks))"
  using assms
proof (induction ks)
  case Nil
  then show ?case by simp
next
  case (Cons k ks)
  have "sorted (map (Pair k) (f k))"
    using Cons.prems(3) by (simp add: sorted_map less_eq_prod_def sorted_wrt_map)
  moreover have "k < k'" if "k' \<in> set ks" for k'
    using that Cons.prems(1,2) by (auto simp: order_less_le)
  ultimately show ?case
    using Cons by (auto simp: sorted_append)
qed

lemma mset_entries:
  assumes "catalog_ok m"
  shows "mset (concat (map (\<lambda>s. map (Pair s \<circ> symbol) (sort_key symbol (the (map_of m s)))) (sorted_subsystems m)))
    = mset (all_entries m)"
proof -
  let ?F = "\<lambda>s. image_mset (Pair s \<circ> symbol) (mset (the (map_of m s)))"
  have "mset (concat (map (\<lambda>s. map (Pair s \<circ> symbol) (sort_key symbol (the (map_of m s)))) (sorted_subsystems m)))
      = sum_list (map ?F (sorted_subsystems m))"
    by (simp add: mset_concat comp_def)
  also have "\<dots> = sum_list (map ?F (map fst m))"
    unfolding sum_mset_sum_list [symmetric] mset_map sorted_subsystems_def mset_sort ..
  also have "\<dots> = sum_list (map (\<lambda>(s, ds). mset (map (\<lambda>d. (s, symbol d)) ds)) m)"
  proof (rule arg_cong [where f = sum_list])
    show "map ?F (map fst m) = map (\<lambda>(s, ds). mset (map (\<lambda>d. (s, symbol d)) ds)) m"
      using assms by (auto simp: catalog_ok_def comp_def)
  qed
  also have "\<dots> = mset (all_entries m)"
    by (simp add: all_entries_def mset_concat comp_def case_prod_unfold)
  finally show ?thesis .
qed

text \<open>
  C37. The catalog lists every driver once, sorted. From a walk that is collected without an error,
  listing never panics, and the entries printed are, up to order, exactly the pairs of subsystem and
  symbol collected, in ascending order by subsystem and, within it, by symbol, whatever order the
  hash map iterates in.
\<close>
theorem catalog_sorted_complete:
  assumes "collect_drivers captures linux_src walk = Some (Inr m)"
  shows "\<exists>entries. catalog_entries m = Some entries \<and> sorted entries \<and> mset entries = mset (all_entries m) \<and>
    emit_catalog to_json m Tsv = Some (Inr (map (\<lambda>(s, d). s @ [CHR 0x09] @ d) entries))"
proof -
  define entries where "entries = concat (map (\<lambda>s. map (Pair s \<circ> symbol) (sort_key symbol (the (map_of m s)))) (sorted_subsystems m))"
  have ok: "catalog_ok m"
    using assms collect_entries_ok by (auto simp: collect_drivers_def catalog_ok_def)
  have "sorted (concat (map (\<lambda>s. map (Pair s) (map symbol (sort_key symbol (the (map_of m s))))) (sorted_subsystems m)))"
    using ok by (intro sorted_concat_pairs) (simp_all add: sorted_subsystems_def catalog_ok_def)
  then have "sorted entries"
    by (simp add: entries_def comp_def)
  then show ?thesis
    using mset_entries [OF ok] by (auto simp: emit_catalog_def catalog_entries_Some entries_def)
qed

definition demo_walk :: "(pick_error, walk_entry) result list" where
  "demo_walk = [
     Inr \<lparr>we_path = [''/'', ''l'', ''drivers'', ''usb'', ''Kconfig''], we_is_file = True, we_content = Inr ''z a''\<rparr>,
     Inr \<lparr>we_path = [''/'', ''l'', ''drivers'', ''net''], we_is_file = False, we_content = Inl IoError\<rparr>,
     Inr \<lparr>we_path = [''/'', ''l'', ''drivers'', ''net'', ''Kconfig''], we_is_file = True, we_content = Inr ''b''\<rparr>]"

theorem catalog_sorted_complete_witness:
  "\<exists>m entries. collect_drivers (split_on (CHR '' '') []) [''/'', ''l''] demo_walk = Some (Inr m) \<and>
     catalog_entries m = Some entries \<and> mset entries = {#(''usb'', ''z''), (''usb'', ''a''), (''net'', ''b'')#} \<and> sorted entries"
proof -
  obtain m where m: "collect_drivers (split_on (CHR '' '') []) [''/'', ''l''] demo_walk = Some (Inr m)"
      "mset (all_entries m) = {#(''usb'', ''z''), (''usb'', ''a''), (''net'', ''b'')#}"
    by (simp add: collect_drivers_def demo_walk_def push_symbol_def strip_prefix_def Let_def all_entries_def)
  show ?thesis
    using catalog_sorted_complete [OF m(1)] m by auto
qed

section \<open>Choosing does not depend on the order of the map\<close>

lemma driver_matches_filter:
  "driver_matches driver m = List.map_filter (\<lambda>(s, ds). map_option (Pair s) (find_driver driver ds)) m"
  by (induction driver m rule: driver_matches.induct) (auto simp: List.map_filter_def split: option.splits)

lemma resolve_driver_order:
  assumes "mset m = mset m'" and "catalog_ok m"
  shows "resolve_driver m subsystem driver = resolve_driver m' subsystem driver"
proof (cases subsystem)
  case (Some name)
  have "map_of m = map_of m'"
    using assms by (metis catalog_ok_def map_of_eqI distinct_map mset_eq_imp_distinct_iff mset_eq_setD mset_map map_of_inject_set set_map)
  then show ?thesis
    by (simp add: resolve_driver_def Some)
next
  case None
  have "mset (driver_matches driver m) = mset (driver_matches driver m')"
    unfolding driver_matches_filter List.map_filter_def mset_map mset_filter assms(1) ..
  then show ?thesis
    by (auto simp: resolve_driver_def None split: list.splits)
qed

text \<open>The header list of a manifest panics exactly for a header outside the source tree, which an
  absolute path in a dependency file gives.\<close>

lemma make_manifest_None:
  "make_manifest src ws ss d copied headers = None \<longleftrightarrow> (\<exists>h\<in>set headers. strip_prefix src h = None)"
proof -
  have "those xs = None \<longleftrightarrow> None \<in> set xs" for xs :: "path option list"
    by (induction xs) (auto split: option.splits)
  moreover have "make_manifest src ws ss d copied headers = None \<longleftrightarrow> those (map (strip_prefix src) headers) = None"
    by (simp add: make_manifest_def split: option.splits)
  ultimately show ?thesis
    by (simp add: image_iff eq_commute)
qed

end
