(* ===== verification/Driver_Extract.thy ===== *)
theory Driver_Extract
  imports Driver_Picker "HOL-Library.Sublist"
begin

text \<open>
  The file operations of the driver tool, \<open>src/tools/driver_picker/src/main.rs\<close>: copying a driver's
  directory and the headers it needs into a new workspace, and the tool as a whole. A file system maps
  paths from the root, without \<open>..\<close>, to nodes; the functions of \<open>std::fs\<close> the tool uses are defined on it and
  resolve the paths they are given, step by step through existing directories. Relative paths are
  read from the root, and there are no symbolic links. The walk over a
  directory (walkdir), the temporary directory (tempfile), the two programs the tool starts, the
  YAML printer and the menus are parameters.
\<close>

section \<open>File systems\<close>

datatype node = Dir | File string | Special

type_synonym fsys = "path \<rightharpoonup> node"

text \<open>\<open>denied\<close>: paths at which the operating system refuses to create or open a node. \<open>tempdir\<close> gives
  the path of a new directory. \<open>gmake\<close> reports whether it could be started and whether it succeeded,
  \<open>fixdep\<close> prints dependencies, if it could be started.\<close>

record os_env =
  denied :: "path \<Rightarrow> bool"
  tempdir :: "fsys \<Rightarrow> (pick_error, path) result"
  walk_dir :: "fsys \<Rightarrow> path \<Rightarrow> (pick_error, path) result list"
  gmake :: "path \<Rightarrow> path \<Rightarrow> fsys \<Rightarrow> (pick_error, bool) result \<times> fsys"
  fixdep :: "path \<Rightarrow> path \<Rightarrow> fsys \<Rightarrow> string option"
  to_yaml :: "manifest \<Rightarrow> (pick_error, string) result"

text \<open>How the operating system reads a path: every step starts at an existing directory, and \<open>..\<close> leads to
  the directory above it. Only the last component may name nothing.\<close>

fun resolve_from :: "fsys \<Rightarrow> path \<Rightarrow> path \<Rightarrow> path option" where
  "resolve_from fs cur [] = Some cur"
| "resolve_from fs cur (x # xs) =
     (if fs cur \<noteq> Some Dir then None else resolve_from fs (if x = ''..'' then butlast cur else cur @ [x]) xs)"

definition resolve :: "fsys \<Rightarrow> path \<Rightarrow> path option" where
  "resolve fs p = resolve_from fs [] p"

definition node_at :: "fsys \<Rightarrow> path \<Rightarrow> node option" where
  "node_at fs p = (case resolve fs p of None \<Rightarrow> None | Some q \<Rightarrow> fs q)"

text \<open>\<open>create_dir_all\<close>: the missing directories on the way, from the outermost on.\<close>

fun make_dirs :: "os_env \<Rightarrow> path list \<Rightarrow> fsys \<Rightarrow> (pick_error, unit) result \<times> fsys" where
  "make_dirs W [] fs = (Inr (), fs)"
| "make_dirs W (p # ps) fs =
     (case resolve fs p of
        None \<Rightarrow> (Inl IoError, fs)
      | Some q \<Rightarrow>
          (case fs q of
             Some Dir \<Rightarrow> make_dirs W ps fs
           | Some _ \<Rightarrow> (Inl IoError, fs)
           | None \<Rightarrow> if denied W q then (Inl IoError, fs) else make_dirs W ps (fs(q \<mapsto> Dir))))"

definition create_dir_all :: "os_env \<Rightarrow> path \<Rightarrow> fsys \<Rightarrow> (pick_error, unit) result \<times> fsys" where
  "create_dir_all W p fs = make_dirs W (prefixes p) fs"

text \<open>A file can be written where there is none or another file, in an existing directory.\<close>

definition std_write :: "os_env \<Rightarrow> path \<Rightarrow> string \<Rightarrow> fsys \<Rightarrow> (pick_error, unit) result \<times> fsys" where
  "std_write W p txt fs =
     (case resolve fs p of
        None \<Rightarrow> (Inl IoError, fs)
      | Some q \<Rightarrow>
          if (case fs q of None \<Rightarrow> True | Some (File _) \<Rightarrow> True | _ \<Rightarrow> False) \<and> \<not> denied W q
          then (Inr (), fs(q \<mapsto> File txt)) else (Inl IoError, fs))"

definition std_copy :: "os_env \<Rightarrow> path \<Rightarrow> path \<Rightarrow> fsys \<Rightarrow> (pick_error, unit) result \<times> fsys" where
  "std_copy W src dst fs = (case node_at fs src of Some (File txt) \<Rightarrow> std_write W dst txt fs | _ \<Rightarrow> (Inl IoError, fs))"

section \<open>Copying\<close>

fun copy_entries :: "os_env \<Rightarrow> path \<Rightarrow> path \<Rightarrow> (pick_error, path) result list \<Rightarrow> path list \<Rightarrow> fsys
    \<Rightarrow> (pick_error, path list) result \<times> fsys" where
  "copy_entries W src dst [] files fs = (Inr files, fs)"
| "copy_entries W src dst (Inl e # es) files fs = (Inl e, fs)"
| "copy_entries W src dst (Inr p # es) files fs =
     (case strip_prefix src p of
        None \<Rightarrow> (Inl IoError, fs)
      | Some rel \<Rightarrow>
          (let dest_path = dst @ rel
           in case node_at fs p of
                Some Dir \<Rightarrow>
                  (case create_dir_all W dest_path fs of
                     (Inl e, fs) \<Rightarrow> (Inl e, fs)
                   | (Inr _, fs) \<Rightarrow> copy_entries W src dst es files fs)
              | Some (File _) \<Rightarrow>
                  (case std_copy W p dest_path fs of
                     (Inl e, fs) \<Rightarrow> (Inl e, fs)
                   | (Inr _, fs) \<Rightarrow> copy_entries W src dst es (files @ [dest_path]) fs)
              | _ \<Rightarrow> copy_entries W src dst es files fs))"

definition copy_tree :: "os_env \<Rightarrow> path \<Rightarrow> path \<Rightarrow> path list \<Rightarrow> fsys \<Rightarrow> (pick_error, path list) result \<times> fsys" where
  "copy_tree W src dst files fs = copy_entries W src dst (walk_dir W fs src) files fs"

text \<open>The extension of a file name: what follows its last dot, unless the dot is its first character.\<close>

definition extension :: "path \<Rightarrow> string option" where
  "extension p =
     (if p = [] then None
      else let name = last p; ext = rev (takeWhile (\<lambda>c. c \<noteq> CHR ''.'') (rev name))
           in if ext = name \<or> length name = Suc (length ext) then None else Some ext)"

fun scan_cmds :: "os_env \<Rightarrow> path \<Rightarrow> (pick_error, path) result list \<Rightarrow> fsys \<Rightarrow> (pick_error, path list) result" where
  "scan_cmds W linux_src [] fs = Inr []"
| "scan_cmds W linux_src (Inl e # es) fs = Inl e"
| "scan_cmds W linux_src (Inr p # es) fs =
     (let hs = (case node_at fs p of
                  Some (File _) \<Rightarrow>
                    if extension p = Some ''cmd''
                    then (case fixdep W linux_src p fs of None \<Rightarrow> [] | Some text \<Rightarrow> fixdep_headers linux_src text)
                    else []
                | _ \<Rightarrow> [])
      in case scan_cmds W linux_src es fs of Inl e \<Rightarrow> Inl e | Inr rest \<Rightarrow> Inr (hs @ rest))"

definition run_make_depend :: "os_env \<Rightarrow> path \<Rightarrow> path \<Rightarrow> fsys \<Rightarrow> (pick_error, path list) result \<times> fsys" where
  "run_make_depend W linux_src driver_dir fs =
     (case gmake W linux_src driver_dir fs of
        (Inl e, fs) \<Rightarrow> (Inl e, fs)
      | (Inr success, fs) \<Rightarrow>
          if \<not> success then (Inr [], fs) else (scan_cmds W linux_src (walk_dir W fs driver_dir) fs, fs))"

text \<open>A header that cannot be copied is skipped silently, but listed.\<close>

fun copy_headers :: "os_env \<Rightarrow> path \<Rightarrow> path \<Rightarrow> path list \<Rightarrow> fsys \<Rightarrow> (pick_error, unit) result \<times> fsys" where
  "copy_headers W linux_src workspace [] fs = (Inr (), fs)"
| "copy_headers W linux_src workspace (h # hs) fs =
     (case strip_prefix linux_src h of
        None \<Rightarrow> copy_headers W linux_src workspace hs fs
      | Some rel \<Rightarrow>
          (let dest = workspace @ rel
           in case (if dest = [] then (Inr (), fs) else create_dir_all W (butlast dest) fs) of
                (Inl e, fs) \<Rightarrow> (Inl e, fs)
              | (Inr _, fs) \<Rightarrow> copy_headers W linux_src workspace hs (snd (std_copy W h dest fs))))"

text \<open>\<open>None\<close> is the panic for a header outside the source tree.\<close>

definition extract_driver :: "os_env \<Rightarrow> path \<Rightarrow> string \<Rightarrow> driver_info \<Rightarrow> fsys
    \<Rightarrow> ((pick_error, path) result \<times> fsys) option" where
  "extract_driver W linux_src subsystem driver fs =
     (case tempdir W fs of
        Inl e \<Rightarrow> Some (Inl e, fs)
      | Inr workspace \<Rightarrow>
          (case copy_tree W (dir driver) workspace [] (fs(workspace \<mapsto> Dir)) of
             (Inl e, fs) \<Rightarrow> Some (Inl e, fs)
           | (Inr files, fs) \<Rightarrow>
               (case std_copy W (kconfig driver) (workspace @ [''Kconfig'']) fs of
                  (Inl e, fs) \<Rightarrow> Some (Inl e, fs)
                | (Inr _, fs) \<Rightarrow>
                    (case run_make_depend W linux_src (dir driver) fs of
                       (Inl e, fs) \<Rightarrow> Some (Inl e, fs)
                     | (Inr headers, fs) \<Rightarrow>
                         (case copy_headers W linux_src workspace headers fs of
                            (Inl e, fs) \<Rightarrow> Some (Inl e, fs)
                          | (Inr _, fs) \<Rightarrow>
                              (case make_manifest linux_src workspace subsystem driver files headers of
                                 None \<Rightarrow> None
                               | Some manifest \<Rightarrow>
                                   (case to_yaml W manifest of
                                      Inl e \<Rightarrow> Some (Inl e, fs)
                                    | Inr txt \<Rightarrow>
                                        (case std_write W (workspace @ [''driver.yaml'']) txt fs of
                                           (Inl e, fs) \<Rightarrow> Some (Inl e, fs)
                                         | (Inr _, fs) \<Rightarrow> Some (Inr workspace, fs)))))))))"

section \<open>The tool\<close>

record picker_args =
  linux_src :: path
  list_only :: bool
  subsystem_arg :: "string option"
  driver_arg :: "string option"
  format_arg :: catalog_format

datatype picker_out = Listed "string list" | Extracted path

text \<open>\<open>main\<close>, with the entries of the walk over the source tree, the captures of the regular expression,
  the JSON printer and the menus as parameters.\<close>

definition picker_main :: "os_env \<Rightarrow> (string \<Rightarrow> string list) \<Rightarrow> (pick_error, walk_entry) result list
    \<Rightarrow> ((string \<times> string) list \<Rightarrow> (pick_error, string) result) \<Rightarrow> (string list \<Rightarrow> (pick_error, nat) result)
    \<Rightarrow> picker_args \<Rightarrow> fsys \<Rightarrow> ((pick_error, picker_out) result \<times> fsys) option" where
  "picker_main W captures walk to_json menu args fs =
     (case collect_drivers captures (linux_src args) walk of
        None \<Rightarrow> None
      | Some (Inl e) \<Rightarrow> Some (Inl e, fs)
      | Some (Inr m) \<Rightarrow>
          if list_only args
          then (case emit_catalog to_json m (format_arg args) of
                  None \<Rightarrow> None
                | Some (Inl e) \<Rightarrow> Some (Inl e, fs)
                | Some (Inr lines) \<Rightarrow> Some (Inr (Listed lines), fs))
          else (case pick_driver menu m (subsystem_arg args) (driver_arg args) of
                  None \<Rightarrow> None
                | Some (Inl e) \<Rightarrow> Some (Inl e, fs)
                | Some (Inr (subsystem, driver)) \<Rightarrow>
                    (case extract_driver W (linux_src args) subsystem driver fs of
                       None \<Rightarrow> None
                     | Some (Inl e, fs) \<Rightarrow> Some (Inl e, fs)
                     | Some (Inr workspace, fs) \<Rightarrow> Some (Inr (Extracted workspace), fs))))"

section \<open>Trees\<close>

text \<open>Nodes are in directories, and no node is called \<open>..\<close>.\<close>

definition tree_wf :: "fsys \<Rightarrow> bool" where
  "tree_wf fs \<longleftrightarrow> fs [] = Some Dir \<and>
     (\<forall>p. p \<noteq> [] \<longrightarrow> fs p \<noteq> None \<longrightarrow> fs (butlast p) = Some Dir \<and> ''..'' \<notin> set p)"

lemma tree_wf_node:
  assumes "tree_wf fs" and "fs p \<noteq> Some Dir" and "fs (butlast p) = Some Dir" and "''..'' \<notin> set p"
  shows "tree_wf (fs(p \<mapsto> n))"
  using assms by (auto simp: tree_wf_def)

lemma tree_wf_clean: "tree_wf fs \<Longrightarrow> fs p = Some n \<Longrightarrow> ''..'' \<notin> set p"
  by (cases "p = []") (auto simp: tree_wf_def)

lemma tree_wf_dirs: "tree_wf fs \<Longrightarrow> fs p = Some Dir \<Longrightarrow> prefix q p \<Longrightarrow> fs q = Some Dir"
proof (induction p rule: rev_induct)
  case (snoc x p)
  have "fs p = Some Dir"
    using snoc.prems(1,2) by (metis append_is_Nil_conv butlast_snoc not_Cons_self2 option.distinct(1) tree_wf_def)
  then show ?case
    using snoc by auto
qed simp

text \<open>Paths as the operating system reads them.\<close>

lemma resolve_from_append:
  "resolve_from fs cur (xs @ ys) = Option.bind (resolve_from fs cur xs) (\<lambda>c. resolve_from fs c ys)"
  by (induction xs arbitrary: cur) auto

lemma resolve_snoc:
  "resolve fs (p @ [x]) = Option.bind (resolve fs p)
     (\<lambda>c. if fs c = Some Dir then Some (if x = ''..'' then butlast c else c @ [x]) else None)"
  by (cases "resolve fs p") (auto simp: resolve_def resolve_from_append)

lemma resolve_plain: "resolve fs p = Some q \<Longrightarrow> ''..'' \<notin> set p \<Longrightarrow> q = p"
  by (induction p arbitrary: q rule: rev_induct) (auto simp: resolve_snoc bind_eq_Some_conv resolve_def [of _ "[]"] split: if_splits)

lemma resolve_clean: "resolve fs p = Some q \<Longrightarrow> ''..'' \<notin> set q"
proof (induction p arbitrary: q rule: rev_induct)
  case (snoc x p)
  then show ?case
    by (auto simp: resolve_snoc bind_eq_Some_conv split: if_splits dest: in_set_butlastD)
qed (simp add: resolve_def)

lemma resolve_parent:
  assumes "tree_wf fs" and "resolve fs p = Some q" and "fs q \<noteq> Some Dir"
  shows "q \<noteq> [] \<and> fs (butlast q) = Some Dir"
proof (cases p rule: rev_cases)
  case Nil
  then show ?thesis
    using assms by (simp add: resolve_def tree_wf_def)
next
  case (snoc p' x)
  then obtain c where c: "fs c = Some Dir" "q = (if x = ''..'' then butlast c else c @ [x])"
    using assms(2) by (auto simp: resolve_snoc bind_eq_Some_conv split: if_splits)
  have "fs (butlast c) = Some Dir"
    using tree_wf_dirs [OF assms(1) c(1) prefixeq_butlast] .
  with c assms(3) show ?thesis
    by (auto split: if_splits)
qed

lemma resolve_dir: "tree_wf fs \<Longrightarrow> fs p = Some Dir \<Longrightarrow> resolve fs p = Some p"
proof (induction p rule: rev_induct)
  case (snoc x p)
  have "fs p = Some Dir"
    using tree_wf_dirs [OF snoc.prems] by simp
  moreover have "x \<noteq> ''..''"
    using tree_wf_clean [OF snoc.prems] by auto
  ultimately show ?case
    using snoc by (simp add: resolve_snoc)
qed (simp add: resolve_def)

lemma resolve_new: "tree_wf fs \<Longrightarrow> fs p = Some Dir \<Longrightarrow> x \<noteq> ''..'' \<Longrightarrow> resolve fs (p @ [x]) = Some (p @ [x])"
  by (simp add: resolve_snoc resolve_dir)

lemma resolve_node: "tree_wf fs \<Longrightarrow> fs p = Some n \<Longrightarrow> resolve fs p = Some p"
proof (cases p rule: rev_cases)
  case (snoc p' x)
  assume fs: "tree_wf fs" "fs p = Some n"
  have "fs p' = Some Dir"
    using fs snoc by (metis append_is_Nil_conv butlast_snoc not_Cons_self2 option.distinct(1) tree_wf_def)
  then show ?thesis
    using resolve_new [OF fs(1), of p' x] tree_wf_clean [OF fs] snoc by auto
qed (simp add: resolve_def)

lemma node_at_node: "tree_wf fs \<Longrightarrow> fs p = Some n \<Longrightarrow> node_at fs p = Some n"
  by (simp add: node_at_def resolve_node)

lemma make_dirs_append:
  "make_dirs W (ps @ qs) fs =
    (case make_dirs W ps fs of (Inl e, fs) \<Rightarrow> (Inl e, fs) | (Inr _, fs) \<Rightarrow> make_dirs W qs fs)"
  by (induction W ps fs rule: make_dirs.induct) (auto simp: fun_upd_def split: option.splits node.splits)

lemma make_dirs_exist: "tree_wf fs \<Longrightarrow> \<forall>p \<in> set ps. fs p = Some Dir \<Longrightarrow> make_dirs W ps fs = (Inr (), fs)"
  by (induction ps) (auto simp: resolve_dir)

lemma create_dir_all_exists:
  "tree_wf fs \<Longrightarrow> fs p = Some Dir \<Longrightarrow> create_dir_all W p fs = (Inr (), fs)"
  unfolding create_dir_all_def by (rule make_dirs_exist) (auto intro: tree_wf_dirs)

lemma create_dir_all_new:
  assumes "tree_wf fs" and "fs p = Some Dir" and "fs (p @ [x]) = None" and "\<not> denied W (p @ [x])" and "x \<noteq> ''..''"
  shows "create_dir_all W (p @ [x]) fs = (Inr (), fs(p @ [x] \<mapsto> Dir))"
  using create_dir_all_exists [OF assms(1,2), of W] resolve_new [OF assms(1,2,5)] assms(3,4)
  by (simp add: create_dir_all_def make_dirs_append)

section \<open>A copied tree is a mirror\<close>

text \<open>A walk lists every node below a directory once, the directory first and each node behind the
  directory it is in.\<close>

definition walk_of :: "fsys \<Rightarrow> path \<Rightarrow> path list \<Rightarrow> bool" where
  "walk_of fs src ps \<longleftrightarrow> distinct ps \<and> set ps = {p. prefix src p \<and> fs p \<noteq> None} \<and>
     (\<forall>i < length ps. ps ! i \<noteq> src \<longrightarrow> butlast (ps ! i) \<in> set (take i ps))"

text \<open>Directories and files are copied, other nodes are not.\<close>

definition mirror :: "node option \<Rightarrow> node option" where
  "mirror n = (case n of Some Special \<Rightarrow> None | _ \<Rightarrow> n)"

definition relocate :: "path \<Rightarrow> path \<Rightarrow> path \<Rightarrow> path" where
  "relocate src dst p = dst @ drop (length src) p"

text \<open>The destination after the entries \<open>done\<close> of the walk.\<close>

definition mirrored :: "fsys \<Rightarrow> path \<Rightarrow> path \<Rightarrow> path set \<Rightarrow> fsys \<Rightarrow> bool" where
  "mirrored fs src dst seen fs1 \<longleftrightarrow> tree_wf fs1 \<and> (\<forall>p. \<not> prefix dst p \<longrightarrow> fs1 p = fs p) \<and>
     (\<forall>rel. fs1 (dst @ rel) = (if rel = [] then Some Dir else if src @ rel \<in> seen then mirror (fs (src @ rel)) else None))"

lemma mirrored_new:
  assumes "mirrored fs src dst seen fs1" and "rel \<noteq> []" and "src @ rel \<notin> seen" and "fs (src @ rel) = Some n" and "n \<noteq> Special"
    and "fs1 (dst @ butlast rel) = Some Dir" and "''..'' \<notin> set (dst @ rel)"
  shows "mirrored fs src dst (insert (src @ rel) seen) (fs1(dst @ rel \<mapsto> n))"
proof -
  have "fs1 (dst @ rel) = None"
    using assms(1-3) by (simp add: mirrored_def)
  then have "tree_wf (fs1(dst @ rel \<mapsto> n))"
    using assms(1,2,6,7) by (intro tree_wf_node) (simp_all add: mirrored_def butlast_append)
  moreover have "mirror (Some n) = Some n"
    using assms(5) by (cases n) (simp_all add: mirror_def)
  moreover have "fs1 dst = Some Dir"
    using assms(1) by (metis append_Nil2 mirrored_def)
  ultimately show ?thesis
    using assms(1,2,4) by (auto simp: mirrored_def)
qed

lemma copy_entry_mirrored:
  assumes "mirrored fs src dst seen fs1" and "\<not> prefix dst src" and "\<not> prefix src dst" and "\<forall>rel. \<not> denied W (dst @ rel)"
    and "fs (src @ rel) = Some n" and "src @ rel \<notin> seen" and "rel \<noteq> []" and "src @ butlast rel \<in> insert src seen"
    and "tree_wf fs" and "fs src = Some Dir"
  obtains fs2 where "mirrored fs src dst (insert (src @ rel) seen) fs2"
    and "copy_entries W src dst (Inr (src @ rel) # es) files fs1 =
      copy_entries W src dst es (case n of File _ \<Rightarrow> files @ [dst @ rel] | _ \<Rightarrow> files) fs2"
proof -
  have "\<not> prefix dst (src @ rel)"
    using assms(2,3) prefix_same_cases [of dst "src @ rel" src] by auto
  then have here: "fs1 (src @ rel) = Some n"
    using assms(1,5) by (simp add: mirrored_def)
  have "fs (src @ butlast rel) = Some Dir"
    using assms(5,7,9) by (metis append_is_Nil_conv butlast_append option.distinct(1) tree_wf_def)
  then have par: "fs1 (dst @ butlast rel) = Some Dir"
    using assms(1,8) by (auto simp: mirrored_def mirror_def)
  have none: "fs1 (dst @ rel) = None"
    using assms(1,6,7) by (simp add: mirrored_def)
  have wf: "tree_wf fs1"
    using assms(1) by (simp add: mirrored_def)
  have pth: "dst @ rel = (dst @ butlast rel) @ [last rel]"
    using assms(7) by simp
  have "''..'' \<notin> set (src @ rel)" and "''..'' \<notin> set dst"
    using tree_wf_clean [OF assms(9,5)] tree_wf_clean [OF wf] assms(1) by (auto simp: mirrored_def dest: spec [of _ "[]"])
  then have cl: "''..'' \<notin> set (dst @ rel)" and lst: "last rel \<noteq> ''..''"
    using assms(7) last_in_set [of rel] by (auto simp del: last_in_set)
  have res: "resolve fs1 (dst @ rel) = Some (dst @ rel)"
    using resolve_new [OF wf par lst] unfolding pth [symmetric] .
  have strip: "strip_prefix src (src @ rel) = Some rel"
    by (simp add: strip_prefix_def)
  show thesis
  proof (cases n)
    case Dir
    have "create_dir_all W (dst @ rel) fs1 = (Inr (), fs1(dst @ rel \<mapsto> Dir))"
      using create_dir_all_new [OF wf par, of "last rel" W] none assms(4) lst unfolding pth by simp
    then show thesis
      using that [OF mirrored_new [OF assms(1,7,6,5) _ par cl]] Dir node_at_node [OF wf here] strip by simp
  next
    case (File t)
    have "std_copy W (src @ rel) (dst @ rel) fs1 = (Inr (), fs1(dst @ rel \<mapsto> File t))"
      using node_at_node [OF wf here] File none res assms(4) by (simp add: std_copy_def std_write_def)
    then show thesis
      using that [OF mirrored_new [OF assms(1,7,6,5) _ par cl]] File node_at_node [OF wf here] strip by (simp add: Let_def)
  next
    case Special
    have "mirrored fs src dst (insert (src @ rel) seen) fs1"
      using assms(1,5,7) none by (auto simp: mirrored_def mirror_def Special)
    then show thesis
      using that Special node_at_node [OF wf here] strip by simp
  qed
qed

lemma walk_of_first:
  assumes "walk_of fs src ps" and "ps \<noteq> []"
  shows "src = ps ! 0"
proof (rule ccontr)
  assume "src \<noteq> ps ! 0"
  moreover have "0 < length ps"
    using assms(2) by simp
  ultimately have "butlast (ps ! 0) \<in> set (take 0 ps)"
    using assms(1) unfolding walk_of_def by (metis (no_types))
  then show False by simp
qed

lemma copy_entries_mirrored:
  assumes "mirrored fs src dst (set (take i ps)) fs1" and "\<not> prefix dst src" and "\<not> prefix src dst"
    and "\<forall>rel. \<not> denied W (dst @ rel)" and "walk_of fs src ps" and "tree_wf fs" and "fs src = Some Dir" and "0 < i"
  shows "\<exists>fs2. mirrored fs src dst (set ps) fs2 \<and> copy_entries W src dst (map Inr (drop i ps)) files fs1 =
    (Inr (files @ map (relocate src dst) (filter (\<lambda>p. \<exists>t. fs p = Some (File t)) (drop i ps))), fs2)"
  using assms(1,8)
proof (induction "length ps - i" arbitrary: i fs1 files)
  case 0
  then show ?case by auto
next
  case (Suc k)
  have i: "i < length ps"
    using Suc.hyps(2) by simp
  note wk = assms(5) [unfolded walk_of_def]
  have "prefix src (ps ! i)" and "fs (ps ! i) \<noteq> None"
    using wk nth_mem [OF i] by auto
  then obtain rel n where rel: "ps ! i = src @ rel" and n: "fs (src @ rel) = Some n"
    by (auto simp: prefix_def)
  have fresh: "ps ! i \<notin> set (take i ps)"
    using wk i by (simp add: distinct_conv_nth in_set_conv_nth)
  have "src = ps ! 0"
    using i by (intro walk_of_first [OF assms(5)]) auto
  then have seen: "src \<in> set (take i ps)"
    using Suc.prems(2) i by (auto simp: in_set_conv_nth)
  then have ne: "rel \<noteq> []"
    using fresh rel by auto
  have par: "src @ butlast rel \<in> insert src (set (take i ps))"
    using wk i ne rel by (metis append_self_conv butlast_append insertCI)
  have dr: "drop i ps = (src @ rel) # drop (Suc i) ps" and tk: "set (take (Suc i) ps) = insert (src @ rel) (set (take i ps))"
    using Cons_nth_drop_Suc [OF i] take_Suc_conv_app_nth [OF i] rel by auto
  have fr: "src @ rel \<notin> set (take i ps)"
    using fresh rel by simp
  obtain fs2 where fs2: "mirrored fs src dst (set (take (Suc i) ps)) fs2"
    "copy_entries W src dst (Inr (src @ rel) # map Inr (drop (Suc i) ps)) files fs1 =
      copy_entries W src dst (map Inr (drop (Suc i) ps)) (case n of File _ \<Rightarrow> files @ [dst @ rel] | _ \<Rightarrow> files) fs2"
    unfolding tk by (rule copy_entry_mirrored [OF Suc.prems(1) assms(2-4) n fr ne par assms(6,7)])
  have "k = length ps - Suc i"
    using Suc.hyps(2) by linarith
  from Suc.hyps(1) [OF this fs2(1), of "case n of File _ \<Rightarrow> files @ [dst @ rel] | _ \<Rightarrow> files"]
  show ?case
    by (cases n) (auto simp: dr fs2(2) n relocate_def simp del: copy_entries.simps)
qed

text \<open>
  C15. Copying a driver makes a mirror of its directory. Into a new, empty workspace apart from the
  driver's directory, with a walk that lists each node once and behind its directory, copying succeeds
  when nothing is refused: below the workspace there is then exactly a copy of every directory and
  file of the driver, under its relative path and with its contents, and no other node; the files
  reported are the copies of the files in the order of the walk; every node elsewhere is as before.
\<close>
theorem copy_tree_mirrors:
  assumes "tree_wf fs" and "fs src = Some Dir" and "\<forall>rel. fs (dst @ rel) = (if rel = [] then Some Dir else None)"
    and "\<not> prefix dst src" and "\<not> prefix src dst" and "walk_dir W fs src = map Inr ps" and "walk_of fs src ps"
    and "\<forall>rel. \<not> denied W (dst @ rel)"
  shows "\<exists>fs'. copy_tree W src dst [] fs =
      (Inr (map (relocate src dst) (filter (\<lambda>p. \<exists>t. fs p = Some (File t)) ps)), fs') \<and>
    (\<forall>rel. fs' (dst @ rel) = mirror (fs (src @ rel))) \<and> (\<forall>p. \<not> prefix dst p \<longrightarrow> fs' p = fs p)"
proof -
  have "src \<in> set ps"
    using assms(2,7) by (simp add: walk_of_def)
  then obtain qs where ps: "ps = src # qs"
    using walk_of_first [OF assms(7)] by (cases ps) auto
  have dst: "fs dst = Some Dir"
    using assms(3) by (metis append_Nil2)
  have first: "copy_entries W src dst (map Inr ps) [] fs = copy_entries W src dst (map Inr qs) [] fs"
    using create_dir_all_exists [OF assms(1) dst, of W] node_at_node [OF assms(1,2)] by (simp add: ps strip_prefix_def Let_def)
  have "mirrored fs src dst (set (take 1 ps)) fs"
    using assms(1,3) by (auto simp: mirrored_def ps)
  from copy_entries_mirrored [OF this assms(4,5,8,7,1,2), of "[]"]
  obtain fs2 where m: "mirrored fs src dst (set ps) fs2" and c: "copy_entries W src dst (map Inr qs) [] fs =
      (Inr (map (relocate src dst) (filter (\<lambda>p. \<exists>t. fs p = Some (File t)) qs)), fs2)"
    by (auto simp: ps)
  have "fs2 (dst @ rel) = mirror (fs (src @ rel))" for rel
  proof (cases "rel = [] \<or> src @ rel \<in> set ps")
    case True
    then show ?thesis
      using m assms(2) by (auto simp: mirrored_def mirror_def)
  next
    case False
    then have "fs (src @ rel) = None"
      using assms(7) by (auto simp: walk_of_def)
    then show ?thesis
      using m False by (simp add: mirrored_def mirror_def)
  qed
  moreover have "filter (\<lambda>p. \<exists>t. fs p = Some (File t)) ps = filter (\<lambda>p. \<exists>t. fs p = Some (File t)) qs"
    using assms(2) by (simp add: ps)
  ultimately show ?thesis
    using m c first by (auto simp: copy_tree_def assms(6) mirrored_def)
qed

definition demo_nodes :: "(path \<times> node) list" where
  "demo_nodes = [([], Dir), ([''l''], Dir), ([''l'', ''c''], File ''code''), ([''l'', ''s''], Dir),
     ([''l'', ''s'', ''h''], File ''hdr''), ([''l'', ''x''], Special), ([''t''], Dir)]"

definition demo_fs :: fsys where
  "demo_fs = map_of demo_nodes"

definition demo_os :: os_env where
  "demo_os = \<lparr>denied = (\<lambda>_. False), tempdir = (\<lambda>_. Inr [''w'']),
     walk_dir = (\<lambda>_ _. map Inr [[''l''], [''l'', ''s''], [''l'', ''s'', ''h''], [''l'', ''c''], [''l'', ''x'']]),
     gmake = (\<lambda>_ _ fs. (Inr False, fs)), fixdep = (\<lambda>_ _ _. None), to_yaml = (\<lambda>_. Inr ''yaml'')\<rparr>"

lemma demo_walk_of: "walk_of demo_fs [''l''] [[''l''], [''l'', ''s''], [''l'', ''s'', ''h''], [''l'', ''c''], [''l'', ''x'']]"
proof -
  have "dom demo_fs = fst ` set demo_nodes"
    by (simp only: demo_fs_def dom_map_of_conv_image_fst)
  then have "{p. prefix [''l''] p \<and> demo_fs p \<noteq> None} = {p \<in> fst ` set demo_nodes. prefix [''l''] p}"
    by (auto simp: dom_def)
  also have "\<dots> = set [[''l''], [''l'', ''s''], [''l'', ''s'', ''h''], [''l'', ''c''], [''l'', ''x'']]"
    by (auto simp: demo_nodes_def)
  finally show ?thesis
    by (simp add: walk_of_def less_Suc_eq all_conj_distrib)
qed

theorem copy_tree_mirrors_witness:
  "\<exists>fs'. copy_tree demo_os [''l''] [''t''] [] demo_fs = (Inr [[''t'', ''s'', ''h''], [''t'', ''c'']], fs') \<and>
    fs' [''t'', ''s'', ''h''] = Some (File ''hdr'') \<and> fs' [''t'', ''x''] = None"
proof -
  have wf: "tree_wf demo_fs"
    by (auto simp: tree_wf_def demo_fs_def demo_nodes_def split: if_splits)
  have new: "\<forall>rel. demo_fs ([''t''] @ rel) = (if rel = [] then Some Dir else None)"
    by (simp add: demo_fs_def demo_nodes_def)
  have "\<exists>fs'. copy_tree demo_os [''l''] [''t''] [] demo_fs = (Inr (map (relocate [''l''] [''t''])
      (filter (\<lambda>p. \<exists>t. demo_fs p = Some (File t))
        [[''l''], [''l'', ''s''], [''l'', ''s'', ''h''], [''l'', ''c''], [''l'', ''x'']])), fs') \<and>
    (\<forall>rel. fs' ([''t''] @ rel) = mirror (demo_fs ([''l''] @ rel))) \<and> (\<forall>p. \<not> prefix [''t''] p \<longrightarrow> fs' p = demo_fs p)"
    by (rule copy_tree_mirrors [OF wf _ new _ _ _ demo_walk_of]) (simp_all add: demo_fs_def demo_nodes_def demo_os_def)
  then obtain fs' where f: "copy_tree demo_os [''l''] [''t''] [] demo_fs = (Inr [[''t'', ''s'', ''h''], [''t'', ''c'']], fs')"
    and m: "\<And>rel. fs' ([''t''] @ rel) = mirror (demo_fs ([''l''] @ rel))"
    by (auto simp: demo_fs_def demo_nodes_def relocate_def)
  show ?thesis
    using f m [of "[''s'', ''h'']"] m [of "[''x'']"] by (simp add: demo_fs_def demo_nodes_def mirror_def)
qed

section \<open>Extraction stays in its workspace\<close>

text \<open>Operations below a directory leave everything else alone, but for missing directories above it,
  which they make.\<close>

definition below :: "path \<Rightarrow> fsys \<Rightarrow> fsys \<Rightarrow> bool" where
  "below ws fs fs' \<longleftrightarrow> tree_wf fs' \<and>
     (\<forall>p. \<not> prefix ws p \<longrightarrow> fs' p = fs p \<or> (prefix p ws \<and> fs p = None \<and> fs' p = Some Dir))"

lemma below_trans: "below ws fs fs1 \<Longrightarrow> below ws fs1 fs2 \<Longrightarrow> below ws fs fs2"
  unfolding below_def by metis

lemma below_refl: "tree_wf fs \<Longrightarrow> below ws fs fs"
  by (simp add: below_def)

lemma create_dir_all_effect:
  assumes "tree_wf fs" and "create_dir_all W p fs = (r, fs')" and "''..'' \<notin> set p"
  shows "tree_wf fs' \<and> (\<forall>q. fs' q = fs q \<or> (prefix q p \<and> fs q = None \<and> fs' q = Some Dir))"
  using assms(2,3)
proof (induction p arbitrary: r fs' rule: rev_induct)
  case Nil
  have "resolve fs [] = Some []" "fs [] = Some Dir"
    using assms(1) by (simp_all add: resolve_def tree_wf_def)
  then show ?case
    using Nil assms(1) by (simp add: create_dir_all_def)
next
  case (snoc x p)
  obtain r1 fs1 where m: "create_dir_all W p fs = (r1, fs1)"
    by (cases "create_dir_all W p fs")
  have "''..'' \<notin> set p"
    using snoc.prems(2) by simp
  note IH = snoc.IH [OF m this]
  have step: "(r, fs') = (case r1 of Inl e \<Rightarrow> (Inl e, fs1) | Inr _ \<Rightarrow> make_dirs W [p @ [x]] fs1)"
    using snoc.prems(1) m by (simp add: create_dir_all_def make_dirs_append split: sum.splits)
  have q: "q = p @ [x]" if "resolve fs1 (p @ [x]) = Some q" for q
    using resolve_plain [OF that snoc.prems(2)] .
  have new: "tree_wf (fs1(p @ [x] \<mapsto> Dir))" if "resolve fs1 (p @ [x]) = Some (p @ [x])" and "fs1 (p @ [x]) = None"
    using IH that snoc.prems(2) resolve_parent [of fs1 "p @ [x]" "p @ [x]"] by (intro tree_wf_node) simp_all
  have "fs (p @ [x]) = None" if "fs1 (p @ [x]) = None"
    using IH that by (metis option.distinct(1))
  with IH new step show ?case
    by (auto split: sum.splits option.splits node.splits if_splits dest!: q)
qed

lemma create_dir_all_below:
  assumes "tree_wf fs" and "create_dir_all W p fs = (r, fs')" and "prefix p ws \<or> prefix ws p" and "''..'' \<notin> set p"
  shows "below ws fs fs'"
proof -
  have "prefix q ws" if "prefix q p" and "\<not> prefix ws q" for q
    using that assms(3) by (meson prefix_order.trans prefix_same_cases)
  then show ?thesis
    using create_dir_all_effect [OF assms(1,2,4)] unfolding below_def by metis
qed

lemma std_write_below:
  assumes "tree_wf fs" and "std_write W p t fs = (r, fs')" and "prefix ws p" and "''..'' \<notin> set p"
  shows "below ws fs fs'"
proof (cases "resolve fs p")
  case (Some q)
  have "q = p"
    using resolve_plain [OF Some assms(4)] .
  moreover have "tree_wf (fs(q \<mapsto> File t))" if "fs q \<noteq> Some Dir"
    using resolve_parent [OF assms(1) Some that] resolve_clean [OF Some] that by (intro tree_wf_node [OF assms(1)]) simp_all
  ultimately show ?thesis
    using assms(1-3) Some by (auto simp: std_write_def below_def split: if_splits option.splits node.splits)
qed (use assms(1,2) in \<open>simp add: std_write_def below_def\<close>)

lemma std_copy_below:
  assumes "tree_wf fs" and "std_copy W src p fs = (r, fs')" and "prefix ws p" and "''..'' \<notin> set p"
  shows "below ws fs fs'"
  using assms by (auto simp: std_copy_def below_refl intro: std_write_below split: option.splits node.splits)

text \<open>What the walks and the reported headers must not contain below their starting points. A walk goes
  through the entries of directories, none of which is called \<open>..\<close>.\<close>

definition plain_below :: "path \<Rightarrow> path \<Rightarrow> bool" where
  "plain_below src p \<longleftrightarrow> (\<forall>rel. strip_prefix src p = Some rel \<longrightarrow> ''..'' \<notin> set rel)"

lemma copy_entries_below:
  assumes "copy_entries W src ws es files fs = (r, fs')" and "tree_wf fs" and "''..'' \<notin> set ws"
    and "\<forall>p. Inr p \<in> set es \<longrightarrow> plain_below src p"
  shows "below ws fs fs'"
  using assms
proof (induction es arbitrary: files fs)
  case (Cons e es)
  show ?case
  proof (cases e)
    case (Inl x)
    then show ?thesis
      using Cons.prems by (simp add: below_refl)
  next
    case (Inr p)
    have go: "below ws fs fs'" if "below ws fs fs1" and "copy_entries W src ws es files1 fs1 = (r, fs')" for fs1 files1
    proof -
      have "tree_wf fs1"
        using that(1) by (simp add: below_def)
      then show ?thesis
        using Cons.IH [OF that(2)] Cons.prems(3,4) below_trans [OF that(1)] by simp
    qed
    have cl: "''..'' \<notin> set (ws @ rel)" if "strip_prefix src p = Some rel" for rel
      using that Cons.prems(3,4) Inr by (auto simp: plain_below_def)
    have dirs: "below ws fs fs1" if "strip_prefix src p = Some rel" "create_dir_all W (ws @ rel) fs = (r1, fs1)" for rel r1 fs1
      by (rule create_dir_all_below [OF Cons.prems(2) that(2) _ cl [OF that(1)]]) simp
    have copies: "below ws fs fs1" if "strip_prefix src p = Some rel" "std_copy W p (ws @ rel) fs = (r1, fs1)" for rel r1 fs1
      by (rule std_copy_below [OF Cons.prems(2) that(2) _ cl [OF that(1)]]) simp
    show ?thesis
      using Cons.prems(1) Inr below_refl [OF Cons.prems(2), of ws]
      by (auto simp: Let_def split: option.splits node.splits prod.splits sum.splits intro: go dirs copies)
  qed
qed (simp add: below_refl)

lemma copy_headers_below:
  assumes "copy_headers W src ws hs fs = (r, fs')" and "tree_wf fs" and "''..'' \<notin> set ws"
    and "\<forall>h \<in> set hs. plain_below src h"
  shows "below ws fs fs'"
  using assms
proof (induction hs arbitrary: fs)
  case (Cons h hs)
  have go: "below ws fs fs'" if "below ws fs fs1" and "copy_headers W src ws hs fs1 = (r, fs')" for fs1
  proof -
    have "tree_wf fs1"
      using that(1) by (simp add: below_def)
    then show ?thesis
      using Cons.IH [OF that(2)] Cons.prems(3,4) below_trans [OF that(1)] by simp
  qed
  show ?case
  proof (cases "strip_prefix src h")
    case None
    then show ?thesis
      using Cons.prems(1) go [OF below_refl [OF Cons.prems(2)]] by simp
  next
    case (Some rel)
    let ?dest = "ws @ rel"
    have cl: "''..'' \<notin> set ?dest"
      using Some Cons.prems(3,4) by (auto simp: plain_below_def)
    obtain r1 fs1 where m: "(if ?dest = [] then (Inr (), fs) else create_dir_all W (butlast ?dest) fs) = (r1, fs1)"
      by (cases "if ?dest = [] then (Inr (), fs) else create_dir_all W (butlast ?dest) fs")
    have "prefix (butlast ?dest) ws \<or> prefix ws (butlast ?dest)"
      by (cases "rel = []") (auto simp: butlast_append prefixeq_butlast)
    moreover have "''..'' \<notin> set (butlast ?dest)"
      using cl by (metis in_set_butlastD)
    ultimately have b1: "below ws fs fs1"
      using m create_dir_all_below [OF Cons.prems(2), of W "butlast ?dest" r1 fs1 ws] below_refl [OF Cons.prems(2)]
      by (auto split: if_splits)
    then have "below ws fs1 (snd (std_copy W h ?dest fs1))"
      using std_copy_below [of fs1 W h ?dest _ _ ws] cl by (metis below_def prefixI prod.collapse)
    then show ?thesis
      using Cons.prems(1) Some m b1 go [OF below_trans [OF b1]] by (cases r1) (auto simp: Let_def)
  qed
qed (simp add: below_refl)

text \<open>The headers that a successful \<open>run_make_depend\<close> returns are those that \<open>fixdep\<close> printed.\<close>

lemma scan_cmds_plain:
  assumes "scan_cmds W src es fs = Inr hs"
    and "\<forall>p text. fixdep W src p fs = Some text \<longrightarrow> (\<forall>h \<in> set (fixdep_headers src text). plain_below src h)"
  shows "\<forall>h \<in> set hs. plain_below src h"
  using assms
proof (induction es arbitrary: hs)
  case (Cons e es)
  then show ?case
    by (cases e) (auto simp: Let_def split: sum.splits option.splits node.splits if_splits)
qed simp


text \<open>What is known of the parameters: the new directory has an ordinary name, walks go through directory
  entries, and whatever \<open>gmake\<close> does leaves a file system.\<close>

definition extract_env :: "os_env \<Rightarrow> path \<Rightarrow> path \<Rightarrow> path \<Rightarrow> fsys \<Rightarrow> bool" where
  "extract_env W src d ws fs \<longleftrightarrow> tree_wf fs \<and> tempdir W fs = Inr ws \<and> fs ws = None \<and> ws \<noteq> [] \<and>
     fs (butlast ws) = Some Dir \<and> ''..'' \<notin> set ws \<and>
     (\<forall>fs p. Inr p \<in> set (walk_dir W fs d) \<longrightarrow> plain_below d p) \<and>
     (\<forall>fs. tree_wf fs \<longrightarrow> tree_wf (snd (gmake W src d fs)))"

lemma below_new_dir:
  assumes "extract_env W src d ws fs" and "below ws (fs(ws \<mapsto> Dir)) fs1" and "\<not> prefix ws p"
  shows "fs1 p = fs p"
proof -
  have "fs p = Some Dir" if "prefix p ws"
  proof -
    have "prefix p (butlast ws)"
      using that assms(3) by (metis append_butlast_last_id prefix_order.refl prefix_snoc extract_env_def assms(1))
    then show ?thesis
      using assms(1) tree_wf_dirs by (auto simp: extract_env_def)
  qed
  then show ?thesis
    using assms(2,3) by (auto simp: below_def)
qed

lemma make_depend_then_below:
  assumes "extract_env W src d ws fs" and "tree_wf fs2" and "run_make_depend W src d fs2 = (r, fs3)"
    and "\<forall>fs p text. fixdep W src p fs = Some text \<longrightarrow> (\<forall>h \<in> set (fixdep_headers src text). plain_below src h)"
  shows "fs3 = snd (gmake W src d fs2)" and "tree_wf fs3"
    and "r = Inr hs \<Longrightarrow> copy_headers W src ws hs fs3 = (r4, fs4) \<Longrightarrow> below ws fs3 fs4"
proof -
  show eq: "fs3 = snd (gmake W src d fs2)"
    using assms(3) by (auto simp: run_make_depend_def split: prod.splits sum.splits if_splits)
  show wf: "tree_wf fs3"
    using assms(1,2) by (simp add: eq extract_env_def)
  have "\<forall>h \<in> set hs. plain_below src h" if "r = Inr hs"
    using that assms(3,4) scan_cmds_plain [of W src "walk_dir W fs3 d" fs3 hs]
    by (auto simp: run_make_depend_def split: prod.splits sum.splits if_splits)
  then show "r = Inr hs \<Longrightarrow> copy_headers W src ws hs fs3 = (r4, fs4) \<Longrightarrow> below ws fs3 fs4"
    using copy_headers_below [OF _ wf] assms(1) by (simp add: extract_env_def)
qed

text \<open>
  C38. Extracting a driver writes into its new workspace only. Whether it succeeds or ends with an
  error at any step: as long as \<open>gmake\<close> was not started, every node outside the workspace is as before;
  once it was, the nodes outside the workspace are those that \<open>gmake\<close> left when it was started on a file
  system equal to the original one outside the workspace, except that directories above the
  workspace that \<open>gmake\<close> removed may exist again. This is for headers that \<open>fixdep\<close> reports without \<open>..\<close> below the
  source tree; \<open>header_dotdot_escapes\<close> shows that others are written outside the workspace.
\<close>
theorem extract_confined:
  assumes "extract_env W src (dir d) ws fs"
    and "\<forall>fs p text. fixdep W src p fs = Some text \<longrightarrow> (\<forall>h \<in> set (fixdep_headers src text). plain_below src h)"
    and "extract_driver W src subsystem d fs = Some (r, fs')"
  shows "(\<forall>p. \<not> prefix ws p \<longrightarrow> fs' p = fs p) \<or>
    (\<exists>fs2. (\<forall>p. \<not> prefix ws p \<longrightarrow> fs2 p = fs p) \<and>
       (\<forall>p. \<not> prefix ws p \<longrightarrow> fs' p = snd (gmake W src (dir d) fs2) p \<or>
          (prefix p ws \<and> snd (gmake W src (dir d) fs2) p = None \<and> fs' p = Some Dir)))"
proof -
  note env = assms(1) [unfolded extract_env_def]
  let ?fs0 = "fs(ws \<mapsto> Dir)"
  have wf0: "tree_wf ?fs0"
    using env by (intro tree_wf_node) simp_all
  note out = below_new_dir [OF assms(1)]
  have k: "''..'' \<notin> set (ws @ [''Kconfig''])" and y: "''..'' \<notin> set (ws @ [''driver.yaml''])"
    using env by simp_all
  obtain r1 fs1 where c1: "copy_tree W (dir d) ws [] ?fs0 = (r1, fs1)"
    by (cases "copy_tree W (dir d) ws [] ?fs0")
  have b1: "below ws ?fs0 fs1"
    using copy_entries_below [OF c1 [unfolded copy_tree_def] wf0] env by blast
  obtain r2 fs2 where c2: "std_copy W (kconfig d) (ws @ [''Kconfig'']) fs1 = (r2, fs2)"
    by (cases "std_copy W (kconfig d) (ws @ [''Kconfig'']) fs1")
  have "tree_wf fs1"
    using b1 by (simp add: below_def)
  then have b2: "below ws ?fs0 fs2"
    by (rule below_trans [OF b1 std_copy_below [OF _ c2 prefixI [OF refl] k]])
  obtain r3 fs3 where c3: "run_make_depend W src (dir d) fs2 = (r3, fs3)"
    by (cases "run_make_depend W src (dir d) fs2")
  have "tree_wf fs2"
    using b2 by (simp add: below_def)
  note dep = make_depend_then_below [OF assms(1) this c3 assms(2)]
  have b3: "below ws fs3 fs3"
    using dep(2) by (rule below_refl)
  have b5: "below ws fs3 fs5" if "r3 = Inr hs" "copy_headers W src ws hs fs3 = (r4, fs4)"
    "std_write W (ws @ [''driver.yaml'']) t fs4 = (r5, fs5)" for hs r4 fs4 t r5 fs5
  proof -
    note b4 = dep(3) [OF that(1,2)]
    then have "tree_wf fs4"
      by (simp add: below_def)
    then show ?thesis
      by (rule below_trans [OF b4 std_write_below [OF _ that(3) prefixI [OF refl] y]])
  qed
  have "below ws ?fs0 fs' \<or> below ws fs3 fs'"
    using env assms(3) c1 c2 c3 b1 b2 b3
    by (auto simp: extract_driver_def dest: dep(3) b5 split: sum.splits prod.splits option.splits)
  then show ?thesis
  proof
    assume "below ws ?fs0 fs'"
    then show ?thesis
      using out by blast
  next
    assume "below ws fs3 fs'"
    then show ?thesis
      using out [OF b2] dep(1) by (intro disjI2 exI [of _ fs2]) (simp add: below_def)
  qed
qed

definition demo_driver :: driver_info where
  "demo_driver = \<lparr>symbol = ''E'', dir = [''l''], kconfig = [''l'', ''c'']\<rparr>"

theorem extract_confined_witness:
  "\<exists>r fs'. extract_driver demo_os [''r''] ''net'' demo_driver demo_fs = Some (r, fs') \<and> fs' [''t''] = Some Dir"
proof -
  have "\<exists>r fs'. extract_driver demo_os [''r''] ''net'' demo_driver demo_fs = Some (r, fs')"
    by (auto simp: extract_driver_def run_make_depend_def demo_os_def make_manifest_def split: prod.splits sum.splits option.splits)
  then obtain r fs' where ex: "extract_driver demo_os [''r''] ''net'' demo_driver demo_fs = Some (r, fs')"
    by blast
  have "tree_wf demo_fs"
    by (auto simp: tree_wf_def demo_fs_def demo_nodes_def split: if_splits)
  then have env: "extract_env demo_os [''r''] (dir demo_driver) [''w''] demo_fs"
    by (auto simp: extract_env_def demo_os_def demo_fs_def demo_nodes_def demo_driver_def plain_below_def strip_prefix_def)
  have deps: "\<forall>fs p text. fixdep demo_os [''r''] p fs = Some text \<longrightarrow> (\<forall>h \<in> set (fixdep_headers [''r''] text). plain_below [''r''] h)"
    by (simp add: demo_os_def)
  have gm: "snd (gmake demo_os [''r''] (dir demo_driver) fs) = fs" for fs
    by (simp add: demo_os_def)
  have "\<not> prefix [''w''] [''t'']" "\<not> prefix [''t''] [''w'']"
    by simp_all
  then have "fs' [''t''] = demo_fs [''t'']"
    using extract_confined [OF env deps ex] unfolding gm by metis
  then show ?thesis
    using ex by (auto simp: demo_fs_def demo_nodes_def)
qed

text \<open>A header that leaves the source tree by \<open>..\<close> leaves the workspace in the same way: the prefix test is
  on the components of the path, the file system resolves them.\<close>

lemma header_dotdot_escapes:
  assumes "tree_wf fs" and "fs ws = Some Dir" and "fs (butlast ws) = Some Dir" and "x \<noteq> ''..''"
    and "node_at fs (src @ [''..'', x]) = Some (File t)" and "fs (butlast ws @ [x]) = None" and "\<not> denied W (butlast ws @ [x])"
  shows "copy_headers W src ws [src @ [''..'', x]] fs = (Inr (), fs(butlast ws @ [x] \<mapsto> File t))"
proof -
  have up: "resolve fs (ws @ [''..'']) = Some (butlast ws)"
    using resolve_dir [OF assms(1,2)] assms(2) by (simp add: resolve_snoc)
  then have "resolve fs ((ws @ [''..'']) @ [x]) = Some (butlast ws @ [x])"
    unfolding resolve_snoc using assms(3,4) by simp
  then have copied: "std_copy W (src @ [''..'', x]) (ws @ [''..'', x]) fs = (Inr (), fs(butlast ws @ [x] \<mapsto> File t))"
    using assms(5-7) by (simp add: std_copy_def std_write_def)
  have "create_dir_all W (ws @ [''..'']) fs = (Inr (), fs)"
    using create_dir_all_exists [OF assms(1,2), of W] up assms(3) by (simp add: create_dir_all_def make_dirs_append)
  then show ?thesis
    using copied by (simp add: strip_prefix_def Let_def butlast_append)
qed

end
