(* ===== verification/Iface_Gen.thy ===== *)
theory Iface_Gen
  imports Iface_Compiler Server_Loop
begin

text \<open>
  From an interface definition to running code: what the macros \<open>iface!\<close>, \<open>l4_client\<close> and
  \<open>l4_server\<close> generate (\<open>crates/l4_derive/lib.rs\<close>, \<open>iface.rs\<close>, \<open>clntsrv.rs\<close>) and what the generated
  invocation of \<open>iface_back!\<close> (\<open>crates/l4/ipc/iface.rs\<close>) makes of it: the stubs and the dispatcher
  of theory \<open>Rpc\<close>. \<open>None\<close> is a panic of the macro or a definition the Rust compiler rejects.

  The compiler's knowledge of the rest of the program is a parameter: the value of a constant that
  names a protocol, and the serialisation of type names that the framework does not define.
\<close>

section \<open>What \<open>iface!\<close> hands to \<open>iface_back!\<close>\<close>

record iface_trait =
  g_name :: string
  g_protocol :: proto_expr
  g_caps :: u8
  g_opattrs :: "string list"
  g_optype :: rust_type
  g_methods :: "(i32 \<times> trait_method) list"

fun method_tokens :: "iface_method \<Rightarrow> (i32 \<times> trait_method) option" where
  "method_tokens (Unnumbered m) = None"
| "method_tokens (Numbered n m) = Some (n, m)"

definition gen_iface :: "iface_def \<Rightarrow> iface_trait option" where
  "gen_iface D = map_option (\<lambda>ms. \<lparr>g_name = i_name D, g_protocol = i_protocol D, g_caps = i_demand D,
     g_opattrs = i_opattrs D, g_optype = i_optype D, g_methods = ms\<rparr>) (those (map method_tokens (i_methods D)))"

section \<open>Types that can be transferred\<close>

definition prim_types :: "(string \<times> mty) list" where
  "prim_types = [(''i8'', I8), (''i16'', I16), (''i32'', I32), (''i64'', I64), (''i128'', I128),
     (''u8'', U8), (''u16'', U16), (''u32'', U32), (''u64'', U64), (''u128'', U128),
     (''f32'', F32), (''f64'', F64), (''usize'', Usize), (''isize'', Isize), (''bool'', Bool), (''char'', Char)]"

text \<open>A type name without arguments: a primitive type, a type of the framework, or one of the
  program's own (\<open>al\<close>).\<close>

definition named_sty :: "(string \<Rightarrow> sty option) \<Rightarrow> string \<Rightarrow> sty option" where
  "named_sty al i =
     (case map_of prim_types i of
        Some T \<Rightarrow> Some (STy T)
      | None \<Rightarrow> if i = ''String'' then Some SString else if i = ''SndFlexPage'' then Some SFlex else al i)"

text \<open>The element types of options and arrays have to be \<open>Serialisable\<close>: values that are copied as a
  whole.\<close>

definition elem_mty :: "(string \<Rightarrow> sty option) \<Rightarrow> rust_type \<Rightarrow> mty option" where
  "elem_mty al t =
     (case t of
        TyPath segs \<Rightarrow>
          if segs = [] then None
          else (case last segs of
                  Segment i NoArguments \<Rightarrow>
                    (case named_sty al i of Some (STy T) \<Rightarrow> Some T | Some SFlex \<Rightarrow> Some FlexPage | _ \<Rightarrow> None)
                | _ \<Rightarrow> None)
      | _ \<Rightarrow> None)"

definition generic_sty :: "(string \<Rightarrow> sty option) \<Rightarrow> string \<Rightarrow> generic_argument list \<Rightarrow> sty option" where
  "generic_sty al i args =
     (case args of
        [GenType t] \<Rightarrow>
          if i = ''Option'' then map_option SOpt (elem_mty al t)
          else if i = ''Cap'' then Some SCap
          else if i = ''Vec'' then map_option SVec (elem_mty al t)
          else if i = ''BufArray'' then map_option (SArray U16) (elem_mty al t)
          else None
      | _ \<Rightarrow> None)"

definition ser_type :: "(string \<Rightarrow> sty option) \<Rightarrow> rust_type \<Rightarrow> sty option" where
  "ser_type al t =
     (case t of
        TyTuple ts \<Rightarrow> if ts = [] then Some SUnit else None
      | TyPath segs \<Rightarrow>
          if segs = [] then None
          else (case last segs of
                  Segment i NoArguments \<Rightarrow> named_sty al i
                | Segment i (AngleBracketed args) \<Rightarrow> generic_sty al i args
                | Segment i Parenthesized \<Rightarrow> None)
      | TyReference t \<Rightarrow> None
      | TyOther s \<Rightarrow> if s = ''()'' then Some SUnit else None)"

text \<open>The operation type is matched as one token, and its values are compared with integer
  literals.\<close>

definition op_mty :: "rust_type \<Rightarrow> mty option" where
  "op_mty t =
     (let int = (\<lambda>i. case map_of prim_types i of
                   Some T \<Rightarrow> if T \<in> {F32, F64, Bool, Char} then None else Some T | None \<Rightarrow> None)
      in case t of
           TyPath [Segment i NoArguments] \<Rightarrow> int i
         | TyOther i \<Rightarrow> int i
         | _ \<Rightarrow> None)"

section \<open>The expansion of \<open>iface_back!\<close>\<close>

text \<open>The macro takes arguments of the form \<open>name: type\<close> behind \<open>&mut self\<close>.\<close>

definition arg_sty :: "(string \<Rightarrow> sty option) \<Rightarrow> fn_arg \<Rightarrow> sty option" where
  "arg_sty al arg = (case arg of Captured (Some n) t \<Rightarrow> ser_type al t | _ \<Rightarrow> None)"

type_synonym 's impls = "string \<Rightarrow> 's \<Rightarrow> sval list \<Rightarrow> (l4_error, sval) result \<times> 's"

definition expand_op :: "(string \<Rightarrow> sty option) \<Rightarrow> 's impls \<Rightarrow> i32 \<times> trait_method \<Rightarrow> 's ipc_op option" where
  "expand_op al impl nm =
     (case nm of (n, m) \<Rightarrow>
        (case m_inputs m of
           SelfRef True # args \<Rightarrow> do {
             Ts \<leftarrow> those (map (arg_sty al) args);
             R \<leftarrow> Option.bind (m_output m) (ser_type al);
             Some \<lparr>op_code = unat n, op_args = Ts, op_ret = R, op_fun = impl (m_ident m)\<rparr>
           }
         | _ \<Rightarrow> None))"

text \<open>A trait has one method of each name, and the operation codes are literals of the operation
  type. \<open>proto\<close> is the value of a protocol expression, if it is a single token for a number of type
  \<open>i64\<close>.\<close>

definition iface_back :: "(string \<Rightarrow> sty option) \<Rightarrow> (proto_expr \<Rightarrow> i64 option) \<Rightarrow> 's impls \<Rightarrow> iface_trait
    \<Rightarrow> 's iface option" where
  "iface_back al proto impl g =
     (if g_opattrs g \<noteq> [] \<or> \<not> distinct (map (m_ident \<circ> snd) (g_methods g)) then None
      else do {
        p \<leftarrow> proto (g_protocol g);
        T \<leftarrow> op_mty (g_optype g);
        ops \<leftarrow> those (map (expand_op al impl) (g_methods g));
        if list_all (\<lambda>o1. op_code o1 < num_max T) ops
        then Some \<lparr>PROTOCOL_ID = p, CAP_DEMAND = g_caps g, OpType = T, iface_ops = ops\<rparr>
        else None
      })"

text \<open>The macro \<open>iface!\<close> on the items of a trait, with the implementations of a server.\<close>

definition compile_iface :: "bool \<Rightarrow> (string \<Rightarrow> sty option) \<Rightarrow> (proto_expr \<Rightarrow> i64 option) \<Rightarrow> 's impls
    \<Rightarrow> string \<Rightarrow> trait_item list \<Rightarrow> 's iface option" where
  "compile_iface oc al proto impl name items =
     (case iface_parse oc name items of
        Some (Inr D) \<Rightarrow> Option.bind (gen_iface D) (iface_back al proto impl)
      | _ \<Rightarrow> None)"

section \<open>Generated structures\<close>

datatype struct_fields = NamedFields "(string \<times> rust_type) list" | UnnamedFields | UnitStruct

datatype struct_data = DataStruct struct_fields | DataOther

datatype gen_error = AttrsMissing | MetaError iface_error | NotAStruct | WrongFields

text \<open>A generated structure: its members in order, the members its constructor initialises, the traits
  it implements and the members the implementations use.\<close>

record gen_struct =
  gs_name :: string
  gs_members :: "string list"
  gs_init :: "string list"
  gs_traits :: "string list"
  gs_uses :: "string list"

definition field_names :: "struct_fields \<Rightarrow> string list" where
  "field_names fs = (case fs of NamedFields nts \<Rightarrow> map fst nts | _ \<Rightarrow> [])"

definition gen_server_struct :: "string \<Rightarrow> struct_fields \<Rightarrow> string \<times> u64 \<Rightarrow> gen_struct" where
  "gen_server_struct name flds opts =
     (case opts of (trait_name, buffer) \<Rightarrow>
        (let cmember = (if buffer = 0 then [] else [''__buffer'']);
             cimpl = (if buffer = 0 then [] else [''StackBuf'', ''TypedBuffer<str>'', ''TypedBuffer<[u8]>''])
         in \<lparr>gs_name = name,
             gs_members = [''__dispatch_ptr'', ''__cap''] @ field_names flds @ cmember @ [''__pin''],
             gs_init = [''__dispatch_ptr'', ''__cap''] @ field_names flds @ cmember @ [''__pin''],
             gs_traits = [''Callable'', ''Dispatch'', ''Demand'', ''Interface'', ''CapProviderAccess''] @ cimpl,
             gs_uses = [''__cap'', ''__slots''] @ cmember\<rparr>))"

definition gen_client_struct :: "string \<Rightarrow> string \<Rightarrow> u32 \<Rightarrow> gen_struct \<times> slot_type" where
  "gen_client_struct name trait_name demand =
     (\<lparr>gs_name = name, gs_members = [''__cap'', ''__slots'', ''__pin''], gs_init = [''__cap'', ''__slots'', ''__pin''],
       gs_traits = [''Interface'', ''IfaceInit'', trait_name, ''CapProviderAccess''],
       gs_uses = [''__cap'', ''__slots'']\<rparr>, client_slot_type demand)"

definition l4_server :: "nested_meta list \<Rightarrow> string \<Rightarrow> struct_data \<Rightarrow> (gen_error, gen_struct) result" where
  "l4_server attrs name data =
     (if attrs = [] then Inl AttrsMissing
      else case parse_server_meta attrs of
             Inl e \<Rightarrow> Inl (MetaError e)
           | Inr opts \<Rightarrow>
               (case data of
                  DataOther \<Rightarrow> Inl NotAStruct
                | DataStruct (NamedFields nts) \<Rightarrow> Inr (gen_server_struct name (NamedFields nts) opts)
                | DataStruct UnnamedFields \<Rightarrow> Inl WrongFields
                | DataStruct UnitStruct \<Rightarrow> Inr (gen_server_struct name UnitStruct opts)))"

definition l4_client :: "nested_meta list \<Rightarrow> string \<Rightarrow> struct_data \<Rightarrow> (gen_error, gen_struct \<times> slot_type) result" where
  "l4_client attrs name data =
     (if attrs = [] then Inl AttrsMissing
      else case parse_client_meta attrs of
             Inl e \<Rightarrow> Inl (MetaError e)
           | Inr (trait_name, demand) \<Rightarrow>
               (case data of
                  DataOther \<Rightarrow> Inl NotAStruct
                | DataStruct UnitStruct \<Rightarrow> Inr (gen_client_struct name trait_name demand)
                | DataStruct _ \<Rightarrow> Inl WrongFields))"

text \<open>The Rust compiler accepts a generated structure when its members have different names, the
  constructor names each of them, and the implementations use no others.\<close>

definition struct_compiles :: "gen_struct \<Rightarrow> bool" where
  "struct_compiles g \<longleftrightarrow> distinct (gs_members g) \<and> set (gs_init g) = set (gs_members g) \<and>
     set (gs_uses g) \<subseteq> set (gs_members g)"

text \<open>A client always compiles. A server has its callback first, as the loop expects it at the address
  of the object, but never compiles: its access to receive slots uses a member it does not have
  (unless the user adds one of that name).\<close>

lemma l4_client_compiles: "l4_client attrs name data = Inr (g, slots) \<Longrightarrow> struct_compiles g"
  by (auto simp: l4_client_def gen_client_struct_def struct_compiles_def
      split: if_splits sum.splits prod.splits struct_data.splits struct_fields.splits)

lemma l4_server_callback_first: "l4_server attrs name data = Inr g \<Longrightarrow> hd (gs_members g) = ''__dispatch_ptr''"
  by (auto simp: l4_server_def gen_server_struct_def Let_def
      split: if_splits sum.splits prod.splits struct_data.splits struct_fields.splits)

lemma l4_server_slots_missing:
  assumes "l4_server attrs name data = Inr g"
    and "case data of DataStruct fs \<Rightarrow> ''__slots'' \<notin> set (field_names fs) | DataOther \<Rightarrow> True"
  shows "\<not> struct_compiles g"
  using assms
  by (auto simp: l4_server_def gen_server_struct_def struct_compiles_def Let_def
      split: if_splits sum.splits prod.splits struct_data.splits struct_fields.splits)

section \<open>Compiled interfaces run the declared methods\<close>

lemma those_Some_iff: "those xs = Some ys \<longleftrightarrow> xs = map Some ys"
proof (induction xs arbitrary: ys)
  case (Cons x xs)
  then show ?case
    by (cases x; cases ys) (auto split: option.splits)
qed auto

lemma those_nth: "those (map f xs) = Some ys \<Longrightarrow> length ys = length xs \<and> (\<forall>i < length xs. f (xs ! i) = Some (ys ! i))"
  by (auto simp: those_Some_iff dest: map_eq_imp_length_eq) (metis map_eq_imp_length_eq nth_map)

lemma parse_methods:
  assumes "iface_parse oc name items = Some (Inr D)"
  shows "i_methods D = map (\<lambda>(k, m). Numbered (word_of_nat k) (normalise_method m)) (enumerate 0 (declared items))"
proof -
  obtain attrs ms where collect: "collect_items items = Inr (attrs, ms)"
    and enum: "enumerate_iface_methods ms = Inr (i_methods D)"
    using assms by (auto simp: iface_parse_def split: sum.splits prod.splits option.splits)
  note ms = collect_items_methods [OF collect]
  have "enumerate_from 0 ms = Inr (i_methods D)"
    using enum by (auto simp: enumerate_iface_methods_def split: if_splits)
  note wf = enumerate_from_wf [OF this]
  show ?thesis
    using wf(1,4) by (auto intro!: nth_equalityI simp: ms nth_enumerate_eq)
qed

text \<open>The \<open>k\<close>-th operation of the generated interface.\<close>

definition op_of_method :: "(string \<Rightarrow> sty option) \<Rightarrow> 's impls \<Rightarrow> nat \<Rightarrow> trait_method \<Rightarrow> 's ipc_op \<Rightarrow> bool" where
  "op_of_method al impl k m o1 \<longleftrightarrow> op_code o1 = k \<and> op_fun o1 = impl (m_ident m) \<and>
     map Some (op_args o1) = map (arg_sty al) (tl (m_inputs m)) \<and>
     Some (op_ret o1) = ser_type al (case m_output m of Some t \<Rightarrow> t | None \<Rightarrow> TyOther ''()'')"

lemma expand_op_method:
  assumes "expand_op al impl (word_of_nat k, normalise_method m) = Some o1" and "k < 2 ^ 32"
  shows "op_of_method al impl k m o1"
  using assms
  by (auto simp: expand_op_def op_of_method_def normalise_method_def those_Some_iff unat_of_nat
      split: list.splits fn_arg.splits bool.splits bind_splits option.splits)

lemma compile_ops:
  assumes "compile_iface oc al proto impl name items = Some I" and "length (declared items) \<le> 2 ^ 32"
  shows "length (iface_ops I) = length (declared items)"
    and "k < length (declared items) \<Longrightarrow> op_of_method al impl k (declared items ! k) (iface_ops I ! k)"
    and "distinct (map m_ident (declared items))"
proof -
  obtain D g where D: "iface_parse oc name items = Some (Inr D)" and g: "gen_iface D = Some g"
    and ib: "iface_back al proto impl g = Some I"
    using assms(1) by (auto simp: compile_iface_def split: option.splits sum.splits bind_splits)
  let ?ms = "map (\<lambda>(k, m). (word_of_nat k, normalise_method m)) (enumerate 0 (declared items))"
  have "map method_tokens (i_methods D) = map Some ?ms"
    by (simp add: parse_methods [OF D] split_def)
  then have "those (map method_tokens (i_methods D)) = Some ?ms"
    by (simp add: those_Some_iff)
  then have ms: "g_methods g = ?ms"
    using g by (auto simp: gen_iface_def)
  have ops: "those (map (expand_op al impl) (g_methods g)) = Some (iface_ops I)"
    and dist: "distinct (map (m_ident \<circ> snd) (g_methods g))"
    using ib by (auto simp: iface_back_def split: if_splits bind_splits)
  note nth = those_nth [OF ops]
  show "length (iface_ops I) = length (declared items)"
    using nth by (simp add: ms)
  show "op_of_method al impl k (declared items ! k) (iface_ops I ! k)" if "k < length (declared items)"
    using nth that assms(2) by (intro expand_op_method) (auto simp: ms nth_enumerate_eq)
  have "map (m_ident \<circ> snd) (g_methods g) = map m_ident (declared items)"
    by (auto intro!: nth_equalityI simp: ms nth_enumerate_eq normalise_method_def)
  then show "distinct (map m_ident (declared items))"
    using dist by simp
qed

lemma compile_ops_ok:
  assumes "compile_iface oc al proto impl name items = Some I" and "length (declared items) \<le> 2 ^ 32"
  shows "ops_ok I"
proof -
  have "op_code (iface_ops I ! k) = k" if "k < length (iface_ops I)" for k
    using compile_ops(1) [OF assms] compile_ops(2) [OF assms, of k] that by (simp add: op_of_method_def)
  then have "map op_code (iface_ops I) = [0..<length (iface_ops I)]"
    by (intro nth_equalityI) simp_all
  then show ?thesis
    by (simp add: ops_ok_def)
qed

text \<open>Without a declared operation type the codes are 32-bit integers.\<close>

lemma parse_attrs_optype:
  "parse_attrs as st = Inr (p, oa, ot) \<Longrightarrow> \<forall>i d ats. AttrType i d ats \<notin> set as \<Longrightarrow> ot = snd (snd st)"
  by (induction as st arbitrary: p oa ot rule: parse_attrs.induct) (auto split: if_splits option.splits)

lemma collect_items_types:
  "collect_items items = Inr (as, ms) \<Longrightarrow> AttrType i d ats \<in> set as \<Longrightarrow> ItemType i d ats \<in> set items"
  by (induction items arbitrary: as ms) (fastforce split: trait_item.splits sum.splits prod.splits)+

lemma compile_default_optype:
  assumes "compile_iface oc al proto impl name items = Some I" and "\<forall>i d ats. ItemType i d ats \<notin> set items"
  shows "OpType I = I32"
proof -
  obtain D g where D: "iface_parse oc name items = Some (Inr D)" and g: "gen_iface D = Some g"
    and ib: "iface_back al proto impl g = Some I"
    using assms(1) by (auto simp: compile_iface_def split: option.splits sum.splits bind_splits)
  obtain attrs ms where collect: "collect_items items = Inr (attrs, ms)"
    and attrs: "parse_iface_attributes attrs = Inr (i_protocol D, i_opattrs D, i_optype D)"
    using D by (auto simp: iface_parse_def split: sum.splits prod.splits option.splits)
  have "\<forall>i d ats. AttrType i d ats \<notin> set attrs"
    using collect_items_types [OF collect] assms(2) by blast
  then have "i_optype D = TyOther ''i32''"
    using attrs parse_attrs_optype [of attrs "(None, [], TyOther ''i32'')"]
    by (auto simp: parse_iface_attributes_def split: sum.splits prod.splits option.splits)
  moreover have "g_optype g = i_optype D"
    using g by (auto simp: gen_iface_def)
  ultimately show ?thesis
    using ib by (auto simp: iface_back_def op_mty_def prim_types_def split: if_splits bind_splits)
qed


text \<open>The counter service as a definition.\<close>

definition counter_items :: "trait_item list" where
  "counter_items = [ItemConst ''PROTOCOL_ID'' (Some (LitInt 0x44)),
     ItemMethod \<lparr>m_attrs = [''doc''], m_ident = ''add'', m_const = False,
       m_inputs = [SelfRef True, Captured (Some ''n'') (TyPath [Segment ''u32'' NoArguments]),
         Captured (Some ''why'') (TyPath [Segment ''String'' NoArguments])],
       m_output = Some (TyPath [Segment ''u32'' NoArguments]), m_default = False\<rparr>,
     ItemMethod \<lparr>m_attrs = [], m_ident = ''reject'', m_const = False, m_inputs = [SelfRef True],
       m_output = None, m_default = False\<rparr>]"

definition lit_proto :: "proto_expr \<Rightarrow> i64 option" where
  "lit_proto e = (case e of LitInt n \<Rightarrow> Some n | _ \<Rightarrow> None)"

definition counter_impl :: "nat impls" where
  "counter_impl nm = (if nm = ''add'' then op_fun demo_add else op_fun demo_drop)"

lemmas compile_eval = compile_iface_def iface_parse_def parse_iface_attributes_def enumerate_iface_methods_def
  check_method_def normalise_method_def is_cap_arg_def op_add_def gen_iface_def iface_back_def expand_op_def
  arg_sty_def ser_type_def named_sty_def generic_sty_def elem_mty_def prim_types_def op_mty_def num_max_def signed_ty_def

lemma counter_compiles: "compile_iface True (\<lambda>_. None) lit_proto counter_impl ''Counter'' counter_items = Some demo_iface"
  by (simp add: compile_eval counter_items_def lit_proto_def counter_impl_def demo_iface_def demo_add_def demo_drop_def)


end
