(* ===== verification/Mem_Iface.thy ===== *)
theory Mem_Iface
  imports Iface_Gen
begin

text \<open>
  The memory interfaces of the runtime, \<open>crates/l4re/mem.rs\<close>: data spaces and the memory allocator,
  as definitions for the macro \<open>iface!\<close>, their clients, and what becomes of a call. The value of the
  protocol constant (generated from a C header for data spaces) is a parameter.
\<close>

section \<open>Types\<close>

record ds_stats =
  ds_size :: u64
  ds_flags :: u64

record deprecated_phys =
  phys_addr :: u64
  phys_size :: u64

text \<open>The structures are transferred as their bytes.\<close>

definition two_words :: "u64 \<Rightarrow> u64 \<Rightarrow> nat" where
  "two_words a b = unat a + 2 ^ 64 * unat b"

definition ds_stats_bits :: "ds_stats \<Rightarrow> nat" where
  "ds_stats_bits d = two_words (ds_size d) (ds_flags d)"

definition ds_stats_of :: "nat \<Rightarrow> ds_stats" where
  "ds_stats_of n = \<lparr>ds_size = word_of_nat n, ds_flags = word_of_nat (n div 2 ^ 64)\<rparr>"

definition phys_bits :: "deprecated_phys \<Rightarrow> nat" where
  "phys_bits p = two_words (phys_addr p) (phys_size p)"

datatype mem_alloc_flags = Continuous | SuperPages

definition mem_alloc_flag :: "mem_alloc_flags \<Rightarrow> u8" where
  "mem_alloc_flag f = (case f of Continuous \<Rightarrow> 0x01 | SuperPages \<Rightarrow> 0x04)"

text \<open>The names in scope: 64-bit C types, the renamed flex page, the two structures.\<close>

definition mem_types :: "string \<Rightarrow> sty option" where
  "mem_types = map_of [(''l4_addr_t'', STy U64), (''l4_size_t'', STy U64), (''FlexPage'', SFlex),
     (''DsStats'', STy TwoWords), (''DeprecatedPhys'', STy TwoWords)]"

section \<open>Interface definitions\<close>

definition ty :: "string \<Rightarrow> rust_type" where
  "ty i = TyPath [Segment i NoArguments]"

definition ty1 :: "string \<Rightarrow> string \<Rightarrow> rust_type" where
  "ty1 i j = TyPath [Segment i (AngleBracketed [GenType (ty j)])]"

definition mk_method :: "string \<Rightarrow> (string \<times> rust_type) list \<Rightarrow> rust_type \<Rightarrow> trait_item" where
  "mk_method nm args ret = ItemMethod \<lparr>m_attrs = [''doc''], m_ident = nm, m_const = False,
     m_inputs = SelfRef True # map (\<lambda>(n, t). Captured (Some n) t) args, m_output = Some ret, m_default = False\<rparr>"

definition dataspace_provider :: "trait_item list" where
  "dataspace_provider =
     [ItemConst ''PROTOCOL_ID'' (Some ExprOther),
      mk_method ''map'' [(''offset'', ty ''l4_addr_t''), (''spot'', ty ''l4_addr_t''), (''flags'', ty ''u64''),
        (''r'', ty ''FlexPage'')] (ty ''FlexPage''),
      mk_method ''clear'' [(''offset'', ty ''usize''), (''size'', ty ''usize'')] (TyTuple []),
      mk_method ''info'' [] (ty ''DsStats''),
      mk_method ''copy_in'' [(''dst_offset'', ty ''l4_addr_t''), (''src'', ty1 ''Cap'' ''Dataspace''),
        (''src_offset'', ty ''l4_addr_t''), (''size'', ty ''l4_addr_t'')] (TyTuple []),
      mk_method ''take'' [(''flags'', ty ''i32'')] (TyTuple []),
      mk_method ''release'' [(''flags'', ty ''i32'')] (TyTuple []),
      mk_method ''phys'' [(''offset'', ty ''l4_addr_t'')] (ty ''DeprecatedPhys''),
      mk_method ''allocate'' [(''offset'', ty ''l4_addr_t''), (''size'', ty ''l4_size_t'')] (TyTuple [])]"

definition memory_allocator :: "trait_item list" where
  "memory_allocator =
     [ItemConst ''PROTOCOL_ID'' (Some ExprOther),
      mk_method ''alloc'' [(''size'', ty ''isize''), (''flags'', ty ''u64''), (''align'', ty1 ''Option'' ''u64'')]
        (ty1 ''Cap'' ''Dataspace'')]"

definition PROTO_EMPTY :: i64 where
  "PROTO_EMPTY = -19"

text \<open>The constant named in a definition has the value \<open>p\<close>.\<close>

definition const_proto :: "i64 \<Rightarrow> proto_expr \<Rightarrow> i64 option" where
  "const_proto p e = (case e of LitInt n \<Rightarrow> Some n | LitOther \<Rightarrow> None | ExprOther \<Rightarrow> Some p)"

definition dataspace_client :: "(gen_error, gen_struct \<times> slot_type) result" where
  "dataspace_client = l4_client [MetaWord ''DataspaceProvider''] ''Dataspace'' (DataStruct UnitStruct)"

definition mem_alloc_client :: "(gen_error, gen_struct \<times> slot_type) result" where
  "mem_alloc_client =
     l4_client [MetaWord ''MemoryAllocator'', MetaNameValue ''demand'' (MetaInt 1)] ''MemAlloc'' (DataStruct UnitStruct)"

section \<open>The compiled interfaces\<close>

text \<open>Operations by their code, arguments and result; the implementations are the server's.\<close>

definition mk_op :: "'s impls \<Rightarrow> nat \<Rightarrow> string \<Rightarrow> sty list \<Rightarrow> sty \<Rightarrow> 's ipc_op" where
  "mk_op impl n nm args ret = \<lparr>op_code = n, op_args = args, op_ret = ret, op_fun = impl nm\<rparr>"

definition dataspace_iface :: "i64 \<Rightarrow> 's impls \<Rightarrow> 's iface" where
  "dataspace_iface p impl = \<lparr>PROTOCOL_ID = p, CAP_DEMAND = 1, OpType = I32, iface_ops =
     [mk_op impl 0 ''map'' [STy U64, STy U64, STy U64, SFlex] SFlex,
      mk_op impl 1 ''clear'' [STy Usize, STy Usize] SUnit,
      mk_op impl 2 ''info'' [] (STy TwoWords),
      mk_op impl 3 ''copy_in'' [STy U64, SCap, STy U64, STy U64] SUnit,
      mk_op impl 4 ''take'' [STy I32] SUnit,
      mk_op impl 5 ''release'' [STy I32] SUnit,
      mk_op impl 6 ''phys'' [STy U64] (STy TwoWords),
      mk_op impl 7 ''allocate'' [STy U64, STy U64] SUnit]\<rparr>"

definition mem_alloc_iface :: "'s impls \<Rightarrow> 's iface" where
  "mem_alloc_iface impl = \<lparr>PROTOCOL_ID = PROTO_EMPTY, CAP_DEMAND = 0, OpType = I32,
     iface_ops = [mk_op impl 0 ''alloc'' [STy Isize, STy U64, SOpt U64] SCap]\<rparr>"

lemmas mem_eval = compile_eval mk_method_def ty_def ty1_def mem_types_def const_proto_def mk_op_def

lemma dataspace_compiles:
  "compile_iface True mem_types (const_proto p) impl ''DataspaceProvider'' dataspace_provider = Some (dataspace_iface p impl)"
  by (simp add: mem_eval dataspace_provider_def dataspace_iface_def)

lemma mem_alloc_compiles:
  "compile_iface True mem_types (const_proto PROTO_EMPTY) impl ''MemoryAllocator'' memory_allocator =
    Some (mem_alloc_iface impl)"
  by (simp add: mem_eval memory_allocator_def mem_alloc_iface_def)

lemma mem_clients:
  "\<exists>g. dataspace_client = Inr (g, UsesBufferless)" "\<exists>g. mem_alloc_client = Inr (g, UsesBufferManager)"
  by (simp_all add: dataspace_client_def mem_alloc_client_def l4_client_def parse_client_meta_def
      gen_client_struct_def client_slot_type_def)

text \<open>The statistics of a data space survive their transfer.\<close>

lemma two_words_of:
  "word_of_nat (two_words a b) = a" "word_of_nat (two_words a b div 2 ^ 64) = b" "two_words a b < 256 ^ size_of TwoWords"
proof -
  have a: "unat a < 2 ^ 64" and b: "unat b < 2 ^ 64"
    using unsigned_less [of a] unsigned_less [of b] by simp_all
  have "two_words a b mod 2 ^ LENGTH(64) = unat a"
    using a by (simp add: two_words_def)
  then have "unat (word_of_nat (two_words a b) :: u64) = unat a"
    by (simp only: unat_of_nat)
  then show "word_of_nat (two_words a b) = a"
    by (rule unsigned_word_eqI)
  show "word_of_nat (two_words a b div 2 ^ 64) = b"
    using a by (simp add: two_words_def)
  show "two_words a b < 256 ^ size_of TwoWords"
    using a b by (simp add: two_words_def)
qed

lemma ds_stats_roundtrip: "ds_stats_of (ds_stats_bits d) = d" "ds_stats_bits d < 256 ^ size_of TwoWords"
  using two_words_of [of "ds_size d" "ds_flags d"] by (simp_all add: ds_stats_of_def ds_stats_bits_def)

section \<open>What calls do\<close>

lemma compile_demand:
  assumes "compile_iface oc al proto impl name items = Some I" and "sum_list (map cap_args (declared items)) < 256"
  shows "unat (CAP_DEMAND I) = sum_list (map cap_args (declared items))"
proof -
  obtain D g where D: "iface_parse oc name items = Some (Inr D)" and g: "gen_iface D = Some g"
    and ib: "iface_back al proto impl g = Some I"
    using assms(1) by (auto simp: compile_iface_def split: option.splits sum.splits bind_splits)
  have "CAP_DEMAND I = i_demand D"
    using ib g by (auto simp: iface_back_def gen_iface_def split: if_splits bind_splits)
  moreover have "count_demand oc (i_methods D) 0 = Some (i_demand D)"
    using D by (auto simp: iface_parse_def split: sum.splits prod.splits option.splits)
  moreover have "map (cap_args \<circ> inner_ref) (i_methods D) = map cap_args (declared items)"
    by (auto intro!: nth_equalityI simp: parse_methods [OF D] nth_enumerate_eq)
  ultimately have "CAP_DEMAND I = word_of_nat (sum_list (map cap_args (declared items)))"
    using count_demand_sum [of 0 "i_methods D" oc] assms(2) by simp
  then show ?thesis
    using assms(2) by (simp only: unat_of_nat) simp
qed

text \<open>
  C30. A client without receive slots cannot call an interface that passes capabilities. When a
  compiled interface has a capability among the arguments of any of its methods and the client was
  declared without a demand, every call of every method, with any arguments, returns the error that
  buffer allocation is not permitted, and nothing is written into the registers and nothing is sent.
  The client \<open>Dataspace\<close> of the runtime is of this kind: its method \<open>copy_in\<close> takes a capability.
\<close>
theorem bufferless_client_refused:
  assumes "compile_iface oc al proto impl name items = Some I"
    and "0 < sum_list (map cap_args (declared items))" and "sum_list (map cap_args (declared items)) < 256"
    and "l4_client attrs cname cdata = Inr (g, UsesBufferless)"
  shows "client_stub oc' A E kcall (p_alloc_capslots bl_ops) (p_access_buffers bl_ops) I o1 args b u w =
    Some (Inl (InvalidArg ''buffer allocation not permitted'' None), b, u, w)"
proof -
  have "CAP_DEMAND I \<noteq> 0"
  proof
    assume "CAP_DEMAND I = 0"
    then have "sum_list (map cap_args (declared items)) = 0"
      using compile_demand [OF assms(1,3)] by (metis unsigned_0)
    with assms(2) show False by linarith
  qed
  then show ?thesis
    by (simp add: client_stub_def bl_ops_def bl_alloc_capslots_def)
qed

lemma dataspace_caps: "sum_list (map cap_args (declared dataspace_provider)) = 1"
  by (simp add: declared_def dataspace_provider_def mk_method_def cap_args_def is_cap_arg_def ty_def ty1_def)

theorem bufferless_client_refused_witness:
  "client_stub True demo_abi demo_errors (\<lambda>t u w. (t, u, Suc w)) (p_alloc_capslots bl_ops) (p_access_buffers bl_ops)
     (dataspace_iface 7 (\<lambda>nm s vs. (Inr VUnit, s :: nat))) (mk_op (\<lambda>nm s vs. (Inr VUnit, s)) 4 ''take'' [STy I32] SUnit)
     [VVal 0] () (demo_utcb [1, 2, 3]) (0 :: nat) =
   Some (Inl (InvalidArg ''buffer allocation not permitted'' None), (), demo_utcb [1, 2, 3], 0)"
proof -
  obtain g where "dataspace_client = Inr (g, UsesBufferless)"
    using mem_clients(1) by blast
  then have cl: "l4_client [MetaWord ''DataspaceProvider''] ''Dataspace'' (DataStruct UnitStruct) = Inr (g, UsesBufferless)"
    by (simp add: dataspace_client_def)
  show ?thesis
    by (rule bufferless_client_refused [OF dataspace_compiles _ _ cl]) (simp_all add: dataspace_caps)
qed

text \<open>The message of an allocation always fits.\<close>

lemma alloc_message:
  assumes "40 \<le> B"
  shows "\<exists>m1 m. regs_write B I32 0 (from_mr mem) = (Inr (), m1) \<and>
    ser_writes oc A B [(STy Isize, VVal sz), (STy U64, VVal flags), (SOpt U64, VOpt align)] m1 = Some (Inr (), m) \<and>
    mr_words oc m = Some 5 \<and> mr_items m = 0"
  using assms
  by (cases align) (simp_all add: slot_eval mr_words_def op_mul_def op_sub_def regs_words_def)

text \<open>
  The memory allocator's client loses its result. The demand of the interface counts only
  capabilities among the arguments, so a call of \<open>alloc\<close> through a new \<open>MemAlloc\<close> allocates no receive
  slot although the result is a capability. Whatever the size, flags and alignment, the call sends one
  message; if the kernel or the server reports an error the client gets that error, and otherwise it
  gets the capability selector 0, whatever the server answered.
\<close>
theorem mem_alloc_returns_null:
  assumes "5 \<le> GENERIC_DATA_SIZE A" and "4 \<le> N" and "N \<le> 255"
  shows "\<exists>m. stub_message oc A (mk_op impl 0 ''alloc'' [STy Isize, STy U64, SOpt U64] SCap) [VVal sz, VVal flags, VOpt align] u m \<and>
    (case kcall (raw (tag_new PROTO_EMPTY 5 0 0)) (close_mr m u) w of (t, u', w') \<Rightarrow>
      \<exists>r. tag_result oc A E u' \<lparr>raw = t\<rparr> = Some r \<and>
    client_stub oc A E kcall (p_alloc_capslots (bm_ops oc A alloc N)) (p_access_buffers (bm_ops oc A alloc N))
      (mem_alloc_iface impl) (mk_op impl 0 ''alloc'' [STy Isize, STy U64, SOpt U64] SCap)
      [VVal sz, VVal flags, VOpt align] (bm_new A N) u w =
    Some (case r of Inl e \<Rightarrow> Inl e | Inr _ \<Rightarrow> Inr (VCap 0), bm_new A N, u', w'))"
proof -
  have B: "40 \<le> mr_bytes A"
    using assms(1) by (simp add: mr_bytes_def)
  obtain m1 m where msg: "regs_write (mr_bytes A) I32 0 (open_mr u) = (Inr (), m1)"
    "ser_writes oc A (mr_bytes A) [(STy Isize, VVal sz), (STy U64, VVal flags), (SOpt U64, VOpt align)] m1 = Some (Inr (), m)"
    "mr_words oc m = Some 5" "mr_items m = 0"
    using alloc_message [OF B, of "bytes_of_words (utcb_mr u)" oc A sz flags align] by (auto simp: open_mr_def)
  have "\<not> word_of_nat N \<le> (3 :: u8)"
    using assms(2,3) by (simp add: word_le_nat_alt unat_of_nat)
  then have ens: "bm_alloc_capslots oc A alloc N 0 (bm_new A N) w = Some (Inr (), bm_new A N, w)"
    using assms(2) by (simp add: bm_alloc_capslots_def bm_fill.simps op_add_def bm_new_def list_update_same_conv)
  obtain t u' w' where k: "kcall (raw (tag_new PROTO_EMPTY 5 0 0)) (close_mr m u) w = (t, u', w')"
    by (metis prod_cases3)
  obtain r where r: "tag_result oc A E u' \<lparr>raw = t\<rparr> = Some r"
    using tag_result_total by blast
  have acc: "rcv_cap_unchecked (bm_access_buffers (bm_new A N)) = Some (0, bm_access_buffers (bm_new A N))"
    using assms(2) by (simp add: rcv_cap_unchecked_def bm_access_buffers_def bm_new_def)
  show ?thesis
    using msg ens k r acc
    by (intro exI [of _ m]) (cases r; simp add: client_stub_def stub_message_def mem_alloc_iface_def mk_op_def Let_def)
qed

theorem mem_alloc_returns_null_witness:
  "\<exists>u' w'. client_stub True demo_abi demo_errors (\<lambda>t u w. (0, u, Suc w))
      (p_alloc_capslots (bm_ops True demo_abi (\<lambda>n. (0x4000, n)) 58)) (p_access_buffers (bm_ops True demo_abi (\<lambda>n. (0x4000, n)) 58))
      (mem_alloc_iface (\<lambda>nm s vs. (Inr (VCap 0x7000), s :: nat)))
      (mk_op (\<lambda>nm s vs. (Inr (VCap 0x7000), s)) 0 ''alloc'' [STy Isize, STy U64, SOpt U64] SCap)
      [VVal 4096, VVal 1, VOpt None] (bm_new demo_abi 58) (demo_utcb [1, 2, 3]) (0 :: nat) =
    Some (Inr (VCap 0), bm_new demo_abi 58, u', w')"
proof -
  have ok: "tag_result True demo_abi demo_errors v \<lparr>raw = 0\<rparr> = Some (Inr \<lparr>raw = 0\<rparr>)" for v
    by (rule table_bind_result)
  have N: "GENERIC_DATA_SIZE demo_abi = 63"
    by (simp add: demo_abi_def)
  show ?thesis
    using mem_alloc_returns_null [where A = demo_abi and N = 58 and kcall = "\<lambda>t u w. (0, u, Suc w)"
        and oc = True and E = demo_errors and alloc = "\<lambda>n. (0x4000, n)" and u = "demo_utcb [1, 2, 3]" and w = 0
        and impl = "\<lambda>nm s vs. (Inr (VCap 0x7000), s :: nat)" and sz = 4096 and flags = 1 and align = None]
    by (simp add: N ok) blast
qed

end
