(* ===== verification/Utcb_Layout.thy ===== *)
theory Utcb_Layout
  imports Rpc
begin

text \<open>
  The UTCB as the memory it is: \<open>Utcb\<close>, \<open>UtcbMr::from_utcb\<close> and \<open>UtcbBr\<close> of \<open>crates/l4/utcb.rs\<close> over
  the pointer functions of \<open>crates/l4-sys/ipc_basic.rs\<close>. The message and buffer registers are areas
  of one block of bytes at the offsets the C headers define; a builder works on the memory behind its
  base pointer, which continues beyond its area. The other theories use the record \<open>utcb\<close>; it is
  shown here that this is an abstraction: sessions on the raw memory and on the record agree.
\<close>

section \<open>Layout\<close>

text \<open>\<open>L4_UTCB_MSG_REGS_OFFSET\<close> and \<open>UTCB_BUF_REGS_OFFSET\<close>. The buffer registers are a descriptor word
  followed by the registers.\<close>

record utcb_layout =
  MSG_REGS_OFFSET :: nat
  BUF_REGS_OFFSET :: nat

definition WORDS_PER_ITEM :: nat where
  "WORDS_PER_ITEM = 2"

definition MSG_REG_COUNT :: "abi \<Rightarrow> nat" where
  "MSG_REG_COUNT A = GENERIC_DATA_SIZE A div (8 div 8)"

definition br_area_bytes :: "abi \<Rightarrow> nat" where
  "br_area_bytes A = GENERIC_BUFFERS_SIZE A * 8"

text \<open>A pointer is an offset into the memory of the UTCB.\<close>

definition l4_utcb_mr_u :: "utcb_layout \<Rightarrow> nat \<Rightarrow> nat" where
  "l4_utcb_mr_u Y u = u + MSG_REGS_OFFSET Y"

definition l4_utcb_br_u :: "utcb_layout \<Rightarrow> nat \<Rightarrow> nat" where
  "l4_utcb_br_u Y u = u + BUF_REGS_OFFSET Y"

definition layout_ok :: "utcb_layout \<Rightarrow> abi \<Rightarrow> u8 list \<Rightarrow> bool" where
  "layout_ok Y A mem \<longleftrightarrow> mr_bytes A + 16 \<le> 2 ^ 32 \<and> br_area_bytes A + 16 \<le> 2 ^ 32 \<and>
     MSG_REGS_OFFSET Y + mr_bytes A \<le> length mem \<and> BUF_REGS_OFFSET Y + 8 + br_area_bytes A \<le> length mem \<and>
     (MSG_REGS_OFFSET Y + mr_bytes A \<le> BUF_REGS_OFFSET Y \<or> BUF_REGS_OFFSET Y + 8 + br_area_bytes A \<le> MSG_REGS_OFFSET Y)"

section \<open>Access through \<open>Utcb\<close>\<close>

definition mr_raw :: "utcb_layout \<Rightarrow> abi \<Rightarrow> u8 list \<Rightarrow> u64 list" where
  "mr_raw Y A mem = words_of_bytes (MSG_REG_COUNT A) (drop (l4_utcb_mr_u Y 0) mem)"

text \<open>An assignment through \<open>mr_raw_mut\<close>; a fixed-size array panics outside its bounds.\<close>

definition mr_raw_mut :: "utcb_layout \<Rightarrow> abi \<Rightarrow> nat \<Rightarrow> u64 \<Rightarrow> u8 list \<Rightarrow> u8 list option" where
  "mr_raw_mut Y A i v mem =
     (if i < MSG_REG_COUNT A then Some (overwrite mem (l4_utcb_mr_u Y 0 + 8 * i) (le_bytes 8 (unat v))) else None)"

definition utcb_bdr_raw :: "utcb_layout \<Rightarrow> u8 list \<Rightarrow> u64" where
  "utcb_bdr_raw Y mem = word_of_nat (le_nat (slice mem (l4_utcb_br_u Y 0) 8))"

text \<open>The builders start at the first register of their area.\<close>

definition mr_from_utcb :: "utcb_layout \<Rightarrow> u8 list \<Rightarrow> utcb_mrs" where
  "mr_from_utcb Y mem = from_mr (drop (l4_utcb_mr_u Y 0) mem)"

definition br_from_utcb :: "utcb_layout \<Rightarrow> u8 list \<Rightarrow> registers" where
  "br_from_utcb Y mem = \<lparr>reg_mem = drop (l4_utcb_br_u Y 0 + 8) mem, reg_offset = 0\<rparr>"

definition br_words :: "registers \<Rightarrow> u32" where
  "br_words r = regs_words r div 2"

section \<open>Sessions with a builder\<close>

text \<open>The answers of the operations.\<close>

datatype reg_out =
    OUnit "(l4_error, unit) result"
  | OVal "(l4_error, nat) result"
  | OVals "(l4_error, nat list) result"
  | OStr "(l4_error, u8 list) result"

definition reg_do :: "nat \<Rightarrow> reg_op \<Rightarrow> 'z registers_scheme \<Rightarrow> reg_out \<times> 'z registers_scheme" where
  "reg_do B c r = (case c of
      RWrite T v \<Rightarrow> map_prod OUnit id (regs_write B T v r)
    | RRead T \<Rightarrow> map_prod OVal id (regs_read B T r)
    | RSkip T \<Rightarrow> map_prod OUnit id (regs_skip B T r)
    | RWriteSlice Len T vs \<Rightarrow> map_prod OUnit id (write_slice B Len T vs r)
    | RReadSlice Len T \<Rightarrow> map_prod OVals id (read_slice B Len T r)
    | RWriteStr s \<Rightarrow> map_prod OUnit id (write_str B s r)
    | RReadStr \<Rightarrow> map_prod OStr id (read_str B r)
    | RReset \<Rightarrow> (OUnit (Inr ()), regs_reset r))"

fun reg_session :: "nat \<Rightarrow> reg_op list \<Rightarrow> 'z registers_scheme \<Rightarrow> reg_out list \<times> 'z registers_scheme" where
  "reg_session B [] r = ([], r)"
| "reg_session B (c # cs) r =
     (case reg_do B c r of (x, r) \<Rightarrow> (case reg_session B cs r of (xs, r) \<Rightarrow> (x # xs, r)))"

text \<open>On the raw memory the builder writes through its base pointer.\<close>

definition mr_session :: "utcb_layout \<Rightarrow> abi \<Rightarrow> reg_op list \<Rightarrow> u8 list \<Rightarrow> reg_out list \<times> u8 list" where
  "mr_session Y A cs mem =
     (case reg_session (mr_bytes A) cs (mr_from_utcb Y mem) of
        (xs, r) \<Rightarrow> (xs, take (l4_utcb_mr_u Y 0) mem @ reg_mem r))"

definition br_session :: "utcb_layout \<Rightarrow> abi \<Rightarrow> reg_op list \<Rightarrow> u8 list \<Rightarrow> reg_out list \<times> u8 list" where
  "br_session Y A cs mem =
     (case reg_session (br_area_bytes A) cs (br_from_utcb Y mem) of
        (xs, r) \<Rightarrow> (xs, take (l4_utcb_br_u Y 0 + 8) mem @ reg_mem r))"

section \<open>Operations are local\<close>

definition with_tail :: "u8 list \<Rightarrow> 'z registers_scheme \<Rightarrow> 'z registers_scheme" where
  "with_tail post r = r\<lparr>reg_mem := reg_mem r @ post\<rparr>"

lemma with_tail_simps [simp]:
  "reg_mem (with_tail post r) = reg_mem r @ post" "reg_offset (with_tail post r) = reg_offset r"
  "with_tail post (r\<lparr>reg_offset := n\<rparr>) = (with_tail post r)\<lparr>reg_offset := n\<rparr>"
  by (simp_all add: with_tail_def)

lemma overwrite_append: "s + length ys \<le> length xs \<Longrightarrow> overwrite (xs @ zs) s ys = overwrite xs s ys @ zs"
  by (simp add: overwrite_def)

lemma slice_append: "s + n \<le> length xs \<Longrightarrow> slice (xs @ zs) s n = slice xs s n"
  by (simp add: slice_def)

lemma bytes_elems_append: "n * size_of T \<le> length bs \<Longrightarrow> bytes_elems T n (bs @ zs) = bytes_elems T n bs"
  by (induction n arbitrary: bs) simp_all

lemma with_tail_overwrite:
  "s + length ys \<le> length (reg_mem r) \<Longrightarrow>
   (with_tail post r)\<lparr>reg_mem := overwrite (reg_mem r @ post) s ys, reg_offset := n\<rparr> =
   with_tail post (r\<lparr>reg_mem := overwrite (reg_mem r) s ys, reg_offset := n\<rparr>)"
  by (simp add: with_tail_def overwrite_append)

lemma next_slot_in:
  assumes "regs_ok B r" and "next_slot B T (reg_offset r) = Inr (s, e)"
  shows "s + size_of T \<le> length (reg_mem r)"
  using next_slot_Inr [OF assms(2)] assms(1) by (simp add: regs_ok_def)

lemma write_local: "regs_ok B r \<Longrightarrow> regs_write B T v (with_tail post r) = map_prod id (with_tail post) (regs_write B T v r)"
  using next_slot_in [of B r T]
  by (auto simp: regs_write_def with_tail_overwrite split: sum.splits)

lemma read_local: "regs_ok B r \<Longrightarrow> regs_read B T (with_tail post r) = map_prod id (with_tail post) (regs_read B T r)"
  using next_slot_in [of B r T]
  by (auto simp: regs_read_def slice_append split: sum.splits)

lemma skip_local: "regs_skip B T (with_tail post r) = map_prod id (with_tail post) (regs_skip B T r)"
  by (auto simp: regs_skip_def split: sum.splits)

lemma slice_slot_in:
  assumes "regs_ok B r" and "slice_slot err B T n (reg_offset r) = Inr (s, e)"
  shows "s + n * size_of T \<le> length (reg_mem r)"
  using slices_in_regs [OF assms] assms(1) by (simp add: regs_ok_def)

lemma write_slice_local:
  assumes "regs_ok B r"
  shows "write_slice B Len T vs (with_tail post r) = map_prod id (with_tail post) (write_slice B Len T vs r)"
proof -
  have ok: "regs_ok B r1" if "regs_write B Len n r = (x, r1)" for n x r1
    using regs_write_ok [OF assms, of Len n] that by simp
  show ?thesis
    using slice_slot_in [OF ok]
    by (auto simp: write_slice_def write_local [OF assms] with_tail_overwrite length_elems_bytes
        split: option.splits prod.splits sum.splits)
qed

lemma read_slice_local:
  assumes "regs_ok B r"
  shows "read_slice B Len T (with_tail post r) = map_prod id (with_tail post) (read_slice B Len T r)"
proof -
  have ok: "regs_ok B r1" if "regs_read B Len r = (x, r1)" for x r1
    using regs_read_ok [OF assms, of Len] that by simp
  have "bytes_elems T n (drop s (reg_mem r1 @ post)) = bytes_elems T n (drop s (reg_mem r1))"
    if "regs_read B Len r = (x, r1)" "slice_slot OutOfBounds B T n (reg_offset r1) = Inr (s, e)" for x r1 n s e
    using slice_slot_in [OF ok [OF that(1)] that(2)] bytes_elems_append [of n T "drop s (reg_mem r1)" post]
    by (simp add: le_diff_conv2)
  then show ?thesis
    by (auto simp: read_slice_def read_local [OF assms] split: option.splits prod.splits sum.splits)
qed

lemma read_str_local:
  assumes "regs_ok B r"
  shows "read_str B (with_tail post r) = map_prod id (with_tail post) (read_str B r)"
proof -
  have ok: "regs_ok B r1" if "regs_read B Usize r = (x, r1)" for x r1
    using regs_read_ok [OF assms, of Usize] that by simp
  have "slice (reg_mem r1 @ post) (reg_offset r1) n = slice (reg_mem r1) (reg_offset r1) n"
    if "regs_read B Usize r = (x, r1)" "checked_add_usize (reg_offset r1) n = Some e" "\<not> e > B" for x r1 n e
    using ok [OF that(1)] that(2,3) by (intro slice_append) (auto simp: checked_add_usize_def regs_ok_def split: if_splits)
  then show ?thesis
    by (auto simp: read_str_def read_local [OF assms] Let_def split: option.splits prod.splits sum.splits if_splits)
qed

lemmas ops_local = write_local read_local write_slice_local read_slice_local read_str_local

lemma reg_do_local:
  assumes "regs_ok B r"
  shows "reg_do B c (with_tail post r) = map_prod id (with_tail post) (reg_do B c r)"
  by (cases c) (simp_all add: reg_do_def write_str_def regs_reset_def ops_local [OF assms] skip_local
      prod.map_comp comp_def id_def)

lemma reg_do_ok: "regs_ok B r \<Longrightarrow> regs_ok B (snd (reg_do B c r))"
  using reg_step_ok [of B r c] by (cases c) (simp_all add: reg_do_def reg_step_def)

lemma reg_session_local:
  assumes "regs_ok B r"
  shows "reg_session B cs (with_tail post r) = map_prod id (with_tail post) (reg_session B cs r)"
    and "regs_ok B (snd (reg_session B cs r))"
proof -
  have "reg_session B cs (with_tail post r) = map_prod id (with_tail post) (reg_session B cs r) \<and>
      regs_ok B (snd (reg_session B cs r))"
    using assms
  proof (induction cs arbitrary: r)
    case Nil
    then show ?case by simp
  next
    case (Cons c cs)
    from Cons.IH [OF reg_do_ok [OF Cons.prems, of c]] show ?case
      by (auto simp: reg_do_local [OF Cons.prems] split: prod.splits)
  qed
  then show "reg_session B cs (with_tail post r) = map_prod id (with_tail post) (reg_session B cs r)"
    and "regs_ok B (snd (reg_session B cs r))" by simp_all
qed

section \<open>The record as an abstraction of the memory\<close>

definition utcb_of :: "utcb_layout \<Rightarrow> abi \<Rightarrow> u8 list \<Rightarrow> utcb" where
  "utcb_of Y A mem = \<lparr>utcb_mr = words_of_bytes (GENERIC_DATA_SIZE A) (slice mem (MSG_REGS_OFFSET Y) (mr_bytes A)),
     utcb_br = words_of_bytes (GENERIC_BUFFERS_SIZE A) (slice mem (BUF_REGS_OFFSET Y + 8) (br_area_bytes A)),
     utcb_bdr = word_of_nat (le_nat (slice mem (BUF_REGS_OFFSET Y) 8))\<rparr>"

lemma length_utcb_of [simp]:
  "length (utcb_mr (utcb_of Y A mem)) = GENERIC_DATA_SIZE A"
  "length (utcb_br (utcb_of Y A mem)) = GENERIC_BUFFERS_SIZE A"
  by (simp_all add: utcb_of_def)

text \<open>The sessions on the record.\<close>

definition abs_mr_session :: "abi \<Rightarrow> reg_op list \<Rightarrow> utcb \<Rightarrow> reg_out list \<times> utcb" where
  "abs_mr_session A cs u = (case reg_session (mr_bytes A) cs (open_mr u) of (xs, m) \<Rightarrow> (xs, close_mr m u))"

definition abs_br_session :: "abi \<Rightarrow> reg_op list \<Rightarrow> utcb \<Rightarrow> reg_out list \<times> utcb" where
  "abs_br_session A cs u =
     (case reg_session (br_area_bytes A) cs \<lparr>reg_mem = bytes_of_words (utcb_br u), reg_offset = 0\<rparr> of
        (xs, r) \<Rightarrow> (xs, u\<lparr>utcb_br := words_of_bytes (length (utcb_br u)) (reg_mem r)\<rparr>))"

text \<open>A session on an area inside a memory replaces the area.\<close>

lemma session_in_memory:
  assumes "off + B \<le> length mem" and "B + 16 \<le> 2 ^ 32" and "reg_offset r = 0" and "reg_mem r = slice mem off B"
    and "reg_session B cs (with_tail (drop (off + B) mem) r) = (xs, r')"
  obtains area where "length area = B" and "reg_session B cs r = (xs, r'\<lparr>reg_mem := area\<rparr>)"
    and "take off mem @ reg_mem r' = overwrite mem off area"
proof -
  have ok: "regs_ok B r"
    using assms(1-4) by (simp add: regs_ok_def)
  note loc = reg_session_local [OF ok, of cs]
  obtain r1 where r1: "reg_session B cs r = (xs, r1)" and r': "r' = with_tail (drop (off + B) mem) r1"
    using loc(1) [of "drop (off + B) mem"] assms(5) by (auto simp: prod_eq_iff)
  have len: "length (reg_mem r1) = B"
    using loc(2) r1 by (simp add: regs_ok_def)
  show thesis
    by (rule that [of "reg_mem r1"]) (use len r1 in \<open>simp_all add: r' with_tail_def overwrite_def\<close>)
qed

lemma drop_as_area: "off + B \<le> length mem \<Longrightarrow> drop off mem = slice mem off B @ drop (off + B) mem"
  by (simp add: slice_def add.commute flip: drop_drop)

lemma utcb_of_write_mr:
  assumes "layout_ok Y A mem" and "length area = mr_bytes A"
  shows "utcb_of Y A (overwrite mem (MSG_REGS_OFFSET Y) area) = (utcb_of Y A mem)\<lparr>utcb_mr := words_of_bytes (GENERIC_DATA_SIZE A) area\<rparr>"
  using assms by (auto simp: utcb_of_def layout_ok_def buf_simps)

lemma utcb_of_write_br:
  assumes "layout_ok Y A mem" and "length area = br_area_bytes A"
  shows "utcb_of Y A (overwrite mem (BUF_REGS_OFFSET Y + 8) area) =
    (utcb_of Y A mem)\<lparr>utcb_br := words_of_bytes (GENERIC_BUFFERS_SIZE A) area\<rparr>"
  using assms by (auto simp: utcb_of_def layout_ok_def buf_simps)

lemma mr_session_refines:
  assumes "layout_ok Y A mem"
  shows "map_prod id (utcb_of Y A) (mr_session Y A cs mem) = abs_mr_session A cs (utcb_of Y A mem)"
proof -
  let ?off = "MSG_REGS_OFFSET Y" and ?B = "mr_bytes A"
  let ?r = "from_mr (slice mem ?off ?B)"
  have fit: "?off + ?B \<le> length mem" "?B + 16 \<le> 2 ^ 32"
    using assms by (simp_all add: layout_ok_def)
  have raw: "mr_from_utcb Y mem = with_tail (drop (?off + ?B) mem) ?r"
    using drop_as_area [OF fit(1)] by (simp add: mr_from_utcb_def l4_utcb_mr_u_def with_tail_def from_mr_def)
  have abs: "open_mr (utcb_of Y A mem) = ?r"
    using fit(1) by (simp add: open_mr_def utcb_of_def mr_bytes_def mult.commute)
  obtain xs r' where sess: "reg_session ?B cs (with_tail (drop (?off + ?B) mem) ?r) = (xs, r')"
    by (cases "reg_session ?B cs (with_tail (drop (?off + ?B) mem) ?r)")
  obtain area where area: "length area = ?B" "reg_session ?B cs ?r = (xs, r'\<lparr>reg_mem := area\<rparr>)"
    "take ?off mem @ reg_mem r' = overwrite mem ?off area"
    by (rule session_in_memory [OF fit _ _ sess]) (simp_all add: from_mr_def)
  show ?thesis
    using area utcb_of_write_mr [OF assms area(1)]
    by (simp add: mr_session_def abs_mr_session_def raw abs sess l4_utcb_mr_u_def close_mr_def)
qed

lemma br_session_refines:
  assumes "layout_ok Y A mem"
  shows "map_prod id (utcb_of Y A) (br_session Y A cs mem) = abs_br_session A cs (utcb_of Y A mem)"
proof -
  let ?off = "BUF_REGS_OFFSET Y + 8" and ?B = "br_area_bytes A"
  let ?r = "\<lparr>reg_mem = slice mem ?off ?B, reg_offset = 0\<rparr>"
  have fit: "?off + ?B \<le> length mem" "?B + 16 \<le> 2 ^ 32"
    using assms by (simp_all add: layout_ok_def)
  have raw: "br_from_utcb Y mem = with_tail (drop (?off + ?B) mem) ?r"
    using drop_as_area [OF fit(1)] by (simp add: br_from_utcb_def l4_utcb_br_u_def with_tail_def)
  have abs: "bytes_of_words (utcb_br (utcb_of Y A mem)) = slice mem ?off ?B"
    using fit(1) by (simp add: utcb_of_def br_area_bytes_def mult.commute)
  obtain xs r' where sess: "reg_session ?B cs (with_tail (drop (?off + ?B) mem) ?r) = (xs, r')"
    by (cases "reg_session ?B cs (with_tail (drop (?off + ?B) mem) ?r)")
  obtain area where area: "length area = ?B" "reg_session ?B cs ?r = (xs, r'\<lparr>reg_mem := area\<rparr>)"
    "take ?off mem @ reg_mem r' = overwrite mem ?off area"
    by (rule session_in_memory [OF fit _ _ sess]) simp_all
  show ?thesis
    using area utcb_of_write_br [OF assms area(1)]
    by (simp add: br_session_def abs_br_session_def raw abs sess l4_utcb_br_u_def)
qed

text \<open>
  C9. The areas of the UTCB do not interfere. On the raw memory of a UTCB whose message and buffer
  registers lie in different places, a session with the message register builder, any sequence of
  typed reads, writes, skips, slices and strings, answers exactly as on the message registers alone
  and changes nothing but them; a session with the buffer register builder likewise. The record of
  registers the other components work with is therefore a faithful abstraction: the sessions on the
  memory and on the record commute with it.
\<close>
theorem utcb_sessions_refine:
  assumes "layout_ok Y A mem"
  shows "map_prod id (utcb_of Y A) (mr_session Y A cs mem) = abs_mr_session A cs (utcb_of Y A mem) \<and>
    map_prod id (utcb_of Y A) (br_session Y A cs mem) = abs_br_session A cs (utcb_of Y A mem)"
  using mr_session_refines [OF assms] br_session_refines [OF assms] by blast

definition demo_layout :: utcb_layout where
  "demo_layout = \<lparr>MSG_REGS_OFFSET = 0, BUF_REGS_OFFSET = 512\<rparr>"

theorem utcb_sessions_refine_witness:
  "utcb_bdr (utcb_of demo_layout demo_abi (snd (mr_session demo_layout demo_abi
       [RWrite U64 7, RWriteSlice U16 U64 [1, 2, 3], RReset, RRead U64] (replicate 1024 0)))) =
   utcb_bdr (utcb_of demo_layout demo_abi (replicate 1024 0))"
proof -
  have ok: "layout_ok demo_layout demo_abi (replicate 1024 0)"
    by (simp add: layout_ok_def demo_layout_def demo_abi_def mr_bytes_def br_area_bytes_def)
  have "snd (map_prod id (utcb_of demo_layout demo_abi) (mr_session demo_layout demo_abi cs (replicate 1024 0))) =
      snd (abs_mr_session demo_abi cs (utcb_of demo_layout demo_abi (replicate 1024 0)))" for cs
    using utcb_sessions_refine [OF ok, of cs] by simp
  then show ?thesis
    by (simp add: abs_mr_session_def close_mr_def split: prod.splits)
qed

text \<open>Access by register number.\<close>

lemma mr_raw_abstract: "layout_ok Y A mem \<Longrightarrow> mr_raw Y A mem = utcb_mr (utcb_of Y A mem)"
proof -
  have "words_of_bytes n (take (8 * n) bs) = words_of_bytes n bs" for n and bs :: "u8 list"
    by (induction n arbitrary: bs) (simp_all add: drop_take min_def)
  then show ?thesis
    by (simp add: mr_raw_def utcb_of_def MSG_REG_COUNT_def l4_utcb_mr_u_def mr_bytes_def slice_def mult.commute)
qed

lemma bdr_abstract: "utcb_bdr_raw Y mem = utcb_bdr (utcb_of Y A mem)"
  by (simp add: utcb_bdr_raw_def utcb_of_def l4_utcb_br_u_def)

lemma words_of_overwrite:
  assumes "i < n" and "8 * n \<le> length bs"
  shows "words_of_bytes n (overwrite bs (8 * i) (le_bytes 8 (unat v))) = (words_of_bytes n bs)[i := v]"
  using assms
proof (induction n arbitrary: i bs)
  case (Suc n)
  show ?case
  proof (cases i)
    case 0
    have "le_nat (le_bytes 8 (unat v)) = unat v"
      by (simp only: le_nat_le_bytes unat_mod_256_8)
    then show ?thesis
      using 0 by (simp add: overwrite_def)
  next
    case (Suc j)
    have "drop 8 (overwrite bs (8 + 8 * j) (le_bytes 8 (unat v))) = overwrite (drop 8 bs) (8 * j) (le_bytes 8 (unat v))"
      and "take 8 (overwrite bs (8 + 8 * j) (le_bytes 8 (unat v))) = take 8 bs"
      using Suc.prems Suc by (simp_all add: overwrite_def drop_take add.commute)
    then show ?thesis
      using Suc Suc.IH [of j "drop 8 bs"] Suc.prems by simp
  qed
qed simp

lemma overwrite_nested:
  assumes "off + B \<le> length mem" and "j + length ys \<le> B"
  shows "overwrite mem (off + j) ys = overwrite mem off (overwrite (slice mem off B) j ys)"
proof -
  have len: "length (slice mem off B) = B"
    using assms(1) by simp
  have tk: "take (off + j) mem = take off mem @ take j (slice mem off B)"
    using assms by (simp add: take_add slice_def min_def)
  have "drop (off + j + length ys) mem = drop (j + length ys) (drop off mem)"
    by (simp add: add.assoc add.left_commute add.commute)
  also have "\<dots> = drop (j + length ys) (slice mem off B) @ drop (off + B) mem"
    using assms len by (simp add: drop_as_area [OF assms(1)])
  finally show ?thesis
    using assms len by (simp add: overwrite_def tk)
qed

lemma mr_raw_mut_abstract:
  assumes "layout_ok Y A mem"
  shows "map_option (utcb_of Y A) (mr_raw_mut Y A i v mem) =
    (if i < GENERIC_DATA_SIZE A then Some (set_mr (utcb_of Y A mem) i v) else None)"
proof -
  let ?off = "MSG_REGS_OFFSET Y" and ?ys = "le_bytes 8 (unat v)"
  have eq: "overwrite mem (?off + 8 * i) ?ys = overwrite mem ?off (overwrite (slice mem ?off (mr_bytes A)) (8 * i) ?ys)"
    if "i < GENERIC_DATA_SIZE A"
    using that assms by (intro overwrite_nested) (simp_all add: layout_ok_def mr_bytes_def)
  have sl: "length (slice mem ?off (mr_bytes A)) = mr_bytes A"
    using assms by (auto simp: layout_ok_def)
  have len: "length (overwrite (slice mem ?off (mr_bytes A)) (8 * i) ?ys) = mr_bytes A" if "i < GENERIC_DATA_SIZE A"
  proof -
    have "8 * i + length ?ys \<le> length (slice mem ?off (mr_bytes A))"
      unfolding sl using that by (simp add: mr_bytes_def)
    from length_overwrite [OF this] show ?thesis
      unfolding sl .
  qed
  have "words_of_bytes (GENERIC_DATA_SIZE A) (overwrite (slice mem ?off (mr_bytes A)) (8 * i) ?ys) =
      (utcb_mr (utcb_of Y A mem))[i := v]" if "i < GENERIC_DATA_SIZE A"
    using words_of_overwrite [OF that, of "slice mem ?off (mr_bytes A)" v, unfolded sl]
    by (simp add: utcb_of_def mr_bytes_def)
  then show ?thesis
    using utcb_of_write_mr [OF assms len]
    by (simp add: mr_raw_mut_def MSG_REG_COUNT_def l4_utcb_mr_u_def eq set_mr_def)
qed

end
