(* ===== verification/Fs_Volume.thy ===== *)
theory Fs_Volume
  imports Fs_Server
begin

text \<open>
  The file service together with what it runs on: \<open>run\<close> of \<open>src/src/fs_server/src/main.rs\<close> mounts a
  FAT volume on the stream \<open>VirtioDisk\<close> of \<open>src/src/fs_server/src/virtio.rs\<close>, whose driver waits on
  the thread of the server. The FAT layer is any program that works on the stream through \<open>Read\<close>,
  \<open>Write\<close> and \<open>Seek\<close>. The service over the driver does what the service over a plain array of bytes
  does that waits as often, and these waits take in other requests.
\<close>

section \<open>Programs on a stream\<close>

text \<open>The operations of a stream of bytes on a thread; \<open>None\<close> is a panic or a wait that never ends.\<close>

record ('t, 's) stream_ops =
  st_read :: "nat \<Rightarrow> 't \<Rightarrow> 's \<Rightarrow> ((((io_error, nat) result \<times> u8 list) \<times> 't) \<times> 's) option"
  st_write :: "u8 list \<Rightarrow> 't \<Rightarrow> 's \<Rightarrow> (((io_error, nat) result \<times> 't) \<times> 's) option"
  st_seek :: "seek_from \<Rightarrow> 't \<Rightarrow> 's \<Rightarrow> (((io_error, u64) result \<times> 't) \<times> 's) option"
  st_flush :: "'t \<Rightarrow> 's \<Rightarrow> (((io_error, unit) result \<times> 't) \<times> 's) option"

text \<open>The implementations of \<open>Read\<close>, \<open>Write\<close> and \<open>Seek\<close> for \<open>VirtioDisk\<close>.\<close>

definition disk_stream :: "bool \<Rightarrow> 'k ipc_env \<Rightarrow> 'd blk_env \<Rightarrow> ('k thread, virtio_disk \<times> 'd) stream_ops" where
  "disk_stream oc K B = \<lparr>
     st_read = (\<lambda>len t (v, d). do { (r, bs, v, d, t) \<leftarrow> disk_read oc K B len v d t; Some (((r, bs), t), (v, d)) }),
     st_write = (\<lambda>bs t (v, d). do { (r, v, d, t) \<leftarrow> disk_write oc K B bs v d t; Some ((r, t), (v, d)) }),
     st_seek = (\<lambda>p t (v, d). do { (r, v) \<leftarrow> disk_seek oc p v; Some ((r, t), (v, d)) }),
     st_flush = (\<lambda>t (v, d). Some ((disk_flush v, t), (v, d)))\<rparr>"

text \<open>A program that uses a stream: it ends with a value or asks for an operation and goes on with
  its result.\<close>

datatype 'a stream_prog =
    StreamDone 'a
  | StreamRead nat "(io_error, nat) result \<times> u8 list \<Rightarrow> 'a stream_prog"
  | StreamWrite "u8 list" "(io_error, nat) result \<Rightarrow> 'a stream_prog"
  | StreamSeek seek_from "(io_error, u64) result \<Rightarrow> 'a stream_prog"
  | StreamFlush "(io_error, unit) result \<Rightarrow> 'a stream_prog"

primrec run_stream :: "('t, 's) stream_ops \<Rightarrow> 'a stream_prog \<Rightarrow> 't \<Rightarrow> 's \<Rightarrow> (('a \<times> 't) \<times> 's) option" where
  "run_stream S (StreamDone x) t s = Some ((x, t), s)"
| "run_stream S (StreamRead len k) t s = Option.bind (st_read S len t s) (\<lambda>((r, t), s). run_stream S (k r) t s)"
| "run_stream S (StreamWrite bs k) t s = Option.bind (st_write S bs t s) (\<lambda>((r, t), s). run_stream S (k r) t s)"
| "run_stream S (StreamSeek p k) t s = Option.bind (st_seek S p t s) (\<lambda>((r, t), s). run_stream S (k r) t s)"
| "run_stream S (StreamFlush k) t s = Option.bind (st_flush S t s) (\<lambda>((r, t), s). run_stream S (k r) t s)"

text \<open>The FAT layer: mounting a volume and the operations on it, with a state of its own and files
  of its own.\<close>

record ('f, 'm) fat_layer =
  lay_mount :: "'m option stream_prog"
  lay_root_count :: "'m \<Rightarrow> (nat \<times> 'm) stream_prog"
  lay_create :: "u8 list \<Rightarrow> 'm \<Rightarrow> ((fs_error, 'f) result \<times> 'm) stream_prog"
  lay_open :: "u8 list \<Rightarrow> 'm \<Rightarrow> ((fs_error, 'f) result \<times> 'm) stream_prog"
  lay_drop_root :: "'m \<Rightarrow> (unit \<times> 'm) stream_prog"
  lay_read :: "'f \<Rightarrow> u8 list \<Rightarrow> 'm \<Rightarrow> ((((fs_error, nat) result \<times> u8 list) \<times> 'f) \<times> 'm) stream_prog"
  lay_write :: "'f \<Rightarrow> u8 list \<Rightarrow> 'm \<Rightarrow> (((fs_error, nat) result \<times> 'f) \<times> 'm) stream_prog"
  lay_seek_end :: "'f \<Rightarrow> 'm \<Rightarrow> (((fs_error, u64) result \<times> 'f) \<times> 'm) stream_prog"
  lay_drop :: "'f \<Rightarrow> 'm \<Rightarrow> (unit \<times> 'm) stream_prog"

record fs_abi =
  abi_BR_WORDS :: nat
  abi_EBADF :: i32
  abi_EIO :: i32
  abi_ENOENT :: i32

definition on_stream :: "('t, 's) stream_ops \<Rightarrow> ('m \<Rightarrow> ('a \<times> 'm) stream_prog) \<Rightarrow> 't \<Rightarrow> 'm \<times> 's \<Rightarrow> (('a \<times> 't) \<times> ('m \<times> 's)) option" where
  "on_stream S f t ms =
     (case ms of (m, s) \<Rightarrow> Option.bind (run_stream S (f m) t s) (\<lambda>(((x, m), t), s). Some ((x, t), (m, s))))"

text \<open>\<open>FileSystem<IO>\<close> for a stream type \<open>IO\<close>.\<close>

definition fat_over :: "fs_abi \<Rightarrow> ('f, 'm) fat_layer \<Rightarrow> ('k thread, 's) stream_ops \<Rightarrow> ('f, 'k, 'm \<times> 's) fat_env" where
  "fat_over A L S = \<lparr>fs_BR_WORDS = abi_BR_WORDS A, fs_EBADF = abi_EBADF A, fs_EIO = abi_EIO A,
     fs_ENOENT = abi_ENOENT A, root_count = on_stream S (lay_root_count L),
     create_file = (\<lambda>p. on_stream S (lay_create L p)), open_file = (\<lambda>p. on_stream S (lay_open L p)),
     drop_root = on_stream S (lay_drop_root L),
     file_read = (\<lambda>f bs. on_stream S (lay_read L f bs)), file_write = (\<lambda>f bs. on_stream S (lay_write L f bs)),
     seek_end = (\<lambda>f. on_stream S (lay_seek_end L f)), drop_file = (\<lambda>f. on_stream S (lay_drop L f))\<rparr>"

lemma fat_over_simps:
  "fs_BR_WORDS (fat_over A L S) = abi_BR_WORDS A" "fs_ENOENT (fat_over A L S) = abi_ENOENT A"
  "fs_EBADF (fat_over A L S) = abi_EBADF A" "fs_EIO (fat_over A L S) = abi_EIO A"
  "root_count (fat_over A L S) = on_stream S (lay_root_count L)"
  "file_read (fat_over A L S) f bs = on_stream S (lay_read L f bs)"
  by (simp_all add: fat_over_def)

definition mount_on :: "('f, 'm) fat_layer \<Rightarrow> ('t, 's) stream_ops \<Rightarrow> 't \<Rightarrow> 's \<Rightarrow> ('t \<times> ('m \<times> 's)) option" where
  "mount_on L S t s = Option.bind (run_stream S (lay_mount L) t s)
     (\<lambda>((m, t), s). map_option (\<lambda>m. (t, (m, s))) m)"

section \<open>Simulation\<close>

text \<open>Whenever the first computation returns, the second returns the same value, in a related state.
  The thread is part of the value.\<close>

definition follows :: "('s \<Rightarrow> 't \<Rightarrow> bool) \<Rightarrow> ('a \<times> 's) option \<Rightarrow> ('a \<times> 't) option \<Rightarrow> bool" where
  "follows R a b \<longleftrightarrow> (\<forall>x s. a = Some (x, s) \<longrightarrow> (\<exists>t. b = Some (x, t) \<and> R s t))"

lemma follows_None [simp]: "follows R None b"
  by (simp add: follows_def)

lemma follows_Some [simp]: "follows R (Some (x, s)) b \<longleftrightarrow> (\<exists>t. b = Some (x, t) \<and> R s t)"
  by (auto simp: follows_def)

lemma follows_bind:
  assumes "follows R a b" and "\<And>x s t. R s t \<Longrightarrow> follows R' (f (x, s)) (g (x, t))"
  shows "follows R' (Option.bind a f) (Option.bind b g)"
proof (cases a)
  case (Some xs)
  then show ?thesis
    using assms by (cases xs) auto
qed simp

locale stream_sim =
  fixes S :: "('k, 's) stream_ops" and T :: "('k, 't) stream_ops" and R :: "'s \<Rightarrow> 't \<Rightarrow> bool"
  assumes read_sim: "R s t \<Longrightarrow> follows R (st_read S len k s) (st_read T len k t)"
    and write_sim: "R s t \<Longrightarrow> follows R (st_write S bs k s) (st_write T bs k t)"
    and seek_sim: "R s t \<Longrightarrow> follows R (st_seek S p k s) (st_seek T p k t)"
    and flush_sim: "R s t \<Longrightarrow> follows R (st_flush S k s) (st_flush T k t)"
begin

lemma run_sim: "R s t \<Longrightarrow> follows R (run_stream S p k s) (run_stream T p k t)"
  by (induction p arbitrary: k s t)
    (auto intro!: follows_bind [where R = R] read_sim write_sim seek_sim flush_sim)

abbreviation vol_rel :: "'m \<times> 's \<Rightarrow> 'm \<times> 't \<Rightarrow> bool" where
  "vol_rel ms mt \<equiv> fst ms = fst mt \<and> R (snd ms) (snd mt)"

lemma on_stream_sim: "vol_rel ms mt \<Longrightarrow> follows vol_rel (on_stream S f k ms) (on_stream T f k mt)"
  by (auto simp: on_stream_def split: prod.splits intro!: follows_bind [where R = R] run_sim)

lemma mount_sim: "R s t \<Longrightarrow> follows vol_rel (mount_on L S k s) (mount_on L T k t)"
  unfolding mount_on_def
  by (rule follows_bind [OF run_sim]) (auto simp: follows_def split: prod.splits)

end

text \<open>The service on two volumes whose operations follow each other: states that agree but for the
  volume.\<close>

definition fs_rel :: "('w \<Rightarrow> 'x \<Rightarrow> bool) \<Rightarrow> ('s, 'w) fs_state \<Rightarrow> ('s, 'x) fs_state \<Rightarrow> bool" where
  "fs_rel R st st' \<longleftrightarrow> fs_handles st' = fs_handles st \<and> read_buf st' = read_buf st \<and>
     write_buf st' = write_buf st \<and> R (fs_world st) (fs_world st')"

locale fat_sim =
  fixes E :: "('f, 'k, 'w) fat_env" and F :: "('f, 'k, 'x) fat_env" and R :: "'w \<Rightarrow> 'x \<Rightarrow> bool"
  assumes abi_same: "fs_BR_WORDS F = fs_BR_WORDS E" "fs_EBADF F = fs_EBADF E" "fs_EIO F = fs_EIO E"
      "fs_ENOENT F = fs_ENOENT E"
    and ops_sim: "R w x \<Longrightarrow> follows R (root_count E t w) (root_count F t x)"
      "R w x \<Longrightarrow> follows R (create_file E p t w) (create_file F p t x)"
      "R w x \<Longrightarrow> follows R (open_file E p t w) (open_file F p t x)"
      "R w x \<Longrightarrow> follows R (drop_root E t w) (drop_root F t x)"
      "R w x \<Longrightarrow> follows R (file_read E f bs t w) (file_read F f bs t x)"
      "R w x \<Longrightarrow> follows R (file_write E f bs t w) (file_write F f bs t x)"
      "R w x \<Longrightarrow> follows R (seek_end E f t w) (seek_end F f t x)"
      "R w x \<Longrightarrow> follows R (drop_file E f t w) (drop_file F f t x)"
begin

lemma env_same:
  "BR_DATA_MAX F = BR_DATA_MAX E" "br_read_path F = br_read_path E" "io_to_errno F = io_to_errno E"
  "br_read_bytes_into F = br_read_bytes_into E" "fs_br_write_bytes F = fs_br_write_bytes E"
  by (simp_all add: fun_eq_iff BR_DATA_MAX_def br_read_path_def fs_br_read_bytes_def br_read_bytes_into_def
      fs_br_write_bytes_def io_to_errno_def abi_same split: fs_error.splits)

lemmas sims = ops_sim [THEN follows_bind]

lemma ops_follow:
  assumes "fs_rel R st st'"
  shows "follows (fs_rel R) (fs_count E u st) (fs_count F u st')"
    and "follows (fs_rel R) (fs_open E sl u st) (fs_open F sl u st')"
    and "follows (fs_rel R) (fs_read E sl u st) (fs_read F sl u st')"
    and "follows (fs_rel R) (fs_write E sl u st) (fs_write F sl u st')"
    and "follows (fs_rel R) (fs_close E sl u st) (fs_close F sl u st')"
  using assms unfolding fs_count_def fs_open_def fs_read_def fs_write_def fs_close_def
  by (auto simp: fs_rel_def env_same abi_same Let_def split: option.splits sum.splits prod.splits
      intro!: sims)

lemma stat_follows:
  assumes "fs_rel R st st'"
  shows "follows (fs_rel R) (fs_stat E u st) (fs_stat F u st')"
proof (cases "Option.bind (br_read_path E (fst u)) resolve_path")
  case (Some p)
  have opened: "follows R
      (case r of Inl e \<Rightarrow> Some (((), g e t), w) | Inr f \<Rightarrow> Option.bind (seek_end E f t w) (\<lambda>(((sz, f), t), w). drop_file E f (h sz t) w))
      (case r of Inl e \<Rightarrow> Some (((), g e t), x) | Inr f \<Rightarrow> Option.bind (seek_end F f t x) (\<lambda>(((sz, f), t), w). drop_file F f (h sz t) w))"
    if "R w x" for r t w x g h
    using that by (auto intro!: sims ops_sim(8) split: sum.splits prod.splits)
  have w: "R (fs_world st) (fs_world st')"
    using assms by (simp add: fs_rel_def)
  have closed: "follows (fs_rel R) (Option.bind (drop_root E t w) (\<lambda>((_, t), w). Some (t, st\<lparr>fs_world := w\<rparr>)))
      (Option.bind (drop_root F t x) (\<lambda>((_, t), w). Some (t, st'\<lparr>fs_world := w\<rparr>)))" if "R w x" for t w x
    using assms that by (auto simp: fs_rel_def intro!: sims(4) split: prod.splits)
  show ?thesis
    unfolding fs_stat_def env_same abi_same Some option.case
    by (rule sims(3) [OF w], clarsimp) (rule opened [THEN follows_bind], assumption, clarsimp simp: closed)
qed (use assms in \<open>simp add: fs_stat_def env_same abi_same\<close>)

lemma dispatch_sim: "fs_rel R st st' \<Longrightarrow> follows (fs_rel R) (fs_dispatch E sl u st) (fs_dispatch F sl u st')"
  using ops_follow [of st st', where u = u] stat_follows [of st st' u] by (simp add: fs_dispatch_def abi_same Let_def)

lemma loop_sim: "fs_rel R st st' \<Longrightarrow> follows (fs_rel R) (fs_loop K E sl n et st) (fs_loop K F sl n et st')"
proof (induction n arbitrary: et st st')
  case (Suc n)
  obtain err t where et: "et = (err, t)"
    by (cases et)
  have waits: "follows (fs_rel R) (Option.bind m (\<lambda>et. fs_loop K E sl n et st)) (Option.bind m (\<lambda>et. fs_loop K F sl n et st'))"
    if "fs_rel R st st'" for m st st'
    using Suc.IH [OF that] by (cases m) auto
  then show ?case
    using Suc.prems by (auto simp: et intro!: follows_bind [OF dispatch_sim])
qed simp

end

section \<open>The driver as an array of bytes\<close>

text \<open>The stream the FAT layer means to have: a position and an array of bytes, with as many waits of
  the thread (\<open>W\<close>) as the sectors take. It is defined within the \<open>cap\<close> sectors of the device and while
  positions fit their type.\<close>

definition in_cap :: "nat \<Rightarrow> nat \<Rightarrow> bool" where
  "in_cap cap p \<longleftrightarrow> p \<le> 512 * cap \<and> p < 2 ^ 64"

definition image_stream :: "nat \<Rightarrow> (nat \<Rightarrow> 't \<Rightarrow> 't option) \<Rightarrow> ('t, nat \<times> (nat \<Rightarrow> u8)) stream_ops" where
  "image_stream cap W = \<lparr>
     st_read = (\<lambda>len t (p, img).
       if in_cap cap (p + len)
       then map_option (\<lambda>t. (((Inr len, map img [p ..< p + len]), t), (p + len, img))) (W (sectors p len) t)
       else None),
     st_write = (\<lambda>bs t (p, img).
       if in_cap cap (p + length bs)
       then map_option (\<lambda>t. ((Inr (length bs), t),
           (p + length bs, \<lambda>x. if p \<le> x \<and> x < p + length bs then bs ! (x - p) else img x)))
         (W (write_transfers p (length bs)) t)
       else None),
     st_seek = (\<lambda>q t (p, img). case q of
         SeekStart off \<Rightarrow>
           if unat off < 2 ^ 63 then Some ((Inr off, t), (unat off, img)) else Some ((Inl IoInvalidInput, t), (p, img))
       | SeekCurrent off \<Rightarrow>
           let new = int p + sint off in
           if 2 ^ 63 \<le> p \<or> 2 ^ 63 \<le> new then None
           else if new < 0 then Some ((Inl IoInvalidInput, t), (p, img))
           else Some ((Inr (word_of_int new), t), (nat new, img))
       | SeekEnd _ \<Rightarrow> Some ((Inl IoUnsupported, t), (p, img))),
     st_flush = (\<lambda>t (p, img). Some ((Inr (), t), (p, img)))\<rparr>"

definition disk_rel :: "('d \<Rightarrow> u64 \<Rightarrow> u8 list) \<Rightarrow> u64 \<Rightarrow> nat \<times> (nat \<Rightarrow> u8) \<Rightarrow> virtio_disk \<times> 'd \<Rightarrow> bool" where
  "disk_rel disk irq s t \<longleftrightarrow>
     (case (s, t) of ((p, img), (v, d)) \<Rightarrow> unat (disk_pos v) = p \<and> sector_size v = 512 \<and>
        queue_wf (blk_queue (disk_driver v)) \<and> blk_irq (disk_driver v) = irq \<and> (\<forall>x < 2 ^ 64. stored disk d x = img x))"

lemma sint_nonneg_iff: "0 \<le> sint (w :: u64) \<longleftrightarrow> unat w < 2 ^ 63"
proof
  assume "0 \<le> sint w"
  then have "int (unat w) = sint w"
    by (rule int_unat_eq_sint)
  moreover have "sint w < 2 ^ 63"
    using sint_lt [of w] by simp
  ultimately have "int (unat w) < int (2 ^ 63)"
    by simp
  then show "unat w < 2 ^ 63"
    by (simp only: of_nat_less_iff)
next
  assume "unat w < 2 ^ 63"
  then have "int (unat w) < int (2 ^ 63)"
    by (simp only: of_nat_less_iff)
  then have "uint w < 2 ^ 63"
    by simp
  moreover have "- (2 ^ 63) \<le> uint w"
    using order_trans [OF _ uint_ge_0 [of w], of "- (2 ^ 63)"] by simp
  ultimately have "sint w = uint w"
    unfolding sint_uint by (intro signed_take_bit_int_eq_self) simp_all
  then show "0 \<le> sint w"
    by simp
qed

text \<open>Moving from a position by a signed offset, as long as the result is a position.\<close>

lemma sint_move:
  assumes "unat pos < 2 ^ 63" and "int (unat pos) + sint off < 2 ^ 63"
  shows "sint (pos + off) = int (unat (pos :: u64)) + sint off"
proof -
  have "sint pos = int (unat pos)"
    using assms(1) int_unat_eq_sint [of pos] by (simp add: sint_nonneg_iff)
  moreover have "- (2 ^ 63) \<le> sint off"
    using sint_ge [of off] by simp
  ultimately have "- (2 ^ 63) \<le> sint pos + sint off" "sint pos + sint off < 2 ^ 63"
    using assms(2) by linarith+
  then have "sint (pos + off) = sint pos + sint off"
    by (simp add: sint_word_ariths signed_take_bit_int_eq_self)
  then show ?thesis
    using \<open>sint pos = int (unat pos)\<close> by simp
qed

lemma disk_seek_follows:
  assumes "disk_rel disk irq s t"
  shows "follows (disk_rel disk irq) (st_seek (image_stream cap W) q k s) (st_seek (disk_stream oc K B) q k t)"
proof -
  obtain p img v d where st: "s = (p, img)" "t = (v, d)" and p: "unat (disk_pos v) = p"
    using assms by (auto simp: disk_rel_def split: prod.splits)
  have rel: "disk_rel disk irq (unat new, img) (v\<lparr>disk_pos := new\<rparr>, d)" for new
    using assms by (simp add: st disk_rel_def)
  show ?thesis
  proof (cases q)
    case (SeekStart off)
    then show ?thesis
      using assms rel [of off] sint_nonneg_iff [of off]
      by (auto simp: st image_stream_def disk_stream_def disk_seek_def Let_def)
  next
    case (SeekCurrent off)
    show ?thesis
    proof (cases "2 ^ 63 \<le> p \<or> 2 ^ 63 \<le> int p + sint off")
      case False
      then have new: "sint (disk_pos v + off) = int p + sint off" "sint (disk_pos v) = int p"
        using p sint_move [of "disk_pos v" off] int_unat_eq_sint [of "disk_pos v"] by (simp_all add: sint_nonneg_iff)
      then have pos: "word_of_int (int p + sint off) = disk_pos v + off"
        by (metis of_int_sint scast_id)
      have "nat (int p + sint off) = unat (disk_pos v + off)" if "0 \<le> int p + sint off"
        using that int_unat_eq_sint [of "disk_pos v + off"] new(1) by (metis nat_int)
      then show ?thesis
        using False assms rel [of "disk_pos v + off"] new pos SeekCurrent
        by (auto simp: st image_stream_def disk_stream_def disk_seek_def Let_def)
    qed (auto simp: SeekCurrent st image_stream_def)
  qed (use assms in \<open>simp add: st image_stream_def disk_stream_def disk_seek_def\<close>)
qed

text \<open>A read and a write of the disk, on any thread.\<close>

lemma disk_read_rel:
  assumes "blk_disk B disk cap" and "disk_rel disk irq (p, img) t" and "in_cap cap (p + len)"
  obtains t' where "\<And>k. st_read (disk_stream oc K B) len k t =
      map_option (\<lambda>k. (((Inr len, map img [p ..< p + len]), k), t')) (awaits K irq (sectors p len) k)"
    "disk_rel disk irq (p + len, img) t'"
proof -
  obtain v d where t: "t = (v, d)" and p: "unat (disk_pos v) = p" and v: "sector_size v = 512" "queue_wf (blk_queue (disk_driver v))"
      "blk_irq (disk_driver v) = irq" and img: "\<forall>x < 2 ^ 64. stored disk d x = img x"
    using assms(2) by (auto simp: disk_rel_def split: prod.splits)
  obtain v' d' where r: "\<forall>k. disk_read oc K B len v d k = map_option (\<lambda>k. (Inr len, map (stored disk d) [p ..< p + len], v', d', k))
      (awaits K irq (sectors p len) k)" and v': "queue_wf (blk_queue (disk_driver v'))" "sector_size v' = 512"
      "blk_irq (disk_driver v') = irq" "disk d' = disk d" "unat (disk_pos v') = p + len"
    using disk_read_store [OF assms(1) v(2,1), of len oc K d] assms(3) p v(3) by (auto simp: in_cap_def)
  have bytes: "map (stored disk d) [p ..< p + len] = map img [p ..< p + len]"
    using assms(3) img by (simp add: in_cap_def)
  have "disk_rel disk irq (p + len, img) (v', d')"
    using v' img by (simp add: disk_rel_def stored_def)
  then show thesis
    using that [of "(v', d')"] r [unfolded bytes] by (simp add: t disk_stream_def bind_map_option comp_def map_conv_bind_option)
qed

lemma disk_write_rel:
  assumes "blk_disk B disk cap" and "disk_rel disk irq (p, img) t" and "in_cap cap (p + length bs)"
  obtains t' where "\<And>k. st_write (disk_stream oc K B) bs k t =
      map_option (\<lambda>k. ((Inr (length bs), k), t')) (awaits K irq (write_transfers p (length bs)) k)"
    "disk_rel disk irq (p + length bs, \<lambda>x. if p \<le> x \<and> x < p + length bs then bs ! (x - p) else img x) t'"
proof -
  obtain v d where t: "t = (v, d)" and p: "unat (disk_pos v) = p" and v: "sector_size v = 512" "queue_wf (blk_queue (disk_driver v))"
      "blk_irq (disk_driver v) = irq" and img: "\<forall>x < 2 ^ 64. stored disk d x = img x"
    using assms(2) by (auto simp: disk_rel_def split: prod.splits)
  obtain v' d' where r: "\<forall>k. disk_write oc K B bs v d k = map_option (\<lambda>k. (Inr (length bs), v', d', k))
      (awaits K irq (write_transfers p (length bs)) k)" and v': "queue_wf (blk_queue (disk_driver v'))" "sector_size v' = 512"
      "blk_irq (disk_driver v') = irq" "unat (disk_pos v') = p + length bs"
    and w: "\<forall>x < 2 ^ 64. stored disk d' x = (if p \<le> x \<and> x < p + length bs then bs ! (x - p) else stored disk d x)"
    using disk_write_store [OF assms(1) v(2,1), of bs oc K d] assms(3) p v(3) by (auto simp: in_cap_def)
  have "disk_rel disk irq (p + length bs, \<lambda>x. if p \<le> x \<and> x < p + length bs then bs ! (x - p) else img x) (v', d')"
    using v' w img by (simp add: disk_rel_def)
  then show thesis
    using that [of "(v', d')"] r by (simp add: t disk_stream_def bind_map_option comp_def map_conv_bind_option)
qed

lemma disk_follows_image:
  assumes "blk_disk B disk cap"
  shows "stream_sim (image_stream cap (awaits K irq)) (disk_stream oc K B) (disk_rel disk irq)"
proof
  fix s t len bs q k
  assume rel: "disk_rel disk irq s t"
  obtain p img where s: "s = (p, img)"
    by (cases s)
  let ?I = "image_stream cap (awaits K irq)" and ?D = "disk_stream oc K B"
  show "follows (disk_rel disk irq) (st_read ?I len k s) (st_read ?D len k t)"
  proof (cases "in_cap cap (p + len)")
    case True
    from disk_read_rel [OF assms rel [unfolded s] this, of oc K] obtain t' where
      "st_read ?D len k t = map_option (\<lambda>k. (((Inr len, map img [p ..< p + len]), k), t')) (awaits K irq (sectors p len) k)"
      "disk_rel disk irq (p + len, img) t'"
      by blast
    then show ?thesis
      using True by (cases "awaits K irq (sectors p len) k") (simp_all add: s image_stream_def)
  qed (simp add: s image_stream_def)
  show "follows (disk_rel disk irq) (st_write ?I bs k s) (st_write ?D bs k t)"
  proof (cases "in_cap cap (p + length bs)")
    case True
    from disk_write_rel [OF assms rel [unfolded s] this, of oc K] obtain t' where
      "st_write ?D bs k t = map_option (\<lambda>k. ((Inr (length bs), k), t')) (awaits K irq (write_transfers p (length bs)) k)"
      "disk_rel disk irq (p + length bs, \<lambda>x. if p \<le> x \<and> x < p + length bs then bs ! (x - p) else img x) t'"
      by blast
    then show ?thesis
      using True by (cases "awaits K irq (write_transfers p (length bs)) k") (simp_all add: s image_stream_def)
  qed (simp add: s image_stream_def)
  show "follows (disk_rel disk irq) (st_seek ?I q k s) (st_seek ?D q k t)"
    using rel by (rule disk_seek_follows)
  show "follows (disk_rel disk irq) (st_flush ?I k s) (st_flush ?D k t)"
    using rel by (cases t) (simp add: s image_stream_def disk_stream_def disk_flush_def)
qed

section \<open>Counting the transfers\<close>

text \<open>The array of bytes on a thread that only counts: how many transfers a program takes does not depend
  on the thread. The second computation does what the first does, and waits as often.\<close>

definition tick :: "nat \<Rightarrow> nat \<Rightarrow> nat option" where
  "tick n c = Some (c + n)"

definition paced :: "(nat \<Rightarrow> 'k \<Rightarrow> 'k option) \<Rightarrow> ('s \<Rightarrow> 't \<Rightarrow> bool) \<Rightarrow> nat \<Rightarrow> (('a \<times> nat) \<times> 's) option
    \<Rightarrow> ('k \<Rightarrow> (('a \<times> 'k) \<times> 't) option) \<Rightarrow> bool" where
  "paced W R c a b \<longleftrightarrow> (\<forall>x c' s. a = Some ((x, c'), s) \<longrightarrow>
     (\<exists>n t. c' = c + n \<and> R s t \<and> (\<forall>k. b k = map_option (\<lambda>k. ((x, k), t)) (W n k))))"

lemma paced_None [simp]: "paced W R c None b"
  by (simp add: paced_def)

lemma paced_Some:
  "c' = c + n \<Longrightarrow> R s t \<Longrightarrow> (\<And>k. b k = map_option (\<lambda>k. ((x, k), t)) (W n k)) \<Longrightarrow> paced W R c (Some ((x, c'), s)) b"
  by (auto simp: paced_def)

locale thread_waits =
  fixes W :: "nat \<Rightarrow> 'k \<Rightarrow> 'k option"
  assumes waits_0: "W 0 k = Some k"
    and waits_add: "W (m + n) k = Option.bind (W m k) (W n)"
begin

lemma paced_bind:
  assumes "paced W R c a b" and "\<And>x c s t. R s t \<Longrightarrow> paced W R' c (f ((x, c), s)) (\<lambda>k. g ((x, k), t))"
  shows "paced W R' c (Option.bind a f) (\<lambda>k. Option.bind (b k) g)"
  unfolding paced_def
proof (intro allI impI)
  fix y c2 s2
  assume "Option.bind a f = Some ((y, c2), s2)"
  then obtain x c1 s1 where a: "a = Some ((x, c1), s1)" and f: "f ((x, c1), s1) = Some ((y, c2), s2)"
    by (auto simp: bind_eq_Some_conv)
  obtain n t1 where n: "c1 = c + n" "R s1 t1" and b: "\<And>k. b k = map_option (\<lambda>k. ((x, k), t1)) (W n k)"
    using assms(1) a by (auto simp: paced_def)
  obtain m t2 where m: "c2 = c1 + m" "R' s2 t2" and g: "\<And>k. g ((x, k), t1) = map_option (\<lambda>k. ((y, k), t2)) (W m k)"
    using assms(2) [OF n(2), of c1 x] f by (auto simp: paced_def)
  have "Option.bind (b k) g = map_option (\<lambda>k. ((y, k), t2)) (W (n + m) k)" for k
    by (cases "W n k") (simp_all add: b g waits_add)
  then show "\<exists>n t. c2 = c + n \<and> R' s2 t \<and> (\<forall>k. Option.bind (b k) g = map_option (\<lambda>k. ((y, k), t)) (W n k))"
    using n(1) m(1,2) by (intro exI [of _ "n + m"] exI [of _ t2]) simp
qed

end

interpretation irq_waits: thread_waits "awaits K irq"
  by unfold_locales (simp_all add: awaits_add)

locale paced_stream = thread_waits W
  for W :: "nat \<Rightarrow> 'k \<Rightarrow> 'k option" +
  fixes S :: "(nat, 's) stream_ops" and T :: "('k, 't) stream_ops" and R :: "'s \<Rightarrow> 't \<Rightarrow> bool"
  assumes read_paced: "R s t \<Longrightarrow> paced W R c (st_read S len c s) (\<lambda>k. st_read T len k t)"
    and write_paced: "R s t \<Longrightarrow> paced W R c (st_write S bs c s) (\<lambda>k. st_write T bs k t)"
    and seek_paced: "R s t \<Longrightarrow> paced W R c (st_seek S p c s) (\<lambda>k. st_seek T p k t)"
    and flush_paced: "R s t \<Longrightarrow> paced W R c (st_flush S c s) (\<lambda>k. st_flush T k t)"
begin

lemma run_paced: "R s t \<Longrightarrow> paced W R c (run_stream S p c s) (\<lambda>k. run_stream T p k t)"
proof (induction p arbitrary: c s t)
  case (StreamDone x)
  then show ?case
    by (auto intro!: paced_Some [of _ _ 0] simp: waits_0)
next
  case (StreamRead len f)
  show ?case
    unfolding run_stream.simps
    by (rule paced_bind [OF read_paced [OF StreamRead.prems]]) (simp add: StreamRead.IH)
next
  case (StreamWrite bs f)
  show ?case
    unfolding run_stream.simps
    by (rule paced_bind [OF write_paced [OF StreamWrite.prems]]) (simp add: StreamWrite.IH)
next
  case (StreamSeek q f)
  show ?case
    unfolding run_stream.simps
    by (rule paced_bind [OF seek_paced [OF StreamSeek.prems]]) (simp add: StreamSeek.IH)
next
  case (StreamFlush f)
  show ?case
    unfolding run_stream.simps
    by (rule paced_bind [OF flush_paced [OF StreamFlush.prems]]) (simp add: StreamFlush.IH)
qed

lemma on_stream_paced:
  assumes "R s t" and "on_stream S f 0 (m, s) = Some ((x, n), ms)"
  shows "\<exists>t'. R (snd ms) t' \<and> (\<forall>k. on_stream T f k (m, t) = map_option (\<lambda>k. ((x, k), (fst ms, t'))) (W n k))"
proof -
  obtain m' s' where r: "run_stream S (f m) 0 s = Some (((x, m'), n), s')" and ms: "ms = (m', s')"
    using assms(2) by (auto simp: on_stream_def bind_eq_Some_conv)
  then obtain t' where "R s' t'" "\<And>k. run_stream T (f m) k t = map_option (\<lambda>k. (((x, m'), k), t')) (W n k)"
    using run_paced [OF assms(1), of 0 "f m"] by (auto simp: paced_def)
  then show ?thesis
    using ms by (auto simp: on_stream_def bind_map_option comp_def map_conv_bind_option intro!: exI [of _ t'])
qed

lemma mount_paced:
  assumes "R s t" and "mount_on L S 0 s = Some (n, ms)"
  shows "\<exists>t'. R (snd ms) t' \<and> (\<forall>k. mount_on L T k t = map_option (\<lambda>k. (k, (fst ms, t'))) (W n k))"
proof -
  obtain m s' where r: "run_stream S (lay_mount L) 0 s = Some ((Some m, n), s')" and ms: "ms = (m, s')"
    using assms(2) by (auto simp: mount_on_def bind_eq_Some_conv)
  then obtain t' where "R s' t'" "\<And>k. run_stream T (lay_mount L) k t = map_option (\<lambda>k. ((Some m, k), t')) (W n k)"
    using run_paced [OF assms(1), of 0 "lay_mount L"] by (auto simp: paced_def)
  then show ?thesis
    using ms by (auto simp: mount_on_def bind_map_option comp_def map_conv_bind_option intro!: exI [of _ t'])
qed

end

lemma seek_count:
  "st_seek (image_stream cap W) q k s = Some ((x, k'), s') \<Longrightarrow>
    k' = k \<and> (\<forall>K. st_seek (image_stream cap V) q K s = Some ((x, K), s'))"
  by (cases s) (auto simp: image_stream_def Let_def split: seek_from.splits if_splits)

lemma disk_paced:
  assumes "blk_disk B disk cap"
  shows "paced_stream (awaits K irq) (image_stream cap tick) (disk_stream oc K B) (disk_rel disk irq)"
proof
  fix s t len bs q c
  assume rel: "disk_rel disk irq s t"
  obtain p img where s: "s = (p, img)"
    by (cases s)
  let ?I = "image_stream cap tick" and ?D = "disk_stream oc K B"
  show "paced (awaits K irq) (disk_rel disk irq) c (st_read ?I len c s) (\<lambda>k. st_read ?D len k t)"
  proof (cases "in_cap cap (p + len)")
    case True
    obtain t' where "\<And>k. st_read ?D len k t = map_option (\<lambda>k. (((Inr len, map img [p ..< p + len]), k), t')) (awaits K irq (sectors p len) k)"
      "disk_rel disk irq (p + len, img) t'"
      by (rule disk_read_rel [OF assms rel [unfolded s] True, of oc K]) (rule that)
    then show ?thesis
      using True by (simp add: s image_stream_def tick_def paced_Some [of _ _ "sectors p len" _ _ t'])
  qed (simp add: s image_stream_def)
  show "paced (awaits K irq) (disk_rel disk irq) c (st_write ?I bs c s) (\<lambda>k. st_write ?D bs k t)"
  proof (cases "in_cap cap (p + length bs)")
    case True
    obtain t' where "\<And>k. st_write ?D bs k t = map_option (\<lambda>k. ((Inr (length bs), k), t')) (awaits K irq (write_transfers p (length bs)) k)"
      "disk_rel disk irq (p + length bs, \<lambda>x. if p \<le> x \<and> x < p + length bs then bs ! (x - p) else img x) t'"
      by (rule disk_write_rel [OF assms rel [unfolded s] True, of oc K]) (rule that)
    then show ?thesis
      using True by (simp add: s image_stream_def tick_def paced_Some [of _ _ "write_transfers p (length bs)" _ _ t'])
  qed (simp add: s image_stream_def)
  show "paced (awaits K irq) (disk_rel disk irq) c (st_seek ?I q c s) (\<lambda>k. st_seek ?D q k t)"
    unfolding paced_def
  proof (intro allI impI)
    fix x c' s'
    assume i: "st_seek ?I q c s = Some ((x, c'), s')"
    have n: "c' = c" and sk: "st_seek (image_stream cap (awaits K irq)) q k s = Some ((x, k), s')" for k
      using seek_count [OF i, of "awaits K irq"] by blast+
    obtain v' where v': "disk_seek oc q (fst t) = Some (x, v')" and r: "disk_rel disk irq s' (v', snd t)"
      using disk_seek_follows [OF rel, of cap "awaits K irq" q undefined oc K B] sk [of undefined]
      by (cases t) (auto simp: disk_stream_def bind_eq_Some_conv)
    have "st_seek ?D q k t = Some ((x, k), (v', snd t))" for k
      using v' by (cases t) (simp add: disk_stream_def)
    then show "\<exists>n t'. c' = c + n \<and> disk_rel disk irq s' t' \<and>
        (\<forall>k. st_seek ?D q k t = map_option (\<lambda>k. ((x, k), t')) (awaits K irq n k))"
      using n r by (intro exI [of _ 0] exI [of _ "(v', snd t)"]) simp
  qed
  show "paced (awaits K irq) (disk_rel disk irq) c (st_flush ?I c s) (\<lambda>k. st_flush ?D k t)"
    using rel by (cases t) (auto simp: s image_stream_def disk_stream_def disk_flush_def intro!: paced_Some [of _ _ 0])
qed

section \<open>The service on the disk\<close>

lemma fat_over_sim:
  assumes "stream_sim S T R"
  shows "fat_sim (fat_over A L S) (fat_over A L T) (\<lambda>ms mt. fst ms = fst mt \<and> R (snd ms) (snd mt))"
  by unfold_locales (auto simp: fat_over_def intro: stream_sim.on_stream_sim [OF assms])

definition vol_ok :: "'m \<times> virtio_disk \<times> 'd \<Rightarrow> bool" where
  "vol_ok w \<longleftrightarrow> (case w of (m, v, d) \<Rightarrow> sector_size v = 512 \<and> queue_wf (blk_queue (disk_driver v)))"

lemma vol_ok_rel:
  "vol_ok (m, v, d) \<Longrightarrow> disk_rel disk (blk_irq (disk_driver v)) (unat (disk_pos v), stored disk d) (v, d)"
  by (simp add: vol_ok_def disk_rel_def)

lemma disk_new_rel:
  "disk_new env_cap = Some v \<Longrightarrow> disk_rel disk (blk_irq (disk_driver v)) (0, stored disk d) (v, d)"
  using disk_new_ok [of env_cap v] by (simp add: disk_rel_def)

locale fs_on_disk = blk_disk B disk cap
  for B :: "'d blk_env" and disk :: "'d \<Rightarrow> u64 \<Rightarrow> u8 list" and cap :: nat +
  fixes K :: "'k ipc_env" and irq :: u64 and oc :: bool and A :: fs_abi and L :: "('f, 'm) fat_layer"

sublocale fs_on_disk \<subseteq> str: stream_sim "image_stream cap (awaits K irq)" "disk_stream oc K B" "disk_rel disk irq"
  by (rule disk_follows_image) (rule blk_disk_axioms)

sublocale fs_on_disk \<subseteq> cnt: paced_stream "awaits K irq" "image_stream cap tick" "disk_stream oc K B" "disk_rel disk irq"
  by (rule disk_paced) (rule blk_disk_axioms)

sublocale fs_on_disk \<subseteq> vol: fat_sim "fat_over A L (image_stream cap (awaits K irq))" "fat_over A L (disk_stream oc K B)"
    "\<lambda>ms mt. fst ms = fst mt \<and> disk_rel disk irq (snd ms) (snd mt)"
  by (rule fat_over_sim) (rule str.stream_sim_axioms)

context fs_on_disk
begin

lemma run_refines:
  assumes "disk_new env_cap = Some v" and "irq = blk_irq (disk_driver v)"
    and "fs_run K (fat_over A L (image_stream cap (awaits K irq))) sl env_cap err
      (\<lambda>v t. mount_on L (image_stream cap (awaits K irq)) t (0, stored disk d)) n t = Some (et, st)"
  shows "\<exists>st'. fs_run K (fat_over A L (disk_stream oc K B)) sl env_cap err (\<lambda>v t. mount_on L (disk_stream oc K B) t (v, d)) n t
      = Some (et, st') \<and> fs_handles st' = fs_handles st \<and>
    (\<forall>x < 2 ^ 64. stored disk (snd (snd (fs_world st'))) x = snd (snd (fs_world st)) x)"
proof -
  obtain g t1 ms e where g: "env_cap ''global_fs'' = Some g" "err = 0"
    and ms: "mount_on L (image_stream cap (awaits K irq)) t (0, stored disk d) = Some (t1, ms)" and e: "ipc_wait K t1 = Some e"
    and l: "fs_loop K (fat_over A L (image_stream cap (awaits K irq))) sl n e (fs_init sl ms) = Some (et, st)"
    using assms(1,3) by (auto simp: fs_run_def bind_eq_Some_conv split: if_splits)
  have "disk_rel disk irq (0, stored disk d) (v, d)"
    using disk_new_rel [OF assms(1)] assms(2) by simp
  then obtain mt where mt: "mount_on L (disk_stream oc K B) t (v, d) = Some (t1, mt)"
      "fst ms = fst mt \<and> disk_rel disk irq (snd ms) (snd mt)"
    using str.mount_sim [of "(0, stored disk d)" "(v, d)" L t] ms by auto
  have "fs_rel (\<lambda>ms mt. fst ms = fst mt \<and> disk_rel disk irq (snd ms) (snd mt)) (fs_init sl ms) (fs_init sl mt)"
    using mt(2) by (simp add: fs_rel_def fs_init_def)
  from vol.loop_sim [OF this, of K sl n e] l obtain st' where
    "fs_loop K (fat_over A L (disk_stream oc K B)) sl n e (fs_init sl mt) = Some (et, st')"
    "fs_rel (\<lambda>ms mt. fst ms = fst mt \<and> disk_rel disk irq (snd ms) (snd mt)) st st'"
    by (auto simp: follows_def)
  then show ?thesis
    using g mt(1) e assms(1) by (fastforce simp: fs_run_def fs_rel_def disk_rel_def split: prod.splits)
qed

text \<open>Mounting and an operation of the volume wait as often as they transfer sectors.\<close>

lemma mount_waits:
  assumes "disk_new env_cap = Some v" and "irq = blk_irq (disk_driver v)"
    and "mount_on L (image_stream cap tick) 0 (0, stored disk d) = Some (n, ms)"
  obtains s' where "\<And>t. mount_on L (disk_stream oc K B) t (v, d) = map_option (\<lambda>t. (t, (fst ms, s'))) (awaits K irq n t)"
  using cnt.mount_paced [OF disk_new_rel [OF assms(1), folded assms(2)] assms(3)] by blast

lemma op_waits:
  assumes "vol_ok (m, v, d)" and "irq = blk_irq (disk_driver v)"
    and "on_stream (image_stream cap tick) f 0 (m, (unat (disk_pos v), stored disk d)) = Some ((x, n), ms)"
  obtains s' where "\<And>t. on_stream (disk_stream oc K B) f t (m, (v, d)) = map_option (\<lambda>t. ((x, t), (fst ms, s'))) (awaits K irq n t)"
  using cnt.on_stream_paced [OF vol_ok_rel [OF assms(1), folded assms(2)] assms(3)] by blast

end

text \<open>A volume for the witnesses: mounting it reads the first byte; a file is a position of the disk, its
  reads and writes go there, at most one sector at a time; the first byte of the disk counts the root
  entries.\<close>

definition at_file :: "nat \<Rightarrow> (fs_error \<Rightarrow> 'a) \<Rightarrow> 'a stream_prog \<Rightarrow> 'a stream_prog" where
  "at_file f fail p = StreamSeek (SeekStart (word_of_nat f))
     (\<lambda>r. case r of Inl _ \<Rightarrow> StreamDone (fail FsOther) | Inr _ \<Rightarrow> p)"

definition demo_layer :: "(nat, unit) fat_layer" where
  "demo_layer = \<lparr>lay_mount = StreamRead 1 (\<lambda>(r, bs). StreamDone (case r of Inl _ \<Rightarrow> None | Inr _ \<Rightarrow> Some ())),
     lay_root_count = (\<lambda>m. at_file 0 (\<lambda>_. (0, m))
       (StreamRead 1 (\<lambda>(r, bs). StreamDone (case bs of [] \<Rightarrow> 0 | b # _ \<Rightarrow> unat b, m)))),
     lay_create = (\<lambda>q m. StreamDone (Inr 600, m)), lay_open = (\<lambda>q m. StreamDone (Inr 600, m)),
     lay_drop_root = (\<lambda>m. StreamDone ((), m)),
     lay_read = (\<lambda>f bs m. at_file f (\<lambda>e. (((Inl e, bs), f), m))
       (StreamRead (min 512 (length bs)) (\<lambda>(r, got). StreamDone
          (((case r of Inl _ \<Rightarrow> Inl FsOther | Inr n \<Rightarrow> Inr (min n (length bs)),
             take (length bs) (got @ drop (length got) bs)), f + length got), m)))),
     lay_write = (\<lambda>f bs m. at_file f (\<lambda>e. ((Inl e, f), m))
       (StreamWrite (take 512 bs) (\<lambda>r. StreamDone
          ((case r of Inl _ \<Rightarrow> Inl FsOther | Inr n \<Rightarrow> Inr n, f + min 512 (length bs)), m)))),
     lay_seek_end = (\<lambda>f m. StreamDone ((Inr 2000, 2000), m)), lay_drop = (\<lambda>f m. StreamFlush (\<lambda>_. StreamDone ((), m)))\<rparr>"

definition demo_fs_abi :: fs_abi where
  "demo_fs_abi = \<lparr>abi_BR_WORDS = 58, abi_EBADF = 9, abi_EIO = 5, abi_ENOENT = 2\<rparr>"

definition demo_disk :: virtio_disk where
  "demo_disk = \<lparr>disk_driver = \<lparr>blk_device = 7, blk_irq = 7, blk_queue = virt_queue_new\<rparr>, disk_pos = 0, sector_size = 512\<rparr>"

lemma demo_disk_new: "disk_new (\<lambda>_. Some 7) = Some demo_disk"
  by (simp add: disk_new_def blk_new_def demo_disk_def)

lemma demo_read_bound:
  assumes "on_stream S (lay_read demo_layer f bs) t ms = Some ((((res, filled), f'), t'), ms')"
  shows "length filled = length bs \<and> (\<forall>n. res = Inr n \<longrightarrow> n \<le> length bs)"
proof -
  obtain m s where ms: "ms = (m, s)"
    by (cases ms)
  obtain r t1 s1 where sk: "st_seek S (SeekStart (word_of_nat f)) t s = Some ((r, t1), s1)"
    using assms by (auto simp: ms on_stream_def demo_layer_def at_file_def bind_eq_Some_conv)
  show ?thesis
  proof (cases r)
    case (Inr x)
    then obtain q got t2 s2 where "st_read S (min 512 (length bs)) t1 s1 = Some (((q, got), t2), s2)"
      using assms sk by (auto simp: ms on_stream_def demo_layer_def at_file_def bind_eq_Some_conv)
    then show ?thesis
      using assms sk Inr by (cases q) (auto simp: ms on_stream_def demo_layer_def at_file_def)
  qed (use assms sk in \<open>auto simp: ms on_stream_def demo_layer_def at_file_def\<close>)
qed

interpretation demo_fat: fat_service "fat_over demo_fs_abi demo_layer (disk_stream oc K B)" vec_slab
  by unfold_locales (simp_all add: fat_over_def demo_read_bound)

interpretation demo_fs: fs_on_disk demo_blk_store demo_sectors 1000 demo_thread 7 True demo_fs_abi demo_layer
  by unfold_locales


text \<open>Five callers: mounting swallows the first; the second is a request for the number of entries, whose
  own transfer swallows the third, which gets the reply; the fourth asks for an unknown operation; the
  fifth ends the last wait.\<close>

definition demo_callers :: "(nat \<times> u64 list) list" where
  "demo_callers = [(1, [8, 81]), (2, [0, 82]), (3, [8, 83]), (4, [9, 84]), (5, [8, 85])]"

lemma demo_mount:
  "mount_on demo_layer (image_stream 1000 W) t (0, img) = map_option (\<lambda>t. (t, (), (1, img))) (W 1 t)"
  by (simp add: mount_on_def demo_layer_def image_stream_def in_cap_def sectors_def bind_map_option comp_def map_conv_bind_option)

lemma demo_root_count:
  "root_count (fat_over demo_fs_abi demo_layer (image_stream 1000 W)) t ((), (p, img)) =
    map_option (\<lambda>t. ((unat (img 0), t), (), (1, img))) (W 1 t)"
  by (simp add: fat_over_simps demo_layer_def on_stream_def at_file_def image_stream_def in_cap_def sectors_def
      bind_map_option comp_def map_conv_bind_option)

lemma demo_put_words: "put_words [a, b] (demo_utcb (x # y # zs)) = demo_utcb (a # b # zs)"
  by (simp add: put_words_def demo_utcb_def)

lemma demo_image_run:
  "\<exists>st. fs_run demo_thread (fat_over demo_fs_abi demo_layer (image_stream 1000 (awaits demo_thread 7))) vec_slab (\<lambda>_. Some 7) 0
      (\<lambda>v t. mount_on demo_layer (image_stream 1000 (awaits demo_thread 7)) t (0, stored demo_sectors (\<lambda>_. [3]))) (Suc (Suc 0))
      (demo_utcb [0, 0, 0, 0], demo_callers, None, []) =
    Some ((0, demo_utcb [8, 85, 0, 0], [], Some 5, [(Some 3, [3, 83]), (Some 4, [neg_errno 2, 84])]), st)"
proof -
  let ?E = "fat_over demo_fs_abi demo_layer (image_stream 1000 (awaits demo_thread 7))"
  have b: "stored demo_sectors (\<lambda>_. [3]) 0 = 3"
    by (simp add: stored_def demo_sectors_def)
  have u: "get_mr (demo_utcb (x # xs)) 0 = x" "put_mr 0 y (demo_utcb (x # xs), k) = (demo_utcb (y # xs), k)"
    "take 2 (utcb_mr (demo_utcb (x # z # xs))) = [x, z]" for x y z xs and k :: demo_kernel
    by (simp_all add: get_mr_def put_mr_def set_mr_def demo_utcb_def)
  have e: "fs_ENOENT ?E = 2"
    by (simp add: fat_over_simps demo_fs_abi_def)
  show ?thesis
    by (simp add: fs_run_def demo_disk_new demo_mount demo_callers_def demo_put_words fs_init_def fs_dispatch_def u e
        fs_count_def demo_root_count b)
qed


section \<open>Requests taken in while the service waits\<close>





end
