(* ===== verification/Driver_Client.thy ===== *)
theory Driver_Client
  imports Driver_Server Net_Server
begin

text \<open>
  The example client of the driver service, \<open>src/src/examples/driver_client/src/main.rs\<close>, and its
  session with the service of theory \<open>Driver_Server\<close>. The IPC call is a parameter, as for the network
  client; lines printed are recorded.
\<close>

datatype client_line = DeviceFeatures u64 | FeatureError | NegotiatedFeatures u64 | NegotiationError

definition driver_client_main :: "'w Net_Server.ipc_call \<Rightarrow> env_entry list option option \<Rightarrow> utcb \<Rightarrow> 'w
    \<Rightarrow> (client_line list \<times> utcb \<times> 'w) outcome" where
  "driver_client_main call caps u w =
     (case l4re_env_get_cap (ascii ''driver_service'') caps of
        Panics \<Rightarrow> Panics
      | Overruns \<Rightarrow> Overruns
      | Returns None \<Rightarrow> Panics
      | Returns (Some gate) \<Rightarrow>
          (let u = set_mr u 0 0;
               ((err, u), w) = call gate u 1 w;
               l1 = (if err = 0 then DeviceFeatures (get_mr u 0) else FeatureError);
               u = set_mr (set_mr u 0 1) 1 0x1;
               ((err, u), w) = call gate u 2 w;
               l2 = (if err = 0 then NegotiatedFeatures (get_mr u 0) else NegotiationError)
           in Returns ([l1, l2], u, w)))"

text \<open>A call answered by the service; \<open>dead\<close> is the error of a call to a service that has panicked.\<close>

definition driver_call :: "bool \<Rightarrow> i32 \<Rightarrow> (utcb \<times> virtio_transport) Net_Server.ipc_call" where
  "driver_call oc dead gate u words w =
     (case drv_dispatch oc (deliver words u (fst w)) (snd w) of
        None \<Rightarrow> ((dead, u), w)
      | Some (srv, t) \<Rightarrow> ((0, deliver 1 srv u), (srv, t)))"

lemma four_registers: "4 \<le> length xs \<Longrightarrow> xs \<noteq> [] \<and> Suc 0 < length xs"
  by auto

lemma driver_call_features:
  assumes "4 \<le> length (utcb_mr u)" and "4 \<le> length (utcb_mr srv)"
  obtains u' srv' where "driver_call oc dead g (set_mr u 0 0) 1 (srv, t) = ((0, u'), (srv', t))"
    and "get_mr u' 0 = device_features t" and "length (utcb_mr u') = length (utcb_mr u)"
    and "length (utcb_mr srv') = length (utcb_mr srv)"
proof -
  let ?m = "deliver 1 (set_mr u 0 0) srv"
  have op: "get_mr ?m 0 = 0"
    using assms four_registers [of "utcb_mr u"] by (subst get_mr_deliver) auto
  have len: "length (utcb_mr ?m) = length (utcb_mr srv)"
    using assms by simp
  show thesis
  proof (rule that)
    show "driver_call oc dead g (set_mr u 0 0) 1 (srv, t) =
        ((0, deliver 1 (set_mr ?m 0 (device_features t)) (set_mr u 0 0)), (set_mr ?m 0 (device_features t), t))"
      using op by (simp add: driver_call_def drv_dispatch_def)
    show "get_mr (deliver 1 (set_mr ?m 0 (device_features t)) (set_mr u 0 0)) 0 = device_features t"
      using assms len four_registers [of "utcb_mr srv"] by (subst get_mr_deliver) auto
  qed (use assms len in auto)
qed

lemma driver_call_negotiate:
  assumes "4 \<le> length (utcb_mr u)" and "4 \<le> length (utcb_mr srv)"
  obtains u' srv' where "driver_call oc dead g (set_mr (set_mr u 0 1) 1 f) 2 (srv, t) =
      ((0, u'), (srv', snd (negotiate_features f t)))"
    and "get_mr u' 0 = fst (negotiate_features f t)"
proof -
  let ?u = "set_mr (set_mr u 0 1) 1 f"
  let ?m = "deliver 2 ?u srv"
  have op: "get_mr ?m 0 = 1" "get_mr ?m 1 = f"
    using assms four_registers [of "utcb_mr u"] by (simp_all add: get_mr_deliver)
  have len: "length (utcb_mr ?m) = length (utcb_mr srv)"
    using assms by simp
  show thesis
  proof (rule that)
    show "driver_call oc dead g ?u 2 (srv, t) =
        ((0, deliver 1 (set_mr ?m 0 (fst (negotiate_features f t))) ?u),
         (set_mr ?m 0 (fst (negotiate_features f t)), snd (negotiate_features f t)))"
      using op by (simp add: driver_call_def drv_dispatch_def split: prod.splits)
    show "get_mr (deliver 1 (set_mr ?m 0 (fst (negotiate_features f t))) ?u) 0 = fst (negotiate_features f t)"
      using assms len four_registers [of "utcb_mr srv"] by (subst get_mr_deliver) auto
  qed
qed

text \<open>The example against a service that has just started prints the features of the device and their
  intersection with its own, which are both empty.\<close>

lemma driver_client_session:
  assumes "l4re_env_get_cap (ascii ''driver_service'') caps = Returns (Some gate)"
    and "drv_start D w = Returns (t, w')" and "4 \<le> length (utcb_mr u)" and "4 \<le> length (utcb_mr srv)"
  shows "\<exists>u' srv' t'. driver_client_main (driver_call oc dead) caps u (srv, t) =
    Returns ([DeviceFeatures 0, NegotiatedFeatures 0], u', srv', t')"
proof -
  have t: "t = transport_new 0 8"
    using drv_start_ok [OF assms(2)] .
  obtain u1 srv1 where 1: "driver_call oc dead gate (set_mr u 0 0) 1 (srv, t) = ((0, u1), (srv1, t))"
    "get_mr u1 0 = device_features t" "length (utcb_mr u1) = length (utcb_mr u)" "length (utcb_mr srv1) = length (utcb_mr srv)"
    using driver_call_features [OF assms(3,4), of oc dead gate t] .
  have "4 \<le> length (utcb_mr u1)" "4 \<le> length (utcb_mr srv1)"
    using 1 assms(3,4) by simp_all
  from driver_call_negotiate [OF this, of oc dead gate "0x1" t]
  obtain u2 srv2 where 2: "driver_call oc dead gate (set_mr (set_mr u1 0 1) 1 0x1) 2 (srv1, t) =
      ((0, u2), (srv2, snd (negotiate_features 1 t)))" "get_mr u2 0 = fst (negotiate_features 1 t)"
    by auto
  show ?thesis
    using 1 2 by (simp add: driver_client_main_def assms(1) t transport_new_def negotiate_features_def)
qed

end
