(* ===== verification/Print.thy ===== *)
theory Print
  imports L4_Prelude
begin

text \<open>
  Printing without the standard library: \<open>crates/l4/print.rs\<close>, which hands every byte to \<open>putchar\<close>,
  and \<open>crates/l4/nostd_helper.rs\<close>, which copies each piece of the output into a buffer for \<open>puts\<close>, with
  the panic handler. The formatting of arguments belongs to the language: it passes the pieces of the
  output to \<open>write_str\<close> one after the other and stops at the first error. The C functions are
  parameters; a console is the list of bytes on it.
\<close>

section \<open>Pieces of output\<close>

text \<open>\<open>core::fmt::write\<close> for a writer.\<close>

fun write_fmt :: "(u8 list \<Rightarrow> 's \<Rightarrow> (unit, unit) result \<times> 's) \<Rightarrow> u8 list list \<Rightarrow> 's \<Rightarrow> (unit, unit) result \<times> 's" where
  "write_fmt wr [] st = (Inr (), st)"
| "write_fmt wr (s # ss) st =
     (case wr s st of (Inl e, st) \<Rightarrow> (Inl e, st) | (Inr _, st) \<Rightarrow> write_fmt wr ss st)"

text \<open>\<open>print!\<close>: the unwrap of the result panics on an error. What was printed before stays printed.\<close>

definition print_with :: "(u8 list \<Rightarrow> 's \<Rightarrow> (unit, unit) result \<times> 's) \<Rightarrow> u8 list list \<Rightarrow> 's \<Rightarrow> bool \<times> 's" where
  "print_with wr pieces st = (case write_fmt wr pieces st of (Inl _, st) \<Rightarrow> (False, st) | (Inr _, st) \<Rightarrow> (True, st))"

text \<open>\<open>println!\<close> appends the line end to the literal, hence to the last piece when that is literal text.\<close>

definition line_end :: "u8 list" where
  "line_end = [0x0A]"

section \<open>Byte by byte\<close>

fun putchar_str :: "(u8 \<Rightarrow> 'o \<Rightarrow> 'o) \<Rightarrow> u8 list \<Rightarrow> 'o \<Rightarrow> 'o" where
  "putchar_str putchar [] out = out"
| "putchar_str putchar (b # bs) out = putchar_str putchar bs (putchar b out)"

definition l4fmt_write_str :: "(u8 \<Rightarrow> 'o \<Rightarrow> 'o) \<Rightarrow> u8 list \<Rightarrow> 'o \<Rightarrow> (unit, unit) result \<times> 'o" where
  "l4fmt_write_str putchar s out = (Inr (), putchar_str putchar s out)"

section \<open>Through a buffer\<close>

record 'o printf_state =
  print_buffer :: "u8 list"
  console :: 'o

definition printf_buffer_new :: "u8 list" where
  "printf_buffer_new = replicate 256 0"

text \<open>\<open>puts\<close> gets the bytes in front of the first zero.\<close>

definition c_string :: "u8 list \<Rightarrow> u8 list" where
  "c_string bs = takeWhile (\<lambda>b. b \<noteq> 0) bs"

definition printf_write_str :: "(u8 list \<Rightarrow> 'o \<Rightarrow> 'o) \<Rightarrow> u8 list \<Rightarrow> 'o printf_state \<Rightarrow> (unit, unit) result \<times> 'o printf_state" where
  "printf_write_str puts s st =
     (if 255 \<le> length s then (Inl (), st)
      else let buf = (overwrite (print_buffer st) 0 s)[length s := 0]
           in (Inr (), st\<lparr>print_buffer := buf, console := puts (c_string buf) (console st)\<rparr>))"

text \<open>The panic handler prints its information and a last line, then spins. A panic while it prints
  enters the handler again.\<close>

datatype 'o panic_end = Spinning "'o printf_state" | PanickedAgain "'o printf_state"

definition l4re_panic :: "(u8 list \<Rightarrow> 'o \<Rightarrow> 'o) \<Rightarrow> u8 list list \<Rightarrow> u8 list \<Rightarrow> 'o printf_state \<Rightarrow> 'o panic_end" where
  "l4re_panic puts info last_line st =
     (case print_with (printf_write_str puts) info st of
        (False, st) \<Rightarrow> PanickedAgain st
      | (True, st) \<Rightarrow>
          (case print_with (printf_write_str puts) [last_line @ line_end] st of
             (False, st) \<Rightarrow> PanickedAgain st
           | (True, st) \<Rightarrow> Spinning st))"

section \<open>What is printed\<close>

lemma putchar_str_fold: "putchar_str putchar s out = fold putchar s out"
  by (induction putchar s out rule: putchar_str.induct) simp_all

lemma print_bytes: "print_with (l4fmt_write_str putchar) pieces out = (True, fold putchar (concat pieces) out)"
proof -
  have "write_fmt (l4fmt_write_str putchar) pieces out = (Inr (), fold putchar (concat pieces) out)"
    by (induction pieces arbitrary: out) (simp_all add: l4fmt_write_str_def putchar_str_fold)
  then show ?thesis
    by (simp add: print_with_def)
qed

lemma printf_piece:
  assumes "length (print_buffer st) = 256" and "length s < 255"
  obtains buf where "length buf = 256"
    and "printf_write_str puts s st = (Inr (), st\<lparr>print_buffer := buf, console := puts (c_string s) (console st)\<rparr>)"
proof -
  let ?buf = "(overwrite (print_buffer st) 0 s)[length s := 0]"
  have len: "length ?buf = 256"
    using assms by simp
  have "?buf = s @ 0 # drop (Suc (length s)) (print_buffer st)"
    using assms by (simp add: overwrite_def list_update_append Cons_nth_drop_Suc [symmetric])
  then have "c_string ?buf = c_string s"
    by (auto simp: c_string_def takeWhile_append takeWhile_eq_all_conv [THEN iffD2])
  then show thesis
    using that [OF len] assms(2) by (simp add: printf_write_str_def Let_def)
qed

text \<open>Every piece becomes a line of its own, cut at a zero byte; a piece of 255 bytes or more panics,
  with the pieces in front of it printed.\<close>

lemma printf_output:
  assumes "length (print_buffer st) = 256"
  shows "case print_with (printf_write_str puts) pieces st of (ok, st') \<Rightarrow> length (print_buffer st') = 256 \<and>
    ok = list_all (\<lambda>s. length s < 255) pieces \<and>
    console st' = fold puts (map c_string (takeWhile (\<lambda>s. length s < 255) pieces)) (console st)"
  using assms
proof (induction pieces arbitrary: st)
  case Nil
  then show ?case by (simp add: print_with_def)
next
  case (Cons s pieces)
  show ?case
  proof (cases "length s < 255")
    case True
    obtain buf where b: "length buf = 256"
      "printf_write_str puts s st = (Inr (), st\<lparr>print_buffer := buf, console := puts (c_string s) (console st)\<rparr>)"
      using printf_piece [OF Cons.prems True] .
    show ?thesis
      using Cons.IH [of "st\<lparr>print_buffer := buf, console := puts (c_string s) (console st)\<rparr>"] b True
      by (simp add: print_with_def split: prod.splits sum.splits)
  next
    case False
    then show ?thesis
      using Cons.prems by (simp add: print_with_def printf_write_str_def)
  qed
qed

text \<open>With the documented \<open>puts\<close>, which ends its output with a line end, and text without zero bytes, the
  two implementations print the same only when there is nothing to print.\<close>

lemma puts_breaks_lines:
  assumes "length (print_buffer st) = 256" and "\<forall>s \<in> set pieces. length s < 255 \<and> 0 \<notin> set s"
    and "\<And>s out. puts s out = out @ s @ [0x0A]"
  shows "console (snd (print_with (printf_write_str puts) pieces st)) = console st @ concat (map (\<lambda>s. s @ [0x0A]) pieces)"
proof -
  have "c_string s = s" if "s \<in> set pieces" for s
    using that assms(2) by (auto simp: c_string_def takeWhile_eq_all_conv)
  moreover have "takeWhile (\<lambda>s. length s < 255) pieces = pieces"
    using assms(2) unfolding takeWhile_eq_all_conv by blast
  ultimately have "map c_string (takeWhile (\<lambda>s. length s < 255) pieces) = pieces"
    by (metis map_idI)
  moreover have "fold puts ss out = out @ concat (map (\<lambda>s. s @ [0x0A]) ss)" for ss out
    by (induction ss arbitrary: out) (simp_all add: assms(3))
  ultimately show ?thesis
    using printf_output [OF assms(1), where puts = puts and pieces = pieces] by (auto split: prod.splits)
qed

text \<open>A long panic message panics in the handler.\<close>

lemma panic_in_handler:
  assumes "length (print_buffer st) = 256" and "\<not> list_all (\<lambda>s. length s < 255) info"
  shows "\<exists>st'. l4re_panic puts info last_line st = PanickedAgain st'"
  using printf_output [OF assms(1), where puts = puts and pieces = info] assms(2)
  by (auto simp: l4re_panic_def split: prod.splits bool.splits)

lemma panic_handler_spins:
  assumes "length (print_buffer st) = 256" and "list_all (\<lambda>s. length s < 255) info" and "length last_line < 254"
  shows "\<exists>st'. l4re_panic puts info last_line st = Spinning st'"
proof -
  obtain st1 where 1: "print_with (printf_write_str puts) info st = (True, st1)" "length (print_buffer st1) = 256"
    using printf_output [OF assms(1), where puts = puts and pieces = info] assms(2) by (auto split: prod.splits)
  obtain st2 where "print_with (printf_write_str puts) [last_line @ line_end] st1 = (True, st2)"
    using printf_output [OF 1(2), where puts = puts and pieces = "[last_line @ line_end]"] assms(3) by (auto simp: line_end_def split: prod.splits)
  then show ?thesis
    using 1 by (simp add: l4re_panic_def)
qed

end
