(* ===== verification/Spec2Isabelle.thy ===== *)
theory Spec2Isabelle
  imports Fd_Server Linux_Like Autosar Epoll_Server Aio_Client Fs_Server C_Layout Server_Loop Ipc_Types Syscalls Driver_Server
    Export_Options Driver_Extract Mem_Iface Utcb_Layout Fs_Volume Driver_Client Print
begin

text \<open>
  A verification development of L4ReRust: the Rust side of a Linux-compatible userland on the L4Re
  microkernel. The program is a set of crates (\<open>crates/\<close>: access to the kernel, a typed IPC
  framework, scheduler policies), of services that run as tasks of their own and speak IPC
  (\<open>src/*_server\<close>: descriptors, epoll, asynchronous I/O, files, network, drivers), and of build-time
  tools (the interface compiler \<open>crates/l4_derive\<close>, the catalog of drivers \<open>tools/driver_picker\<close>).

  \<^bold>\<open>How the parts interact.\<close> A client writes operation and arguments into the message registers of
  its UTCB and calls a gate; the kernel copies the registers to the server that waits at the gate;
  the server dispatches on the first register or on the protocol label, works on its state and the
  operating system behind it, and replies through the same registers. The typed framework puts
  serialisation, receive buffers for capabilities, error labels and a server loop on top; the
  hand-written services use the registers directly. The schedulers decide which thread runs and
  tell the kernel. Kernel objects are created by requests to a factory and connected by mapping
  capabilities between tasks.

  \<^bold>\<open>Theories.\<close>

  \<^item> \<open>L4_Prelude\<close>: machine integers, results, checked and wrapping arithmetic, little-endian bytes,
    copies into buffers, UTF-8. \<open>Ipc_Server\<close>: the UTCB, the contract of slab tables (locale \<open>slab\<close>),
    the ledger of descriptors a server owns (locale \<open>desc_os\<close>), the receive, dispatch and reply loop
    (locale \<open>ipc_server\<close>).
  \<^item> The IPC framework. \<open>Msgtag\<close> (\<open>l4-sys/ipc_basic.rs\<close>, \<open>ipc_ext.rs\<close>, \<open>cap.rs\<close>, \<open>l4/ipc/mod.rs\<close>): tags keep
    their fields, flex pages are appended to a message. \<open>L4_Error\<close> (\<open>l4/error.rs\<close>, \<open>types.rs\<close>): error
    and protocol codes. \<open>Utcb_Regs\<close> (\<open>l4/utcb.rs\<close>): typed access to the registers stays inside them.
    \<open>Utcb_Layout\<close> (\<open>l4/utcb.rs\<close>): the registers as areas of one block of memory; sessions with the
    builders on the memory and on the record of registers the other theories use agree.
    \<open>Serialise\<close> (\<open>l4/ipc/serialise.rs\<close>): what is written is what is read, but for \<open>None\<close> and for
    strings that end in a zero byte. \<open>Buffer_Manager\<close> (\<open>l4/ipc/types.rs\<close>): receive slots. \<open>Rpc\<close> (\<open>l4/ipc/server.rs\<close>, \<open>iface.rs\<close> and the code the macros
    generate): a remote call with the default type of opcodes returns what the implementation returns, for
    the values that survive serialisation; errors arrive as errors.
    \<open>Server_Loop\<close> (\<open>l4/ipc/server.rs\<close>): builder, registration and the loop with hooks and providers of
    any kind (locales \<open>persistent_hooks\<close>, \<open>gate_kernel\<close>, \<open>loop_registration\<close>); registration connects
    gates with objects, the loop answers every message and every IPC error whose label is not 0, and with the default hooks it is the loop of
    \<open>Rpc\<close>. \<open>Ipc_Types\<close> (\<open>l4/ipc/types.rs\<close>): arrays and string buffers. \<open>Iface_Gen\<close>
    (\<open>l4_derive/lib.rs\<close>, \<open>iface.rs\<close>, \<open>clntsrv.rs\<close>, \<open>l4/ipc/iface.rs\<close>): from an interface definition to the
    stubs, dispatchers and structures the macros generate; calling a method of an accepted definition
    with the default type of opcodes runs the method. \<open>Mem_Iface\<close> (\<open>l4re/mem.rs\<close>): the dataspace and allocator interfaces as instances.
    \<open>Print\<close> (\<open>l4/print.rs\<close>, \<open>nostd_helper.rs\<close>): printing without a standard library, the panic handler.
  \<^item> Kernel objects. \<open>Factory\<close> (\<open>l4-sys/factory.rs\<close>): a creation request carries the arguments added
    to it. \<open>Task_Api\<close> (\<open>l4-sys/task.rs\<close>, \<open>platform.rs\<close>, \<open>l4/task.rs\<close>, \<open>l4/cap.rs\<close>, \<open>l4re/cap.rs\<close>, \<open>sys.rs\<close>,
    \<open>env.rs\<close>): task creation, capability transfer, lookup of initial capabilities. \<open>Cap_Api\<close> (\<open>l4/cap.rs\<close>,
    \<open>l4re/cap.rs\<close>, \<open>env.rs\<close>, generated clients): the types around selectors do not change them (locales
    \<open>iface_init\<close>, \<open>iface_pair\<close>). \<open>Syscalls\<close> (\<open>l4/ipc/syscall.rs\<close>, \<open>l4-sys\<close> and the C wrappers): what
    reaches the kernel's headers.
  \<^item> Schedulers. \<open>Sched_Queue\<close>: sorted insertion by binary search (locale \<open>key_search\<close>). \<open>Linux_Like\<close>
    (\<open>l4/scheduler/linux_like.rs\<close>): the queue stays sorted, time is charged by weight, tasks that become ready together
    stay within one of their slices of each other. \<open>Autosar\<close>
    (\<open>l4/scheduler/autosar.rs\<close>): reachable states of the step relation, priority inheritance.
  \<^item> Services. \<open>Fd_Server\<close>, \<open>Epoll_Server\<close>, \<open>Aio_Server\<close>: over any sequence of messages the tables and the
    open descriptors agree, and replies are what the handlers promise. \<open>Aio_Client\<close>
    (\<open>crates/l4re-libc/src/aio.c\<close>): the POSIX calls of a process in a session with \<open>Aio_Server\<close> (locale
    \<open>aio_link\<close>). The client puts its arguments into buffer registers, which an IPC does not carry: no
    request of a session starts an operation, every one is reported as failed, and list requests end.
    \<open>Driver_Waits\<close>: the thread of a service and the waits of the virtio drivers on it (locale
    \<open>server_thread\<close>); each takes in a client request, whose words overwrite the registers. \<open>Virtio\<close>:
    the disk stream over the sector driver is a byte store, on a device that reads the descriptors as
    the driver writes them (locales \<open>blk_store\<close>, \<open>blk_disk\<close>) and not as the virtio specification has
    it; every sector transfer costs one wait. \<open>Fs_Server\<close>, \<open>Net_Server\<close>: file and network service
    (locale \<open>fat_service\<close>) on the registers of their thread. \<open>Fs_Volume\<close>: the file service on its
    disk, with the file system layer as any program on the stream (locales \<open>stream_sim\<close>, \<open>fat_sim\<close>,
    \<open>thread_waits\<close>, \<open>paced_stream\<close>, \<open>fs_on_disk\<close>). The file service behaves as over an array of bytes
    that waits as often; in both services a request that takes transfers or frames is answered to a
    later caller, or never. \<open>C_Layout\<close> (\<open>l4re-libc/src/lib.rs\<close>, the virtio structures): the layout
    of the structures shared with C and with devices. \<open>Driver_Server\<close>: driver service, virtio front
    end, module entry points. \<open>Driver_Client\<close>: the example client in a session with it.
  \<^item> Build-time tools. \<open>Iface_Compiler\<close> (\<open>l4_derive/iface.rs\<close>, \<open>clntsrv.rs\<close>): accepted interfaces are
    well-formed. \<open>Cpp_Export\<close> (\<open>l4_derive/export.rs\<close>): generated signatures equal a reference printer.
    \<open>Export_Options\<close> (\<open>export.rs\<close>, \<open>lib.rs\<close>): the options of an export are read as they are written, and
    the macro with its files. \<open>Driver_Picker\<close>: the catalog is sorted and complete. \<open>Driver_Extract\<close>: the
    file operations of the same tool, on paths with their \<open>..\<close> components resolved; a driver is mirrored into a
    workspace, and a header without such components stays inside it.

  \<^bold>\<open>State and operations.\<close> A server's state is the record or tuple of its tables; a handler is a
  function from registers, tables and the state of the world behind the server to the same, with
  every early return of the source as a branch. The registers are \<open>utcb\<close>, arrays of 64-bit words;
  byte views of them are little-endian. Schedulers are records with the calls made to the kernel in
  order. Strings are byte lists where they cross the IPC border and character lists in the tools.

  \<^bold>\<open>Failures.\<close> \<open>Inl\<close> is an error value of the source. A panic is \<open>None\<close>, or \<open>Panics\<close> of the type
  \<open>outcome\<close> where raw pointers are involved as well; \<open>Overruns\<close> is an access outside the memory
  behind such a pointer. The flag \<open>oc\<close> tells whether the build checks arithmetic overflow: theorems
  hold for both profiles unless they mention one. In the services on virtio drivers \<open>None\<close> is also a wait that
  never ends.

  \<^bold>\<open>What is outside.\<close> Code that is not part of the repository is a parameter: the constants of the
  C headers (records \<open>abi\<close>, \<open>kobj_abi\<close>, \<open>task_abi\<close>, error codes), the kernel (IPC transfer in the
  locale \<open>ipc_kernel\<close>, waits of a thread in \<open>server_thread\<close>, calls as functions on registers and an arbitrary state), the C library, the
  slab, fatfs and protocol-stack crates, virtio devices, the syn and regex crates. What is relied on
  is stated in \<open>_ok\<close> predicates and locales; every locale is interpreted, and every hypothesis met by
  a concrete instance in the witnesses.

  \<^bold>\<open>Termination and bounds.\<close> All definitions are total. Loops over registers, sectors and types are
  recursive with a measure (remaining bytes, remaining demand, size of the type); service loops run
  over the finite sequence of messages received so far, or, where the kernel hands the messages out, for
  a number of rounds, so properties of runs hold at every point of an endless loop. No fuel is used; the
  one busy wait, in \<open>lio_listio\<close>, is a partial function in the option monad and shown to end.

  \<^bold>\<open>Not modelled.\<close> Generated bindings, C type aliases, build scripts and unit tests, which hold no
  logic of their own. The C files of \<open>l4re-libc\<close> other than \<open>aio.c\<close> only enter the system call of their
  name. The macros of \<open>l4/ipc/iface.rs\<close> before \<open>derive_ipc_calls\<close> name types that exist nowhere and are not
  used. Token streams are the syntax trees they print; the messages of the macros and
  tools are constructors. Of the network service the protocol stack is a parameter that works on
  the device through the tokens the service gives it; of \<open>driver_picker\<close> the walks over directories, the
  subprocesses, the menus and the printers are. Exit handlers of wrapped modules are opaque.
  \<open>SchedulerKind::create\<close> does not type-check and has no model. Weak memory does not arise: every
  component runs in one thread, and of the C client one thread is modelled, without its lock.
\<close>

end
